(* ===== verification/Prelude.thy ===== *)
theory Prelude
  imports Main "HOL-Library.Word" "HOL-Library.AList" "HOL-Library.List_Lexorder"
begin

text \<open>
  The value model the whole development shares.

  \<^item> A JavaScript string is its list of UTF-16 code units (\<open>jstring\<close>); a string literal of the
    source is written \<open>js ''text''\<close>. The order \<open><\<close> of two strings is the order of their code unit
    lists (List\_Lexorder), as in JavaScript.
  \<^item> A byte array (\<open>Uint8Array\<close>) is a list of 8-bit words.
  \<^item> A JavaScript value that the code treats as JSON (its types \<open>Json\<close>, \<open>JcsValue\<close> and
    \<open>unknown\<close>) is a \<open>json\<close>; an object is the list of its own enumerable members in insertion order.
  \<^item> Reading a member and the operator \<open>in\<close> also see the members inherited from
    \<open>Object.prototype\<close> (\<open>js_get\<close>, \<open>js_has\<close>); a plain assignment to the key \<open>__proto__\<close> creates no own
    member (\<open>js_assign\<close>), while an object literal with a computed key does (\<open>AList.update\<close>). An object or \<open>null\<close> assigned to
    \<open>__proto__\<close> also becomes the prototype; that is not modelled. Serialising and hashing list own keys only and do not see it; a CAL
    or an expression that is parsed from a text with such a member, and then read with \<open>in\<close>, is outside the model.
  \<^item> A thrown exception is the left side of a sum; \<open>and_then\<close> sequences computations that may throw.

  The last part holds the lemmas on these that the component theories use.
\<close>

section \<open>Strings and bytes\<close>

type_synonym jstring = "16 word list"
type_synonym bytes = "8 word list"

definition js :: "string \<Rightarrow> jstring" where
  "js s = map (\<lambda>c. word_of_nat (of_char c)) s"

lemma of_char_less: "(of_char c :: nat) < 256"
  using horner_sum_of_bool_2_less [where bs = "[digit0 c, digit1 c, digit2 c, digit3 c, digit4 c, digit5 c, digit6 c, digit7 c]"]
  by (simp add: of_char_def)

lemma code_unit_inject [simp]:
  "(word_of_nat (of_char c) :: 16 word) = word_of_nat (of_char d) \<longleftrightarrow> c = d"
proof
  have less: "(of_char x :: nat) < 2 ^ LENGTH(16)" for x
    using of_char_less [of x] by (simp only: len_num1 len_bit0) (rule less_trans, assumption, simp)
  assume "(word_of_nat (of_char c) :: 16 word) = word_of_nat (of_char d)"
  then have "(of_char c :: nat) = of_char d"
    using less by (metis of_nat_inverse)
  then show "c = d" by simp
qed simp

lemma js_inject [simp]: "js s = js t \<longleftrightarrow> s = t"
proof
  assume "js s = js t"
  moreover have "inj (\<lambda>c. word_of_nat (of_char c) :: 16 word)"
    by (rule injI) simp
  ultimately show "s = t"
    unfolding js_def by (simp add: inj_map_eq_map)
qed simp

lemma js_eq_Nil [simp]: "js s = [] \<longleftrightarrow> s = []" "[] = js s \<longleftrightarrow> s = []"
  by (auto simp: js_def)

lemma js_append [simp]: "js s @ js t = js (s @ t)"
  by (simp add: js_def)

lemma length_js [simp]: "length (js s) = length s"
  by (simp add: js_def)

section \<open>Thrown errors\<close>

text \<open>The error classes of the packages, each with the code it carries.\<close>

datatype canon_error = NoncanonicalEventError string | CanonicalEncodingError string

datatype phase = PARSE_ERROR | VALIDATION_ERROR | ERROR

datatype dsl_error = DslError phase string

datatype cal_error = CalError string "jstring option"

datatype apply_error_code =
    DUPLICATE_CAL | AGENT_BUSY | UNKNOWN_CAL | BAD_STAGE | INSUFFICIENT_BALANCE | UNDERFLOW
  | OVERFLOW | UNKNOWN_EVENT | BAD_DELTA | BAD_TICK | BAD_OWNER_RECORD

text \<open>
  \<open>TypeError\<close> stands for the exceptions the language itself raises. \<open>OutOfFuel\<close> is the bound of a recursive
  parser of the model: it is shown not to occur for the fuel the entry points give.
\<close>

datatype exn =
    Canon canon_error
  | Dsl dsl_error
  | Cal cal_error
  | Apply apply_error_code
  | Orchestrator string
  | TypeError
  | OutOfFuel

type_synonym 'a res = "exn + 'a"

definition throw :: "exn \<Rightarrow> 'a res" where
  "throw e = Inl e"

fun and_then :: "'e + 'a \<Rightarrow> ('a \<Rightarrow> 'e + 'b) \<Rightarrow> 'e + 'b" where
  "and_then (Inl e) f = Inl e"
| "and_then (Inr x) f = f x"

lemma and_then_cong [fundef_cong]:
  "m = m' \<Longrightarrow> (\<And>x. m' = Inr x \<Longrightarrow> f x = g x) \<Longrightarrow> and_then m f = and_then m' g"
  by (cases m') auto

text \<open>For evaluation: the computation comes before its continuation.\<close>

lemma and_then_weak_cong: "m = m' \<Longrightarrow> and_then m f = and_then m' f"
  by simp

lemma and_then_Inr [simp]: "and_then m f = Inr y \<longleftrightarrow> (\<exists>x. m = Inr x \<and> f x = Inr y)"
  by (cases m) auto

lemma and_then_Inl:
  "and_then m f = Inl e \<longleftrightarrow> m = Inl e \<or> (\<exists>x. m = Inr x \<and> f x = Inl e)"
  by (cases m) auto

lemma and_then_assoc: "and_then (and_then m f) g = and_then m (\<lambda>x. and_then (f x) g)"
  by (cases m) auto

text \<open>A loop that stops at the first exception.\<close>

fun map_res :: "('a \<Rightarrow> 'e + 'b) \<Rightarrow> 'a list \<Rightarrow> 'e + 'b list" where
  "map_res f [] = Inr []"
| "map_res f (x # xs) = and_then (f x) (\<lambda>y. and_then (map_res f xs) (\<lambda>ys. Inr (y # ys)))"

lemma map_res_cong [fundef_cong]:
  "xs = ys \<Longrightarrow> (\<And>x. x \<in> set ys \<Longrightarrow> f x = g x) \<Longrightarrow> map_res f xs = map_res g ys"
proof (induction ys arbitrary: xs)
  case Nil
  then show ?case by simp
next
  case (Cons y ys)
  then have "map_res f ys = map_res g ys" by simp
  with Cons.prems show ?case by simp
qed

lemma map_res_Inr:
  "map_res f xs = Inr ys \<longleftrightarrow> list_all2 (\<lambda>x y. f x = Inr y) xs ys"
  by (induction xs arbitrary: ys) (auto simp: list_all2_Cons1)

lemma map_res_total:
  "(\<And>x. x \<in> set xs \<Longrightarrow> f x = Inr (g x)) \<Longrightarrow> map_res f xs = Inr (map g xs)"
  by (induction xs) auto

section \<open>The contract of a fold that stops at the first error\<close>

text \<open>
  The protocol is a left fold in several places (the deltas of a CAL, the events of a log, the ticks of
  a transcript). What determinism, replay and recovery rest on is proved once, from the two equations
  of the fold.
\<close>

locale run_fold =
  fixes step :: "'s \<Rightarrow> 'e \<Rightarrow> 'x + 's"
    and run :: "'e list \<Rightarrow> 's \<Rightarrow> 'x + 's"
  assumes run_Nil: "run [] s = Inr s"
    and run_Cons: "run (e # es) s = and_then (step s e) (run es)"
begin

lemma run_append: "run (xs @ ys) s = and_then (run xs s) (run ys)"
proof (induction xs arbitrary: s)
  case Nil
  then show ?case by (simp add: run_Nil)
next
  case (Cons x xs)
  then have "run (xs @ ys) = (\<lambda>s. and_then (run xs s) (run ys))" by blast
  then show ?case by (simp add: run_Cons and_then_assoc)
qed

lemma run_prefix: "run (xs @ ys) s = Inr s' \<Longrightarrow> \<exists>s1. run xs s = Inr s1 \<and> run ys s1 = Inr s'"
  by (auto simp: run_append)

lemma run_snoc: "run (xs @ [x]) s = and_then (run xs s) (\<lambda>s'. step s' x)"
proof -
  have "run [x] = (\<lambda>s'. step s' x)"
  proof
    fix s'
    show "run [x] s' = step s' x" by (cases "step s' x") (simp_all add: run_Cons run_Nil)
  qed
  then show ?thesis by (simp add: run_append)
qed

lemma run_invariant:
  assumes "\<And>s e s'. I s \<Longrightarrow> P e \<Longrightarrow> step s e = Inr s' \<Longrightarrow> I s'"
    and "I s" "run es s = Inr s'" "list_all P es"
  shows "I s'"
  using assms(2-4)
proof (induction es arbitrary: s)
  case Nil
  then show ?case by (simp add: run_Nil)
next
  case (Cons e es)
  then obtain s1 where "step s e = Inr s1" "run es s1 = Inr s'" by (auto simp: run_Cons)
  with Cons assms(1) [of s e s1] show ?case by simp
qed

lemma run_error:
  "run es s = Inl x \<longleftrightarrow>
    (\<exists>pre e post s1. es = pre @ e # post \<and> run pre s = Inr s1 \<and> step s1 e = Inl x)"
proof (induction es arbitrary: s)
  case Nil
  then show ?case by (simp add: run_Nil)
next
  case (Cons e es)
  show ?case
  proof (cases "step s e")
    case (Inl y)
    have "\<exists>pre a post s1. e # es = pre @ a # post \<and> run pre s = Inr s1 \<and> step s1 a = Inl x" if "y = x"
      using Inl that by (intro exI [of _ "[]"]) (simp add: run_Nil)
    moreover have "y = x" if "e # es = pre @ a # post" "run pre s = Inr s1" "step s1 a = Inl x"
      for pre a post s1
      using that Inl by (cases pre) (auto simp: run_Cons run_Nil)
    ultimately show ?thesis using Inl by (auto simp: run_Cons)
  next
    case (Inr s2)
    have "(\<exists>pre a post s1. e # es = pre @ a # post \<and> run pre s = Inr s1 \<and> step s1 a = Inl x) \<longleftrightarrow>
        (\<exists>pre a post s1. es = pre @ a # post \<and> run pre s2 = Inr s1 \<and> step s1 a = Inl x)"
      (is "?L \<longleftrightarrow> ?R")
    proof
      assume ?L
      then obtain pre a post s1 where "e # es = pre @ a # post" "run pre s = Inr s1" "step s1 a = Inl x"
        by blast
      with Inr show ?R by (cases pre) (auto simp: run_Cons run_Nil)
    next
      assume ?R
      then obtain pre a post s1 where "es = pre @ a # post" "run pre s2 = Inr s1" "step s1 a = Inl x"
        by blast
      with Inr show ?L by (intro exI [of _ "e # pre"]) (auto simp: run_Cons)
    qed
    with Cons.IH [of s2] Inr show ?thesis by (simp add: run_Cons)
  qed
qed

end

section \<open>JavaScript values\<close>

text \<open>
  A \<open>number\<close> (as opposed to a \<open>bigint\<close>) reaches this code only where a caller passes one; of it the
  code asks whether it is finite, an integer and minus zero.
\<close>

datatype jsnum = NInt int | NNegZero | NFractional | NNonFinite

text \<open>
  \<open>JFun\<close> is a value whose \<open>typeof\<close> is none of the JSON ones: the functions inherited from
  \<open>Object.prototype\<close>.
\<close>

datatype json =
    JNull
  | JBool bool
  | JInt int
  | JNum jsnum
  | JStr jstring
  | JArr "json list"
  | JObj "(jstring \<times> json) list"
  | JFun

type_synonym obj = "(jstring \<times> json) list"

definition proto_keys :: "jstring list" where
  "proto_keys = map js [''constructor'', ''__defineGetter__'', ''__defineSetter__'',
     ''hasOwnProperty'', ''__lookupGetter__'', ''__lookupSetter__'', ''isPrototypeOf'',
     ''propertyIsEnumerable'', ''toString'', ''valueOf'', ''__proto__'', ''toLocaleString'']"

definition js_get :: "jstring \<Rightarrow> obj \<Rightarrow> json option" where
  "js_get k ob =
     (case map_of ob k of
        Some v \<Rightarrow> Some v
      | None \<Rightarrow> if k = js ''__proto__'' then Some (JObj [])
               else if k \<in> set proto_keys then Some JFun else None)"

definition js_has :: "jstring \<Rightarrow> obj \<Rightarrow> bool" where
  "js_has k ob \<longleftrightarrow> k \<in> fst ` set ob \<or> k \<in> set proto_keys"

definition js_assign :: "jstring \<Rightarrow> json \<Rightarrow> obj \<Rightarrow> obj" where
  "js_assign k v ob = (if k = js ''__proto__'' then ob else AList.update k v ob)"

text \<open>Objects have one member per key, in every nested object too.\<close>

fun wf_json :: "json \<Rightarrow> bool" where
  "wf_json (JArr xs) \<longleftrightarrow> (\<forall>x \<in> set xs. wf_json x)"
| "wf_json (JObj ob) \<longleftrightarrow> distinct (map fst ob) \<and> (\<forall>kv \<in> set ob. wf_json (snd kv))"
| "wf_json _ \<longleftrightarrow> True"

section \<open>Lemmas on objects\<close>

named_theorems obj_simps \<open>reading a member of an updated object\<close>

lemma js_get_update_same [simp]: "js_get k (AList.update k v ob) = Some v"
  by (simp add: js_get_def update_conv')

lemma js_get_update_other [obj_simps]:
  "k \<noteq> k' \<Longrightarrow> js_get k (AList.update k' v ob) = js_get k ob"
  by (simp add: js_get_def update_conv')

lemma js_get_update:
  "js_get k (AList.update k' v ob) = (if k = k' then Some v else js_get k ob)"
  by (simp add: obj_simps)

lemma js_get_delete_other [obj_simps]:
  "k \<noteq> k' \<Longrightarrow> js_get k (AList.delete k' ob) = js_get k ob"
  by (simp add: js_get_def delete_conv')

lemma js_get_delete_same:
  "k \<notin> set proto_keys \<Longrightarrow> js_get k (AList.delete k ob) = None"
  by (auto simp: js_get_def delete_conv' proto_keys_def)

lemma js_has_iff: "js_has k ob \<longleftrightarrow> js_get k ob \<noteq> None"
proof -
  have "map_of ob k = None \<longleftrightarrow> k \<notin> fst ` set ob"
    by (simp add: map_of_eq_None_iff)
  moreover have "js ''__proto__'' \<in> set proto_keys"
    by (simp add: proto_keys_def)
  ultimately show ?thesis
    by (auto simp: js_has_def js_get_def split: option.splits)
qed

lemma js_get_own: "map_of ob k = Some v \<Longrightarrow> js_get k ob = Some v"
  by (simp add: js_get_def)

lemma js_get_plain: "k \<notin> set proto_keys \<Longrightarrow> js_get k ob = map_of ob k"
  by (auto simp: js_get_def proto_keys_def split: option.splits)

lemma js_get_JInt [simp]: "js_get k ob = Some (JInt n) \<longleftrightarrow> map_of ob k = Some (JInt n)"
  by (auto simp: js_get_def split: option.splits)

lemma wf_json_update:
  assumes "wf_json (JObj ob)" and "wf_json v"
  shows "wf_json (JObj (AList.update k v ob))"
proof -
  have "distinct (map fst (AList.update k v ob))"
    using assms(1) by (simp add: distinct_update)
  moreover have "wf_json (snd kv)" if "kv \<in> set (AList.update k v ob)" for kv
    using that assms
    by (induction ob) (auto split: if_splits)
  ultimately show ?thesis by simp
qed

lemma wf_json_delete:
  assumes "wf_json (JObj ob)"
  shows "wf_json (JObj (AList.delete k ob))"
proof -
  have "set (AList.delete k ob) \<subseteq> set ob"
    by (auto simp: AList.delete_eq)
  with assms show ?thesis
    by (auto simp: distinct_delete)
qed

lemma wf_json_member: "wf_json (JObj ob) \<Longrightarrow> js_get k ob = Some v \<Longrightarrow> wf_json v"
  by (auto simp: js_get_def dest!: map_of_SomeD split: option.splits if_splits)

end
