(* ===== verification/Reducer_State.thy ===== *)
theory Reducer_State
  imports Prelude
begin

text \<open>
  \<^verbatim>\<open>cal-reducer/src/state.ts\<close>: the protocol state, its genesis value and the path operations
  \<open>getIn\<close>, \<open>setIn\<close> and \<open>deleteIn\<close> (the STATE\_ROOT is in the theory State\_Root). The section on views
  reads one nested object of the state as its member list, and says how each path operation changes
  every view; the locale \<open>member_store\<close> is the contract of a store of members under two keys.
\<close>

section \<open>State and paths\<close>

definition NAMESPACES :: "jstring list" where
  "NAMESPACES = map js [''cal'', ''failure_mode'', ''governance'', ''oracles'', ''ptra'',
     ''registry'', ''tick'', ''treasury'']"

definition genesis :: json where
  "genesis = JObj
    [(js ''cal'', JObj [(js ''in_flight'', JObj []), (js ''nonces'', JObj [])]),
     (js ''failure_mode'', JObj [(js ''is_bounded_mode'', JBool False),
        (js ''capture_guard_counters'', JObj [])]),
     (js ''governance'', JObj [(js ''gas_price_nano_ptra_per_unit'', JInt 1000),
        (js ''genesis_validator_set'', JArr []), (js ''params'', JObj [])]),
     (js ''oracles'', JObj [(js ''feeds'', JObj [])]),
     (js ''ptra'', JObj [(js ''balances'', JObj [])]),
     (js ''registry'', JObj [(js ''agents'', JObj []),
        (js ''mcp_schema_hash'', JStr (js (''0x'' @ replicate 64 CHR ''0'')))]),
     (js ''tick'', JObj [(js ''current'', JInt 0)]),
     (js ''treasury'', JObj [(js ''nav'', JInt 0), (js ''developer_fund_balance'', JInt 0),
        (js ''collected_fees_window'', JInt 0)])]"

text \<open>\<open>None\<close> is \<open>undefined\<close>.\<close>

fun getIn :: "json option \<Rightarrow> jstring list \<Rightarrow> json option" where
  "getIn cur [] = cur"
| "getIn cur (seg # rest) =
     (case cur of
        Some (JObj ob) \<Rightarrow> if js_has seg ob then getIn (js_get seg ob) rest else None
      | _ \<Rightarrow> None)"

fun plain_members :: "json option \<Rightarrow> obj" where
  "plain_members (Some (JObj ob)) = ob"
| "plain_members _ = []"

fun setIn :: "json option \<Rightarrow> jstring list \<Rightarrow> json \<Rightarrow> json" where
  "setIn ob [] v = v"
| "setIn ob (head # rest) v =
     (let base = plain_members ob
      in JObj (AList.update head (setIn (js_get head base) rest v) base))"

text \<open>The callers pass a non-empty path.\<close>

fun deleteIn :: "json option \<Rightarrow> jstring list \<Rightarrow> json" where
  "deleteIn (Some (JObj ob)) [k] = JObj (AList.delete k ob)"
| "deleteIn (Some (JObj ob)) (head # rest) =
     (if js_has head ob then JObj (AList.update head (deleteIn (js_get head ob) rest) ob)
      else JObj ob)"
| "deleteIn (Some (JObj ob)) [] = JObj ob"
| "deleteIn None path = JObj []"
| "deleteIn (Some JNull) path = JObj []"
| "deleteIn (Some v) path = v"

section \<open>Laws of the path operations\<close>

lemma js_proto_keys [simp]:
  "js s \<in> set proto_keys \<longleftrightarrow>
     s \<in> {''constructor'', ''__defineGetter__'', ''__defineSetter__'', ''hasOwnProperty'',
       ''__lookupGetter__'', ''__lookupSetter__'', ''isPrototypeOf'', ''propertyIsEnumerable'',
       ''toString'', ''valueOf'', ''__proto__'', ''toLocaleString''}"
  by (simp add: proto_keys_def)

lemma getIn_Cons:
  "getIn cur (seg # rest) =
     (case cur of Some (JObj ob) \<Rightarrow> getIn (js_get seg ob) rest | _ \<Rightarrow> None)"
proof (cases "\<exists>ob. cur = Some (JObj ob)")
  case True
  then obtain ob where cur: "cur = Some (JObj ob)" by blast
  have "getIn None rest = None" by (cases rest) auto
  with cur show ?thesis by (auto simp: js_has_iff)
next
  case False
  then show ?thesis by (auto split: option.splits json.splits)
qed

declare getIn.simps(2) [simp del]
declare setIn.simps(2) [simp del]

lemma getIn_None [simp]: "getIn None p = None"
  by (cases p) (auto simp: getIn_Cons)

lemma getIn_append: "getIn cur (p @ q) = getIn (getIn cur p) q"
proof (induction p arbitrary: cur)
  case Nil
  then show ?case by simp
next
  case (Cons k p)
  then show ?case by (auto simp: getIn_Cons split: option.splits json.splits)
qed

lemma getIn_setIn_append [simp]: "getIn (Some (setIn ob p v)) (p @ q) = getIn (Some v) q"
  by (induction p arbitrary: ob) (auto simp: getIn_Cons setIn.simps(2) Let_def)

lemma getIn_setIn_same [simp]: "getIn (Some (setIn ob p v)) p = Some v"
  using getIn_setIn_append [of ob p v "[]"] by (simp del: getIn_setIn_append)

lemma getIn_setIn_other:
  assumes "getIn ob p = Some (JObj base)" and "h \<noteq> k"
  shows "getIn (Some (setIn ob (p @ h # r) v)) (p @ k # r') = getIn ob (p @ k # r')"
  using assms(1)
proof (induction p arbitrary: ob)
  case Nil
  with assms(2) show ?case by (simp add: getIn_Cons setIn.simps(2) Let_def js_get_update)
next
  case (Cons a p)
  then obtain ob' where "ob = Some (JObj ob')"
    by (auto simp: getIn_Cons split: option.splits json.splits)
  with Cons show ?case by (simp add: getIn_Cons setIn.simps(2) Let_def)
qed

section \<open>Views: the members of a nested object\<close>

text \<open>
  \<open>ob2 a b s\<close> is the member list of \<open>s.a.b\<close> (empty where that is not an object), \<open>val2 a b s\<close> the
  value of \<open>s.a.b\<close>. The keys are literals of the code, never names of \<open>Object.prototype\<close> members.
\<close>

definition ob2 :: "string \<Rightarrow> string \<Rightarrow> json \<Rightarrow> obj" where
  "ob2 a b s = plain_members (getIn (Some s) [js a, js b])"

definition val2 :: "string \<Rightarrow> string \<Rightarrow> json \<Rightarrow> json option" where
  "val2 a b s = getIn (Some s) [js a, js b]"

definition lit_key :: "string \<Rightarrow> bool" where
  "lit_key a \<longleftrightarrow> js a \<notin> set proto_keys"

named_theorems view_simps \<open>a view of the state after a path operation\<close>

lemma plain_members_cases:
  "plain_members x = (case x of Some (JObj ob) \<Rightarrow> ob | _ \<Rightarrow> [])"
  by (cases x rule: plain_members.cases) auto

lemma getIn_plain:
  "lit_key a \<Longrightarrow> getIn (Some s) (js a # p) = getIn (map_of (plain_members (Some s)) (js a)) p"
  by (cases s) (auto simp: getIn_Cons lit_key_def js_get_plain)

lemma js_get_lit: "lit_key a \<Longrightarrow> js_get (js a) ob = map_of ob (js a)"
  by (simp add: lit_key_def js_get_plain)

lemma ob2_eq:
  "lit_key a \<Longrightarrow> lit_key b \<Longrightarrow>
   ob2 a b s = plain_members (map_of (plain_members (map_of (plain_members (Some s)) (js a))) (js b))"
  by (cases "map_of (plain_members (Some s)) (js a)")
     (auto simp: ob2_def getIn_plain)

lemma val2_eq:
  "lit_key a \<Longrightarrow> lit_key b \<Longrightarrow>
   val2 a b s = map_of (plain_members (map_of (plain_members (Some s)) (js a))) (js b)"
  by (cases "map_of (plain_members (Some s)) (js a)")
     (auto simp: val2_def getIn_plain)

lemma ob2_val2: "lit_key a \<Longrightarrow> lit_key b \<Longrightarrow> ob2 a b s = plain_members (val2 a b s)"
  by (simp add: ob2_eq val2_eq)

lemma getIn_member: "getIn (Some s) [js a, js b, k] = js_get k (ob2 a b s) \<or>
    (getIn (Some s) [js a, js b, k] = None \<and> ob2 a b s = [])"
  by (auto simp: ob2_def getIn_Cons split: option.splits json.splits)

lemma getIn_member_plain:
  "k \<notin> set proto_keys \<Longrightarrow> getIn (Some s) [js a, js b, k] = map_of (ob2 a b s) k"
  using getIn_member [of s a b k] by (auto simp: js_get_plain)

lemma getIn_member_own:
  "map_of (ob2 a b s) k = Some v \<Longrightarrow> getIn (Some s) [js a, js b, k] = Some v"
  using getIn_member [of s a b k] by (auto simp: js_get_own)

lemma plain_setIn: "plain_members (Some (setIn ob (k # p) v)) =
    AList.update k (setIn (js_get k (plain_members ob)) p v) (plain_members ob)"
  by (simp add: setIn.simps(2) Let_def)

lemma map_of_update [simp]: "map_of (AList.update k v al) k' = (if k' = k then Some v else map_of al k')"
  by (simp add: update_conv')

lemma val2_setIn_other [view_simps]:
  assumes "lit_key a" "lit_key b" "(a, b) \<noteq> (c, d)"
  shows "val2 a b (setIn (Some s) (js c # js d # p) v) = val2 a b s"
proof (cases "a = c")
  case True
  with assms(3) have "b \<noteq> d" by simp
  with True assms(1,2) show ?thesis
    by (simp add: val2_eq plain_setIn js_get_lit)
next
  case False
  with assms(1,2) show ?thesis
    by (simp add: val2_eq plain_setIn)
qed

lemma ob2_setIn_other [view_simps]:
  assumes "lit_key a" "lit_key b" "(a, b) \<noteq> (c, d)"
  shows "ob2 a b (setIn (Some s) (js c # js d # p) v) = ob2 a b s"
  using val2_setIn_other [OF assms] assms by (simp add: ob2_val2)

lemma val2_setIn_same [view_simps]:
  "lit_key a \<Longrightarrow> lit_key b \<Longrightarrow> val2 a b (setIn (Some s) [js a, js b] v) = Some v"
  by (simp add: val2_def)

lemma ob2_setIn_same [view_simps]:
  "lit_key a \<Longrightarrow> lit_key b \<Longrightarrow>
   ob2 a b (setIn (Some s) (js a # js b # k # p) v) =
     AList.update k (setIn (js_get k (ob2 a b s)) p v) (ob2 a b s)"
  by (simp add: ob2_eq plain_setIn js_get_lit)

lemma plain_deleteIn:
  "p \<noteq> [] \<Longrightarrow> plain_members (Some (deleteIn ob (k # p))) =
     (if js_has k (plain_members ob) \<and> (\<exists>m. ob = Some (JObj m))
      then AList.update k (deleteIn (js_get k (plain_members ob)) p) (plain_members ob)
      else plain_members ob)"
  by (cases "(ob, k # p)" rule: deleteIn.cases) auto

lemma plain_deleteIn_last: "plain_members (Some (deleteIn ob [k])) = AList.delete k (plain_members ob)"
  by (cases "(ob, [k])" rule: deleteIn.cases) auto

lemma js_has_lit: "lit_key a \<Longrightarrow> js_has (js a) ob \<longleftrightarrow> map_of ob (js a) \<noteq> None"
  by (simp add: js_has_iff js_get_lit)

lemma plain_members_not: "\<nexists>m. ob = Some (JObj m) \<Longrightarrow> plain_members ob = []"
  by (cases ob rule: plain_members.cases) auto

lemma plain_deleteIn_lit:
  assumes "lit_key b" and "p \<noteq> []"
  shows "plain_members (map_of (plain_members (Some (deleteIn ob (js b # p)))) (js b)) =
    plain_members (if map_of (plain_members ob) (js b) = None then None
      else Some (deleteIn (map_of (plain_members ob) (js b)) p))"
proof (cases "\<exists>m. ob = Some (JObj m)")
  case True
  with assms show ?thesis by (auto simp: plain_deleteIn js_has_lit js_get_lit)
next
  case False
  with assms show ?thesis by (simp add: plain_deleteIn plain_members_not)
qed

lemma ob2_deleteIn_same [view_simps]:
  assumes "lit_key a" "lit_key b"
  shows "ob2 a b (deleteIn (Some s) [js a, js b, k]) = AList.delete k (ob2 a b s)"
proof (cases "map_of (plain_members (Some s)) (js a)")
  case None
  with assms show ?thesis
    by (cases "\<exists>m. Some s = Some (JObj m)")
       (auto simp: ob2_eq plain_deleteIn js_has_lit plain_members_not)
next
  case (Some x)
  then obtain m where "s = JObj m"
    using plain_members_not [of "Some s"] by force
  with Some assms have "ob2 a b (deleteIn (Some s) [js a, js b, k]) =
      plain_members (map_of (plain_members (Some (deleteIn (Some x) [js b, k]))) (js b))"
    by (simp add: ob2_eq plain_deleteIn js_has_lit js_get_lit)
  with Some assms show ?thesis
    by (auto simp: plain_deleteIn_lit plain_deleteIn_last ob2_eq)
qed

lemma val2_deleteIn_other [view_simps]:
  assumes "lit_key a" "lit_key b" "(a, b) \<noteq> (c, d)" "lit_key c"
  shows "val2 a b (deleteIn (Some s) [js c, js d, k]) = val2 a b s"
proof (cases "a = c")
  case True
  with assms(3) have "b \<noteq> d" by simp
  with True assms show ?thesis
    by (auto simp: val2_eq plain_deleteIn js_get_lit js_has_lit)
next
  case False
  with assms show ?thesis
    by (simp add: val2_eq plain_deleteIn)
qed

lemma ob2_deleteIn_other [view_simps]:
  assumes "lit_key a" "lit_key b" "(a, b) \<noteq> (c, d)" "lit_key c"
  shows "ob2 a b (deleteIn (Some s) [js c, js d, k]) = ob2 a b s"
  using val2_deleteIn_other [OF assms] assms by (simp add: ob2_val2)

lemma lit_keys [simp]:
  "lit_key ''cal''" "lit_key ''in_flight''" "lit_key ''nonces''" "lit_key ''ptra''"
  "lit_key ''balances''" "lit_key ''treasury''" "lit_key ''collected_fees_window''"
  "lit_key ''tick''" "lit_key ''current''" "lit_key ''failure_mode''"
  "lit_key ''is_bounded_mode''" "lit_key ''capture_guard_counters''" "lit_key ''governance''"
  "lit_key ''params''" "lit_key ''oracles''" "lit_key ''feeds''" "lit_key ''registry''"
  "lit_key ''agents''" "lit_key ''mcp_schema_hash''" "lit_key ''gas_price_nano_ptra_per_unit''"
  by (simp_all add: lit_key_def)

section \<open>Well-formed states\<close>

lemma wf_setIn:
  assumes "\<And>x. ob = Some x \<Longrightarrow> wf_json x" and "wf_json v"
  shows "wf_json (setIn ob p v)"
  using assms(1)
proof (induction p arbitrary: ob)
  case Nil
  then show ?case using assms(2) by simp
next
  case (Cons k p)
  have m: "wf_json (JObj (plain_members ob))"
    using Cons.prems by (cases ob rule: plain_members.cases) auto
  then have "wf_json (setIn (js_get k (plain_members ob)) p v)"
    by (intro Cons.IH) (rule wf_json_member [OF m])
  with m show ?case
    by (simp only: setIn.simps Let_def wf_json_update)
qed

lemma wf_deleteIn:
  assumes "\<And>x. ob = Some x \<Longrightarrow> wf_json x"
  shows "wf_json (deleteIn ob p)"
  using assms
proof (induction ob p rule: deleteIn.induct)
  case (1 ob k)
  then show ?case using wf_json_delete by (simp del: wf_json.simps)
next
  case (2 ob head v va)
  then have m: "wf_json (JObj ob)" by simp
  then have "wf_json (deleteIn (js_get head ob) (v # va))" if "js_has head ob"
    using that wf_json_member [OF m] by (intro "2.IH") auto
  with m show ?case
    using wf_json_update [OF m] by (simp del: wf_json.simps)
qed auto

section \<open>The contract of a member store\<close>

text \<open>
  Balances, nonces and in-flight CALs are read and written one member at a time. The contract is the
  usual one of a map; what the reducer's lemmas need of it is proved once here.
\<close>

locale member_store =
  fixes look :: "'s \<Rightarrow> 'k \<Rightarrow> 'v option"
    and put :: "'k \<Rightarrow> 'v \<Rightarrow> 's \<Rightarrow> 's"
    and drop_member :: "'k \<Rightarrow> 's \<Rightarrow> 's"
  assumes look_put: "look (put k v s) k' = (if k' = k then Some v else look s k')"
    and look_drop: "look (drop_member k s) k' = (if k' = k then None else look s k')"
begin

lemma put_put_look: "look (put k w (put k v s)) = look (put k w s)"
  by (auto simp: look_put)

lemma drop_put_look: "look (drop_member k (put k v s)) = look (drop_member k s)"
  by (auto simp: look_put look_drop)

lemma put_commute_look: "k \<noteq> j \<Longrightarrow> look (put k v (put j w s)) = look (put j w (put k v s))"
  by (auto simp: look_put fun_eq_iff)

lemma put_absent_drop_look: "look s k = None \<Longrightarrow> look (drop_member k (put k v s)) = look s"
  by (auto simp: look_put look_drop fun_eq_iff)

end

definition put2 :: "string \<Rightarrow> string \<Rightarrow> jstring \<Rightarrow> json \<Rightarrow> json \<Rightarrow> json" where
  "put2 a b k v s = setIn (Some s) [js a, js b, k] v"

definition drop2 :: "string \<Rightarrow> string \<Rightarrow> jstring \<Rightarrow> json \<Rightarrow> json" where
  "drop2 a b k s = deleteIn (Some s) [js a, js b, k]"

interpretation balances: member_store "\<lambda>s. map_of (ob2 ''ptra'' ''balances'' s)"
  "put2 ''ptra'' ''balances''" "drop2 ''ptra'' ''balances''"
  by unfold_locales (simp_all add: put2_def drop2_def view_simps delete_conv')

interpretation flights: member_store "\<lambda>s. map_of (ob2 ''cal'' ''in_flight'' s)"
  "put2 ''cal'' ''in_flight''" "drop2 ''cal'' ''in_flight''"
  by unfold_locales (simp_all add: put2_def drop2_def view_simps delete_conv')

interpretation nonces: member_store "\<lambda>s. map_of (ob2 ''cal'' ''nonces'' s)"
  "put2 ''cal'' ''nonces''" "drop2 ''cal'' ''nonces''"
  by unfold_locales (simp_all add: put2_def drop2_def view_simps delete_conv')

end
