(* ===== verification/Reducer_Delta.thy ===== *)
theory Reducer_Delta
  imports Reducer_State
begin

text \<open>
  \<^verbatim>\<open>cal-reducer/src/delta.ts\<close> and \<^verbatim>\<open>cal-reducer/src/migrate.ts\<close>: the effect language a CAL's
  steps are written in, the bound on multi-owner records it enforces, and the registry upgrade from
  one owner key to an owner set.
\<close>

section \<open>Owner records\<close>

definition MAX_OWNERS :: nat where
  "MAX_OWNERS = 16"

text \<open>The loop over \<open>owners\<close>; the first argument is the previous element.\<close>

fun owners_ascending :: "jstring option \<Rightarrow> json list \<Rightarrow> bool" where
  "owners_ascending prev [] \<longleftrightarrow> True"
| "owners_ascending prev (JStr pk # rest) \<longleftrightarrow>
     pk \<noteq> [] \<and> (case prev of None \<Rightarrow> True | Some p \<Rightarrow> pk \<noteq> p \<and> \<not> pk < p) \<and>
     owners_ascending (Some pk) rest"
| "owners_ascending prev (_ # rest) \<longleftrightarrow> False"

fun ownerRecordWellFormed :: "json option \<Rightarrow> json option \<Rightarrow> bool" where
  "ownerRecordWellFormed (Some (JArr owners)) (Some (JInt threshold)) \<longleftrightarrow>
     \<not> (length owners < 1 \<or> length owners > MAX_OWNERS) \<and>
     \<not> (threshold < 1 \<or> threshold > int (length owners)) \<and>
     owners_ascending None owners"
| "ownerRecordWellFormed _ _ \<longleftrightarrow> False"

definition is_array :: "json option \<Rightarrow> bool" where
  "is_array v \<longleftrightarrow> (case v of Some (JArr _) \<Rightarrow> True | _ \<Rightarrow> False)"

text \<open>One iteration of the loop of \<open>migrateRegistryV1ToV2\<close>; \<open>agents\<close> is read once, before it.\<close>

definition migrate_agent :: "obj \<Rightarrow> json \<Rightarrow> jstring \<Rightarrow> json" where
  "migrate_agent agents s agent =
     (case js_get agent agents of
        Some (JObj rec) \<Rightarrow>
          if is_array (js_get (js ''owners'') rec) then s
          else if \<not> js_has (js ''owner_pubkey'') rec then s
          else
            let owners = (case js_get (js ''owner_pubkey'') rec of
                            Some (JStr pk) \<Rightarrow> if pk \<noteq> [] then [JStr pk] else []
                          | _ \<Rightarrow> []);
                threshold = (if length owners = 1 then 1 else 0);
                p = [js ''registry'', js ''agents'', agent];
                s1 = setIn (Some s) (p @ [js ''owners'']) (JArr owners);
                s2 = setIn (Some s1) (p @ [js ''threshold'']) (JInt threshold)
            in deleteIn (Some s2) (p @ [js ''owner_pubkey''])
      | _ \<Rightarrow> s)"

definition migrateRegistryV1ToV2 :: "json \<Rightarrow> json" where
  "migrateRegistryV1ToV2 s =
     (case getIn (Some s) [js ''registry'', js ''agents''] of
        Some (JObj agents) \<Rightarrow> foldl (migrate_agent agents) s (sort (map fst agents))
      | _ \<Rightarrow> s)"

section \<open>Deltas\<close>

definition UINT256_MAX :: int where
  "UINT256_MAX = 2 ^ 256 - 1"

definition enforceOwnerRecord :: "json \<Rightarrow> jstring list \<Rightarrow> unit res" where
  "enforceOwnerRecord s full =
     (case full of
        [a, b, agent, field] \<Rightarrow>
          if a \<noteq> js ''registry'' \<or> b \<noteq> js ''agents'' then Inr ()
          else if field \<noteq> js ''owners'' \<and> field \<noteq> js ''threshold'' then Inr ()
          else (case getIn (Some s) [js ''registry'', js ''agents'', agent] of
              Some (JObj rec) \<Rightarrow>
                if \<not> js_has (js ''owners'') rec \<or> \<not> js_has (js ''threshold'') rec then Inr ()
                else if \<not> ownerRecordWellFormed (js_get (js ''owners'') rec) (js_get (js ''threshold'') rec)
                  then Inl (Apply BAD_OWNER_RECORD)
                else Inr ()
            | _ \<Rightarrow> Inr ())
      | _ \<Rightarrow> Inr ())"

fun asBigint :: "json option \<Rightarrow> int res" where
  "asBigint (Some (JInt n)) = Inr n"
| "asBigint _ = Inl (Apply BAD_DELTA)"

text \<open>The nullish default \<open>v ?? d\<close>.\<close>

fun nullish :: "json option \<Rightarrow> json \<Rightarrow> json" where
  "nullish None d = d"
| "nullish (Some JNull) d = d"
| "nullish (Some v) d = v"

fun str_list :: "json list \<Rightarrow> jstring list option" where
  "str_list [] = Some []"
| "str_list (JStr p # rest) = map_option (Cons p) (str_list rest)"
| "str_list (_ # rest) = None"

definition apply_delta_op :: "json \<Rightarrow> obj \<Rightarrow> jstring \<Rightarrow> jstring list \<Rightarrow> json res" where
  "apply_delta_op s d opn full =
     (if opn = js ''set'' then
        let next = setIn (Some s) full (nullish (js_get (js ''value'') d) JNull)
        in and_then (enforceOwnerRecord next full) (\<lambda>_. Inr next)
      else if opn = js ''delete'' then Inr (deleteIn (Some s) full)
      else if opn = js ''add'' then
        and_then (asBigint (Some (nullish (getIn (Some s) full) (JInt 0)))) (\<lambda>cur.
        and_then (asBigint (js_get (js ''value'') d)) (\<lambda>v.
          if cur + v > UINT256_MAX then Inl (Apply OVERFLOW)
          else Inr (setIn (Some s) full (JInt (cur + v)))))
      else if opn = js ''sub'' then
        and_then (asBigint (Some (nullish (getIn (Some s) full) (JInt 0)))) (\<lambda>cur.
        and_then (asBigint (js_get (js ''value'') d)) (\<lambda>v.
          if cur - v < 0 then Inl (Apply UNDERFLOW)
          else Inr (setIn (Some s) full (JInt (cur - v)))))
      else Inl (Apply BAD_DELTA))"

definition applyDeltaJson :: "json \<Rightarrow> json \<Rightarrow> json res" where
  "applyDeltaJson s d =
     (case d of
        JObj dm \<Rightarrow>
          (case js_get (js ''ns'') dm of
             Some (JStr ns) \<Rightarrow>
               (case js_get (js ''op'') dm of
                  Some (JStr opn) \<Rightarrow>
                    (case js_get (js ''path'') dm of
                       Some (JArr path) \<Rightarrow>
                         (case str_list path of
                            Some strs \<Rightarrow> apply_delta_op s dm opn (ns # strs)
                          | None \<Rightarrow> Inl (Apply BAD_DELTA))
                     | _ \<Rightarrow> Inl (Apply BAD_DELTA))
                | _ \<Rightarrow> Inl (Apply BAD_DELTA))
           | _ \<Rightarrow> Inl (Apply BAD_DELTA))
      | _ \<Rightarrow> Inl (Apply BAD_DELTA))"

text \<open>The commit loop of \<open>cal.finalized\<close>.\<close>

fun apply_deltas :: "json \<Rightarrow> json list \<Rightarrow> json res" where
  "apply_deltas s [] = Inr s"
| "apply_deltas s (d # ds) = and_then (applyDeltaJson s d) (\<lambda>s'. apply_deltas s' ds)"

section \<open>Errors and bounds of one delta\<close>

lemma asBigint_cases: "asBigint v = Inr n \<longleftrightarrow> v = Some (JInt n)"
  by (cases v rule: asBigint.cases) auto

lemma asBigint_err: "asBigint v = Inl e \<Longrightarrow> e = Apply BAD_DELTA"
  by (cases v rule: asBigint.cases) auto

lemma enforceOwnerRecord_err: "enforceOwnerRecord s full = Inl e \<Longrightarrow> e = Apply BAD_OWNER_RECORD"
  by (auto simp: enforceOwnerRecord_def split: list.splits if_splits option.splits json.splits)

lemma apply_delta_op_err:
  "apply_delta_op s d opn full = Inl e \<Longrightarrow>
   e \<in> Apply ` {BAD_DELTA, OVERFLOW, UNDERFLOW, BAD_OWNER_RECORD}"
  by (auto simp: apply_delta_op_def and_then_Inl Let_def
        dest!: asBigint_err enforceOwnerRecord_err split: if_splits)

lemma applyDeltaJson_err:
  "applyDeltaJson s d = Inl e \<Longrightarrow> e \<in> Apply ` {BAD_DELTA, OVERFLOW, UNDERFLOW, BAD_OWNER_RECORD}"
  by (auto simp: applyDeltaJson_def dest: apply_delta_op_err split: json.splits option.splits)

lemma apply_deltas_err:
  "apply_deltas s ds = Inl e \<Longrightarrow> e \<in> Apply ` {BAD_DELTA, OVERFLOW, UNDERFLOW, BAD_OWNER_RECORD}"
  by (induction ds arbitrary: s) (auto simp: and_then_Inl dest: applyDeltaJson_err)

interpretation delta_fold: run_fold applyDeltaJson "\<lambda>ds s. apply_deltas s ds"
  by unfold_locales simp_all

lemma wf_nullish: "wf_json d \<Longrightarrow> (\<And>x. v = Some x \<Longrightarrow> wf_json x) \<Longrightarrow> wf_json (nullish v d)"
  by (cases "(v, d)" rule: nullish.cases) auto

lemma apply_delta_op_wf:
  assumes "apply_delta_op s d opn full = Inr s'" "wf_json s" "wf_json (JObj d)"
  shows "wf_json s'"
proof -
  have "wf_json x" if "js_get (js ''value'') d = Some x" for x
    using wf_json_member [OF assms(3) that] .
  with assms(1,2) show ?thesis
    by (auto simp: apply_delta_op_def Let_def intro!: wf_setIn wf_deleteIn wf_nullish split: if_splits)
qed

lemma applyDeltaJson_wf:
  "applyDeltaJson s d = Inr s' \<Longrightarrow> wf_json s \<Longrightarrow> wf_json d \<Longrightarrow> wf_json s'"
  by (auto simp: applyDeltaJson_def simp del: wf_json.simps intro: apply_delta_op_wf
        split: json.splits option.splits)

lemma apply_deltas_wf:
  "apply_deltas s ds = Inr s' \<Longrightarrow> wf_json s \<Longrightarrow> (\<And>d. d \<in> set ds \<Longrightarrow> wf_json d) \<Longrightarrow> wf_json s'"
  by (rule delta_fold.run_invariant [where I = wf_json and P = wf_json])
     (blast intro: applyDeltaJson_wf, auto simp: list_all_iff)

section \<open>Which views a delta can change\<close>

lemma getIn_setIn_ns:
  assumes "lit_key a" "ns \<noteq> js a"
  shows "getIn (Some (setIn (Some s) (ns # p) v)) (js a # q) = getIn (Some s) (js a # q)"
  using assms by (simp add: getIn_plain plain_setIn)

lemma getIn_deleteIn_ns:
  assumes "lit_key a" "ns \<noteq> js a"
  shows "getIn (Some (deleteIn (Some s) (ns # p))) (js a # q) = getIn (Some s) (js a # q)"
  using assms
  by (cases p) (auto simp: getIn_plain plain_deleteIn plain_deleteIn_last delete_conv')

text \<open>The path a delta writes to, with its namespace.\<close>

definition delta_path :: "json \<Rightarrow> jstring list option" where
  "delta_path d = (case d of
     JObj dm \<Rightarrow>
       (case js_get (js ''ns'') dm of
          Some (JStr ns) \<Rightarrow>
            (case js_get (js ''path'') dm of Some (JArr path) \<Rightarrow> map_option (Cons ns) (str_list path) | _ \<Rightarrow> None)
        | _ \<Rightarrow> None)
   | _ \<Rightarrow> None)"

text \<open>A path that neither passes \<open>s.a.b\<close> nor ends above it.\<close>

fun spares :: "string \<Rightarrow> string \<Rightarrow> jstring list \<Rightarrow> bool" where
  "spares a b [] \<longleftrightarrow> False"
| "spares a b [x] \<longleftrightarrow> x \<noteq> js a"
| "spares a b (x # y # p) \<longleftrightarrow> x \<noteq> js a \<or> y \<noteq> js b"

lemma spared_setIn:
  assumes "lit_key a" "lit_key b" "spares a b p"
  shows "val2 a b (setIn (Some s) p v) = val2 a b s"
  using assms by (cases "(a, b, p)" rule: spares.cases) (auto simp: val2_eq plain_setIn js_get_lit)

lemma spared_deleteIn:
  assumes "lit_key a" "lit_key b" "spares a b p"
  shows "val2 a b (deleteIn (Some s) p) = val2 a b s"
proof (cases "(a, b, p)" rule: spares.cases)
  case (2 a' b' x)
  with assms show ?thesis by (auto simp: val2_eq plain_deleteIn_last delete_conv')
next
  case (3 a' b' x y q)
  then have p: "p = x # y # q" "x \<noteq> js a \<or> y \<noteq> js b" using assms(3) by auto
  show ?thesis
  proof (cases "x = js a")
    case True
    with p have y: "y \<noteq> js b" by simp
    have "map_of (plain_members (Some (deleteIn (Some z) (y # q)))) (js b) = map_of (plain_members (Some z)) (js b)" for z
      using y by (cases q) (auto simp: plain_deleteIn plain_deleteIn_last delete_conv')
    with True p(1) assms(1,2) show ?thesis by (auto simp: val2_eq plain_deleteIn js_has_lit js_get_lit)
  next
    case False
    with p(1) assms(1,2) show ?thesis by (auto simp: val2_eq plain_deleteIn)
  qed
qed (use assms in auto)

lemma applyDeltaJson_Inr:
  assumes "applyDeltaJson s d = Inr s'"
  obtains p where "delta_path d = Some p" "(\<exists>v. s' = setIn (Some s) p v) \<or> s' = deleteIn (Some s) p"
  using assms
  by (auto simp: applyDeltaJson_def apply_delta_op_def delta_path_def Let_def split: json.splits option.splits if_splits)

lemma apply_deltas_spared:
  assumes "apply_deltas s ds = Inr s'" "lit_key a" "lit_key b" "list_all (\<lambda>d. pred_option (spares a b) (delta_path d)) ds"
  shows "val2 a b s' = val2 a b s" "ob2 a b s' = ob2 a b s"
proof -
  show "val2 a b s' = val2 a b s"
  proof (rule delta_fold.run_invariant [where I = "\<lambda>t. val2 a b t = val2 a b s"
        and P = "\<lambda>d. pred_option (spares a b) (delta_path d)", OF _ refl assms(1,4)])
    fix t t' d
    assume "applyDeltaJson t d = Inr t'" "val2 a b t = val2 a b s" "pred_option (spares a b) (delta_path d)"
    then show "val2 a b t' = val2 a b s"
      using spared_setIn [OF assms(2,3)] spared_deleteIn [OF assms(2,3)] by (auto elim!: applyDeltaJson_Inr)
  qed
  then show "ob2 a b s' = ob2 a b s" using assms(2,3) by (simp add: ob2_val2)
qed

section \<open>The owner record bound\<close>

text \<open>A record that carries both fields carries them well-formed.\<close>

definition owner_record_ok :: "json option \<Rightarrow> bool" where
  "owner_record_ok v =
     (case v of
        Some (JObj rec) \<Rightarrow>
          js_has (js ''owners'') rec \<and> js_has (js ''threshold'') rec \<longrightarrow>
          ownerRecordWellFormed (js_get (js ''owners'') rec) (js_get (js ''threshold'') rec)
      | _ \<Rightarrow> True)"

lemma enforceOwnerRecord_ok:
  assumes "enforceOwnerRecord s [js ''registry'', js ''agents'', agent, field] = Inr ()"
    and "field = js ''owners'' \<or> field = js ''threshold''"
  shows "owner_record_ok (getIn (Some s) [js ''registry'', js ''agents'', agent])"
  using assms
  by (auto simp: enforceOwnerRecord_def owner_record_ok_def split: option.splits json.splits if_splits)

lemma owners_ascending_sorted:
  assumes "owners_ascending prev xs"
  shows "\<exists>pks. xs = map JStr pks \<and> sorted_wrt (<) pks \<and>
    (case prev of None \<Rightarrow> True | Some p \<Rightarrow> \<forall>q \<in> set pks. p < q) \<and> [] \<notin> set pks"
  using assms
proof (induction prev xs rule: owners_ascending.induct)
  case (2 prev pk rest)
  then obtain pks where pks: "rest = map JStr pks" "sorted_wrt (<) pks" "\<forall>q \<in> set pks. pk < q"
    "[] \<notin> set pks" by auto
  have "\<forall>q \<in> set (pk # pks). p < q" if "prev = Some p" for p
  proof -
    from 2 that have "pk \<noteq> p" "\<not> pk < p" by auto
    then have "p < pk" by simp
    with pks(3) show ?thesis by auto
  qed
  with pks 2 show ?case
    by (intro exI [of _ "pk # pks"]) (auto split: option.splits)
qed (auto split: option.splits)

section \<open>The registry upgrade\<close>

text \<open>What one iteration makes of the record it upgrades.\<close>

definition upgrade_record :: "json \<Rightarrow> json" where
  "upgrade_record v =
     (case v of
        JObj rec \<Rightarrow>
          if is_array (js_get (js ''owners'') rec) \<or> \<not> js_has (js ''owner_pubkey'') rec then v
          else
            let owners = (case js_get (js ''owner_pubkey'') rec of
                            Some (JStr pk) \<Rightarrow> if pk \<noteq> [] then [JStr pk] else []
                          | _ \<Rightarrow> [])
            in JObj (AList.delete (js ''owner_pubkey'')
                 (AList.update (js ''threshold'') (JInt (if length owners = 1 then 1 else 0))
                   (AList.update (js ''owners'') (JArr owners) rec)))
      | _ \<Rightarrow> v)"

lemma ob2_deleteIn_deep:
  assumes "lit_key a" "lit_key b" "p \<noteq> []" "js_has k (ob2 a b s)" "ob2 a b s \<noteq> []"
  shows "ob2 a b (deleteIn (Some s) (js a # js b # k # p)) =
    AList.update k (deleteIn (js_get k (ob2 a b s)) p) (ob2 a b s)"
proof -
  obtain m x y where m: "s = JObj m" and x: "map_of m (js a) = Some (JObj x)"
    and y: "map_of x (js b) = Some (JObj y)"
    using assms(1,2,5)
    by (auto simp: ob2_eq plain_members_cases split: option.splits json.splits)
  with assms show ?thesis
    by (simp add: ob2_eq plain_deleteIn js_has_lit js_get_lit)
qed

lemma owner_fields_distinct [simp]:
  "js ''owners'' \<noteq> js ''threshold''" "js ''owners'' \<noteq> js ''owner_pubkey''"
  "js ''threshold'' \<noteq> js ''owner_pubkey''"
  by simp_all

lemma update_update_same [simp]: "AList.update k v (AList.update k w al) = AList.update k v al"
  by (induction al) auto

lemma update_id: "map_of al k = Some v \<Longrightarrow> distinct (map fst al) \<Longrightarrow> AList.update k v al = al"
  by (induction al) (auto split: if_splits)

lemma update_map: "distinct (map fst al) \<Longrightarrow> map_of al k = Some v \<Longrightarrow>
    AList.update k w al = map (\<lambda>(k', v'). (k', if k' = k then w else v')) al"
proof (induction al)
  case Nil
  then show ?case by simp
next
  case (Cons kv al)
  obtain k' v' where kv: "kv = (k', v')" by (cases kv)
  show ?case
  proof (cases "k' = k")
    case True
    with Cons.prems kv have "k \<notin> fst ` set al" by auto
    then have "map (\<lambda>(k', v'). (k', if k' = k then w else v')) al = al"
      by (intro map_idI) (auto split: if_splits, force)
    with True kv show ?thesis by simp
  next
    case False
    with Cons kv show ?thesis by simp
  qed
qed

lemma setIn_single: "setIn ob [k] v = JObj (AList.update k v (plain_members ob))"
  by (simp add: setIn.simps)

lemma migrate_agent_ob2:
  assumes own: "map_of (ob2 ''registry'' ''agents'' s) agent = Some v"
    and orig: "map_of agents agent = Some v"
    and wf: "wf_json (JObj (ob2 ''registry'' ''agents'' s))"
  shows "ob2 ''registry'' ''agents'' (migrate_agent agents s agent) =
    AList.update agent (upgrade_record v) (ob2 ''registry'' ''agents'' s)"
proof -
  let ?A = "ob2 ''registry'' ''agents'' s"
  have d: "distinct (map fst ?A)" using wf by simp
  have got: "js_get agent agents = Some v" "js_get agent ?A = Some v"
    using own orig by (simp_all add: js_get_own)
  have same: "AList.update agent v ?A = ?A" by (rule update_id [OF own d])
  have has: "js_has agent (AList.update agent w ?A)" for w by (simp add: js_has_iff)
  have ne: "AList.update agent w ?A \<noteq> []" for w by (cases ?A) auto
  show ?thesis
  proof (cases "\<exists>rec. v = JObj rec \<and> \<not> is_array (js_get (js ''owners'') rec)
      \<and> js_has (js ''owner_pubkey'') rec")
    case False
    then have "migrate_agent agents s agent = s" "upgrade_record v = v"
      using got by (auto simp: migrate_agent_def upgrade_record_def split: json.splits)
    then show ?thesis by (simp add: same)
  next
    case True
    then obtain rec where "v = JObj rec" by blast
    with True got show ?thesis
      by (simp add: migrate_agent_def upgrade_record_def Let_def view_simps plain_setIn
           ob2_deleteIn_deep has ne js_has_iff setIn_single)
  qed
qed

lemma wf_upgrade: "wf_json v \<Longrightarrow> wf_json (upgrade_record v)"
  by (cases v) (auto simp: upgrade_record_def Let_def simp del: wf_json.simps
      intro!: wf_json_delete wf_json_update split: option.splits json.splits if_splits, auto)

lemma migrate_fold_ob2:
  assumes "distinct ids" "set ids \<subseteq> fst ` set agents" "wf_json (JObj agents)"
    and "ob2 ''registry'' ''agents'' s =
      map (\<lambda>(k, v). (k, if k \<in> done then upgrade_record v else v)) agents"
    and "done \<inter> set ids = {}"
  shows "ob2 ''registry'' ''agents'' (foldl (migrate_agent agents) s ids) =
    map (\<lambda>(k, v). (k, if k \<in> done \<union> set ids then upgrade_record v else v)) agents"
  using assms
proof (induction ids arbitrary: s "done")
  case Nil
  then show ?case by simp
next
  case (Cons x ids)
  let ?A = "ob2 ''registry'' ''agents'' s"
  let ?s = "migrate_agent agents s x"
  from Cons.prems(2) obtain v where v: "map_of agents x = Some v"
    by (auto simp: image_iff dest: weak_map_of_SomeI)
  have keys: "map fst ?A = map fst agents"
    using Cons.prems(4) by (auto simp: comp_def case_prod_beta)
  have "distinct (map fst agents)" using Cons.prems(3) by simp
  have wfA: "wf_json (JObj ?A)"
  proof -
    have "distinct (map fst ?A)" using Cons.prems(3) by (simp only: keys) simp
    moreover have "wf_json (snd kv)" if "kv \<in> set ?A" for kv
      using that Cons.prems(3) unfolding Cons.prems(4) by (force intro: wf_upgrade)
    ultimately show ?thesis by simp
  qed
  have own: "map_of ?A x = Some v"
  proof -
    have "(x, v) \<in> set agents" using v by (rule map_of_SomeD)
    then have "(x, v) \<in> set ?A"
      using Cons.prems(5) unfolding Cons.prems(4) by force
    moreover have "distinct (map fst ?A)" using wfA by simp
    ultimately show ?thesis by simp
  qed
  have "ob2 ''registry'' ''agents'' ?s = AList.update x (upgrade_record v) ?A"
    by (rule migrate_agent_ob2 [OF own v wfA])
  also have "\<dots> = map (\<lambda>(k', v'). (k', if k' = x then upgrade_record v else v')) ?A"
    using wfA own by (intro update_map) auto
  also have "\<dots> = map (\<lambda>(k, v). (k, if k \<in> insert x done then upgrade_record v else v)) agents"
  proof -
    have "v' = v" if "(x, v') \<in> set agents" for v'
      using map_of_is_SomeI [OF \<open>distinct (map fst agents)\<close> that] v by simp
    then show ?thesis unfolding Cons.prems(4) map_map
      by (intro map_cong refl) (auto split: if_splits)
  qed
  finally have "ob2 ''registry'' ''agents'' (foldl (migrate_agent agents) ?s ids) =
      map (\<lambda>(k, v). (k, if k \<in> insert x done \<union> set ids then upgrade_record v else v)) agents"
    using Cons.prems by (intro Cons.IH) auto
  then show ?case by simp
qed

lemma migrate_ob2:
  assumes "wf_json s"
  shows "ob2 ''registry'' ''agents'' (migrateRegistryV1ToV2 s) =
    map (\<lambda>(k, v). (k, upgrade_record v)) (ob2 ''registry'' ''agents'' s)"
proof (cases "\<exists>agents. getIn (Some s) [js ''registry'', js ''agents''] = Some (JObj agents)")
  case True
  then obtain agents where g: "getIn (Some s) [js ''registry'', js ''agents''] = Some (JObj agents)"
    by blast
  then have A: "ob2 ''registry'' ''agents'' s = agents" by (simp add: ob2_def)
  have wf: "wf_json (JObj agents)"
    using g assms wf_json_member
    by (auto simp: getIn_Cons simp del: wf_json.simps split: option.splits json.splits) blast
  have "ob2 ''registry'' ''agents'' (foldl (migrate_agent agents) s (sort (map fst agents))) =
      map (\<lambda>(k, v). (k, if k \<in> {} \<union> set (sort (map fst agents)) then upgrade_record v else v)) agents"
    using wf A by (intro migrate_fold_ob2) auto
  also have "\<dots> = map (\<lambda>(k, v). (k, upgrade_record v)) agents"
    by (intro map_cong) force+
  finally show ?thesis using g A by (simp add: migrateRegistryV1ToV2_def)
next
  case False
  then have "migrateRegistryV1ToV2 s = s" "ob2 ''registry'' ''agents'' s = []"
    by (auto simp: migrateRegistryV1ToV2_def ob2_def plain_members_not split: option.splits json.splits)
  then show ?thesis by simp
qed

text \<open>A record the upgrade leaves alone.\<close>

definition upgraded :: "json \<Rightarrow> bool" where
  "upgraded v = (case v of JObj rec \<Rightarrow>
      is_array (js_get (js ''owners'') rec) \<or> \<not> js_has (js ''owner_pubkey'') rec | _ \<Rightarrow> True)"

lemma upgrade_upgraded: "upgraded (upgrade_record v)"
  by (cases v) (auto simp: upgraded_def upgrade_record_def Let_def is_array_def
      js_get_delete_other js_get_update_other)

lemma migrate_agent_upgraded:
  "(\<And>v. js_get agent agents = Some v \<Longrightarrow> upgraded v) \<Longrightarrow> migrate_agent agents s agent = s"
  by (auto simp: migrate_agent_def upgraded_def split: option.splits json.splits)

end
