(* ===== verification/Reducer_Apply.thy ===== *)
theory Reducer_Apply
  imports Reducer_Delta
begin

text \<open>
  \<^verbatim>\<open>cal-reducer/src/apply.ts\<close> and \<^verbatim>\<open>cal-reducer/src/fold.ts\<close>: the reducer, one definition per event type,
  and the fold of an event log. An event is the member list of the JavaScript object. \<open>TypeError\<close> stands
  where the code would operate on a value of a type the reducer never writes (an in-flight record
  overwritten by a Delta): the language then coerces or raises.
\<close>

section \<open>Reading an event and the state\<close>

definition reqStr :: "obj \<Rightarrow> string \<Rightarrow> jstring res" where
  "reqStr ev k = (case js_get (js k) ev of Some (JStr v) \<Rightarrow> Inr v | _ \<Rightarrow> Inl (Apply BAD_DELTA))"

definition reqUint :: "obj \<Rightarrow> string \<Rightarrow> int res" where
  "reqUint ev k =
     (case js_get (js k) ev of
        Some (JInt v) \<Rightarrow> if v < 0 \<or> v > UINT256_MAX then Inl (Apply BAD_DELTA) else Inr v
      | _ \<Rightarrow> Inl (Apply BAD_DELTA))"

definition optUint :: "obj \<Rightarrow> string \<Rightarrow> int res" where
  "optUint ev k = (if js_has (js k) ev then reqUint ev k else Inr 0)"

definition inFlight :: "json \<Rightarrow> jstring \<Rightarrow> obj option" where
  "inFlight s ch =
     (case getIn (Some s) [js ''cal'', js ''in_flight'', ch] of Some (JObj h) \<Rightarrow> Some h | _ \<Rightarrow> None)"

definition requireFlight :: "json \<Rightarrow> jstring \<Rightarrow> obj res" where
  "requireFlight s ch = (case inFlight s ch of None \<Rightarrow> Inl (Apply UNKNOWN_CAL) | Some h \<Rightarrow> Inr h)"

fun bigint_or :: "json option \<Rightarrow> int \<Rightarrow> int" where
  "bigint_or (Some (JInt v)) d = v"
| "bigint_or _ d = d"

definition bal :: "json \<Rightarrow> jstring \<Rightarrow> int" where
  "bal s addr = bigint_or (getIn (Some s) [js ''ptra'', js ''balances'', addr]) 0"

definition bumpNonce :: "json \<Rightarrow> jstring \<Rightarrow> json" where
  "bumpNonce s agent =
     setIn (Some s) [js ''cal'', js ''nonces'', agent]
       (JInt (bigint_or (getIn (Some s) [js ''cal'', js ''nonces'', agent]) 0 + 1))"

definition addFees :: "json \<Rightarrow> int \<Rightarrow> json" where
  "addFees s amount =
     setIn (Some s) [js ''treasury'', js ''collected_fees_window'']
       (JInt (bigint_or (getIn (Some s) [js ''treasury'', js ''collected_fees_window'']) 0 + amount))"

definition recomputeBounded :: "json \<Rightarrow> json" where
  "recomputeBounded s =
     (let bounded =
        (case getIn (Some s) [js ''governance'', js ''params'', js ''capture_guard_threshold''] of
           Some (JInt threshold) \<Rightarrow>
             (case getIn (Some s) [js ''failure_mode'', js ''capture_guard_counters''] of
                Some (JObj counters) \<Rightarrow>
                  (\<exists>kv \<in> set counters. case snd kv of JInt v \<Rightarrow> v \<ge> threshold | _ \<Rightarrow> False)
              | _ \<Rightarrow> False)
         | _ \<Rightarrow> False)
      in setIn (Some s) [js ''failure_mode'', js ''is_bounded_mode''] (JBool bounded))"

text \<open>The casts \<open>h["agent_id"] as string\<close>, \<open>h["escrowed_ptra"] as bigint\<close>, \<open>h["staged"] as Json[]\<close>.\<close>

definition flight_agent :: "obj \<Rightarrow> jstring res" where
  "flight_agent h = (case js_get (js ''agent_id'') h of Some (JStr a) \<Rightarrow> Inr a | _ \<Rightarrow> Inl TypeError)"

definition flight_escrow :: "obj \<Rightarrow> int res" where
  "flight_escrow h = (case js_get (js ''escrowed_ptra'') h of Some (JInt v) \<Rightarrow> Inr v | _ \<Rightarrow> Inl TypeError)"

definition flight_staged :: "obj \<Rightarrow> json list res" where
  "flight_staged h = (case js_get (js ''staged'') h of Some (JArr ds) \<Rightarrow> Inr ds | _ \<Rightarrow> Inl TypeError)"

definition at_stage :: "obj \<Rightarrow> string \<Rightarrow> bool" where
  "at_stage h stage \<longleftrightarrow> js_get (js ''stage'') h = Some (JStr (js stage))"

definition set_stage :: "json \<Rightarrow> jstring \<Rightarrow> string \<Rightarrow> json" where
  "set_stage s ch stage =
     setIn (Some s) [js ''cal'', js ''in_flight'', ch, js ''stage''] (JStr (js stage))"

definition set_balance :: "json \<Rightarrow> jstring \<Rightarrow> int \<Rightarrow> json" where
  "set_balance s addr v = setIn (Some s) [js ''ptra'', js ''balances'', addr] (JInt v)"

definition drop_flight :: "json \<Rightarrow> jstring \<Rightarrow> json" where
  "drop_flight s ch = deleteIn (Some s) [js ''cal'', js ''in_flight'', ch]"

section \<open>The event handlers\<close>

definition new_flight :: "jstring \<Rightarrow> obj" where
  "new_flight agent =
     [(js ''agent_id'', JStr agent), (js ''stage'', JStr (js ''CREATED'')),
      (js ''escrowed_ptra'', JInt 0), (js ''gas_consumed_ptra'', JInt 0), (js ''staged'', JArr [])]"

definition agent_busy :: "json \<Rightarrow> jstring \<Rightarrow> bool" where
  "agent_busy s agent =
     (case getIn (Some s) [js ''cal'', js ''in_flight''] of
        Some (JObj all) \<Rightarrow>
          (\<exists>kv \<in> set all. case snd kv of
             JObj h \<Rightarrow> js_get (js ''agent_id'') h = Some (JStr agent) | _ \<Rightarrow> False)
      | _ \<Rightarrow> False)"

definition apply_created :: "json \<Rightarrow> obj \<Rightarrow> json res" where
  "apply_created s ev =
     and_then (reqStr ev ''cal_hash'') (\<lambda>ch.
     and_then (reqStr ev ''agent_id'') (\<lambda>agent.
       if inFlight s ch \<noteq> None then Inl (Apply DUPLICATE_CAL)
       else if agent_busy s agent then Inl (Apply AGENT_BUSY)
       else Inr (setIn (Some s) [js ''cal'', js ''in_flight'', ch] (JObj (new_flight agent)))))"

definition apply_signed :: "json \<Rightarrow> obj \<Rightarrow> json res" where
  "apply_signed s ev =
     and_then (reqStr ev ''cal_hash'') (\<lambda>ch.
     and_then (requireFlight s ch) (\<lambda>h.
       if \<not> at_stage h ''CREATED'' then Inl (Apply BAD_STAGE)
       else Inr (set_stage s ch ''SIGNED'')))"

definition apply_validated :: "json \<Rightarrow> obj \<Rightarrow> json res" where
  "apply_validated s ev =
     and_then (reqStr ev ''cal_hash'') (\<lambda>ch.
     and_then (requireFlight s ch) (\<lambda>h.
       if \<not> at_stage h ''SIGNED'' then Inl (Apply BAD_STAGE)
       else
         and_then (flight_agent h) (\<lambda>agent.
         and_then (reqUint ev ''escrow_ptra'') (\<lambda>escrow.
           if bal s agent < escrow then Inl (Apply INSUFFICIENT_BALANCE)
           else
             let s1 = set_balance s agent (bal s agent - escrow);
                 s2 = setIn (Some s1) [js ''cal'', js ''in_flight'', ch, js ''escrowed_ptra''] (JInt escrow)
             in Inr (set_stage s2 ch ''VALIDATED'')))))"

definition apply_executed :: "json \<Rightarrow> obj \<Rightarrow> json res" where
  "apply_executed s ev =
     and_then (reqStr ev ''cal_hash'') (\<lambda>ch.
     and_then (requireFlight s ch) (\<lambda>h.
       if \<not> at_stage h ''VALIDATED'' then Inl (Apply BAD_STAGE)
       else
         (case js_get (js ''effects'') ev of
            Some (JArr effects) \<Rightarrow>
              let s1 = setIn (Some s) [js ''cal'', js ''in_flight'', ch, js ''staged''] (JArr effects)
              in and_then (reqUint ev ''gas_consumed_ptra'') (\<lambda>gas.
                   let s2 = setIn (Some s1) [js ''cal'', js ''in_flight'', ch, js ''gas_consumed_ptra'']
                              (JInt gas)
                   in Inr (set_stage s2 ch ''EXECUTED''))
          | _ \<Rightarrow> Inl (Apply BAD_DELTA))))"

definition apply_settled :: "json \<Rightarrow> obj \<Rightarrow> json res" where
  "apply_settled s ev =
     and_then (reqStr ev ''cal_hash'') (\<lambda>ch.
     and_then (requireFlight s ch) (\<lambda>h.
       if \<not> at_stage h ''EXECUTED'' then Inl (Apply BAD_STAGE)
       else Inr (set_stage s ch ''SETTLED'')))"

text \<open>
  The refund of unused gas: the balance is credited first, a refund above the escrow is then
  \<open>UNDERFLOW\<close>, and the treasury keeps the rest.
\<close>

definition settle_escrow :: "json \<Rightarrow> jstring \<Rightarrow> int \<Rightarrow> int \<Rightarrow> json res" where
  "settle_escrow s agent escrowed refund =
     (let s1 = (if refund > 0 then set_balance s agent (bal s agent + refund) else s)
      in if refund > escrowed then Inl (Apply UNDERFLOW)
         else Inr (addFees s1 (escrowed - refund)))"

definition apply_finalized :: "json \<Rightarrow> obj \<Rightarrow> json res" where
  "apply_finalized s ev =
     and_then (reqStr ev ''cal_hash'') (\<lambda>ch.
     and_then (requireFlight s ch) (\<lambda>h.
       if \<not> at_stage h ''SETTLED'' then Inl (Apply BAD_STAGE)
       else
         and_then (flight_agent h) (\<lambda>agent.
         and_then (flight_escrow h) (\<lambda>escrowed.
         and_then (optUint ev ''gas_refunded_ptra'') (\<lambda>refund.
         and_then (flight_staged h) (\<lambda>staged.
         and_then (apply_deltas s staged) (\<lambda>s1.
         and_then (settle_escrow s1 agent escrowed refund) (\<lambda>s2.
           Inr (drop_flight (bumpNonce s2 agent) ch)))))))))"

definition apply_failed :: "json \<Rightarrow> obj \<Rightarrow> json res" where
  "apply_failed s ev =
     and_then (reqStr ev ''cal_hash'') (\<lambda>ch.
     and_then (requireFlight s ch) (\<lambda>h.
     and_then (flight_agent h) (\<lambda>agent.
     and_then
       (if at_stage h ''CREATED'' \<or> at_stage h ''SIGNED'' then
          and_then (optUint ev ''fee_debited_ptra'') (\<lambda>chargeNow.
            if bal s agent < chargeNow then Inl (Apply INSUFFICIENT_BALANCE)
            else Inr (addFees
              (if chargeNow > 0 then set_balance s agent (bal s agent - chargeNow) else s) chargeNow))
        else
          and_then (flight_escrow h) (\<lambda>escrowed.
          and_then (optUint ev ''gas_refunded_ptra'') (\<lambda>refund.
            settle_escrow s agent escrowed refund)))
       (\<lambda>s1. Inr (drop_flight (bumpNonce s1 agent) ch)))))"

definition apply_transferred :: "json \<Rightarrow> obj \<Rightarrow> json res" where
  "apply_transferred s ev =
     and_then (reqStr ev ''from'') (\<lambda>from_a.
     and_then (reqStr ev ''to'') (\<lambda>to_a.
     and_then (reqUint ev ''amount_nano_ptra'') (\<lambda>amount.
       if bal s from_a < amount then Inl (Apply INSUFFICIENT_BALANCE)
       else
         let s1 = set_balance s from_a (bal s from_a - amount)
         in Inr (set_balance s1 to_a (bal s1 to_a + amount)))))"

definition apply_shadow_init :: "json \<Rightarrow> obj \<Rightarrow> json res" where
  "apply_shadow_init s ev =
     and_then (reqStr ev ''addr'') (\<lambda>addr.
       if getIn (Some s) [js ''ptra'', js ''balances'', addr] \<noteq> None then Inr s
       else Inr (set_balance s addr 0))"

definition apply_feed_submitted :: "json \<Rightarrow> obj \<Rightarrow> json res" where
  "apply_feed_submitted s ev =
     and_then (reqStr ev ''symbol'') (\<lambda>symbol.
       Inr (setIn (Some s) [js ''oracles'', js ''feeds'', symbol]
              (nullish (js_get (js ''value'') ev) JNull)))"

definition apply_tick_advanced :: "json \<Rightarrow> obj \<Rightarrow> json res" where
  "apply_tick_advanced s ev =
     and_then (reqUint ev ''new_tick'') (\<lambda>next.
       (case getIn (Some s) [js ''tick'', js ''current''] of
          Some (JInt cur) \<Rightarrow>
            if next \<le> cur then Inl (Apply BAD_TICK)
            else Inr (recomputeBounded (setIn (Some s) [js ''tick'', js ''current''] (JInt next)))
        | _ \<Rightarrow> Inl (Apply BAD_TICK)))"

text \<open>The \<open>switch\<close> over the event type; also the boundary \<open>apply\<close>, which returns the error.\<close>

definition applyEvent :: "json \<Rightarrow> obj \<Rightarrow> json res" where
  "applyEvent s ev =
     (case js_get (js ''event_type'') ev of
        Some (JStr ty) \<Rightarrow>
          if ty = js ''cal.created'' then apply_created s ev
          else if ty = js ''cal.signed'' then apply_signed s ev
          else if ty = js ''cal.validated'' then apply_validated s ev
          else if ty = js ''cal.executed'' then apply_executed s ev
          else if ty = js ''cal.settled'' then apply_settled s ev
          else if ty = js ''cal.finalized'' then apply_finalized s ev
          else if ty = js ''cal.failed'' \<or> ty = js ''cal.expired'' then apply_failed s ev
          else if ty = js ''ptra.transferred'' then apply_transferred s ev
          else if ty = js ''ptra.shadow_init'' then apply_shadow_init s ev
          else if ty = js ''oracle.feed_submitted'' then apply_feed_submitted s ev
          else if ty = js ''tick.advanced'' then apply_tick_advanced s ev
          else Inl (Apply UNKNOWN_EVENT)
      | _ \<Rightarrow> Inl (Apply UNKNOWN_EVENT))"

section \<open>Folding the event log\<close>

text \<open>The left side carries the error with the index of the rejected event.\<close>

fun materialize_from :: "nat \<Rightarrow> obj list \<Rightarrow> json \<Rightarrow> (exn \<times> nat) + json" where
  "materialize_from i [] s = Inr s"
| "materialize_from i (ev # evs) s =
     (case applyEvent s ev of
        Inl e \<Rightarrow> Inl (e, i)
      | Inr s' \<Rightarrow> materialize_from (Suc i) evs s')"

definition materialize_log :: "obj list \<Rightarrow> json \<Rightarrow> (exn \<times> nat) + json" where
  "materialize_log evs start = materialize_from 0 evs start"

text \<open>The fold without the index.\<close>

definition materialize_state :: "obj list \<Rightarrow> json \<Rightarrow> exn + json" where
  "materialize_state evs s = map_sum fst (\<lambda>s. s) (materialize_log evs s)"

lemma materialize_from_shift:
  "materialize_from (Suc i) evs s = map_sum (\<lambda>(e, i). (e, Suc i)) (\<lambda>s. s) (materialize_from i evs s)"
  by (induction evs arbitrary: i s) (auto split: sum.splits)

interpretation log: run_fold applyEvent materialize_state
proof
  show "materialize_state [] s = Inr s" for s
    by (simp add: materialize_state_def materialize_log_def)
  show "materialize_state (e # es) s = and_then (applyEvent s e) (materialize_state es)" for e es s
    by (cases "applyEvent s e")
       (auto simp: materialize_state_def materialize_log_def materialize_from_shift sum.map_comp
         intro!: sum.map_cong)
qed

lemma materialize_log_Inr: "materialize_log evs s = Inr s' \<longleftrightarrow> materialize_state evs s = Inr s'"
  by (cases "materialize_log evs s") (auto simp: materialize_state_def)

lemma materialize_log_Inl:
  "materialize_log evs s = Inl (e, i) \<longleftrightarrow>
     i < length evs \<and> (\<exists>s'. materialize_log (take i evs) s = Inr s' \<and> applyEvent s' (evs ! i) = Inl e)"
  unfolding materialize_log_def
proof (induction evs arbitrary: s i)
  case Nil
  then show ?case by simp
next
  case (Cons ev evs)
  show ?case
  proof (cases "applyEvent s ev")
    case (Inl x)
    then show ?thesis by (cases i) auto
  next
    case (Inr s1)
    then have step: "materialize_from 0 (ev # es) s =
        map_sum (\<lambda>(e, i). (e, Suc i)) (\<lambda>s. s) (materialize_from 0 es s1)" for es
      by (simp add: materialize_from_shift)
    show ?thesis
    proof (cases i)
      case 0
      with Inr show ?thesis
        by (cases "materialize_from 0 evs s1") (auto simp: materialize_from_shift [of 0])
    next
      case (Suc j)
      have "map_sum (\<lambda>(e, i). (e, Suc i)) (\<lambda>s. s) x = Inl (e, Suc j) \<longleftrightarrow> x = Inl (e, j)" for x :: "(exn \<times> nat) + json"
        by (cases x) auto
      moreover have "map_sum (\<lambda>(e, i). (e, Suc i)) (\<lambda>s. s) x = Inr s' \<longleftrightarrow> x = Inr s'" for x :: "(exn \<times> nat) + json" and s'
        by (cases x) auto
      ultimately show ?thesis using Suc Cons.IH [of s1 j] Inr
        by (simp add: materialize_from_shift [of 0])
    qed
  qed
qed

end
