(* ===== verification/Reducer_Inv.thy ===== *)
theory Reducer_Inv
  imports Reducer_Apply
begin

text \<open>
  What the reducer keeps true. The views of the state that matter for money and for the lifecycle are
  the balances, the in-flight CALs, the nonces and the collected fees; each primitive write is
  described on each view (the collection \<open>reducer_views\<close>), and every handler is a few of them.
\<close>

section \<open>The views\<close>

abbreviation flights :: "json \<Rightarrow> obj" where
  "flights s \<equiv> ob2 ''cal'' ''in_flight'' s"

abbreviation balances :: "json \<Rightarrow> obj" where
  "balances s \<equiv> ob2 ''ptra'' ''balances'' s"

abbreviation nonces :: "json \<Rightarrow> obj" where
  "nonces s \<equiv> ob2 ''cal'' ''nonces'' s"

abbreviation fees :: "json \<Rightarrow> int" where
  "fees s \<equiv> bigint_or (val2 ''treasury'' ''collected_fees_window'' s) 0"

abbreviation nonce_of :: "json \<Rightarrow> jstring \<Rightarrow> int" where
  "nonce_of s agent \<equiv> bigint_or (map_of (nonces s) agent) 0"

named_theorems reducer_views \<open>the views after a primitive write of the reducer\<close>

lemma bigint_or_js_get: "bigint_or (js_get k ob) 0 = bigint_or (map_of ob k) 0"
  by (auto simp: js_get_def split: option.splits)

lemma bigint_or_member:
  "bigint_or (getIn (Some s) [js a, js b, k]) 0 = bigint_or (map_of (ob2 a b s) k) 0"
  using getIn_member [of s a b k] by (auto simp: bigint_or_js_get)

lemma bal_eq: "bal s addr = bigint_or (map_of (balances s) addr) 0"
  by (simp add: bal_def bigint_or_member)

lemma set_balance_views [reducer_views]:
  "balances (set_balance s addr v) = AList.update addr (JInt v) (balances s)"
  "flights (set_balance s addr v) = flights s"
  "nonces (set_balance s addr v) = nonces s"
  "val2 ''treasury'' ''collected_fees_window'' (set_balance s addr v) =
     val2 ''treasury'' ''collected_fees_window'' s"
  by (simp_all add: set_balance_def view_simps)

lemma set_flight_views [reducer_views]:
  "balances (setIn (Some s) (js ''cal'' # js ''in_flight'' # ch # p) v) = balances s"
  "flights (setIn (Some s) (js ''cal'' # js ''in_flight'' # ch # p) v) =
     AList.update ch (setIn (js_get ch (flights s)) p v) (flights s)"
  "nonces (setIn (Some s) (js ''cal'' # js ''in_flight'' # ch # p) v) = nonces s"
  "val2 ''treasury'' ''collected_fees_window'' (setIn (Some s) (js ''cal'' # js ''in_flight'' # ch # p) v) =
     val2 ''treasury'' ''collected_fees_window'' s"
  by (simp_all add: view_simps)

lemma addFees_views [reducer_views]:
  "balances (addFees s n) = balances s"
  "flights (addFees s n) = flights s"
  "nonces (addFees s n) = nonces s"
  "val2 ''treasury'' ''collected_fees_window'' (addFees s n) = Some (JInt (fees s + n))"
  by (simp_all add: addFees_def view_simps val2_def [symmetric])

lemma bumpNonce_views [reducer_views]:
  "balances (bumpNonce s agent) = balances s"
  "flights (bumpNonce s agent) = flights s"
  "nonces (bumpNonce s agent) = AList.update agent (JInt (nonce_of s agent + 1)) (nonces s)"
  "val2 ''treasury'' ''collected_fees_window'' (bumpNonce s agent) =
     val2 ''treasury'' ''collected_fees_window'' s"
  by (simp_all add: bumpNonce_def view_simps bigint_or_member)

lemma drop_flight_views [reducer_views]:
  "balances (drop_flight s ch) = balances s"
  "flights (drop_flight s ch) = AList.delete ch (flights s)"
  "nonces (drop_flight s ch) = nonces s"
  "val2 ''treasury'' ''collected_fees_window'' (drop_flight s ch) =
     val2 ''treasury'' ''collected_fees_window'' s"
  by (simp_all add: drop_flight_def view_simps)

lemma other_namespace_views [reducer_views]:
  assumes "c \<notin> {''cal'', ''ptra'', ''treasury''}"
  shows "balances (setIn (Some s) (js c # js d # p) v) = balances s"
    and "flights (setIn (Some s) (js c # js d # p) v) = flights s"
    and "nonces (setIn (Some s) (js c # js d # p) v) = nonces s"
    and "val2 ''treasury'' ''collected_fees_window'' (setIn (Some s) (js c # js d # p) v) =
      val2 ''treasury'' ''collected_fees_window'' s"
  using assms by (auto simp: view_simps)

lemma set_stage_flights [reducer_views]:
  "flights (set_stage s ch st) =
     AList.update ch (setIn (js_get ch (flights s)) [js ''stage''] (JStr (js st))) (flights s)"
  "balances (set_stage s ch st) = balances s"
  "nonces (set_stage s ch st) = nonces s"
  "val2 ''treasury'' ''collected_fees_window'' (set_stage s ch st) =
     val2 ''treasury'' ''collected_fees_window'' s"
  by (simp_all add: set_stage_def reducer_views)

lemma recomputeBounded_views [reducer_views]:
  "balances (recomputeBounded s) = balances s"
  "flights (recomputeBounded s) = flights s"
  "nonces (recomputeBounded s) = nonces s"
  "val2 ''treasury'' ''collected_fees_window'' (recomputeBounded s) =
     val2 ''treasury'' ''collected_fees_window'' s"
  by (simp_all add: recomputeBounded_def Let_def view_simps)

lemma inFlight_own:
  assumes "inFlight s ch = Some h"
  shows "map_of (flights s) ch = Some (JObj h) \<or> h = []"
proof -
  have "js_get ch (flights s) = Some (JObj h)"
    using assms getIn_member [of s "''cal''" "''in_flight''" ch]
    by (auto simp: inFlight_def split: option.splits json.splits)
  then show ?thesis by (auto simp: js_get_def split: option.splits if_splits)
qed

lemma inFlight_js_get: "inFlight s ch = Some h \<Longrightarrow> js_get ch (flights s) = Some (JObj h)"
  using getIn_member [of s "''cal''" "''in_flight''" ch]
  by (auto simp: inFlight_def split: option.splits json.splits)

lemma at_stage_own:
  "inFlight s ch = Some h \<Longrightarrow> at_stage h st \<Longrightarrow> map_of (flights s) ch = Some (JObj h)"
  using inFlight_own [of s ch h] by (auto simp: at_stage_def js_get_def split: if_splits)

lemma flight_agent_own:
  "inFlight s ch = Some h \<Longrightarrow> flight_agent h = Inr a \<Longrightarrow> map_of (flights s) ch = Some (JObj h)"
  using inFlight_own [of s ch h]
  by (auto simp: flight_agent_def js_get_def split: if_splits option.splits)

section \<open>Sums over members\<close>

definition int_of :: "json \<Rightarrow> int" where
  "int_of v = bigint_or (Some v) 0"

definition escrow_of :: "json \<Rightarrow> int" where
  "escrow_of v = (case v of JObj h \<Rightarrow> bigint_or (map_of h (js ''escrowed_ptra'')) 0 | _ \<Rightarrow> 0)"

definition sum_members :: "(json \<Rightarrow> int) \<Rightarrow> obj \<Rightarrow> int" where
  "sum_members f ob = (\<Sum>kv\<leftarrow>ob. f (snd kv))"

definition member_val :: "(json \<Rightarrow> int) \<Rightarrow> obj \<Rightarrow> jstring \<Rightarrow> int" where
  "member_val f ob k = (case map_of ob k of None \<Rightarrow> 0 | Some v \<Rightarrow> f v)"

lemma sum_members_update:
  "sum_members f (AList.update k v ob) = sum_members f ob - member_val f ob k + f v"
  by (induction ob) (auto simp: sum_members_def member_val_def)

lemma sum_members_delete:
  "distinct (map fst ob) \<Longrightarrow>
   sum_members f (AList.delete k ob) = sum_members f ob - member_val f ob k"
proof (induction ob)
  case Nil
  then show ?case by (simp add: sum_members_def member_val_def)
next
  case (Cons kv ob)
  show ?case
  proof (cases "fst kv = k")
    case True
    with Cons.prems have "AList.delete k ob = ob"
      by (auto intro!: delete_idem)
    with True show ?thesis by (simp add: sum_members_def member_val_def)
  next
    case False
    with Cons show ?thesis by (simp add: sum_members_def member_val_def split_beta)
  qed
qed

lemma member_val_int: "member_val int_of ob k = bigint_or (map_of ob k) 0"
  by (cases "map_of ob k") (auto simp: member_val_def int_of_def)

lemma int_of_JInt [simp]: "int_of (JInt n) = n"
  by (simp add: int_of_def)

text \<open>All the PTRA there is: balances, escrows of in-flight CALs, and the treasury's fee window.\<close>

definition ptra_supply :: "json \<Rightarrow> int" where
  "ptra_supply s = sum_members int_of (balances s) + sum_members escrow_of (flights s) + fees s"

section \<open>The invariant\<close>

definition live_stages :: "jstring list" where
  "live_stages = map js [''CREATED'', ''SIGNED'', ''VALIDATED'', ''EXECUTED'', ''SETTLED'']"

text \<open>
  A Delta that leaves to the reducer what it keeps books on: the in-flight records, the nonces, the balances and the fee window. It may
  write anywhere else, also in their namespaces (\<open>treasury.nav\<close>, \<open>ptra.counters\<close>). Nothing in the code enforces this: a Delta of the
  trace that sets a balance or an in-flight record is committed as it is.
\<close>

definition confined :: "json \<Rightarrow> bool" where
  "confined d \<longleftrightarrow> pred_option (\<lambda>p. spares ''cal'' ''in_flight'' p \<and> spares ''cal'' ''nonces'' p \<and>
     spares ''ptra'' ''balances'' p \<and> spares ''treasury'' ''collected_fees_window'' p) (delta_path d)"

definition event_confined :: "obj \<Rightarrow> bool" where
  "event_confined ev \<longleftrightarrow>
     (case js_get (js ''effects'') ev of Some (JArr ds) \<Rightarrow> list_all confined ds | _ \<Rightarrow> True)"

text \<open>An in-flight record: its four fields are typed, and it holds no escrow before VALIDATED.\<close>

definition flight_ok :: "json \<Rightarrow> bool" where
  "flight_ok v =
     (case v of
        JObj h \<Rightarrow>
          (case (map_of h (js ''agent_id''), map_of h (js ''stage''),
                 map_of h (js ''escrowed_ptra''), map_of h (js ''staged'')) of
             (Some (JStr a), Some (JStr st), Some (JInt e), Some (JArr ds)) \<Rightarrow>
               st \<in> set live_stages \<and> 0 \<le> e \<and>
               (st = js ''CREATED'' \<or> st = js ''SIGNED'' \<longrightarrow> e = 0) \<and> list_all confined ds
           | _ \<Rightarrow> False)
      | _ \<Rightarrow> False)"

definition agent_of :: "json \<Rightarrow> json option" where
  "agent_of v = (case v of JObj h \<Rightarrow> map_of h (js ''agent_id'') | _ \<Rightarrow> None)"

definition flights_ok :: "obj \<Rightarrow> bool" where
  "flights_ok fl \<longleftrightarrow> distinct (map fst fl) \<and> list_all (\<lambda>kv. flight_ok (snd kv)) fl \<and>
     distinct (map (\<lambda>kv. agent_of (snd kv)) fl)"

definition reducer_inv :: "json \<Rightarrow> bool" where
  "reducer_inv s \<longleftrightarrow> flights_ok (flights s)"

lemma flight_ok_iff:
  "flight_ok v \<longleftrightarrow> (\<exists>h a st e ds. v = JObj h \<and> map_of h (js ''agent_id'') = Some (JStr a) \<and>
     map_of h (js ''stage'') = Some (JStr st) \<and> map_of h (js ''escrowed_ptra'') = Some (JInt e) \<and>
     map_of h (js ''staged'') = Some (JArr ds) \<and> st \<in> set live_stages \<and> 0 \<le> e \<and>
     (st = js ''CREATED'' \<or> st = js ''SIGNED'' \<longrightarrow> e = 0) \<and> list_all confined ds)"
  unfolding flight_ok_def by (force split: json.splits option.splits)

lemma flight_okE:
  assumes "flight_ok v"
  obtains h a st e ds where "v = JObj h" "map_of h (js ''agent_id'') = Some (JStr a)"
    "map_of h (js ''stage'') = Some (JStr st)" "map_of h (js ''escrowed_ptra'') = Some (JInt e)"
    "map_of h (js ''staged'') = Some (JArr ds)" "st \<in> set live_stages" "0 \<le> e"
    "st = js ''CREATED'' \<or> st = js ''SIGNED'' \<longrightarrow> e = 0" "list_all confined ds"
  using assms unfolding flight_ok_iff by blast

lemma flight_okI:
  assumes "map_of h (js ''agent_id'') = Some (JStr a)"
    "map_of h (js ''stage'') = Some (JStr st)" "map_of h (js ''escrowed_ptra'') = Some (JInt e)"
    "map_of h (js ''staged'') = Some (JArr ds)" "st \<in> set live_stages" "0 \<le> e"
    "st = js ''CREATED'' \<or> st = js ''SIGNED'' \<Longrightarrow> e = 0" "list_all confined ds"
  shows "flight_ok (JObj h)"
  using assms by (simp add: flight_ok_def)

lemma flights_ok_member: "flights_ok fl \<Longrightarrow> map_of fl ch = Some v \<Longrightarrow> flight_ok v"
  by (auto simp: flights_ok_def list_all_iff dest!: map_of_SomeD)

lemma map_update_same:
  "map_of al k = Some v \<Longrightarrow> f v' = f v \<Longrightarrow>
   map (\<lambda>kv. f (snd kv)) (AList.update k v' al) = map (\<lambda>kv. f (snd kv)) al"
  by (induction al) (auto split: if_splits)

lemma map_update_new:
  "map_of al k = None \<Longrightarrow> AList.update k v al = al @ [(k, v)]"
  by (induction al) (auto split: if_splits)

lemma set_update_subset: "kv \<in> set (AList.update k v al) \<Longrightarrow> kv = (k, v) \<or> kv \<in> set al"
  by (induction al) (auto split: if_splits)

lemma flights_ok_update:
  assumes "flights_ok fl" "map_of fl ch = Some v" "agent_of v' = agent_of v" "flight_ok v'"
  shows "flights_ok (AList.update ch v' fl)"
  using assms map_update_same [of fl ch v agent_of v']
  by (auto simp: flights_ok_def list_all_iff distinct_update dest!: set_update_subset)

lemma flights_ok_insert:
  assumes "flights_ok fl" "map_of fl ch = None" "flight_ok v"
    "\<And>kv. kv \<in> set fl \<Longrightarrow> agent_of (snd kv) \<noteq> agent_of v"
  shows "flights_ok (AList.update ch v fl)"
proof -
  have "ch \<notin> fst ` set fl" using assms(2) by (simp add: map_of_eq_None_iff)
  moreover have "agent_of v \<notin> (\<lambda>kv. agent_of (snd kv)) ` set fl" using assms(4) by force
  ultimately show ?thesis
    using assms(1-3) by (simp add: flights_ok_def map_update_new)
qed

lemma flights_ok_delete: "flights_ok fl \<Longrightarrow> flights_ok (AList.delete ch fl)"
  by (auto simp: flights_ok_def list_all_iff AList.delete_eq distinct_map_filter)

lemma escrow_of_JObj: "map_of h (js ''escrowed_ptra'') = Some (JInt e) \<Longrightarrow> escrow_of (JObj h) = e"
  by (simp add: escrow_of_def)

section \<open>Every handler keeps the invariant and the supply\<close>

text \<open>\<open>keeps s s'\<close>: what one event must not break.\<close>

definition keeps :: "json \<Rightarrow> json \<Rightarrow> bool" where
  "keeps s s' \<longleftrightarrow> reducer_inv s' \<and> ptra_supply s' = ptra_supply s"

declare setIn_single [simp]

lemma flight_change_keeps:
  assumes inv: "reducer_inv s" and own: "map_of (flights s) ch = Some (JObj h)"
    and fl: "flights s' = AList.update ch (JObj h') (flights s)"
    and agent: "map_of h' (js ''agent_id'') = map_of h (js ''agent_id'')"
    and ok: "flight_ok (JObj h')"
    and bals: "sum_members int_of (balances s') + escrow_of (JObj h') =
      sum_members int_of (balances s) + escrow_of (JObj h)"
    and fee: "fees s' = fees s"
  shows "keeps s s'"
proof -
  have "flights_ok (flights s')"
    unfolding fl using inv own agent ok
    by (intro flights_ok_update) (auto simp: reducer_inv_def agent_of_def)
  with bals fee own show ?thesis
    by (simp add: keeps_def reducer_inv_def ptra_supply_def fl sum_members_update member_val_def)
qed

lemma flight_drop_keeps:
  assumes inv: "reducer_inv s" and own: "map_of (flights s) ch = Some v"
    and fl: "flights s' = AList.delete ch (flights s)"
    and bals: "sum_members int_of (balances s') + fees s' =
      sum_members int_of (balances s) + escrow_of v + fees s"
  shows "keeps s s'"
proof -
  have "distinct (map fst (flights s))"
    using inv by (simp add: reducer_inv_def flights_ok_def)
  with inv own bals show ?thesis
    by (simp add: keeps_def reducer_inv_def ptra_supply_def fl sum_members_delete member_val_def
        flights_ok_delete)
qed

lemma no_flight_keeps:
  assumes "reducer_inv s" "flights s' = flights s" "fees s' = fees s"
    "sum_members int_of (balances s') = sum_members int_of (balances s)"
  shows "keeps s s'"
  using assms by (simp add: keeps_def reducer_inv_def ptra_supply_def)

lemma requireFlight_Inr: "requireFlight s ch = Inr h \<longleftrightarrow> inFlight s ch = Some h"
  by (auto simp: requireFlight_def split: option.splits)

lemma at_stage_map: "at_stage h st \<longleftrightarrow> map_of h (js ''stage'') = Some (JStr (js st))"
  by (simp add: at_stage_def js_get_lit lit_key_def)

lemma flight_agent_Inr: "flight_agent h = Inr a \<longleftrightarrow> map_of h (js ''agent_id'') = Some (JStr a)"
  by (auto simp: flight_agent_def js_get_plain split: option.splits json.splits)

lemma flight_escrow_Inr: "flight_escrow h = Inr e \<longleftrightarrow> map_of h (js ''escrowed_ptra'') = Some (JInt e)"
  by (auto simp: flight_escrow_def js_get_plain split: option.splits json.splits)

lemma flight_staged_Inr: "flight_staged h = Inr ds \<longleftrightarrow> map_of h (js ''staged'') = Some (JArr ds)"
  by (auto simp: flight_staged_def js_get_plain split: option.splits json.splits)

lemma reqUint_Inr: "reqUint ev k = Inr n \<longleftrightarrow> js_get (js k) ev = Some (JInt n) \<and> 0 \<le> n \<and> n \<le> UINT256_MAX"
  by (auto simp: reqUint_def simp del: js_get_JInt split: option.splits json.splits if_splits)

lemma optUint_nonneg: "optUint ev k = Inr n \<Longrightarrow> 0 \<le> n"
  by (auto simp: optUint_def reqUint_Inr split: if_splits)

lemma live_stage [simp]:
  "js st \<in> set live_stages \<longleftrightarrow> st \<in> {''CREATED'', ''SIGNED'', ''VALIDATED'', ''EXECUTED'', ''SETTLED''}"
  by (simp add: live_stages_def)

lemma created_keeps:
  assumes "reducer_inv s" "apply_created s ev = Inr s'"
  shows "keeps s s'"
proof -
  obtain ch agent where none: "inFlight s ch = None" and idle: "\<not> agent_busy s agent"
    and s': "s' = setIn (Some s) [js ''cal'', js ''in_flight'', ch] (JObj (new_flight agent))"
    using assms(2) by (auto simp: apply_created_def split: if_splits)
  have ok: "flights_ok (flights s)" using assms(1) by (simp add: reducer_inv_def)
  have new: "map_of (flights s) ch = None"
  proof (rule ccontr)
    assume "map_of (flights s) ch \<noteq> None"
    then obtain v where v: "map_of (flights s) ch = Some v" by auto
    with flights_ok_member [OF ok] obtain h where "v = JObj h" by (blast elim: flight_okE)
    with getIn_member_own [OF v] none show False by (simp add: inFlight_def)
  qed
  have idle': "agent_of (snd kv) \<noteq> Some (JStr agent)" if "kv \<in> set (flights s)" for kv
  proof -
    have "flight_ok (snd kv)" using ok that by (auto simp: flights_ok_def list_all_iff)
    then obtain h where h: "snd kv = JObj h" by (blast elim: flight_okE)
    have "getIn (Some s) [js ''cal'', js ''in_flight''] = Some (JObj (flights s))"
    proof (rule ccontr)
      assume "getIn (Some s) [js ''cal'', js ''in_flight''] \<noteq> Some (JObj (flights s))"
      then have "flights s = []"
        by (cases "getIn (Some s) [js ''cal'', js ''in_flight'']" rule: plain_members.cases)
           (auto simp: ob2_def)
      with that show False by simp
    qed
    then have "js_get (js ''agent_id'') h \<noteq> Some (JStr agent)"
      using idle that h by (force simp: agent_busy_def)
    with h show ?thesis by (auto simp: agent_of_def js_get_own)
  qed
  have "flight_ok (JObj (new_flight agent))"
    by (intro flight_okI [of _ agent "js ''CREATED''" 0 "[]"]) (simp_all add: new_flight_def)
  then have "flights_ok (flights s')"
    unfolding s' using ok new idle'
    by (simp add: reducer_views, intro flights_ok_insert) (auto simp: agent_of_def new_flight_def)
  with new show ?thesis
    by (simp add: keeps_def reducer_inv_def ptra_supply_def s' reducer_views sum_members_update
        member_val_def escrow_of_def new_flight_def)
qed

lemma live_flight:
  assumes "reducer_inv s" "map_of (flights s) ch = Some (JObj h)"
  obtains a st e ds where "map_of h (js ''agent_id'') = Some (JStr a)"
    "map_of h (js ''stage'') = Some (JStr st)" "map_of h (js ''escrowed_ptra'') = Some (JInt e)"
    "map_of h (js ''staged'') = Some (JArr ds)" "st \<in> set live_stages" "0 \<le> e"
    "st = js ''CREATED'' \<or> st = js ''SIGNED'' \<longrightarrow> e = 0" "list_all confined ds"
  using assms flights_ok_member [of "flights s" ch "JObj h"]
  by (auto simp: reducer_inv_def elim!: flight_okE)

lemma stage_keeps:
  assumes "reducer_inv s" and own: "map_of (flights s) ch = Some (JObj h)"
    and "js st \<in> set live_stages"
    and "st \<in> {''CREATED'', ''SIGNED''} \<Longrightarrow> at_stage h ''CREATED'' \<or> at_stage h ''SIGNED''"
  shows "keeps s (set_stage s ch st)"
proof -
  from assms(1,2) obtain a st0 e ds where h: "map_of h (js ''agent_id'') = Some (JStr a)"
    "map_of h (js ''stage'') = Some (JStr st0)" "map_of h (js ''escrowed_ptra'') = Some (JInt e)"
    "map_of h (js ''staged'') = Some (JArr ds)" "0 \<le> e"
    "st0 = js ''CREATED'' \<or> st0 = js ''SIGNED'' \<longrightarrow> e = 0" "list_all confined ds"
    by (rule live_flight)
  have "flight_ok (JObj (AList.update (js ''stage'') (JStr (js st)) h))"
    using h assms(3,4) by (intro flight_okI [of _ a "js st" e ds]) (auto simp: at_stage_map)
  then show ?thesis
    using assms(1) own h(3)
    by (intro flight_change_keeps [where ch = ch and h = h
          and h' = "AList.update (js ''stage'') (JStr (js st)) h"])
       (simp_all add: reducer_views js_get_own escrow_of_def)
qed

lemma signed_keeps:
  "reducer_inv s \<Longrightarrow> apply_signed s ev = Inr s' \<Longrightarrow> keeps s s'"
  by (auto simp: apply_signed_def requireFlight_Inr at_stage_own intro!: stage_keeps split: if_splits)

lemma settled_keeps:
  "reducer_inv s \<Longrightarrow> apply_settled s ev = Inr s' \<Longrightarrow> keeps s s'"
  by (auto simp: apply_settled_def requireFlight_Inr at_stage_own intro!: stage_keeps split: if_splits)

lemma flight_write:
  "map_of (flights s) ch = Some (JObj h) \<Longrightarrow>
   flights (setIn (Some s) [js ''cal'', js ''in_flight'', ch, k] v) =
     AList.update ch (JObj (AList.update k v h)) (flights s)"
  by (simp add: reducer_views js_get_own)

lemma set_stage_flight:
  "map_of (flights s) ch = Some (JObj h) \<Longrightarrow>
   flights (set_stage s ch st) =
     AList.update ch (JObj (AList.update (js ''stage'') (JStr (js st)) h)) (flights s)"
  by (simp add: set_stage_def flight_write)

lemma validated_keeps:
  assumes "reducer_inv s" "apply_validated s ev = Inr s'"
  shows "keeps s s'"
proof -
  from assms(2) obtain ch h agent n where fl: "inFlight s ch = Some h" "at_stage h ''SIGNED''"
    and n: "0 \<le> n"
    and s': "s' = set_stage (setIn (Some (set_balance s agent (bal s agent - n)))
      [js ''cal'', js ''in_flight'', ch, js ''escrowed_ptra''] (JInt n)) ch ''VALIDATED''"
    by (auto simp: apply_validated_def requireFlight_Inr reqUint_Inr Let_def simp del: js_get_JInt
        split: if_splits)
  have own: "map_of (flights s) ch = Some (JObj h)" by (rule at_stage_own [OF fl])
  from assms(1) own obtain a st0 e ds where h: "map_of h (js ''agent_id'') = Some (JStr a)"
    "map_of h (js ''stage'') = Some (JStr st0)" "map_of h (js ''escrowed_ptra'') = Some (JInt e)"
    "map_of h (js ''staged'') = Some (JArr ds)"
    "st0 = js ''CREATED'' \<or> st0 = js ''SIGNED'' \<longrightarrow> e = 0" "list_all confined ds"
    by (rule live_flight)
  with fl have e: "e = 0" by (simp add: at_stage_map)
  let ?h = "AList.update (js ''stage'') (JStr (js ''VALIDATED''))
    (AList.update (js ''escrowed_ptra'') (JInt n) h)"
  have ok: "flight_ok (JObj ?h)"
    using h n by (intro flight_okI [of _ a "js ''VALIDATED''" n ds]) simp_all
  show ?thesis
    by (rule flight_change_keeps [OF assms(1) own, of s' ?h])
       (use own h e ok in \<open>simp_all add: s' set_stage_flight flight_write reducer_views
          sum_members_update member_val_int bal_eq escrow_of_def js_get_own\<close>)
qed

lemma executed_keeps:
  assumes "reducer_inv s" "apply_executed s ev = Inr s'" "event_confined ev"
  shows "keeps s s'"
proof -
  from assms(2) obtain ch h effects g where fl: "inFlight s ch = Some h" "at_stage h ''VALIDATED''"
    and eff: "js_get (js ''effects'') ev = Some (JArr effects)"
    and s': "s' = set_stage (setIn (Some (setIn (Some s)
        [js ''cal'', js ''in_flight'', ch, js ''staged''] (JArr effects)))
        [js ''cal'', js ''in_flight'', ch, js ''gas_consumed_ptra''] (JInt g)) ch ''EXECUTED''"
    by (auto simp: apply_executed_def requireFlight_Inr Let_def split: if_splits option.splits json.splits)
  have own: "map_of (flights s) ch = Some (JObj h)" by (rule at_stage_own [OF fl])
  from assms(1) own obtain a st0 e ds where h: "map_of h (js ''agent_id'') = Some (JStr a)"
    "map_of h (js ''stage'') = Some (JStr st0)" "map_of h (js ''escrowed_ptra'') = Some (JInt e)"
    "map_of h (js ''staged'') = Some (JArr ds)" "0 \<le> e"
    "st0 = js ''CREATED'' \<or> st0 = js ''SIGNED'' \<longrightarrow> e = 0" "list_all confined ds"
    by (rule live_flight)
  let ?h = "AList.update (js ''stage'') (JStr (js ''EXECUTED''))
    (AList.update (js ''gas_consumed_ptra'') (JInt g) (AList.update (js ''staged'') (JArr effects) h))"
  have ok: "flight_ok (JObj ?h)"
    using h assms(3) eff
    by (intro flight_okI [of _ a "js ''EXECUTED''" e effects]) (simp_all add: event_confined_def)
  show ?thesis
    by (rule flight_change_keeps [OF assms(1) own, of s' ?h])
       (use own h ok in \<open>simp_all add: s' set_stage_flight flight_write reducer_views escrow_of_def js_get_own\<close>)
qed

lemma settle_escrow_views:
  assumes "settle_escrow s agent e r = Inr s'" "0 \<le> r"
  shows "r \<le> e" "flights s' = flights s" "nonces s' = nonces s"
    "sum_members int_of (balances s') = sum_members int_of (balances s) + r"
    "fees s' = fees s + (e - r)"
  using assms
  by (auto simp: settle_escrow_def Let_def reducer_views sum_members_update member_val_int bal_eq
      split: if_splits)

lemma staged_deltas_views:
  assumes "apply_deltas s ds = Inr s'" "list_all confined ds"
  shows "flights s' = flights s" "balances s' = balances s" "nonces s' = nonces s"
    "val2 ''treasury'' ''collected_fees_window'' s' = val2 ''treasury'' ''collected_fees_window'' s"
  using assms(2)
  by (auto intro!: apply_deltas_spared [OF assms(1)] simp: confined_def list_all_iff option.pred_set)

lemma finalized_keeps:
  assumes "reducer_inv s" "apply_finalized s ev = Inr s'"
  shows "keeps s s'"
proof -
  from assms(2) obtain ch h agent e r ds s1 s2 where
    fl: "inFlight s ch = Some h" "at_stage h ''SETTLED''"
    and f: "map_of h (js ''escrowed_ptra'') = Some (JInt e)" "optUint ev ''gas_refunded_ptra'' = Inr r"
      "map_of h (js ''staged'') = Some (JArr ds)" "apply_deltas s ds = Inr s1"
      "settle_escrow s1 agent e r = Inr s2"
    and s': "s' = drop_flight (bumpNonce s2 agent) ch"
    by (auto simp: apply_finalized_def requireFlight_Inr flight_escrow_Inr flight_staged_Inr
        simp del: js_get_JInt split: if_splits)
  have own: "map_of (flights s) ch = Some (JObj h)" by (rule at_stage_own [OF fl])
  from assms(1) own obtain ds' where "map_of h (js ''staged'') = Some (JArr ds')" "list_all confined ds'"
    by (rule live_flight)
  with f have "list_all confined ds" by simp
  with f show ?thesis
    using settle_escrow_views [OF f(5) optUint_nonneg [OF f(2)]] staged_deltas_views [OF f(4)]
    by (intro flight_drop_keeps [OF assms(1) own]) (simp_all add: s' reducer_views escrow_of_def)
qed

lemma failed_keeps:
  assumes "reducer_inv s" "apply_failed s ev = Inr s'"
  shows "keeps s s'"
proof -
  from assms(2) obtain ch h agent s1 where fl: "inFlight s ch = Some h" "flight_agent h = Inr agent"
    and s1: "(if at_stage h ''CREATED'' \<or> at_stage h ''SIGNED'' then
          and_then (optUint ev ''fee_debited_ptra'') (\<lambda>chargeNow.
            if bal s agent < chargeNow then Inl (Apply INSUFFICIENT_BALANCE)
            else Inr (addFees
              (if chargeNow > 0 then set_balance s agent (bal s agent - chargeNow) else s) chargeNow))
        else
          and_then (flight_escrow h) (\<lambda>escrowed.
          and_then (optUint ev ''gas_refunded_ptra'') (\<lambda>refund.
            settle_escrow s agent escrowed refund))) = Inr s1"
    and s': "s' = drop_flight (bumpNonce s1 agent) ch"
    by (auto simp: apply_failed_def requireFlight_Inr simp del: if_split)
  have own: "map_of (flights s) ch = Some (JObj h)" by (rule flight_agent_own [OF fl])
  from assms(1) own obtain st e where h: "map_of h (js ''stage'') = Some (JStr st)"
    "map_of h (js ''escrowed_ptra'') = Some (JInt e)"
    "st = js ''CREATED'' \<or> st = js ''SIGNED'' \<longrightarrow> e = 0"
    by (rule live_flight)
  have "flights s1 = flights s \<and>
    sum_members int_of (balances s1) + fees s1 = sum_members int_of (balances s) + e + fees s"
  proof (cases "at_stage h ''CREATED'' \<or> at_stage h ''SIGNED''")
    case True
    with h have "e = 0" by (auto simp: at_stage_map)
    with True s1 show ?thesis
      by (auto simp: reducer_views sum_members_update member_val_int bal_eq dest: optUint_nonneg
          split: if_splits)
  next
    case False
    with s1 h obtain r where r: "settle_escrow s agent e r = Inr s1" "0 \<le> r"
      by (auto simp: flight_escrow_Inr dest: optUint_nonneg)
    from settle_escrow_views [OF r] show ?thesis by simp
  qed
  then show ?thesis
    using h by (intro flight_drop_keeps [OF assms(1) own]) (simp_all add: s' reducer_views escrow_of_def)
qed

lemma transferred_keeps:
  assumes "reducer_inv s" "apply_transferred s ev = Inr s'"
  shows "keeps s s'"
  using assms
  by (intro no_flight_keeps)
     (auto simp: apply_transferred_def Let_def reducer_views sum_members_update member_val_int bal_eq
      split: if_splits)

lemma shadow_init_keeps:
  assumes "reducer_inv s" "apply_shadow_init s ev = Inr s'"
  shows "keeps s s'"
proof (rule no_flight_keeps [OF assms(1)])
  show "sum_members int_of (balances s') = sum_members int_of (balances s)"
    using assms(2) getIn_member_own [of "''ptra''" "''balances''" s]
    by (auto simp: apply_shadow_init_def reducer_views sum_members_update member_val_def
        split: if_splits option.splits)
qed (use assms(2) in \<open>auto simp: apply_shadow_init_def reducer_views split: if_splits\<close>)

lemma feed_submitted_keeps:
  assumes "reducer_inv s" "apply_feed_submitted s ev = Inr s'"
  shows "keeps s s'"
  using assms
  by (intro no_flight_keeps) (auto simp: apply_feed_submitted_def reducer_views)

lemma apply_tick_advanced_Inr:
  "apply_tick_advanced s ev = Inr s' \<longleftrightarrow> (\<exists>n cur. reqUint ev ''new_tick'' = Inr n \<and>
     val2 ''tick'' ''current'' s = Some (JInt cur) \<and> cur < n \<and>
     s' = recomputeBounded (setIn (Some s) [js ''tick'', js ''current''] (JInt n)))"
proof (cases "\<exists>cur. val2 ''tick'' ''current'' s = Some (JInt cur)")
  case True
  then show ?thesis by (auto simp: apply_tick_advanced_def val2_def split: if_splits)
next
  case False
  then have "apply_tick_advanced s ev = and_then (reqUint ev ''new_tick'') (\<lambda>_. Inl (Apply BAD_TICK))"
    by (auto simp: apply_tick_advanced_def val2_def intro!: and_then_cong split: option.splits json.splits)
  with False show ?thesis by auto
qed

lemma tick_advanced_keeps:
  assumes "reducer_inv s" "apply_tick_advanced s ev = Inr s'"
  shows "keeps s s'"
  using assms unfolding apply_tick_advanced_Inr
  by (intro no_flight_keeps) (auto simp: reducer_views)

lemma if_resE:
  assumes "(if b then x else y) = Inr z"
  obtains "b" "x = Inr z" | "\<not> b" "y = Inr z"
  using assms by (cases b) auto

abbreviation has_type :: "obj \<Rightarrow> string \<Rightarrow> bool" where
  "has_type ev ty \<equiv> js_get (js ''event_type'') ev = Some (JStr (js ty))"

lemma applyEventE:
  assumes "applyEvent s ev = Inr s'"
  obtains (created) "has_type ev ''cal.created''" "apply_created s ev = Inr s'"
    | (signed) "has_type ev ''cal.signed''" "apply_signed s ev = Inr s'"
    | (validated) "has_type ev ''cal.validated''" "apply_validated s ev = Inr s'"
    | (executed) "has_type ev ''cal.executed''" "apply_executed s ev = Inr s'"
    | (settled) "has_type ev ''cal.settled''" "apply_settled s ev = Inr s'"
    | (finalized) "has_type ev ''cal.finalized''" "apply_finalized s ev = Inr s'"
    | (failed) "has_type ev ''cal.failed'' \<or> has_type ev ''cal.expired''" "apply_failed s ev = Inr s'"
    | (transferred) "has_type ev ''ptra.transferred''" "apply_transferred s ev = Inr s'"
    | (shadow_init) "has_type ev ''ptra.shadow_init''" "apply_shadow_init s ev = Inr s'"
    | (feed) "has_type ev ''oracle.feed_submitted''" "apply_feed_submitted s ev = Inr s'"
    | (tick) "has_type ev ''tick.advanced''" "apply_tick_advanced s ev = Inr s'"
proof (cases "js_get (js ''event_type'') ev")
  case (Some v)
  show ?thesis
  proof (cases v)
    case (JStr ty)
    have ev: "js_get (js ''event_type'') ev = Some (JStr ty)" using Some JStr by simp
    from assms show ?thesis
      unfolding applyEvent_def ev option.case json.case
      by (elim if_resE) (use ev that in \<open>blast+\<close>)
  qed (use assms Some in \<open>auto simp: applyEvent_def\<close>)
qed (use assms in \<open>auto simp: applyEvent_def\<close>)

lemma applyEvent_keeps:
  assumes "reducer_inv s" "applyEvent s ev = Inr s'" "event_confined ev"
  shows "keeps s s'"
  using assms(2)
  by (cases rule: applyEventE)
     (blast intro: created_keeps signed_keeps validated_keeps executed_keeps settled_keeps
        finalized_keeps failed_keeps transferred_keeps shadow_init_keeps feed_submitted_keeps
        tick_advanced_keeps assms)+

end
