(* ===== verification/Cal_Lifecycle.thy ===== *)
theory Cal_Lifecycle
  imports Prelude
begin

text \<open>
  \<^verbatim>\<open>cal/src/lifecycle.ts\<close> and \<^verbatim>\<open>cal/src/events.ts\<close>: the stages of a CAL, the event type of each
  transition, the closed set of failure reasons, and the receipts. The unions of string literals
  \<open>Stage\<close> and \<open>EventType\<close> are datatypes, with the strings they stand for in \<open>stage_name\<close> and
  \<open>event_name\<close>.
\<close>

section \<open>Stages and transitions\<close>

datatype stage = CREATED | SIGNED | VALIDATED | EXECUTED | SETTLED | FINALIZED | FAILED | EXPIRED

definition STAGES :: "stage list" where
  "STAGES = [CREATED, SIGNED, VALIDATED, EXECUTED, SETTLED, FINALIZED, FAILED, EXPIRED]"

fun stage_name :: "stage \<Rightarrow> string" where
  "stage_name CREATED = ''CREATED''"
| "stage_name SIGNED = ''SIGNED''"
| "stage_name VALIDATED = ''VALIDATED''"
| "stage_name EXECUTED = ''EXECUTED''"
| "stage_name SETTLED = ''SETTLED''"
| "stage_name FINALIZED = ''FINALIZED''"
| "stage_name FAILED = ''FAILED''"
| "stage_name EXPIRED = ''EXPIRED''"

definition TERMINAL_STAGES :: "stage list" where
  "TERMINAL_STAGES = [FINALIZED, FAILED, EXPIRED]"

definition isTerminal :: "stage \<Rightarrow> bool" where
  "isTerminal st \<longleftrightarrow> st \<in> set TERMINAL_STAGES"

datatype event_type =
    cal_created | cal_signed | cal_validated | cal_executed | cal_settled | cal_finalized
  | cal_failed | cal_expired

definition EVENT_TYPES :: "event_type list" where
  "EVENT_TYPES = [cal_created, cal_signed, cal_validated, cal_executed, cal_settled, cal_finalized,
     cal_failed, cal_expired]"

fun event_name :: "event_type \<Rightarrow> string" where
  "event_name cal_created = ''cal.created''"
| "event_name cal_signed = ''cal.signed''"
| "event_name cal_validated = ''cal.validated''"
| "event_name cal_executed = ''cal.executed''"
| "event_name cal_settled = ''cal.settled''"
| "event_name cal_finalized = ''cal.finalized''"
| "event_name cal_failed = ''cal.failed''"
| "event_name cal_expired = ''cal.expired''"

definition REASON_CODES :: "jstring list" where
  "REASON_CODES = map js [''PRECOND_FALSE'', ''PRECOND_ERROR'', ''CAPABILITY_DENIED'',
     ''NONCE_MISMATCH'', ''STEP_ERROR'', ''POSTCOND_FALSE'', ''INVARIANT_FALSE'', ''OUT_OF_GAS'',
     ''UNKNOWN_ACTION'', ''BOUNDED_BLOCKED'', ''SCHEMA_MISMATCH'', ''CANCELLED'']"

definition isReasonCode :: "jstring \<Rightarrow> bool" where
  "isReasonCode s \<longleftrightarrow> s \<in> set REASON_CODES"

text \<open>The table's key \<open>a->b\<close> is the pair; \<open>None\<close> is the source stage \<open>*\<close>.\<close>

definition HAPPY_PATH :: "((stage option \<times> stage) \<times> event_type) list" where
  "HAPPY_PATH =
    [((None, CREATED), cal_created),
     ((Some CREATED, SIGNED), cal_signed),
     ((Some SIGNED, VALIDATED), cal_validated),
     ((Some VALIDATED, EXECUTED), cal_executed),
     ((Some EXECUTED, SETTLED), cal_settled),
     ((Some SETTLED, FINALIZED), cal_finalized)]"

definition transitionEventType :: "stage option \<Rightarrow> stage \<Rightarrow> event_type option" where
  "transitionEventType from to =
     (let nonTerminal = (case from of None \<Rightarrow> True | Some st \<Rightarrow> \<not> isTerminal st)
      in if to = FAILED then (if nonTerminal then Some cal_failed else None)
         else if to = EXPIRED then (if nonTerminal then Some cal_expired else None)
         else map_of HAPPY_PATH (from, to))"

section \<open>Receipts\<close>

record finalized_receipt =
  fr_calHash :: jstring
  fr_agentId :: jstring
  fr_nonce :: int
  fr_tickFinalized :: int
  fr_stateRootBefore :: jstring
  fr_stateRootAfter :: jstring
  fr_gasConsumedPtra :: int
  fr_tonIngressFeePaid :: int
  fr_stepsApplied :: int
  fr_invariantsChecked :: int

definition buildFinalized :: "finalized_receipt \<Rightarrow> obj" where
  "buildFinalized r =
    [(js ''event_type'', JStr (js ''cal.finalized'')),
     (js ''cal_hash'', JStr (fr_calHash r)),
     (js ''agent_id'', JStr (fr_agentId r)),
     (js ''nonce'', JInt (fr_nonce r)),
     (js ''tick_finalized'', JInt (fr_tickFinalized r)),
     (js ''state_root_before'', JStr (fr_stateRootBefore r)),
     (js ''state_root_after'', JStr (fr_stateRootAfter r)),
     (js ''gas_consumed_ptra'', JInt (fr_gasConsumedPtra r)),
     (js ''ton_ingress_fee_paid'', JInt (fr_tonIngressFeePaid r)),
     (js ''steps_applied'', JInt (fr_stepsApplied r)),
     (js ''invariants_checked'', JInt (fr_invariantsChecked r))]"

record negative_receipt =
  nr_expired :: bool
  nr_calHash :: jstring
  nr_agentId :: jstring
  nr_nonce :: int
  nr_tick :: int
  nr_reasonCode :: jstring
  nr_reasonDetail :: jstring
  nr_gasConsumedPtra :: int
  nr_tonIngressFeePaid :: int

definition buildNegative :: "negative_receipt \<Rightarrow> obj" where
  "buildNegative r =
    [(js ''event_type'', JStr (js (event_name (if nr_expired r then cal_expired else cal_failed)))),
     (js ''cal_hash'', JStr (nr_calHash r)),
     (js ''agent_id'', JStr (nr_agentId r)),
     (js ''nonce'', JInt (nr_nonce r)),
     (js (if nr_expired r then ''tick_expired'' else ''tick_failed''), JInt (nr_tick r)),
     (js ''reason_code'', JStr (nr_reasonCode r)),
     (js ''reason_detail'', JStr (nr_reasonDetail r)),
     (js ''gas_consumed_ptra'', JInt (nr_gasConsumedPtra r)),
     (js ''ton_ingress_fee_paid'', JInt (nr_tonIngressFeePaid r))]"

section \<open>Facts about the transition table\<close>

text \<open>How far a stage is along the path; an absent CAL is at 0.\<close>

fun stage_rank :: "stage option \<Rightarrow> nat" where
  "stage_rank None = 0"
| "stage_rank (Some CREATED) = 1"
| "stage_rank (Some SIGNED) = 2"
| "stage_rank (Some VALIDATED) = 3"
| "stage_rank (Some EXECUTED) = 4"
| "stage_rank (Some SETTLED) = 5"
| "stage_rank (Some _) = 6"

lemma stage_name_inject [simp]: "stage_name a = stage_name b \<longleftrightarrow> a = b"
  by (cases a; cases b) simp_all

lemma event_name_inject [simp]: "event_name a = event_name b \<longleftrightarrow> a = b"
  by (cases a; cases b) simp_all

lemma transition_terminal: "isTerminal st \<Longrightarrow> transitionEventType (Some st) to = None"
  by (cases st; cases to) (simp_all add: transitionEventType_def isTerminal_def TERMINAL_STAGES_def HAPPY_PATH_def)

lemma transition_advances:
  "transitionEventType from to = Some ty \<Longrightarrow> stage_rank from < stage_rank (Some to)"
  by (cases "from" rule: stage_rank.cases; cases to)
     (simp_all add: transitionEventType_def isTerminal_def TERMINAL_STAGES_def HAPPY_PATH_def)

text \<open>The event type determines the stage it leads to.\<close>

fun target_stage :: "event_type \<Rightarrow> stage" where
  "target_stage cal_created = CREATED"
| "target_stage cal_signed = SIGNED"
| "target_stage cal_validated = VALIDATED"
| "target_stage cal_executed = EXECUTED"
| "target_stage cal_settled = SETTLED"
| "target_stage cal_finalized = FINALIZED"
| "target_stage cal_failed = FAILED"
| "target_stage cal_expired = EXPIRED"

lemma transition_target: "transitionEventType from to = Some ty \<Longrightarrow> to = target_stage ty"
  by (cases "from" rule: stage_rank.cases; cases to)
     (auto simp: transitionEventType_def isTerminal_def TERMINAL_STAGES_def HAPPY_PATH_def)

end
