(* ===== verification/Reducer_Funds.thy ===== *)
theory Reducer_Funds
  imports Reducer_Inv Cal_Lifecycle
begin

text \<open>
  More that the reducer keeps true, on top of \<open>reducer_inv\<close>: no balance is ever negative or above the
  supply, an agent's nonce counts the CALs it has closed, and a CAL moves through its stages as the
  table of \<^verbatim>\<open>cal/src/lifecycle.ts\<close> says.
\<close>

section \<open>Funds\<close>

definition funds_ok :: "json \<Rightarrow> bool" where
  "funds_ok s \<longleftrightarrow> list_all (\<lambda>kv. 0 \<le> int_of (snd kv)) (balances s) \<and> 0 \<le> fees s"

lemma funds_ok_bal: "funds_ok s \<Longrightarrow> 0 \<le> bal s a"
proof -
  assume f: "funds_ok s"
  have "0 \<le> int_of v" if "map_of (balances s) a = Some v" for v
    using f map_of_SomeD [OF that] by (auto simp: funds_ok_def list_all_iff)
  then show ?thesis
    by (cases "map_of (balances s) a") (auto simp: bal_eq int_of_def)
qed

lemma funds_ok_set_balance: "funds_ok s \<Longrightarrow> 0 \<le> v \<Longrightarrow> funds_ok (set_balance s a v)"
  by (auto simp: funds_ok_def list_all_iff reducer_views dest!: set_update_subset)

lemma funds_ok_addFees: "funds_ok s \<Longrightarrow> 0 \<le> v \<Longrightarrow> funds_ok (addFees s v)"
  by (simp add: funds_ok_def reducer_views)

lemma funds_ok_cong:
  "balances s' = balances s \<Longrightarrow> val2 ''treasury'' ''collected_fees_window'' s' =
     val2 ''treasury'' ''collected_fees_window'' s \<Longrightarrow> funds_ok s' = funds_ok s"
  by (simp add: funds_ok_def)

lemmas funds_ok_intros = funds_ok_set_balance funds_ok_addFees

lemma funds_ok_other [simp]:
  "funds_ok (drop_flight s ch) = funds_ok s" "funds_ok (bumpNonce s a) = funds_ok s"
  "funds_ok (set_stage s ch st) = funds_ok s" "funds_ok (recomputeBounded s) = funds_ok s"
  "funds_ok (setIn (Some s) (js ''cal'' # js ''in_flight'' # ch # p) v) = funds_ok s"
  by (simp_all add: funds_ok_def reducer_views)

lemma settle_escrow_funds:
  "settle_escrow s a e r = Inr s' \<Longrightarrow> 0 \<le> r \<Longrightarrow> funds_ok s \<Longrightarrow> funds_ok s'"
  using funds_ok_bal [of s a]
  by (auto simp: settle_escrow_def Let_def intro!: funds_ok_intros split: if_splits)

lemma finalized_Inr:
  assumes "reducer_inv s" "apply_finalized s ev = Inr s'"
  obtains ch h agent e r ds s1 s2 where "reqStr ev ''cal_hash'' = Inr ch"
    "inFlight s ch = Some h" "at_stage h ''SETTLED''" "map_of (flights s) ch = Some (JObj h)"
    "map_of h (js ''agent_id'') = Some (JStr agent)"
    "map_of h (js ''escrowed_ptra'') = Some (JInt e)" "optUint ev ''gas_refunded_ptra'' = Inr r"
    "map_of h (js ''staged'') = Some (JArr ds)" "list_all confined ds"
    "apply_deltas s ds = Inr s1" "settle_escrow s1 agent e r = Inr s2"
    "s' = drop_flight (bumpNonce s2 agent) ch"
proof -
  from assms(2) obtain ch h agent e r ds s1 s2 where
    fl: "reqStr ev ''cal_hash'' = Inr ch" "inFlight s ch = Some h" "at_stage h ''SETTLED''"
      "map_of h (js ''agent_id'') = Some (JStr agent)"
    and f: "map_of h (js ''escrowed_ptra'') = Some (JInt e)" "optUint ev ''gas_refunded_ptra'' = Inr r"
      "map_of h (js ''staged'') = Some (JArr ds)" "apply_deltas s ds = Inr s1"
      "settle_escrow s1 agent e r = Inr s2"
    and s': "s' = drop_flight (bumpNonce s2 agent) ch"
    by (auto simp: apply_finalized_def requireFlight_Inr flight_escrow_Inr flight_staged_Inr
        flight_agent_Inr simp del: js_get_JInt split: if_splits)
  have own: "map_of (flights s) ch = Some (JObj h)" by (rule at_stage_own [OF fl(2,3)])
  from assms(1) own obtain ds' where "map_of h (js ''staged'') = Some (JArr ds')" "list_all confined ds'"
    by (rule live_flight)
  with f have "list_all confined ds" by simp
  with fl f s' own show ?thesis by (intro that)
qed

lemma failed_Inr:
  assumes "reducer_inv s" "apply_failed s ev = Inr s'"
  obtains ch h agent s1 where "reqStr ev ''cal_hash'' = Inr ch"
    "map_of (flights s) ch = Some (JObj h)" "map_of h (js ''agent_id'') = Some (JStr agent)"
    "s' = drop_flight (bumpNonce s1 agent) ch" "nonces s1 = nonces s" "flights s1 = flights s"
    "funds_ok s \<Longrightarrow> funds_ok s1"
proof -
  from assms(2) obtain ch h agent s1 where fl: "reqStr ev ''cal_hash'' = Inr ch"
    "inFlight s ch = Some h" "flight_agent h = Inr agent"
    and s1: "(if at_stage h ''CREATED'' \<or> at_stage h ''SIGNED'' then
          and_then (optUint ev ''fee_debited_ptra'') (\<lambda>chargeNow.
            if bal s agent < chargeNow then Inl (Apply INSUFFICIENT_BALANCE)
            else Inr (addFees
              (if chargeNow > 0 then set_balance s agent (bal s agent - chargeNow) else s) chargeNow))
        else
          and_then (flight_escrow h) (\<lambda>escrowed.
          and_then (optUint ev ''gas_refunded_ptra'') (\<lambda>refund.
            settle_escrow s agent escrowed refund))) = Inr s1"
    and s': "s' = drop_flight (bumpNonce s1 agent) ch"
    by (auto simp: apply_failed_def requireFlight_Inr simp del: if_split)
  have own: "map_of (flights s) ch = Some (JObj h)" by (rule flight_agent_own [OF fl(2,3)])
  have "nonces s1 = nonces s \<and> flights s1 = flights s \<and> (funds_ok s \<longrightarrow> funds_ok s1)"
  proof (cases "at_stage h ''CREATED'' \<or> at_stage h ''SIGNED''")
    case True
    with s1 show ?thesis
      by (auto simp: reducer_views dest: optUint_nonneg intro!: funds_ok_intros split: if_splits)
  next
    case False
    with s1 obtain e r where r: "settle_escrow s agent e r = Inr s1" "0 \<le> r"
      by (auto dest: optUint_nonneg)
    from settle_escrow_views [OF r] settle_escrow_funds [OF r] show ?thesis by simp
  qed
  with fl own s' show ?thesis by (intro that [of ch h agent s1]) (simp_all add: flight_agent_Inr)
qed

lemma transferred_Inr:
  assumes "apply_transferred s ev = Inr s'"
  obtains x y n where "0 \<le> n" "n \<le> bal s x"
    "s' = (let s1 = set_balance s x (bal s x - n) in set_balance s1 y (bal s1 y + n))"
  using assms
  by (auto simp: apply_transferred_def reqUint_Inr not_less Let_def simp del: js_get_JInt split: if_splits)

lemma applyEvent_funds:
  assumes inv: "reducer_inv s" and ok: "applyEvent s ev = Inr s'" and f: "funds_ok s"
  shows "funds_ok s'"
  using ok
proof (cases rule: applyEventE)
  case created
  with f show ?thesis by (auto simp: apply_created_def split: if_splits)
next
  case signed
  with f show ?thesis by (auto simp: apply_signed_def split: if_splits)
next
  case validated
  with f show ?thesis
    by (auto simp: apply_validated_def Let_def intro!: funds_ok_intros split: if_splits)
next
  case executed
  with f show ?thesis
    by (auto simp: apply_executed_def Let_def split: if_splits option.splits json.splits)
next
  case settled
  with f show ?thesis by (auto simp: apply_settled_def split: if_splits)
next
  case finalized
  from inv this(2) obtain ch agent e r ds s1 s2 where
    r: "optUint ev ''gas_refunded_ptra'' = Inr r"
    and d: "list_all confined ds" "apply_deltas s ds = Inr s1"
    and s2: "settle_escrow s1 agent e r = Inr s2"
    and s': "s' = drop_flight (bumpNonce s2 agent) ch"
    by (rule finalized_Inr) blast
  have "funds_ok s1" using f staged_deltas_views [OF d(2,1)] by (simp add: funds_ok_def)
  with settle_escrow_funds [OF s2 optUint_nonneg [OF r]] s' show ?thesis by simp
next
  case failed
  from inv this(2) obtain ch agent s1 where "s' = drop_flight (bumpNonce s1 agent) ch"
    "funds_ok s \<Longrightarrow> funds_ok s1"
    by (rule failed_Inr) blast
  with f show ?thesis by simp
next
  case transferred
  from this(2) obtain x y n where n: "0 \<le> n" "n \<le> bal s x"
    and s': "s' = (let s1 = set_balance s x (bal s x - n) in set_balance s1 y (bal s1 y + n))"
    by (rule transferred_Inr)
  then have s1: "funds_ok (set_balance s x (bal s x - n))"
    using f by (simp add: funds_ok_set_balance)
  with n funds_ok_bal [OF s1, of y] show ?thesis
    unfolding s' Let_def by (intro funds_ok_set_balance [OF s1]) simp_all
next
  case shadow_init
  with f show ?thesis by (auto simp: apply_shadow_init_def intro!: funds_ok_intros split: if_splits)
next
  case feed
  with f show ?thesis by (auto simp: apply_feed_submitted_def funds_ok_def reducer_views)
next
  case tick
  with f show ?thesis by (auto simp: apply_tick_advanced_Inr funds_ok_def reducer_views)
qed

lemma sum_members_nonneg: "list_all (\<lambda>kv. 0 \<le> f (snd kv)) ob \<Longrightarrow> 0 \<le> sum_members f ob"
  by (induction ob) (auto simp: sum_members_def)

lemma member_le_sum:
  "list_all (\<lambda>kv. 0 \<le> f (snd kv)) ob \<Longrightarrow> map_of ob k = Some v \<Longrightarrow> f v \<le> sum_members f ob"
  by (induction ob)
     (auto simp: sum_members_def split: if_splits intro: sum_members_nonneg [unfolded sum_members_def]
       add_increasing)

lemma escrows_nonneg: "reducer_inv s \<Longrightarrow> 0 \<le> sum_members escrow_of (flights s)"
proof (rule sum_members_nonneg)
  assume "reducer_inv s"
  moreover have "0 \<le> escrow_of v" if "flight_ok v" for v
    using that by (auto simp: escrow_of_def elim!: flight_okE)
  ultimately show "list_all (\<lambda>kv. 0 \<le> escrow_of (snd kv)) (flights s)"
    by (auto simp: reducer_inv_def flights_ok_def list_all_iff)
qed

lemma bal_le_supply:
  assumes "reducer_inv s" "funds_ok s"
  shows "bal s a \<le> ptra_supply s"
proof -
  have b: "list_all (\<lambda>kv. 0 \<le> int_of (snd kv)) (balances s)" and "0 \<le> fees s"
    using assms(2) by (simp_all add: funds_ok_def)
  moreover have "bal s a \<le> sum_members int_of (balances s)"
    using member_le_sum [of int_of, OF b, of a] sum_members_nonneg [of int_of, OF b]
    by (cases "map_of (balances s) a") (simp_all add: bal_eq int_of_def [symmetric])
  ultimately show ?thesis
    using escrows_nonneg [OF assms(1)] by (simp add: ptra_supply_def)
qed

section \<open>Nonces and stages\<close>

text \<open>The stage of a CAL as the lifecycle module names it; \<open>None\<close> when it is not in flight.\<close>

definition stage_at :: "json \<Rightarrow> jstring \<Rightarrow> stage option" where
  "stage_at s ch =
     (case map_of (flights s) ch of
        Some (JObj h) \<Rightarrow>
          (case map_of h (js ''stage'') of
             Some (JStr st) \<Rightarrow> find (\<lambda>x. js (stage_name x) = st) STAGES
           | _ \<Rightarrow> None)
      | _ \<Rightarrow> None)"

lemma find_stage [simp]: "find (\<lambda>x. x = st) STAGES = Some st"
  by (cases st) (simp_all add: STAGES_def)

lemma flight_obj: "reducer_inv s \<Longrightarrow> map_of (flights s) ch = Some v \<Longrightarrow> \<exists>h. v = JObj h"
  using flights_ok_member [of "flights s" ch v] by (auto simp: reducer_inv_def elim: flight_okE)

lemma find_stage_lit [simp]:
  "find (\<lambda>x. js (stage_name x) = js ''CREATED'') STAGES = Some CREATED"
  "find (\<lambda>x. js (stage_name x) = js ''SIGNED'') STAGES = Some SIGNED"
  "find (\<lambda>x. js (stage_name x) = js ''VALIDATED'') STAGES = Some VALIDATED"
  "find (\<lambda>x. js (stage_name x) = js ''EXECUTED'') STAGES = Some EXECUTED"
  "find (\<lambda>x. js (stage_name x) = js ''SETTLED'') STAGES = Some SETTLED"
  by (simp_all add: STAGES_def)

lemma stage_at_own:
  "map_of (flights s) ch = Some (JObj h) \<Longrightarrow> at_stage h (stage_name st) \<Longrightarrow> stage_at s ch = Some st"
  by (simp add: stage_at_def at_stage_map)

lemma stage_at_absent: "map_of (flights s) ch = None \<Longrightarrow> stage_at s ch = None"
  by (simp add: stage_at_def)

lemma stage_at_flight:
  "flights s' = AList.update ch (JObj h) (flights s) \<Longrightarrow> map_of h (js ''stage'') = Some (JStr (js (stage_name st))) \<Longrightarrow>
   stage_at s' c = (if c = ch then Some st else stage_at s c)"
  by (simp add: stage_at_def)

lemma stage_at_drop:
  "flights s' = AList.delete ch (flights s) \<Longrightarrow> stage_at s' c = (if c = ch then None else stage_at s c)"
  by (simp add: stage_at_def delete_conv')

lemma stage_at_same: "flights s' = flights s \<Longrightarrow> stage_at s' c = stage_at s c"
  by (simp add: stage_at_def)

text \<open>An in-flight CAL is never at a terminal stage.\<close>

lemma stage_at_live:
  assumes "reducer_inv s" "map_of (flights s) ch = Some v"
  shows "\<exists>st. stage_at s ch = Some st \<and> \<not> isTerminal st"
proof -
  obtain h where v: "v = JObj h" using flight_obj [OF assms] by blast
  from assms(1) assms(2) [unfolded v] obtain st where
    st: "map_of h (js ''stage'') = Some (JStr st)" "st \<in> set live_stages" by (rule live_flight)
  from st(2) have "st \<in> js ` stage_name ` {CREATED, SIGNED, VALIDATED, EXECUTED, SETTLED}"
    by (auto simp: live_stages_def)
  then obtain x where "st = js (stage_name x)" "x \<in> {CREATED, SIGNED, VALIDATED, EXECUTED, SETTLED}"
    by blast
  with st(1) assms(2) v show ?thesis
    by (auto simp: stage_at_def isTerminal_def TERMINAL_STAGES_def)
qed

text \<open>What an event does to one CAL: \<open>moves ev ch from to\<close> is one edge of the transition table.\<close>

definition moves :: "obj \<Rightarrow> jstring \<Rightarrow> stage option \<Rightarrow> stage option \<Rightarrow> bool" where
  "moves ev ch a b \<longleftrightarrow>
     reqStr ev ''cal_hash'' = Inr ch \<and>
     (\<exists>to ty. transitionEventType a to = Some ty \<and> has_type ev (event_name ty) \<and>
        b = (if isTerminal to then None else Some to))"

lemma movesI:
  "reqStr ev ''cal_hash'' = Inr ch \<Longrightarrow> transitionEventType a to = Some ty \<Longrightarrow>
   has_type ev (event_name ty) \<Longrightarrow> b = (if isTerminal to then None else Some to) \<Longrightarrow> moves ev ch a b"
  by (auto simp: moves_def)

lemmas transition_simps = transitionEventType_def isTerminal_def TERMINAL_STAGES_def HAPPY_PATH_def

lemma created_flights:
  assumes "reducer_inv s" "apply_created s ev = Inr s'"
  obtains ch agent where "reqStr ev ''cal_hash'' = Inr ch" "map_of (flights s) ch = None"
    "flights s' = AList.update ch (JObj (new_flight agent)) (flights s)" "nonces s' = nonces s"
proof -
  obtain ch agent where ch: "reqStr ev ''cal_hash'' = Inr ch" and none: "inFlight s ch = None"
    and s': "s' = setIn (Some s) [js ''cal'', js ''in_flight'', ch] (JObj (new_flight agent))"
    using assms(2) by (auto simp: apply_created_def split: if_splits)
  have "map_of (flights s) ch = None"
  proof (rule ccontr)
    assume "map_of (flights s) ch \<noteq> None"
    then obtain v where v: "map_of (flights s) ch = Some v" by auto
    with assms(1) obtain h where "v = JObj h" using flight_obj by blast
    with getIn_member_own [OF v] none show False by (simp add: inFlight_def)
  qed
  with ch s' show ?thesis by (intro that [of ch agent]) (simp_all add: reducer_views)
qed

lemma stage_step:
  assumes "reqStr ev ''cal_hash'' = Inr ch" "map_of (flights s) ch = Some (JObj h)"
    "at_stage h (stage_name st)" "transitionEventType (Some st) st' = Some ty"
    "has_type ev (event_name ty)" "\<not> isTerminal st'"
    "flights s' = AList.update ch (JObj (AList.update (js ''stage'') (JStr (js (stage_name st'))) h')) (flights s)"
  shows "stage_at s' c = stage_at s c \<or> moves ev c (stage_at s c) (stage_at s' c)"
proof (cases "c = ch")
  case True
  have "stage_at s' ch = Some st'"
    using stage_at_flight [OF assms(7), of st' ch] by simp
  with assms True show ?thesis
    by (auto simp: stage_at_own intro!: movesI [where to = st' and ty = ty])
next
  case False
  then show ?thesis using stage_at_flight [OF assms(7), of st' c] by simp
qed

lemma terminal_step:
  assumes "reducer_inv s" "reqStr ev ''cal_hash'' = Inr ch" "map_of (flights s) ch = Some (JObj h)"
    "\<And>st. stage_at s ch = Some st \<Longrightarrow> \<not> isTerminal st \<Longrightarrow> transitionEventType (Some st) to = Some ty"
    "has_type ev (event_name ty)" "isTerminal to"
    "flights s' = AList.delete ch (flights s)"
  shows "stage_at s' c = stage_at s c \<or> moves ev c (stage_at s c) (stage_at s' c)"
proof (cases "c = ch")
  case True
  obtain st where "stage_at s ch = Some st" "\<not> isTerminal st"
    using stage_at_live [OF assms(1,3)] by blast
  with assms True show ?thesis
    by (auto simp: stage_at_drop [OF assms(7)] intro!: movesI [where to = to and ty = ty])
next
  case False
  then show ?thesis by (simp add: stage_at_drop [OF assms(7)])
qed

lemma transition_live [simp]:
  "\<not> isTerminal st \<Longrightarrow> transitionEventType (Some st) FAILED = Some cal_failed"
  "\<not> isTerminal st \<Longrightarrow> transitionEventType (Some st) EXPIRED = Some cal_expired"
  by (simp_all add: transitionEventType_def)

lemma other_flights:
  "apply_transferred s ev = Inr s' \<Longrightarrow> flights s' = flights s \<and> nonces s' = nonces s"
  "apply_shadow_init s ev = Inr s' \<Longrightarrow> flights s' = flights s \<and> nonces s' = nonces s"
  "apply_feed_submitted s ev = Inr s' \<Longrightarrow> flights s' = flights s \<and> nonces s' = nonces s"
  "apply_tick_advanced s ev = Inr s' \<Longrightarrow> flights s' = flights s \<and> nonces s' = nonces s"
  by (auto simp: apply_shadow_init_def apply_feed_submitted_def apply_tick_advanced_Inr Let_def
      reducer_views elim!: transferred_Inr split: if_splits)

lemma applyEvent_stages:
  assumes inv: "reducer_inv s" and ok: "applyEvent s ev = Inr s'"
  shows "stage_at s' c = stage_at s c \<or> moves ev c (stage_at s c) (stage_at s' c)"
  using ok
proof (cases rule: applyEventE)
  case created
  from inv created(2) obtain ch agent where ch: "reqStr ev ''cal_hash'' = Inr ch"
    "map_of (flights s) ch = None" and
    fl: "flights s' = AList.update ch (JObj (new_flight agent)) (flights s)"
    by (rule created_flights)
  have "stage_at s' x = (if x = ch then Some CREATED else stage_at s x)" for x
    using stage_at_flight [OF fl, of CREATED x] by (simp add: new_flight_def)
  moreover have "moves ev ch None (Some CREATED)"
    using ch created(1) by (intro movesI [where to = CREATED and ty = cal_created])
      (simp_all add: transition_simps)
  ultimately show ?thesis using ch(2) by (cases "c = ch") (simp_all add: stage_at_absent)
next
  case signed
  then obtain ch h where "reqStr ev ''cal_hash'' = Inr ch" "inFlight s ch = Some h"
    "at_stage h ''CREATED''" "s' = set_stage s ch ''SIGNED''"
    by (auto simp: apply_signed_def requireFlight_Inr split: if_splits)
  with signed(1) show ?thesis
    by (intro stage_step [where ch = ch and h = h and st = CREATED and st' = SIGNED and ty = cal_signed and h' = h])
       (simp_all add: at_stage_own set_stage_flight transition_simps)
next
  case validated
  then obtain ch h agent n where "reqStr ev ''cal_hash'' = Inr ch" "inFlight s ch = Some h"
    "at_stage h ''SIGNED''" and
    s': "s' = set_stage (setIn (Some (set_balance s agent (bal s agent - n)))
      [js ''cal'', js ''in_flight'', ch, js ''escrowed_ptra''] (JInt n)) ch ''VALIDATED''"
    by (auto simp: apply_validated_def requireFlight_Inr Let_def split: if_splits)
  with validated(1) show ?thesis
    by (intro stage_step [where ch = ch and h = h and st = SIGNED and st' = VALIDATED and ty = cal_validated
          and h' = "AList.update (js ''escrowed_ptra'') (JInt n) h"])
       (simp_all add: at_stage_own set_stage_flight flight_write reducer_views transition_simps js_get_own)
next
  case executed
  then obtain ch h effects g where "reqStr ev ''cal_hash'' = Inr ch" "inFlight s ch = Some h"
    "at_stage h ''VALIDATED''" and
    s': "s' = set_stage (setIn (Some (setIn (Some s)
        [js ''cal'', js ''in_flight'', ch, js ''staged''] (JArr effects)))
        [js ''cal'', js ''in_flight'', ch, js ''gas_consumed_ptra''] (JInt g)) ch ''EXECUTED''"
    by (auto simp: apply_executed_def requireFlight_Inr Let_def split: if_splits option.splits json.splits)
  with executed(1) show ?thesis
    by (intro stage_step [where ch = ch and h = h and st = VALIDATED and st' = EXECUTED and ty = cal_executed
          and h' = "AList.update (js ''gas_consumed_ptra'') (JInt g) (AList.update (js ''staged'') (JArr effects) h)"])
       (simp_all add: at_stage_own set_stage_flight flight_write reducer_views transition_simps js_get_own)
next
  case settled
  then obtain ch h where "reqStr ev ''cal_hash'' = Inr ch" "inFlight s ch = Some h"
    "at_stage h ''EXECUTED''" "s' = set_stage s ch ''SETTLED''"
    by (auto simp: apply_settled_def requireFlight_Inr split: if_splits)
  with settled(1) show ?thesis
    by (intro stage_step [where ch = ch and h = h and st = EXECUTED and st' = SETTLED and ty = cal_settled and h' = h])
       (simp_all add: at_stage_own set_stage_flight transition_simps)
next
  case finalized
  from inv finalized(2) obtain ch h agent e r ds s1 s2 where
    f: "reqStr ev ''cal_hash'' = Inr ch" "at_stage h ''SETTLED''" "map_of (flights s) ch = Some (JObj h)"
    and r: "optUint ev ''gas_refunded_ptra'' = Inr r"
    and d: "list_all confined ds" "apply_deltas s ds = Inr s1"
    and s2: "settle_escrow s1 agent e r = Inr s2"
    and s': "s' = drop_flight (bumpNonce s2 agent) ch"
    by (rule finalized_Inr) blast
  have "stage_at s ch = Some SETTLED" using f by (simp add: stage_at_own)
  then show ?thesis
    using f finalized(1) staged_deltas_views [OF d(2,1)] settle_escrow_views [OF s2 optUint_nonneg [OF r]]
    by (intro terminal_step [OF inv, where ch = ch and h = h and to = FINALIZED and ty = cal_finalized])
       (simp_all add: s' reducer_views transition_simps)
next
  case failed
  from inv failed(2) obtain ch h agent s1 where
    f: "reqStr ev ''cal_hash'' = Inr ch" "map_of (flights s) ch = Some (JObj h)"
      "s' = drop_flight (bumpNonce s1 agent) ch" "flights s1 = flights s"
    by (rule failed_Inr) blast
  from failed(1) show ?thesis
  proof
    assume "has_type ev ''cal.failed''"
    with f show ?thesis
      by (intro terminal_step [OF inv, where ch = ch and h = h and to = FAILED and ty = cal_failed])
         (simp_all add: reducer_views isTerminal_def TERMINAL_STAGES_def)
  next
    assume "has_type ev ''cal.expired''"
    with f show ?thesis
      by (intro terminal_step [OF inv, where ch = ch and h = h and to = EXPIRED and ty = cal_expired])
         (simp_all add: reducer_views isTerminal_def TERMINAL_STAGES_def)
  qed
next
  case transferred
  then show ?thesis using other_flights(1) stage_at_same [of s' s c] by blast
next
  case shadow_init
  then show ?thesis using other_flights(2) stage_at_same [of s' s c] by blast
next
  case feed
  then show ?thesis using other_flights(3) stage_at_same [of s' s c] by blast
next
  case tick
  then show ?thesis using other_flights(4) stage_at_same [of s' s c] by blast
qed

text \<open>A CAL of agent \<open>a\<close> that was in flight and is no longer.\<close>

definition closed_cal :: "json \<Rightarrow> json \<Rightarrow> jstring \<Rightarrow> bool" where
  "closed_cal s s' a \<longleftrightarrow>
     list_ex (\<lambda>kv. agent_of (snd kv) = Some (JStr a) \<and> map_of (flights s') (fst kv) = None) (flights s)"

lemma closed_cal_dom: "dom (map_of (flights s)) \<subseteq> dom (map_of (flights s')) \<Longrightarrow> \<not> closed_cal s s' a"
proof
  assume sub: "dom (map_of (flights s)) \<subseteq> dom (map_of (flights s'))" and "closed_cal s s' a"
  then obtain kv where kv: "kv \<in> set (flights s)" "map_of (flights s') (fst kv) = None"
    by (auto simp: closed_cal_def list_ex_iff)
  then have "fst kv \<in> dom (map_of (flights s))" by (simp add: dom_map_of_conv_image_fst)
  with sub kv(2) show False by auto
qed

lemma closed_cal_kept: "flights s' = flights s \<Longrightarrow> \<not> closed_cal s s' a"
  by (rule closed_cal_dom) simp

lemma closed_cal_update: "flights s' = AList.update ch v (flights s) \<Longrightarrow> \<not> closed_cal s s' a"
  by (rule closed_cal_dom) (auto simp: update_conv')

lemma closed_cal_delete:
  assumes "reducer_inv s" "flights s' = AList.delete ch (flights s)" "map_of (flights s) ch = Some v"
  shows "closed_cal s s' a \<longleftrightarrow> agent_of v = Some (JStr a)"
proof -
  have d: "distinct (map fst (flights s))" using assms(1) by (simp add: reducer_inv_def flights_ok_def)
  have "map_of (flights s') (fst kv) = None \<longleftrightarrow> kv = (ch, v)" if "kv \<in> set (flights s)" for kv
  proof -
    from d that have "map_of (flights s) (fst kv) = Some (snd kv)" by simp
    with assms(2,3) show ?thesis by (cases kv) (auto simp: delete_conv')
  qed
  with map_of_SomeD [OF assms(3)] show ?thesis
    by (auto simp: closed_cal_def list_ex_iff)
qed

lemma drop_bump_views:
  assumes "nonces s1 = nonces s" "flights s1 = flights s"
  shows "flights (drop_flight (bumpNonce s1 agent) ch) = AList.delete ch (flights s)"
    and "nonce_of (drop_flight (bumpNonce s1 agent) ch) a = nonce_of s a + (if a = agent then 1 else 0)"
  using assms by (simp_all add: reducer_views)

lemma nonce_terminal:
  assumes "reducer_inv s" "map_of (flights s) ch = Some (JObj h)"
    "map_of h (js ''agent_id'') = Some (JStr agent)" "s' = drop_flight (bumpNonce s1 agent) ch"
    "nonces s1 = nonces s" "flights s1 = flights s"
  shows "nonce_of s' a = nonce_of s a + (if closed_cal s s' a then 1 else 0)"
  using closed_cal_delete [OF assms(1) _ assms(2), of s' a] assms(3,4) drop_bump_views [OF assms(5,6)]
  by (auto simp: agent_of_def)

lemma nonce_same: "nonces s' = nonces s \<Longrightarrow> \<not> closed_cal s s' a \<Longrightarrow>
    nonce_of s' a = nonce_of s a + (if closed_cal s s' a then 1 else 0)"
  by simp

lemma applyEvent_nonces:
  assumes inv: "reducer_inv s" and ok: "applyEvent s ev = Inr s'"
  shows "nonce_of s' a = nonce_of s a + (if closed_cal s s' a then 1 else 0)"
  using ok
proof (cases rule: applyEventE)
  case created
  from inv created(2) show ?thesis
    by (rule created_flights) (simp add: nonce_same closed_cal_update)
next
  case signed
  then obtain ch where s': "s' = set_stage s ch ''SIGNED''"
    by (auto simp: apply_signed_def split: if_splits)
  show ?thesis
    by (rule nonce_same, simp add: s' reducer_views, rule closed_cal_update [of _ ch])
       (simp add: s' reducer_views)
next
  case validated
  then obtain ch agent n where
    s': "s' = set_stage (setIn (Some (set_balance s agent (bal s agent - n)))
      [js ''cal'', js ''in_flight'', ch, js ''escrowed_ptra''] (JInt n)) ch ''VALIDATED''"
    by (auto simp: apply_validated_def Let_def split: if_splits)
  show ?thesis
    by (rule nonce_same, simp add: s' reducer_views, rule closed_cal_update [of _ ch])
       (simp add: s' reducer_views)
next
  case executed
  then obtain ch effects g where
    s': "s' = set_stage (setIn (Some (setIn (Some s)
        [js ''cal'', js ''in_flight'', ch, js ''staged''] (JArr effects)))
        [js ''cal'', js ''in_flight'', ch, js ''gas_consumed_ptra''] (JInt g)) ch ''EXECUTED''"
    by (auto simp: apply_executed_def Let_def split: if_splits option.splits json.splits)
  show ?thesis
    by (rule nonce_same, simp add: s' reducer_views, rule closed_cal_update [of _ ch])
       (simp add: s' reducer_views)
next
  case settled
  then obtain ch where s': "s' = set_stage s ch ''SETTLED''"
    by (auto simp: apply_settled_def split: if_splits)
  show ?thesis
    by (rule nonce_same, simp add: s' reducer_views, rule closed_cal_update [of _ ch])
       (simp add: s' reducer_views)
next
  case finalized
  from inv finalized(2) obtain ch h agent e r ds s1 s2 where
    f: "map_of (flights s) ch = Some (JObj h)" "map_of h (js ''agent_id'') = Some (JStr agent)"
    and r: "optUint ev ''gas_refunded_ptra'' = Inr r"
    and d: "list_all confined ds" "apply_deltas s ds = Inr s1"
    and s2: "settle_escrow s1 agent e r = Inr s2"
    and s': "s' = drop_flight (bumpNonce s2 agent) ch"
    by (rule finalized_Inr) blast
  show ?thesis
    using staged_deltas_views [OF d(2,1)] settle_escrow_views [OF s2 optUint_nonneg [OF r]]
    by (intro nonce_terminal [OF inv f s']) simp_all
next
  case failed
  from inv failed(2) obtain ch h agent s1 where "map_of (flights s) ch = Some (JObj h)"
    "map_of h (js ''agent_id'') = Some (JStr agent)" "s' = drop_flight (bumpNonce s1 agent) ch"
    "nonces s1 = nonces s" "flights s1 = flights s"
    by (rule failed_Inr) blast
  then show ?thesis by (rule nonce_terminal [OF inv])
next
  case transferred
  with other_flights(1) have "flights s' = flights s" "nonces s' = nonces s" by blast+
  then show ?thesis by (simp add: closed_cal_kept)
next
  case shadow_init
  with other_flights(2) have "flights s' = flights s" "nonces s' = nonces s" by blast+
  then show ?thesis by (simp add: closed_cal_kept)
next
  case feed
  with other_flights(3) have "flights s' = flights s" "nonces s' = nonces s" by blast+
  then show ?thesis by (simp add: closed_cal_kept)
next
  case tick
  with other_flights(4) have "flights s' = flights s" "nonces s' = nonces s" by blast+
  then show ?thesis by (simp add: closed_cal_kept)
qed

section \<open>Totality\<close>

lemma own_flight:
  "inFlight s ch = Some h \<Longrightarrow> ch \<noteq> js ''__proto__'' \<Longrightarrow> map_of (flights s) ch = Some (JObj h)"
  using inFlight_js_get [of s ch h] by (auto simp: js_get_def split: option.splits if_splits)

lemma reqStr_err: "reqStr ev k = Inl e \<Longrightarrow> e = Apply BAD_DELTA"
  by (auto simp: reqStr_def split: option.splits json.splits)

lemma reqUint_err: "reqUint ev k = Inl e \<Longrightarrow> e = Apply BAD_DELTA"
  by (auto simp: reqUint_def split: option.splits json.splits if_splits)

lemma optUint_err: "optUint ev k = Inl e \<Longrightarrow> e = Apply BAD_DELTA"
  by (auto simp: optUint_def dest: reqUint_err split: if_splits)

lemma requireFlight_err: "requireFlight s ch = Inl e \<Longrightarrow> e = Apply UNKNOWN_CAL"
  by (auto simp: requireFlight_def split: option.splits)

lemma settle_escrow_err: "settle_escrow s a x r = Inl e \<Longrightarrow> e = Apply UNDERFLOW"
  by (auto simp: settle_escrow_def Let_def split: if_splits)

lemmas reducer_errs = reqStr_err reqUint_err optUint_err requireFlight_err settle_escrow_err

lemma flight_fields:
  assumes "reducer_inv s" "inFlight s ch = Some h" "ch \<noteq> js ''__proto__''"
  shows "flight_agent h \<noteq> Inl e" "flight_escrow h \<noteq> Inl e" "flight_staged h \<noteq> Inl e"
proof -
  from assms(1) own_flight [OF assms(2,3)] obtain a st n ds where
    "map_of h (js ''agent_id'') = Some (JStr a)" "map_of h (js ''escrowed_ptra'') = Some (JInt n)"
    "map_of h (js ''staged'') = Some (JArr ds)" by (rule live_flight)
  then have "flight_agent h = Inr a" "flight_escrow h = Inr n" "flight_staged h = Inr ds"
    by (simp_all only: flight_agent_Inr flight_escrow_Inr flight_staged_Inr)
  then show "flight_agent h \<noteq> Inl e" "flight_escrow h \<noteq> Inl e" "flight_staged h \<noteq> Inl e" by simp_all
qed

lemma handlers_err:
  "apply_created s ev = Inl e \<Longrightarrow> e \<in> range Apply"
  "apply_signed s ev = Inl e \<Longrightarrow> e \<in> range Apply"
  "apply_settled s ev = Inl e \<Longrightarrow> e \<in> range Apply"
  "apply_executed s ev = Inl e \<Longrightarrow> e \<in> range Apply"
  "apply_transferred s ev = Inl e \<Longrightarrow> e \<in> range Apply"
  "apply_shadow_init s ev = Inl e \<Longrightarrow> e \<in> range Apply"
  "apply_feed_submitted s ev = Inl e \<Longrightarrow> e \<in> range Apply"
  by (auto simp: apply_created_def apply_signed_def apply_settled_def apply_executed_def
      apply_transferred_def apply_shadow_init_def apply_feed_submitted_def and_then_Inl Let_def
      dest!: reducer_errs split: if_splits option.splits json.splits)

lemma tick_err: "apply_tick_advanced s ev = Inl e \<Longrightarrow> e \<in> range Apply"
proof (cases "\<exists>cur. getIn (Some s) [js ''tick'', js ''current''] = Some (JInt cur)")
  case False
  then have "apply_tick_advanced s ev = and_then (reqUint ev ''new_tick'') (\<lambda>_. Inl (Apply BAD_TICK))"
    by (auto simp: apply_tick_advanced_def intro!: and_then_cong split: option.splits json.splits)
  then show "apply_tick_advanced s ev = Inl e \<Longrightarrow> e \<in> range Apply"
    by (auto simp: and_then_Inl dest: reducer_errs)
qed (auto simp: apply_tick_advanced_def and_then_Inl dest!: reducer_errs split: if_splits)

lemma flight_handlers_err:
  assumes "reducer_inv s" "reqStr ev ''cal_hash'' \<noteq> Inr (js ''__proto__'')"
  shows "apply_validated s ev = Inl e \<Longrightarrow> e \<in> range Apply"
    and "apply_finalized s ev = Inl e \<Longrightarrow> e \<in> range Apply"
    and "apply_failed s ev = Inl e \<Longrightarrow> e \<in> range Apply"
  using assms(2)
  by (auto simp: apply_validated_def apply_finalized_def apply_failed_def and_then_Inl Let_def
      requireFlight_Inr flight_fields [OF assms(1)]
      dest!: reducer_errs apply_deltas_err split: if_splits)

lemma if_InlE:
  assumes "(if b then x else y) = Inl z"
  obtains "x = Inl z" | "y = Inl z"
  using assms by (cases b) auto

lemma applyEvent_err:
  assumes "reducer_inv s" "applyEvent s ev = Inl e" "reqStr ev ''cal_hash'' \<noteq> Inr (js ''__proto__'')"
  shows "e \<in> range Apply"
proof (cases "\<exists>ty. js_get (js ''event_type'') ev = Some (JStr ty)")
  case True
  then obtain ty where ev: "js_get (js ''event_type'') ev = Some (JStr ty)" by blast
  from assms(2) show ?thesis
    unfolding applyEvent_def ev option.case json.case
    by (elim if_InlE)
       (blast dest: handlers_err tick_err flight_handlers_err [OF assms(1,3)] | simp)+
next
  case False
  with assms(2) show ?thesis by (auto simp: applyEvent_def split: option.splits json.splits)
qed

end
