(* ===== verification/Reducer_Props.thy ===== *)
theory Reducer_Props
  imports Reducer_Funds
begin

text \<open>
  The properties of the reducer (\<^verbatim>\<open>cal-reducer/src\<close>), over whole event logs where that is what the
  protocol relies on, each with a concrete run.
\<close>

section \<open>A sample run\<close>

definition sample_state :: json where
  "sample_state = setIn (Some genesis) [js ''ptra'', js ''balances'', js ''alice''] (JInt 1000)"

definition cal_event :: "string \<Rightarrow> jstring \<Rightarrow> obj \<Rightarrow> obj" where
  "cal_event ty ch fs = (js ''event_type'', JStr (js ty)) # (js ''cal_hash'', JStr ch) # fs"

definition sample_open :: "obj list" where
  "sample_open = [cal_event ''cal.created'' (js ''c1'') [(js ''agent_id'', JStr (js ''alice''))]]"

definition sample_log :: "obj list" where
  "sample_log = sample_open @
     [cal_event ''cal.failed'' (js ''c1'') [(js ''fee_debited_ptra'', JInt 7)],
      [(js ''event_type'', JStr (js ''ptra.transferred'')), (js ''from'', JStr (js ''alice'')),
       (js ''to'', JStr (js ''bob'')), (js ''amount_nano_ptra'', JInt 5)]]"

lemmas handler_defs = apply_created_def apply_signed_def apply_validated_def apply_executed_def
  apply_settled_def apply_finalized_def apply_failed_def apply_transferred_def apply_shadow_init_def
  apply_feed_submitted_def apply_tick_advanced_def

lemmas reducer_eval = sample_log_def sample_open_def sample_state_def cal_event_def genesis_def
  materialize_log_def applyEvent_def handler_defs reqStr_def reqUint_def optUint_def
  requireFlight_def inFlight_def js_has_iff js_get_def proto_keys_def getIn_Cons setIn.simps Let_def
  agent_busy_def new_flight_def at_stage_def set_stage_def set_balance_def bal_def flight_agent_def
  flight_escrow_def flight_staged_def settle_escrow_def addFees_def bumpNonce_def drop_flight_def
  applyDeltaJson_def apply_delta_op_def enforceOwnerRecord_def UINT256_MAX_def

lemma sample_confined: "list_all event_confined sample_log"
  by (simp add: sample_log_def sample_open_def cal_event_def event_confined_def js_get_def)

lemma sample_log_runs: "\<exists>s. materialize_log sample_log sample_state = Inr s"
  by (simp add: reducer_eval cong: and_then_weak_cong)

lemma sample_open_runs: "\<exists>s. materialize_log sample_open genesis = Inr s"
  by (simp add: reducer_eval cong: and_then_weak_cong)

lemma sample_open_alice:
  "\<exists>s v. materialize_log sample_open sample_state = Inr s \<and> map_of (flights s) (js ''c1'') = Some v"
  by (simp add: ob2_def reducer_eval cong: and_then_weak_cong)

lemma sample_open_state:
  "\<exists>s. materialize_log sample_open sample_state = Inr s \<and>
     map_of (flights s) (js ''c1'') = Some (JObj (new_flight (js ''alice''))) \<and> bal s (js ''alice'') = 1000 \<and>
     getIn (Some s) [js ''registry'', js ''agents'', js ''bob''] = None"
  by (simp add: ob2_def reducer_eval cong: and_then_weak_cong)

lemma genesis_views:
  "flights genesis = []" "balances genesis = []" "fees genesis = 0"
  by (simp_all add: ob2_eq val2_eq genesis_def)

lemma genesis_inv: "reducer_inv genesis" "funds_ok genesis"
  by (simp_all add: reducer_inv_def flights_ok_def funds_ok_def genesis_views)

lemma sample_inv: "reducer_inv sample_state" "funds_ok sample_state"
proof -
  have eq: "sample_state = set_balance genesis (js ''alice'') 1000"
    by (simp add: sample_state_def set_balance_def)
  show "reducer_inv sample_state" "funds_ok sample_state"
    unfolding eq using genesis_inv by (simp_all add: reducer_inv_def reducer_views funds_ok_set_balance)
qed

lemma log_keeps_inv:
  assumes "reducer_inv g" "list_all event_confined evs" "materialize_log evs g = Inr s"
  shows "reducer_inv s"
  using assms applyEvent_keeps log.run_invariant [of reducer_inv event_confined g evs s]
  by (auto simp: materialize_log_Inr keeps_def)

lemma reach_inv: "materialize_log evs genesis = Inr s \<Longrightarrow> list_all event_confined evs \<Longrightarrow> reducer_inv s"
  by (rule log_keeps_inv [OF genesis_inv(1)])

lemma log_stops_at:
  assumes "materialize_state evs s = Inr s1" "applyEvent s1 ev = Inl x"
  shows "materialize_log (evs @ [ev]) s = Inl (x, length evs)"
  using assms by (simp add: materialize_log_Inl materialize_log_Inr)

lemma log_sound:
  assumes "reducer_inv s" "funds_ok s" "list_all event_confined evs" "materialize_log evs s = Inr s'"
  shows "ptra_supply s' = ptra_supply s \<and> reducer_inv s' \<and> funds_ok s'"
  by (rule log.run_invariant [where P = event_confined and es = evs and s = s])
     (use assms applyEvent_keeps applyEvent_funds in \<open>auto simp: keeps_def materialize_log_Inr\<close>)

section \<open>Money\<close>

text \<open>
  C21: The reducer neither creates nor destroys PTRA. Folding any log whose Deltas are confined (they do not write to the in-flight
  records, the nonces, the balances or the fee window) from a state with sound in-flight records keeps the sum of all balances, of all
  escrows and of the treasury's fee window, and keeps the invariant of the in-flight records.
\<close>

theorem reducer_conserves_supply:
  assumes "reducer_inv s" "list_all event_confined evs" "materialize_log evs s = Inr s'"
  shows "ptra_supply s' = ptra_supply s \<and> reducer_inv s'"
proof (rule log.run_invariant [where I = "\<lambda>s'. ptra_supply s' = ptra_supply s \<and> reducer_inv s'"
      and P = event_confined])
  show "materialize_state evs s = Inr s'" using assms(3) by (simp add: materialize_log_Inr)
qed (use assms applyEvent_keeps in \<open>auto simp: keeps_def\<close>)

theorem reducer_conserves_supply_witness:
  "\<exists>s'. materialize_log sample_log sample_state = Inr s' \<and> ptra_supply s' = ptra_supply sample_state"
  using reducer_conserves_supply [OF sample_inv(1) sample_confined] sample_log_runs by blast

text \<open>
  C22: Start from a state with sound in-flight records and funds (no negative balance or fee window). After any log whose Deltas are
  confined, no balance is negative and none exceeds the whole supply, so a supply within \<open>uint256\<close> keeps every balance within it although
  the reducer credits without an overflow check. Without the condition on the Deltas it fails: one that sets a balance is committed.
\<close>

theorem reducer_balances_bounded:
  assumes "reducer_inv s" "funds_ok s" "list_all event_confined evs" "materialize_log evs s = Inr s'"
  shows "0 \<le> bal s' a \<and> bal s' a \<le> ptra_supply s"
  using log_sound [OF assms] funds_ok_bal [of s' a] bal_le_supply [of s' a] by simp

theorem reducer_balances_bounded_witness:
  "\<exists>s'. materialize_log sample_log sample_state = Inr s' \<and>
     0 \<le> bal s' (js ''bob'') \<and> bal s' (js ''bob'') \<le> ptra_supply sample_state"
  using reducer_balances_bounded [OF sample_inv sample_confined] sample_log_runs by blast

section \<open>The life of a CAL\<close>

text \<open>
  C20: The reducer implements the lifecycle table. Take any state that a log with confined Deltas reaches from genesis (a Delta that
  writes to the in-flight records can put any stage there). An accepted event leaves the stage of a CAL alone or moves it along one
  transition that \<open>transitionEventType\<close> lists for that very event type, naming that CAL; a CAL that reaches a terminal stage leaves
  the state.
\<close>

theorem reducer_refines_lifecycle:
  assumes "materialize_log evs genesis = Inr s" "list_all event_confined evs"
    and "applyEvent s ev = Inr s'"
  shows "stage_at s' ch = stage_at s ch \<or>
    (reqStr ev ''cal_hash'' = Inr ch \<and>
     (\<exists>to ty. transitionEventType (stage_at s ch) to = Some ty \<and> has_type ev (event_name ty) \<and>
        stage_at s' ch = (if isTerminal to then None else Some to)))"
  using applyEvent_stages [OF reach_inv [OF assms(1,2)] assms(3), of ch] by (simp add: moves_def)

lemma open_confined: "list_all event_confined sample_open"
  using sample_confined by (simp add: sample_log_def)

text \<open>The CAL of the sample log, closed before it is signed.\<close>

lemma sample_failed:
  "\<exists>s s'. materialize_log sample_open genesis = Inr s \<and> applyEvent s (cal_event ''cal.failed'' (js ''c1'') []) = Inr s' \<and>
     stage_at s (js ''c1'') = Some CREATED \<and> stage_at s' (js ''c1'') = None"
  by (simp add: stage_at_def STAGES_def ob2_def reducer_eval cong: and_then_weak_cong)

theorem reducer_refines_lifecycle_witness:
  "\<exists>s s'. materialize_log sample_open genesis = Inr s \<and> applyEvent s (cal_event ''cal.failed'' (js ''c1'') []) = Inr s' \<and>
     stage_at s (js ''c1'') = Some CREATED \<and> stage_at s' (js ''c1'') = None \<and>
     (\<exists>to ty. transitionEventType (stage_at s (js ''c1'')) to = Some ty \<and> isTerminal to \<and>
        has_type (cal_event ''cal.failed'' (js ''c1'') []) (event_name ty))"
proof -
  obtain s s' where s: "materialize_log sample_open genesis = Inr s" "applyEvent s (cal_event ''cal.failed'' (js ''c1'') []) = Inr s'"
    and st: "stage_at s (js ''c1'') = Some CREATED" "stage_at s' (js ''c1'') = None" using sample_failed by blast
  from reducer_refines_lifecycle [OF s(1) open_confined s(2), of "js ''c1''"] st obtain to ty where
    "transitionEventType (stage_at s (js ''c1'')) to = Some ty" "has_type (cal_event ''cal.failed'' (js ''c1'') []) (event_name ty)"
    "None = (if isTerminal to then None else Some to)" by auto
  with s st show ?thesis by (auto split: if_splits)
qed

text \<open>
  An agent's nonce counts the CALs it has closed: one event raises it by one exactly when a CAL of
  that agent leaves the in-flight set, and never changes it otherwise.
\<close>

theorem reducer_nonce_counts_closed:
  assumes "reducer_inv s" "applyEvent s ev = Inr s'"
  shows "nonce_of s' a = nonce_of s a + (if closed_cal s s' a then 1 else 0)"
  by (rule applyEvent_nonces [OF assms])

theorem reducer_nonce_counts_closed_witness:
  "\<exists>s'. applyEvent genesis (hd sample_open) = Inr s' \<and>
     nonce_of s' (js ''alice'') = nonce_of genesis (js ''alice'') +
       (if closed_cal genesis s' (js ''alice'') then 1 else 0)"
proof -
  obtain s' where "applyEvent genesis (hd sample_open) = Inr s'"
    by (simp add: reducer_eval cong: and_then_weak_cong)
  with reducer_nonce_counts_closed [OF genesis_inv(1) this] show ?thesis by blast
qed

text \<open>
  C26: At most one CAL per agent is in flight in any state that a log with confined Deltas reaches from genesis: two in-flight records
  of one agent are the same CAL. (A Delta that writes an in-flight record is not refused, and could give the agent a second one.)
\<close>

theorem reducer_one_cal_per_agent:
  assumes "materialize_log evs genesis = Inr s" "list_all event_confined evs"
    and "map_of (flights s) c1 = Some v1" "map_of (flights s) c2 = Some v2"
    and "agent_of v1 = agent_of v2"
  shows "c1 = c2"
proof -
  have "distinct (map (\<lambda>kv. agent_of (snd kv)) (flights s))"
    using reach_inv [OF assms(1,2)] by (simp add: reducer_inv_def flights_ok_def)
  then have "inj_on (\<lambda>kv. agent_of (snd kv)) (set (flights s))" by (simp add: distinct_map)
  from inj_onD [OF this, of "(c1, v1)" "(c2, v2)"] assms(5)
    map_of_SomeD [OF assms(3)] map_of_SomeD [OF assms(4)]
  have "(c1, v1) = (c2, v2)" by simp
  then show ?thesis by simp
qed

definition two_open :: "obj list" where
  "two_open = sample_open @ [cal_event ''cal.created'' (js ''c2'') [(js ''agent_id'', JStr (js ''bob''))]]"

lemma two_open_runs:
  "\<exists>s v w. materialize_log two_open genesis = Inr s \<and> map_of (flights s) (js ''c1'') = Some v \<and> map_of (flights s) (js ''c2'') = Some w"
  by (simp add: two_open_def ob2_def reducer_eval cong: and_then_weak_cong)

theorem reducer_one_cal_per_agent_witness:
  "\<exists>s v w. materialize_log two_open genesis = Inr s \<and> map_of (flights s) (js ''c1'') = Some v \<and>
     map_of (flights s) (js ''c2'') = Some w \<and> agent_of v \<noteq> agent_of w"
proof -
  obtain s v w where s: "materialize_log two_open genesis = Inr s" "map_of (flights s) (js ''c1'') = Some v"
    "map_of (flights s) (js ''c2'') = Some w" using two_open_runs by blast
  have "list_all event_confined two_open"
    using open_confined by (simp add: two_open_def cal_event_def event_confined_def js_get_def)
  from reducer_one_cal_per_agent [OF s(1) this s(2,3)] s show ?thesis by auto
qed

section \<open>Liveness\<close>

lemma cal_event_reads [simp]:
  "js_get (js ''event_type'') (cal_event ty ch fs) = Some (JStr (js ty))"
  "reqStr (cal_event ty ch fs) ''cal_hash'' = Inr ch"
  by (simp_all add: cal_event_def reqStr_def js_get_def)

lemma own_inFlight: "map_of (flights s) ch = Some (JObj h) \<Longrightarrow> requireFlight s ch = Inr h"
  using getIn_member_own [of "''cal''" "''in_flight''" s ch] by (simp add: requireFlight_def inFlight_def)

lemma optUint_absent: "optUint (cal_event ty ch []) ''fee_debited_ptra'' = Inr 0"
    "optUint (cal_event ty ch []) ''gas_refunded_ptra'' = Inr 0"
  by (simp_all add: optUint_def cal_event_def js_has_iff js_get_def)

lemma failed_runs:
  assumes inv: "reducer_inv s" "funds_ok s" and own: "map_of (flights s) ch = Some v"
  shows "\<exists>s'. applyEvent s (cal_event ''cal.failed'' ch []) = Inr s' \<and> map_of (flights s') ch = None"
proof -
  obtain h where v: "v = JObj h" using flight_obj [OF inv(1) own] by blast
  from inv(1) own [unfolded v] obtain a e where h: "map_of h (js ''agent_id'') = Some (JStr a)"
    "map_of h (js ''escrowed_ptra'') = Some (JInt e)" "0 \<le> e" by (rule live_flight)
  have f: "flight_agent h = Inr a" "flight_escrow h = Inr e"
    using h by (simp_all only: flight_agent_Inr flight_escrow_Inr)
  have "applyEvent s (cal_event ''cal.failed'' ch []) = apply_failed s (cal_event ''cal.failed'' ch [])"
    by (simp add: applyEvent_def)
  moreover have "\<exists>s1. apply_failed s (cal_event ''cal.failed'' ch []) = Inr (drop_flight (bumpNonce s1 a) ch) \<and>
      flights s1 = flights s"
    using funds_ok_bal [OF inv(2), of a] h(3)
    by (auto simp: apply_failed_def own_inFlight [OF own [unfolded v]] f optUint_absent settle_escrow_def
        reducer_views)
  ultimately show ?thesis by (auto simp: reducer_views delete_conv')
qed

text \<open>
  C27: No CAL can get stuck. In a state whose in-flight records are sound (\<open>reducer_inv\<close>) and whose funds are (\<open>funds_ok\<close>), as every log
  with confined Deltas leaves them, every in-flight CAL, at whatever stage, can be closed: the reducer accepts a \<open>cal.failed\<close> for it, the
  record goes, and no PTRA is lost. A record that a Delta has overwritten may not be closed by any event.
\<close>

theorem reducer_can_close_any_cal:
  assumes "reducer_inv s" "funds_ok s" "map_of (flights s) ch = Some v"
  shows "\<exists>s'. applyEvent s (cal_event ''cal.failed'' ch []) = Inr s' \<and>
    map_of (flights s') ch = None \<and> ptra_supply s' = ptra_supply s"
proof -
  obtain s' where s': "applyEvent s (cal_event ''cal.failed'' ch []) = Inr s'" "map_of (flights s') ch = None"
    using failed_runs [OF assms] by blast
  have "event_confined (cal_event ''cal.failed'' ch [])"
    by (simp add: event_confined_def cal_event_def js_get_def)
  with applyEvent_keeps [OF assms(1) s'(1)] s' show ?thesis by (simp add: keeps_def)
qed

theorem reducer_can_close_any_cal_witness:
  "\<exists>s s'. materialize_log sample_open sample_state = Inr s \<and>
     applyEvent s (cal_event ''cal.failed'' (js ''c1'') []) = Inr s' \<and> map_of (flights s') (js ''c1'') = None"
proof -
  obtain s v where s: "materialize_log sample_open sample_state = Inr s"
    "map_of (flights s) (js ''c1'') = Some v"
    using sample_open_alice by blast
  with open_confined log_sound [OF sample_inv _ s(1)] reducer_can_close_any_cal [of s "js ''c1''" v] s
  show ?thesis by blast
qed

named_theorems ns_views \<open>a namespace after a write to another one\<close>

lemma set_ns [ns_views]:
  "lit_key a \<Longrightarrow> a \<noteq> ''cal'' \<Longrightarrow> getIn (Some (set_stage s ch st)) (js a # q) = getIn (Some s) (js a # q)"
  "lit_key a \<Longrightarrow> a \<noteq> ''ptra'' \<Longrightarrow> getIn (Some (set_balance s ch n)) (js a # q) = getIn (Some s) (js a # q)"
  "lit_key a \<Longrightarrow> a \<noteq> ''treasury'' \<Longrightarrow> getIn (Some (addFees s n)) (js a # q) = getIn (Some s) (js a # q)"
  "lit_key a \<Longrightarrow> a \<noteq> ''cal'' \<Longrightarrow> getIn (Some (bumpNonce s ch)) (js a # q) = getIn (Some s) (js a # q)"
  "lit_key a \<Longrightarrow> a \<noteq> ''cal'' \<Longrightarrow> getIn (Some (drop_flight s ch)) (js a # q) = getIn (Some s) (js a # q)"
  "lit_key a \<Longrightarrow> a \<noteq> ''failure_mode'' \<Longrightarrow>
     getIn (Some (recomputeBounded s)) (js a # q) = getIn (Some s) (js a # q)"
  "lit_key a \<Longrightarrow> a \<noteq> b \<Longrightarrow>
     getIn (Some (setIn (Some s) (js b # p) v)) (js a # q) = getIn (Some s) (js a # q)"
  by (simp_all add: set_stage_def set_balance_def addFees_def bumpNonce_def drop_flight_def
      recomputeBounded_def Let_def getIn_setIn_ns getIn_deleteIn_ns)

text \<open>The events of a CAL that succeeds, after \<open>cal.created\<close>; \<open>ds\<close> are the Deltas its execution reports.\<close>

definition cal_run :: "jstring \<Rightarrow> int \<Rightarrow> int \<Rightarrow> int \<Rightarrow> json list \<Rightarrow> obj list" where
  "cal_run ch escrow gas refund ds =
     [cal_event ''cal.signed'' ch [],
      cal_event ''cal.validated'' ch [(js ''escrow_ptra'', JInt escrow)],
      cal_event ''cal.executed'' ch [(js ''effects'', JArr ds), (js ''gas_consumed_ptra'', JInt gas)],
      cal_event ''cal.settled'' ch [],
      cal_event ''cal.finalized'' ch [(js ''gas_refunded_ptra'', JInt refund)]]"

definition fits :: "int \<Rightarrow> bool" where
  "fits n \<longleftrightarrow> 0 \<le> n \<and> n \<le> UINT256_MAX"

lemma run_signed:
  assumes "map_of (flights s) ch = Some (JObj h)" "at_stage h ''CREATED''"
  shows "applyEvent s (cal_event ''cal.signed'' ch []) = Inr (set_stage s ch ''SIGNED'')"
  using assms by (simp add: applyEvent_def apply_signed_def own_inFlight)

lemma run_validated:
  assumes "map_of (flights s) ch = Some (JObj h)" "at_stage h ''SIGNED''" "flight_agent h = Inr a"
    "fits n" "n \<le> bal s a"
  shows "applyEvent s (cal_event ''cal.validated'' ch [(js ''escrow_ptra'', JInt n)]) =
    Inr (set_stage (setIn (Some (set_balance s a (bal s a - n)))
      [js ''cal'', js ''in_flight'', ch, js ''escrowed_ptra''] (JInt n)) ch ''VALIDATED'')"
proof -
  have "reqUint (cal_event ''cal.validated'' ch [(js ''escrow_ptra'', JInt n)]) ''escrow_ptra'' = Inr n"
    using assms(4) by (simp add: reqUint_Inr fits_def cal_event_def js_get_def)
  with assms show ?thesis by (simp add: applyEvent_def apply_validated_def own_inFlight Let_def)
qed

lemma run_executed:
  assumes "map_of (flights s) ch = Some (JObj h)" "at_stage h ''VALIDATED''" "fits g"
  shows "applyEvent s (cal_event ''cal.executed'' ch
      [(js ''effects'', JArr ds), (js ''gas_consumed_ptra'', JInt g)]) =
    Inr (set_stage (setIn (Some (setIn (Some s)
      [js ''cal'', js ''in_flight'', ch, js ''staged''] (JArr ds)))
      [js ''cal'', js ''in_flight'', ch, js ''gas_consumed_ptra''] (JInt g)) ch ''EXECUTED'')"
proof -
  let ?ev = "cal_event ''cal.executed'' ch [(js ''effects'', JArr ds), (js ''gas_consumed_ptra'', JInt g)]"
  have "reqUint ?ev ''gas_consumed_ptra'' = Inr g" "js_get (js ''effects'') ?ev = Some (JArr ds)"
    using assms(3) by (simp_all add: reqUint_Inr fits_def cal_event_def js_get_def)
  with assms show ?thesis by (simp add: applyEvent_def apply_executed_def own_inFlight Let_def)
qed

lemma run_settled:
  assumes "map_of (flights s) ch = Some (JObj h)" "at_stage h ''EXECUTED''"
  shows "applyEvent s (cal_event ''cal.settled'' ch []) = Inr (set_stage s ch ''SETTLED'')"
  using assms by (simp add: applyEvent_def apply_settled_def own_inFlight)

lemma run_finalized:
  assumes "map_of (flights s) ch = Some (JObj h)" "at_stage h ''SETTLED''" "flight_agent h = Inr a"
    "flight_escrow h = Inr n" "flight_staged h = Inr ds" "fits r" "r \<le> n"
  shows "applyEvent s (cal_event ''cal.finalized'' ch [(js ''gas_refunded_ptra'', JInt r)]) =
    and_then (apply_deltas s ds) (\<lambda>s1. Inr (drop_flight (bumpNonce (addFees
      (if 0 < r then set_balance s1 a (bal s1 a + r) else s1) (n - r)) a) ch))"
proof -
  have "optUint (cal_event ''cal.finalized'' ch [(js ''gas_refunded_ptra'', JInt r)]) ''gas_refunded_ptra'' = Inr r"
    using assms(6) by (simp add: optUint_def reqUint_Inr fits_def cal_event_def js_get_def js_has_iff)
  with assms show ?thesis
    by (simp add: applyEvent_def apply_finalized_def own_inFlight Let_def settle_escrow_def)
qed

lemma cal_run_split:
  "cal_run ch escrow gas refund ds =
     take 4 (cal_run ch escrow gas refund ds) @ [cal_event ''cal.finalized'' ch [(js ''gas_refunded_ptra'', JInt refund)]]"
  by (simp add: cal_run_def)

text \<open>The state after \<open>cal.settled\<close>, on the views.\<close>

lemma run_to_settled:
  assumes own: "map_of (flights s) ch = Some (JObj h)" "at_stage h ''CREATED''" "flight_agent h = Inr a"
    and n: "fits escrow" "escrow \<le> bal s a" "fits gas"
  shows "\<exists>s4 h4. materialize_state (take 4 (cal_run ch escrow gas refund ds)) s = Inr s4 \<and>
    map_of (flights s4) ch = Some (JObj h4) \<and> at_stage h4 ''SETTLED'' \<and> flight_agent h4 = Inr a \<and>
    flight_escrow h4 = Inr escrow \<and> flight_staged h4 = Inr ds \<and>
    bal s4 a = bal s a - escrow \<and> fees s4 = fees s \<and> nonces s4 = nonces s \<and>
    (\<forall>x q. lit_key x \<longrightarrow> x \<notin> {''cal'', ''ptra''} \<longrightarrow> getIn (Some s4) (js x # q) = getIn (Some s) (js x # q))"
proof -
  define s1 where "s1 = set_stage s ch ''SIGNED''"
  define s2 where "s2 = set_stage (setIn (Some (set_balance s1 a (bal s1 a - escrow)))
      [js ''cal'', js ''in_flight'', ch, js ''escrowed_ptra''] (JInt escrow)) ch ''VALIDATED''"
  define s3 where "s3 = set_stage (setIn (Some (setIn (Some s2)
      [js ''cal'', js ''in_flight'', ch, js ''staged''] (JArr ds)))
      [js ''cal'', js ''in_flight'', ch, js ''gas_consumed_ptra''] (JInt gas)) ch ''EXECUTED''"
  define s4 where "s4 = set_stage s3 ch ''SETTLED''"
  have b: "bal s1 a = bal s a" by (simp add: s1_def bal_eq reducer_views)
  have f1: "map_of (flights s1) ch = Some (JObj (AList.update (js ''stage'') (JStr (js ''SIGNED'')) h))"
    using own(1) by (simp add: s1_def reducer_views js_get_own)
  then have f2: "\<exists>h2. map_of (flights s2) ch = Some (JObj h2) \<and> at_stage h2 ''VALIDATED'' \<and>
      flight_agent h2 = Inr a \<and> flight_escrow h2 = Inr escrow"
    using own(3) by (simp add: s2_def reducer_views js_get_own at_stage_map flight_agent_Inr flight_escrow_Inr)
  then have f3: "\<exists>h3. map_of (flights s3) ch = Some (JObj h3) \<and> at_stage h3 ''EXECUTED'' \<and>
      flight_agent h3 = Inr a \<and> flight_escrow h3 = Inr escrow \<and> flight_staged h3 = Inr ds"
    by (auto simp: s3_def reducer_views js_get_own at_stage_map flight_agent_Inr flight_escrow_Inr
        flight_staged_Inr)
  then have f4: "\<exists>h4. map_of (flights s4) ch = Some (JObj h4) \<and> at_stage h4 ''SETTLED'' \<and>
      flight_agent h4 = Inr a \<and> flight_escrow h4 = Inr escrow \<and> flight_staged h4 = Inr ds"
    by (auto simp: s4_def reducer_views js_get_own at_stage_map flight_agent_Inr flight_escrow_Inr
        flight_staged_Inr)
  have "applyEvent s (cal_event ''cal.signed'' ch []) = Inr s1"
    unfolding s1_def by (rule run_signed [OF own(1,2)])
  moreover have "applyEvent s1 (cal_event ''cal.validated'' ch [(js ''escrow_ptra'', JInt escrow)]) = Inr s2"
    unfolding s2_def using own(3) n b
    by (intro run_validated [OF f1]) (simp_all add: at_stage_map flight_agent_Inr)
  moreover have "applyEvent s2 (cal_event ''cal.executed'' ch
      [(js ''effects'', JArr ds), (js ''gas_consumed_ptra'', JInt gas)]) = Inr s3"
    unfolding s3_def using f2 n(3) by (auto intro: run_executed)
  moreover have "applyEvent s3 (cal_event ''cal.settled'' ch []) = Inr s4"
    unfolding s4_def using f3 by (auto intro: run_settled)
  ultimately have "materialize_state (take 4 (cal_run ch escrow gas refund ds)) s = Inr s4"
    by (simp add: cal_run_def log.run_Cons log.run_Nil)
  moreover have "bal s4 a = bal s a - escrow \<and> fees s4 = fees s \<and> nonces s4 = nonces s"
    by (simp add: s4_def s3_def s2_def b [unfolded bal_eq] bal_eq reducer_views s1_def)
  moreover have "getIn (Some s4) (js x # q) = getIn (Some s) (js x # q)" if "lit_key x" "x \<notin> {''cal'', ''ptra''}" for x q
    using that by (simp add: s4_def s3_def s2_def s1_def ns_views)
  ultimately show ?thesis using f4 by blast
qed

text \<open>
  C28: A CAL with an escrow that the agent can pay runs to finality, whatever confined Deltas it stages. The reducer accepts its events up
  to \<open>cal.settled\<close>, which change only the lifecycle and token namespaces. \<open>cal.finalized\<close> is accepted exactly when the Deltas, applied in
  order to that state, are; then the agent pays escrow minus refund, the treasury receives just that, the nonce goes up by one, the
  record is gone, and everything else is what the Deltas made it. Otherwise the log stops there, at the error of the Delta.
\<close>

theorem reducer_runs_to_finality:
  assumes "map_of (flights s) ch = Some (JObj h)" "at_stage h ''CREATED''" "flight_agent h = Inr a"
    and "fits escrow" "escrow \<le> bal s a" "fits gas" "fits refund" "refund \<le> escrow" "list_all confined ds"
  shows "\<exists>s4. materialize_log (take 4 (cal_run ch escrow gas refund ds)) s = Inr s4 \<and>
    (\<forall>x q. lit_key x \<longrightarrow> x \<notin> {''cal'', ''ptra''} \<longrightarrow> getIn (Some s4) (js x # q) = getIn (Some s) (js x # q)) \<and>
    (case apply_deltas s4 ds of
       Inl e \<Rightarrow> materialize_log (cal_run ch escrow gas refund ds) s = Inl (e, 4)
     | Inr s5 \<Rightarrow> \<exists>s'. materialize_log (cal_run ch escrow gas refund ds) s = Inr s' \<and>
         bal s' a = bal s a - escrow + refund \<and> fees s' = fees s + (escrow - refund) \<and>
         nonce_of s' a = nonce_of s a + 1 \<and> map_of (flights s') ch = None \<and>
         (\<forall>x q. lit_key x \<longrightarrow> x \<notin> {''cal'', ''ptra'', ''treasury''} \<longrightarrow> getIn (Some s') (js x # q) = getIn (Some s5) (js x # q)) \<and>
         (\<forall>b. lit_key b \<longrightarrow> b \<noteq> ''collected_fees_window'' \<longrightarrow> val2 ''treasury'' b s' = val2 ''treasury'' b s5))"
proof -
  obtain s4 h4 where r: "materialize_state (take 4 (cal_run ch escrow gas refund ds)) s = Inr s4"
    and s4: "map_of (flights s4) ch = Some (JObj h4)" "at_stage h4 ''SETTLED''" "flight_agent h4 = Inr a"
      "flight_escrow h4 = Inr escrow" "flight_staged h4 = Inr ds"
    and v: "bal s4 a = bal s a - escrow" "fees s4 = fees s" "nonces s4 = nonces s"
    and ns: "\<forall>x q. lit_key x \<longrightarrow> x \<notin> {''cal'', ''ptra''} \<longrightarrow> getIn (Some s4) (js x # q) = getIn (Some s) (js x # q)"
    using run_to_settled [OF assms(1-6)] by blast
  note fin = run_finalized [OF s4 assms(7,8)]
  have len: "length (take 4 (cal_run ch escrow gas refund ds)) = 4" by (simp add: cal_run_def)
  show ?thesis
  proof (cases "apply_deltas s4 ds")
    case (Inl e)
    then have "applyEvent s4 (cal_event ''cal.finalized'' ch [(js ''gas_refunded_ptra'', JInt refund)]) = Inl e" by (simp add: fin)
    from log_stops_at [OF r this] Inl r ns len show ?thesis by (simp add: cal_run_split [symmetric] materialize_log_Inr)
  next
    case (Inr s5)
    let ?s' = "drop_flight (bumpNonce (addFees
      (if 0 < refund then set_balance s5 a (bal s5 a + refund) else s5) (escrow - refund)) a) ch"
    have "materialize_state (take 4 (cal_run ch escrow gas refund ds) @
        [cal_event ''cal.finalized'' ch [(js ''gas_refunded_ptra'', JInt refund)]]) s = Inr ?s'"
      using r fin Inr by (simp only: log.run_snoc and_then.simps)
    then have run: "materialize_log (cal_run ch escrow gas refund ds) s = Inr ?s'"
      by (simp only: cal_run_split [symmetric] materialize_log_Inr)
    note d = staged_deltas_views [OF Inr assms(9)]
    have "bal s5 a = bal s4 a" using d(2) by (simp add: bal_eq)
    moreover have "refund = 0" if "\<not> 0 < refund" using that assms(7) by (simp add: fits_def)
    moreover have "getIn (Some ?s') (js x # q) = getIn (Some s5) (js x # q)" if "lit_key x" "x \<notin> {''cal'', ''ptra'', ''treasury''}" for x q
      using that by (simp add: ns_views)
    moreover have "val2 ''treasury'' b ?s' = val2 ''treasury'' b s5" if "lit_key b" "b \<noteq> ''collected_fees_window''" for b
      using that by (simp add: drop_flight_def bumpNonce_def addFees_def set_balance_def view_simps)
    ultimately show ?thesis
      using v d r ns run Inr by (auto simp: materialize_log_Inr bal_eq reducer_views delete_conv')
  qed
qed

text \<open>A Delta on the registry.\<close>

definition sample_delta :: json where
  "sample_delta = JObj [(js ''op'', JStr (js ''set'')), (js ''ns'', JStr (js ''registry'')),
     (js ''path'', JArr [JStr (js ''agents''), JStr (js ''bob'')]), (js ''value'', JInt 7)]"

lemma sample_delta_applies:
  "applyDeltaJson s sample_delta = Inr (setIn (Some s) [js ''registry'', js ''agents'', js ''bob''] (JInt 7))" "confined sample_delta"
  by (simp_all add: sample_delta_def applyDeltaJson_def apply_delta_op_def enforceOwnerRecord_def js_get_def confined_def delta_path_def)

theorem reducer_runs_to_finality_witness:
  "\<exists>s s'. materialize_log sample_open sample_state = Inr s \<and>
     materialize_log (cal_run (js ''c1'') 300 50 100 [sample_delta]) s = Inr s' \<and> bal s' (js ''alice'') = bal s (js ''alice'') - 200 \<and>
     getIn (Some s') [js ''registry'', js ''agents'', js ''bob''] = Some (JInt 7)"
proof -
  obtain s where s: "materialize_log sample_open sample_state = Inr s"
    "map_of (flights s) (js ''c1'') = Some (JObj (new_flight (js ''alice'')))" "bal s (js ''alice'') = 1000"
    using sample_open_state by blast
  have "at_stage (new_flight (js ''alice'')) ''CREATED''" "flight_agent (new_flight (js ''alice'')) = Inr (js ''alice'')"
    by (simp_all add: at_stage_map flight_agent_Inr new_flight_def)
  from reducer_runs_to_finality [OF s(2) this, of 300 50 100 "[sample_delta]"] s(3) obtain s4 s' where
    r: "materialize_log (cal_run (js ''c1'') 300 50 100 [sample_delta]) s = Inr s'" "bal s' (js ''alice'') = 1000 - 300 + 100"
    and e: "\<forall>x q. lit_key x \<longrightarrow> x \<notin> {''cal'', ''ptra'', ''treasury''} \<longrightarrow> getIn (Some s') (js x # q) =
      getIn (Some (setIn (Some s4) [js ''registry'', js ''agents'', js ''bob''] (JInt 7))) (js x # q)"
    by (fastforce simp: fits_def UINT256_MAX_def sample_delta_applies)
  have "getIn (Some s') [js ''registry'', js ''agents'', js ''bob''] = Some (JInt 7)" using e by simp
  with s(1,3) r show ?thesis by (intro exI [of _ s] exI [of _ s']) simp
qed

section \<open>Errors\<close>



text \<open>That exception is real: the inherited member is taken for an in-flight record.\<close>

lemma apply_raises_on_proto:
  "applyEvent genesis (cal_event ''cal.failed'' (js ''__proto__'') []) = Inl TypeError"
  by (simp add: reducer_eval cong: and_then_weak_cong)

text \<open>
  Folding a log stops exactly at the first rejected event: the reported index and code are those of
  that event, on the state the events before it build, and nothing after it has any effect.
\<close>

theorem materialize_reports_first_error:
  "materialize_log evs s = Inl (e, i) \<longleftrightarrow>
     i < length evs \<and> (\<exists>s'. materialize_log (take i evs) s = Inr s' \<and> applyEvent s' (evs ! i) = Inl e)"
  by (rule materialize_log_Inl)

section \<open>Effects\<close>

lemma settle_escrow_ns:
  "settle_escrow s x e r = Inr s' \<Longrightarrow> lit_key a \<Longrightarrow> a \<noteq> ''ptra'' \<Longrightarrow> a \<noteq> ''treasury'' \<Longrightarrow>
   getIn (Some s') (js a # q) = getIn (Some s) (js a # q)"
  by (auto simp: settle_escrow_def Let_def ns_views split: if_splits)

lemma failed_ns:
  "apply_failed s ev = Inr s' \<Longrightarrow> lit_key a \<Longrightarrow> a \<notin> {''cal'', ''ptra'', ''treasury''} \<Longrightarrow>
   getIn (Some s') (js a # q) = getIn (Some s) (js a # q)"
  by (auto simp: apply_failed_def ns_views settle_escrow_ns split: if_splits)

lemma finalized_ns:
  assumes "apply_finalized s ev = Inr s'" "lit_key a" "a \<notin> {''cal'', ''ptra'', ''treasury''}"
  shows "\<exists>ch h ds s1. reqStr ev ''cal_hash'' = Inr ch \<and> inFlight s ch = Some h \<and> at_stage h ''SETTLED'' \<and> flight_staged h = Inr ds \<and>
    apply_deltas s ds = Inr s1 \<and> getIn (Some s') (js a # q) = getIn (Some s1) (js a # q)"
proof -
  from assms(1) obtain ch h agent e r ds s1 s2 where
    "reqStr ev ''cal_hash'' = Inr ch" "inFlight s ch = Some h" "at_stage h ''SETTLED''" "flight_staged h = Inr ds" "apply_deltas s ds = Inr s1"
    and s2: "settle_escrow s1 agent e r = Inr s2" and s': "s' = drop_flight (bumpNonce s2 agent) ch"
    by (auto simp: apply_finalized_def requireFlight_Inr split: if_splits)
  moreover have "getIn (Some s') (js a # q) = getIn (Some s1) (js a # q)"
    using assms(2,3) settle_escrow_ns [OF s2, of a q] by (simp add: s' ns_views)
  ultimately show ?thesis by blast
qed

lemma silent_handlers_ns:
  assumes "lit_key a" "a \<notin> {''cal'', ''ptra'', ''treasury'', ''oracles'', ''tick'', ''failure_mode''}"
  shows "apply_created s ev = Inr s' \<Longrightarrow> getIn (Some s') (js a # q) = getIn (Some s) (js a # q)"
    and "apply_signed s ev = Inr s' \<Longrightarrow> getIn (Some s') (js a # q) = getIn (Some s) (js a # q)"
    and "apply_validated s ev = Inr s' \<Longrightarrow> getIn (Some s') (js a # q) = getIn (Some s) (js a # q)"
    and "apply_executed s ev = Inr s' \<Longrightarrow> getIn (Some s') (js a # q) = getIn (Some s) (js a # q)"
    and "apply_settled s ev = Inr s' \<Longrightarrow> getIn (Some s') (js a # q) = getIn (Some s) (js a # q)"
    and "apply_transferred s ev = Inr s' \<Longrightarrow> getIn (Some s') (js a # q) = getIn (Some s) (js a # q)"
    and "apply_shadow_init s ev = Inr s' \<Longrightarrow> getIn (Some s') (js a # q) = getIn (Some s) (js a # q)"
    and "apply_feed_submitted s ev = Inr s' \<Longrightarrow> getIn (Some s') (js a # q) = getIn (Some s) (js a # q)"
    and "apply_tick_advanced s ev = Inr s' \<Longrightarrow> getIn (Some s') (js a # q) = getIn (Some s) (js a # q)"
  using assms
  by (auto simp: apply_created_def apply_signed_def apply_validated_def apply_executed_def
      apply_settled_def apply_shadow_init_def apply_feed_submitted_def apply_tick_advanced_Inr
      Let_def ns_views elim!: transferred_Inr split: if_splits option.splits json.splits)

text \<open>What \<open>cal.executed\<close> stages is what the event carries.\<close>

lemma executed_stages:
  assumes "apply_executed s ev = Inr s'"
  shows "\<exists>ch ds h. reqStr ev ''cal_hash'' = Inr ch \<and> js_get (js ''effects'') ev = Some (JArr ds) \<and> inFlight s' ch = Some h \<and>
    flight_staged h = Inr ds"
proof -
  from assms obtain ch h effects g where fl: "inFlight s ch = Some h" "at_stage h ''VALIDATED''"
    and ev: "reqStr ev ''cal_hash'' = Inr ch" "js_get (js ''effects'') ev = Some (JArr effects)"
    and s': "s' = set_stage (setIn (Some (setIn (Some s)
        [js ''cal'', js ''in_flight'', ch, js ''staged''] (JArr effects)))
        [js ''cal'', js ''in_flight'', ch, js ''gas_consumed_ptra''] (JInt g)) ch ''EXECUTED''"
    by (auto simp: apply_executed_def requireFlight_Inr Let_def split: if_splits option.splits json.splits)
  have "map_of (flights s) ch = Some (JObj h)" by (rule at_stage_own [OF fl])
  then obtain h' where "map_of (flights s') ch = Some (JObj h')" "flight_staged h' = Inr effects"
    by (simp add: s' set_stage_flight flight_write flight_staged_Inr)
  then show ?thesis using ev own_inFlight [of s' ch h'] by (auto simp: requireFlight_Inr)
qed

text \<open>
  C29: Effects are all-or-nothing. \<open>cal.executed\<close> stages in the record of its CAL the Deltas of the event. The registry and the governance
  namespaces change at no event but \<open>cal.finalized\<close>; that event is accepted only for a CAL at SETTLED all of whose staged Deltas,
  applied in order to the state before it, are accepted, and then both namespaces become what these Deltas, and those of no other CAL,
  make of them.
\<close>

theorem reducer_effects_atomic:
  assumes "applyEvent s ev = Inr s'" "a = ''registry'' \<or> a = ''governance''"
  shows "(if has_type ev ''cal.finalized''
     then \<exists>ch h ds s1. reqStr ev ''cal_hash'' = Inr ch \<and> inFlight s ch = Some h \<and> at_stage h ''SETTLED'' \<and> flight_staged h = Inr ds \<and>
       apply_deltas s ds = Inr s1 \<and> getIn (Some s') (js a # q) = getIn (Some s1) (js a # q)
     else getIn (Some s') (js a # q) = getIn (Some s) (js a # q)) \<and>
    (has_type ev ''cal.executed'' \<longrightarrow> (\<exists>ch ds h. reqStr ev ''cal_hash'' = Inr ch \<and> js_get (js ''effects'') ev = Some (JArr ds) \<and>
       inFlight s' ch = Some h \<and> flight_staged h = Inr ds))"
proof -
  have a: "lit_key a" "a \<notin> {''cal'', ''ptra'', ''treasury'', ''oracles'', ''tick'', ''failure_mode''}"
    "a \<notin> {''cal'', ''ptra'', ''treasury''}"
    using assms(2) by auto
  from assms(1) show ?thesis
  proof (cases rule: applyEventE)
    case executed
    with silent_handlers_ns(4) [OF a(1,2)] executed_stages show ?thesis by simp
  next
    case finalized
    with finalized_ns [OF finalized(2) a(1,3)] show ?thesis by simp
  next
    case failed
    with failed_ns [OF failed(2) a(1,3)] show ?thesis by auto
  qed (simp_all add: silent_handlers_ns [OF a(1,2)])
qed

text \<open>A registry Delta is staged at \<open>cal.executed\<close>, and written at \<open>cal.finalized\<close> and not before.\<close>

lemma finality_steps:
  "\<exists>s s'. materialize_log (sample_open @ take 4 (cal_run (js ''c1'') 300 50 100 [sample_delta])) sample_state = Inr s \<and>
     applyEvent s (cal_event ''cal.finalized'' (js ''c1'') [(js ''gas_refunded_ptra'', JInt 100)]) = Inr s' \<and>
     getIn (Some s) [js ''registry'', js ''agents'', js ''bob''] = None \<and>
     (\<exists>h. inFlight s (js ''c1'') = Some h \<and> flight_staged h = Inr [sample_delta])"
proof -
  obtain s where s: "materialize_log sample_open sample_state = Inr s"
    "map_of (flights s) (js ''c1'') = Some (JObj (new_flight (js ''alice'')))" "bal s (js ''alice'') = 1000"
    "getIn (Some s) [js ''registry'', js ''agents'', js ''bob''] = None" using sample_open_state by blast
  have "at_stage (new_flight (js ''alice'')) ''CREATED''" "flight_agent (new_flight (js ''alice'')) = Inr (js ''alice'')"
    by (simp_all add: at_stage_map flight_agent_Inr new_flight_def)
  from run_to_settled [OF s(2) this, of 300 50 100 "[sample_delta]"] s(3) obtain s4 h4 where
    r: "materialize_state (take 4 (cal_run (js ''c1'') 300 50 100 [sample_delta])) s = Inr s4"
    and f: "map_of (flights s4) (js ''c1'') = Some (JObj h4)" "at_stage h4 ''SETTLED''" "flight_agent h4 = Inr (js ''alice'')"
      "flight_escrow h4 = Inr 300" "flight_staged h4 = Inr [sample_delta]"
    and ns: "\<forall>x q. lit_key x \<longrightarrow> x \<notin> {''cal'', ''ptra''} \<longrightarrow> getIn (Some s4) (js x # q) = getIn (Some s) (js x # q)"
    by (auto simp: fits_def UINT256_MAX_def)
  have "materialize_log (sample_open @ take 4 (cal_run (js ''c1'') 300 50 100 [sample_delta])) sample_state = Inr s4"
    using s(1) r by (simp add: materialize_log_Inr log.run_append)
  moreover have "getIn (Some s4) [js ''registry'', js ''agents'', js ''bob''] = None" using ns s(4) by simp
  moreover have "inFlight s4 (js ''c1'') = Some h4" using own_inFlight [OF f(1)] by (simp add: requireFlight_Inr)
  moreover have "\<exists>s'. applyEvent s4 (cal_event ''cal.finalized'' (js ''c1'') [(js ''gas_refunded_ptra'', JInt 100)]) = Inr s'"
    by (simp add: run_finalized [OF f] fits_def UINT256_MAX_def sample_delta_applies)
  ultimately show ?thesis using f(5) by blast
qed

theorem reducer_effects_atomic_witness:
  "\<exists>s s'. materialize_log (sample_open @ take 4 (cal_run (js ''c1'') 300 50 100 [sample_delta])) sample_state = Inr s \<and>
     applyEvent s (cal_event ''cal.finalized'' (js ''c1'') [(js ''gas_refunded_ptra'', JInt 100)]) = Inr s' \<and>
     getIn (Some s) [js ''registry'', js ''agents'', js ''bob''] = None \<and>
     getIn (Some s') [js ''registry'', js ''agents'', js ''bob''] = Some (JInt 7)"
proof -
  let ?ev = "cal_event ''cal.finalized'' (js ''c1'') [(js ''gas_refunded_ptra'', JInt 100)]"
  obtain s s' h where s: "materialize_log (sample_open @ take 4 (cal_run (js ''c1'') 300 50 100 [sample_delta])) sample_state = Inr s"
    "applyEvent s ?ev = Inr s'" "getIn (Some s) [js ''registry'', js ''agents'', js ''bob''] = None"
    and h: "inFlight s (js ''c1'') = Some h" "flight_staged h = Inr [sample_delta]" using finality_steps by blast
  from reducer_effects_atomic [OF s(2), of "''registry''" "[js ''agents'', js ''bob'']"] h
  have "getIn (Some s') [js ''registry'', js ''agents'', js ''bob''] = Some (JInt 7)"
    by (auto simp: sample_delta_applies)
  with s show ?thesis by blast
qed

section \<open>Owner records and their migration\<close>

lemma ownerRecordWellFormed_iff:
  "ownerRecordWellFormed ow th \<Longrightarrow>
   \<exists>pks t. ow = Some (JArr (map JStr pks)) \<and> th = Some (JInt t) \<and> sorted_wrt (<) pks \<and> [] \<notin> set pks \<and>
     1 \<le> length pks \<and> length pks \<le> MAX_OWNERS \<and> 1 \<le> t \<and> t \<le> int (length pks)"
proof (induction ow th rule: ownerRecordWellFormed.induct)
  case (1 owners threshold)
  then obtain pks where "owners = map JStr pks" "sorted_wrt (<) pks" "[] \<notin> set pks"
    using owners_ascending_sorted [of None owners] by auto
  with 1 show ?case by (intro exI [of _ pks] exI [of _ threshold]) auto
qed auto

definition owner_delta :: "string \<Rightarrow> jstring \<Rightarrow> jstring \<Rightarrow> json \<Rightarrow> json" where
  "owner_delta opn agent field v =
     JObj [(js ''op'', JStr (js opn)), (js ''ns'', JStr (js ''registry'')),
       (js ''path'', JArr [JStr (js ''agents''), JStr agent, JStr field]), (js ''value'', v)]"

lemma owner_delta_apply:
  "applyDeltaJson s (owner_delta opn agent field v) =
     apply_delta_op s [(js ''op'', JStr (js opn)), (js ''ns'', JStr (js ''registry'')),
       (js ''path'', JArr [JStr (js ''agents''), JStr agent, JStr field]), (js ''value'', v)]
       (js opn) [js ''registry'', js ''agents'', agent, field]"
  by (simp add: owner_delta_def applyDeltaJson_def js_get_def)

text \<open>
  A Delta that sets an agent's \<open>owners\<close> or \<open>threshold\<close> is accepted only when a record that then
  carries both is well-formed: between 1 and 16 distinct non-empty keys in strictly ascending order, and
  a threshold between 1 and their number.
\<close>

theorem set_keeps_owner_record_bound:
  assumes "applyDeltaJson s (owner_delta ''set'' agent field v) = Inr s'"
    and "field = js ''owners'' \<or> field = js ''threshold''"
    and "getIn (Some s') [js ''registry'', js ''agents'', agent] = Some (JObj rec)"
    and "js_get (js ''owners'') rec = Some ow" "js_get (js ''threshold'') rec = Some th"
  shows "\<exists>pks t. ow = JArr (map JStr pks) \<and> th = JInt t \<and> sorted_wrt (<) pks \<and> [] \<notin> set pks \<and>
    1 \<le> length pks \<and> length pks \<le> 16 \<and> 1 \<le> t \<and> t \<le> int (length pks)"
proof -
  have "enforceOwnerRecord s' [js ''registry'', js ''agents'', agent, field] = Inr ()"
    using assms(1) by (auto simp: owner_delta_apply apply_delta_op_def Let_def)
  from enforceOwnerRecord_ok [OF this assms(2)] assms(3-5)
  have "ownerRecordWellFormed (Some ow) (Some th)"
    by (simp add: owner_record_ok_def js_has_iff)
  from ownerRecordWellFormed_iff [OF this] show ?thesis by (auto simp: MAX_OWNERS_def)
qed

definition owned_state :: json where
  "owned_state = setIn (Some genesis) [js ''registry'', js ''agents'', js ''alice'']
     (JObj [(js ''owners'', JArr [JStr (js ''k1'')]), (js ''threshold'', JInt 1)])"

lemmas owner_eval = owned_state_def genesis_def owner_delta_apply apply_delta_op_def enforceOwnerRecord_def
  setIn.simps getIn_Cons js_get_def js_has_iff MAX_OWNERS_def Let_def UINT256_MAX_def

theorem set_keeps_owner_record_bound_witness:
  "\<exists>s' rec. applyDeltaJson owned_state
      (owner_delta ''set'' (js ''alice'') (js ''threshold'') (JInt 1)) = Inr s' \<and>
     getIn (Some s') [js ''registry'', js ''agents'', js ''alice''] = Some (JObj rec) \<and>
     (\<exists>pks t. js_get (js ''owners'') rec = Some (JArr (map JStr pks)) \<and>
        js_get (js ''threshold'') rec = Some (JInt t) \<and> 1 \<le> t \<and> t \<le> int (length pks))"
proof -
  let ?d = "owner_delta ''set'' (js ''alice'') (js ''threshold'') (JInt 1)"
  have "\<exists>s' rec ow th. applyDeltaJson owned_state ?d = Inr s' \<and>
      getIn (Some s') [js ''registry'', js ''agents'', js ''alice''] = Some (JObj rec) \<and>
      js_get (js ''owners'') rec = Some ow \<and> js_get (js ''threshold'') rec = Some th"
    by (simp add: owner_eval cong: and_then_weak_cong)
  then obtain s' rec ow th where s': "applyDeltaJson owned_state ?d = Inr s'"
      "getIn (Some s') [js ''registry'', js ''agents'', js ''alice''] = Some (JObj rec)"
      "js_get (js ''owners'') rec = Some ow" "js_get (js ''threshold'') rec = Some th"
    by blast
  from set_keeps_owner_record_bound [OF s'(1) _ s'(2-4)] s' show ?thesis by auto
qed

text \<open>
  The other operations are not checked: subtracting from a threshold leaves a record that needs no
  signature at all, and adding a negative number takes an amount below zero.
\<close>

lemma sub_bypasses_owner_record_bound:
  "\<exists>s'. applyDeltaJson owned_state (owner_delta ''sub'' (js ''alice'') (js ''threshold'') (JInt 1)) = Inr s' \<and>
     \<not> owner_record_ok (getIn (Some s') [js ''registry'', js ''agents'', js ''alice''])"
  by (simp add: owner_eval owner_record_ok_def cong: and_then_weak_cong)

lemma add_goes_below_zero:
  "\<exists>s'. applyDeltaJson owned_state (owner_delta ''add'' (js ''alice'') (js ''threshold'') (JInt (- 5))) = Inr s' \<and>
     getIn (Some s') [js ''registry'', js ''agents'', js ''alice'', js ''threshold''] = Some (JInt (- 4))"
  by (simp add: owner_eval cong: and_then_weak_cong)

lemma migrate_idle:
  assumes "\<And>k v. map_of (ob2 ''registry'' ''agents'' s) k = Some v \<Longrightarrow> upgraded v"
  shows "migrateRegistryV1ToV2 s = s"
proof (cases "\<exists>agents. getIn (Some s) [js ''registry'', js ''agents''] = Some (JObj agents)")
  case True
  then obtain agents where g: "getIn (Some s) [js ''registry'', js ''agents''] = Some (JObj agents)" by blast
  then have A: "ob2 ''registry'' ''agents'' s = agents" by (simp add: ob2_def)
  have "foldl (migrate_agent agents) s ks = s" if "set ks \<subseteq> fst ` set agents" for ks
    using that
  proof (induction ks)
    case (Cons k ks)
    then obtain v where "map_of agents k = Some v"
      by (metis insert_subset list.simps(15) map_of_eq_None_iff not_Some_eq)
    with assms A have "migrate_agent agents s k = s"
      by (intro migrate_agent_upgraded) (auto simp: js_get_own)
    with Cons show ?case by simp
  qed simp
  with g show ?thesis by (simp add: migrateRegistryV1ToV2_def)
next
  case False
  then show ?thesis by (auto simp: migrateRegistryV1ToV2_def split: option.splits json.splits)
qed

text \<open>
  The registry migration upgrades every agent record independently and in place (one owner key
  becomes a one-element owner set with threshold 1), leaves upgraded records alone, and running it again
  changes nothing.
\<close>

theorem migration_maps_and_is_idempotent:
  assumes "wf_json s"
  shows "ob2 ''registry'' ''agents'' (migrateRegistryV1ToV2 s) =
      map (\<lambda>(k, v). (k, upgrade_record v)) (ob2 ''registry'' ''agents'' s) \<and>
    migrateRegistryV1ToV2 (migrateRegistryV1ToV2 s) = migrateRegistryV1ToV2 s"
proof
  show m: "ob2 ''registry'' ''agents'' (migrateRegistryV1ToV2 s) =
      map (\<lambda>(k, v). (k, upgrade_record v)) (ob2 ''registry'' ''agents'' s)"
    by (rule migrate_ob2 [OF assms])
  show "migrateRegistryV1ToV2 (migrateRegistryV1ToV2 s) = migrateRegistryV1ToV2 s"
    by (rule migrate_idle) (auto simp: m map_of_map upgrade_upgraded)
qed

theorem migration_maps_and_is_idempotent_witness:
  "ob2 ''registry'' ''agents'' (migrateRegistryV1ToV2 genesis) = [] \<and>
   migrateRegistryV1ToV2 (migrateRegistryV1ToV2 genesis) = migrateRegistryV1ToV2 genesis"
proof -
  have "wf_json genesis" by (simp add: genesis_def)
  from migration_maps_and_is_idempotent [OF this] show ?thesis
    by (simp add: ob2_eq genesis_def)
qed

end
