(* ===== verification/Canon_Integers.thy ===== *)
theory Canon_Integers
  imports Prelude
begin

text \<open>
  \<^verbatim>\<open>canonical/src/integers.ts\<close>: fixed-width big-endian integers, two's complement, and hex text. The
  locales \<open>codec\<close> and \<open>strict_codec\<close> are the contract of an encoder and its decoder; every encoding of
  the canonical layer is an instance of one of them.
\<close>

section \<open>The contract of an encoding\<close>

locale codec =
  fixes valid :: "'a \<Rightarrow> bool"
    and enc :: "'a \<Rightarrow> 'e + 'b"
    and dec :: "'b \<Rightarrow> 'f + 'a"
  assumes enc_total: "valid x \<Longrightarrow> \<exists>b. enc x = Inr b"
    and dec_enc: "valid x \<Longrightarrow> enc x = Inr b \<Longrightarrow> dec b = Inr x"
begin

lemma roundtrip: "valid x \<Longrightarrow> \<exists>b. enc x = Inr b \<and> dec b = Inr x"
  using enc_total [of x] dec_enc [of x] by blast

lemma enc_inj: "valid x \<Longrightarrow> valid y \<Longrightarrow> enc x = enc y \<Longrightarrow> x = y"
  using enc_total [of x] dec_enc [of x] dec_enc [of y] by auto

end

text \<open>A strict encoding has one text per value: the decoder accepts no other.\<close>

locale strict_codec = codec +
  assumes enc_dec: "dec b = Inr x \<Longrightarrow> valid x \<and> enc x = Inr b"
begin

lemma dec_inj: "dec b = Inr x \<Longrightarrow> dec c = Inr x \<Longrightarrow> b = c"
  using enc_dec [of b x] enc_dec [of c x] by simp

lemma dec_accepts_exactly: "(\<exists>x. dec b = Inr x) \<longleftrightarrow> (\<exists>x. valid x \<and> enc x = Inr b)"
  using enc_dec dec_enc by blast

end

section \<open>Numbers\<close>

text \<open>A parameter of type \<open>number | bigint\<close>.\<close>

datatype numeric = BigInt int | Number jsnum

definition MAX_UINT256 :: int where "MAX_UINT256 = push_bit 256 1 - 1"
definition MAX_INT256 :: int where "MAX_INT256 = push_bit 255 1 - 1"
definition MIN_INT256 :: int where "MIN_INT256 = - push_bit 255 1"
definition TWO_256 :: int where "TWO_256 = push_bit 256 1"
definition MAX_UINT64 :: int where "MAX_UINT64 = push_bit 64 1 - 1"
definition MAX_UINT16 :: int where "MAX_UINT16 = push_bit 16 1 - 1"
definition MAX_UINT8 :: int where "MAX_UINT8 = push_bit 8 1 - 1"

text \<open>
  \<open>BigInt(value)\<close> raises on a number that is not an integer; \<open>Number(value)\<close> of a large \<open>bigint\<close> may
  round, but stays outside the 8 and 16 bit ranges.
\<close>

fun to_bigint :: "numeric \<Rightarrow> int res" where
  "to_bigint (BigInt v) = Inr v"
| "to_bigint (Number (NInt v)) = Inr v"
| "to_bigint (Number NNegZero) = Inr 0"
| "to_bigint (Number _) = Inl TypeError"

fun to_integer :: "numeric \<Rightarrow> int option" where
  "to_integer (BigInt v) = Some v"
| "to_integer (Number (NInt v)) = Some v"
| "to_integer (Number NNegZero) = Some 0"
| "to_integer (Number _) = None"

abbreviation enc_error :: "string \<Rightarrow> 'a res" where
  "enc_error code \<equiv> Inl (Canon (CanonicalEncodingError code))"

section \<open>Big-endian bytes\<close>

text \<open>The loop writes the last byte first.\<close>

fun encodeUnsignedBe :: "int \<Rightarrow> nat \<Rightarrow> bytes" where
  "encodeUnsignedBe v 0 = []"
| "encodeUnsignedBe v (Suc i) = encodeUnsignedBe (drop_bit 8 v) i @ [word_of_int (and v 0xff)]"

definition decodeUnsignedBe :: "bytes \<Rightarrow> int" where
  "decodeUnsignedBe bs = foldl (\<lambda>v b. or (push_bit 8 v) (uint b)) 0 bs"

definition encodeUint8 :: "numeric \<Rightarrow> bytes res" where
  "encodeUint8 value =
     (case to_integer value of
        Some v \<Rightarrow> if v < 0 \<or> v > MAX_UINT8 then enc_error ''UINT8_OUT_OF_RANGE'' else Inr [word_of_int v]
      | None \<Rightarrow> enc_error ''UINT8_OUT_OF_RANGE'')"

definition encodeUint16 :: "numeric \<Rightarrow> bytes res" where
  "encodeUint16 value =
     (case to_integer value of
        Some v \<Rightarrow>
          if v < 0 \<or> v > MAX_UINT16 then enc_error ''UINT16_OUT_OF_RANGE''
          else Inr [word_of_int (and (drop_bit 8 v) 0xff), word_of_int (and v 0xff)]
      | None \<Rightarrow> enc_error ''UINT16_OUT_OF_RANGE'')"

definition encodeUint64 :: "numeric \<Rightarrow> bytes res" where
  "encodeUint64 value =
     and_then (to_bigint value) (\<lambda>v.
       if v < 0 \<or> v > MAX_UINT64 then enc_error ''UINT64_OUT_OF_RANGE''
       else Inr (encodeUnsignedBe v 8))"

definition encodeUint256 :: "numeric \<Rightarrow> bytes res" where
  "encodeUint256 value =
     and_then (to_bigint value) (\<lambda>v.
       if v < 0 \<or> v > MAX_UINT256 then enc_error ''UINT256_OUT_OF_RANGE''
       else Inr (encodeUnsignedBe v 32))"

definition decodeUint256 :: "bytes \<Rightarrow> int res" where
  "decodeUint256 bs =
     (if length bs \<noteq> 32 then enc_error ''UINT256_BAD_LENGTH'' else Inr (decodeUnsignedBe bs))"

definition encodeInt256 :: "numeric \<Rightarrow> bytes res" where
  "encodeInt256 value =
     and_then (to_bigint value) (\<lambda>v.
       if v < MIN_INT256 \<or> v > MAX_INT256 then enc_error ''INT256_OUT_OF_RANGE''
       else Inr (encodeUnsignedBe (if v \<ge> 0 then v else v + TWO_256) 32))"

definition decodeInt256 :: "bytes \<Rightarrow> int res" where
  "decodeInt256 bs =
     (if length bs \<noteq> 32 then enc_error ''INT256_BAD_LENGTH''
      else let u = decodeUnsignedBe bs in Inr (if u \<ge> push_bit 255 1 then u - TWO_256 else u))"

section \<open>Hex\<close>

definition hex_digit :: "int \<Rightarrow> 16 word" where
  "hex_digit d = (if d < 10 then word_of_int (0x30 + d) else word_of_int (0x61 + (d - 10)))"

definition byte_hex :: "8 word \<Rightarrow> jstring" where
  "byte_hex b = [hex_digit (uint b div 16), hex_digit (uint b mod 16)]"

definition toHex :: "bytes \<Rightarrow> bool \<Rightarrow> jstring" where
  "toHex bs prefix =
     (let s = concat (map byte_hex bs) in if prefix then js ''0x'' @ s else s)"

definition parseHexDigit :: "16 word \<Rightarrow> int" where
  "parseHexDigit code =
     (if code \<ge> 0x30 \<and> code \<le> 0x39 then uint code - 0x30
      else if code \<ge> 0x61 \<and> code \<le> 0x66 then uint code - 0x61 + 10
      else if code \<ge> 0x41 \<and> code \<le> 0x46 then uint code - 0x41 + 10
      else -1)"

fun hex_pairs :: "jstring \<Rightarrow> bytes res" where
  "hex_pairs (a # b # rest) =
     (let hi = parseHexDigit a; lo = parseHexDigit b
      in if hi < 0 \<or> lo < 0 then enc_error ''HEX_INVALID_CHAR''
         else and_then (hex_pairs rest) (\<lambda>bs. Inr (word_of_int (or (push_bit 4 hi) lo) # bs)))"
| "hex_pairs _ = Inr []"

definition fromHex :: "jstring \<Rightarrow> bytes res" where
  "fromHex hex =
     (let stripped = (if take 2 hex = js ''0x'' \<or> take 2 hex = js ''0X'' then drop 2 hex else hex)
      in if length stripped mod 2 \<noteq> 0 then enc_error ''HEX_ODD_LENGTH'' else hex_pairs stripped)"

definition int256ToHexText :: "numeric \<Rightarrow> jstring res" where
  "int256ToHexText value = and_then (encodeInt256 value) (\<lambda>b. Inr (toHex b True))"

definition uint256ToHexText :: "numeric \<Rightarrow> jstring res" where
  "uint256ToHexText value = and_then (encodeUint256 value) (\<lambda>b. Inr (toHex b True))"

definition uint64ToHexText :: "numeric \<Rightarrow> jstring res" where
  "uint64ToHexText value = and_then (encodeUint64 value) (\<lambda>b. Inr (toHex b True))"

definition uint16ToHexText :: "numeric \<Rightarrow> jstring res" where
  "uint16ToHexText value = and_then (encodeUint16 value) (\<lambda>b. Inr (toHex b True))"

section \<open>Bytes are numbers\<close>

lemma and_255: "and v 0xff = v mod 256" for v :: int
  using take_bit_eq_mask [of 8 v] by (simp add: mask_eq_exp_minus_1 take_bit_eq_mod)

lemma length_encodeUnsignedBe [simp]: "length (encodeUnsignedBe v n) = n"
  by (induction n arbitrary: v) simp_all

lemma or_push_bit_byte: "or (push_bit 8 v) (uint b) = v * 256 + uint b" for v :: int and b :: "8 word"
proof -
  have "push_bit 8 v + uint b = or (push_bit 8 v) (uint b)"
    by (rule disjunctive_add) (auto simp: bit_push_bit_iff bit_uint_iff)
  then show ?thesis by (simp add: push_bit_eq_mult)
qed

lemma word_of_int_byte [simp]: "(word_of_int (x * 256 + uint b) :: 8 word) = b"
  using uint_lt2p [of b] by (simp add: word_uint_eq_iff uint_word_of_int del: of_int_add of_int_mult)

lemma decodeUnsignedBe_eq: "decodeUnsignedBe bs = foldl (\<lambda>v b. v * 256 + uint b) 0 bs"
  by (simp add: decodeUnsignedBe_def or_push_bit_byte)

lemma decodeUnsignedBe_snoc: "decodeUnsignedBe (bs @ [b]) = decodeUnsignedBe bs * 256 + uint b"
  by (simp add: decodeUnsignedBe_eq)

lemma decodeUnsignedBe_Nil [simp]: "decodeUnsignedBe [] = 0"
  by (simp add: decodeUnsignedBe_eq)

lemma encodeUnsignedBe_Suc:
  "encodeUnsignedBe v (Suc i) = encodeUnsignedBe (v div 256) i @ [word_of_int v]"
  by (simp add: and_255 drop_bit_eq_div word_of_int_eq_iff take_bit_eq_mod)

lemma decode_encode: "0 \<le> v \<Longrightarrow> v < 256 ^ n \<Longrightarrow> decodeUnsignedBe (encodeUnsignedBe v n) = v"
proof (induction n arbitrary: v)
  case 0
  then show ?case by simp
next
  case (Suc n)
  then have "decodeUnsignedBe (encodeUnsignedBe (v div 256) n) = v div 256"
    by (intro Suc.IH) (auto simp: div_int_pos_iff)
  then show ?case
    unfolding encodeUnsignedBe_Suc decodeUnsignedBe_snoc
    by (simp add: uint_word_of_int)
qed

lemma decodeUnsignedBe_bounds: "0 \<le> decodeUnsignedBe bs \<and> decodeUnsignedBe bs < 256 ^ length bs"
proof (induction bs rule: rev_induct)
  case Nil
  then show ?case by simp
next
  case (snoc b bs)
  have "uint b < 256" using uint_lt2p [of b] by simp
  with snoc show ?case by (simp add: decodeUnsignedBe_snoc)
qed

lemma encode_decode: "encodeUnsignedBe (decodeUnsignedBe bs) (length bs) = bs"
proof (induction bs rule: rev_induct)
  case Nil
  then show ?case by simp
next
  case (snoc b bs)
  have "uint b < 256" using uint_lt2p [of b] by simp
  with snoc show ?case
    by (simp add: decodeUnsignedBe_snoc encodeUnsignedBe_Suc del: encodeUnsignedBe.simps of_int_add of_int_mult)
qed

lemma pow_256: "(256 :: int) ^ n = 2 ^ (8 * n)"
  by (simp add: power_mult)

lemma pow_256_32: "(256 :: int) ^ 32 = 2 ^ 256"
  by (simp add: pow_256)

lemmas integer_bounds = MAX_UINT256_def MAX_INT256_def MIN_INT256_def TWO_256_def MAX_UINT64_def
  MAX_UINT16_def MAX_UINT8_def push_bit_of_1

section \<open>The integer encodings are strict\<close>

definition is_uint256 :: "int \<Rightarrow> bool" where
  "is_uint256 v \<longleftrightarrow> 0 \<le> v \<and> v \<le> MAX_UINT256"

definition is_int256 :: "int \<Rightarrow> bool" where
  "is_int256 v \<longleftrightarrow> MIN_INT256 \<le> v \<and> v \<le> MAX_INT256"

interpretation uint256: strict_codec is_uint256 "\<lambda>v. encodeUint256 (BigInt v)" decodeUint256
proof
  fix v
  assume v: "is_uint256 v"
  then show "\<exists>b. encodeUint256 (BigInt v) = Inr b"
    by (simp add: is_uint256_def encodeUint256_def)
  fix b
  assume "encodeUint256 (BigInt v) = Inr b"
  with v show "decodeUint256 b = Inr v"
    by (auto simp: is_uint256_def encodeUint256_def decodeUint256_def integer_bounds pow_256_32
        split: if_splits intro!: decode_encode)
next
  fix b v
  assume "decodeUint256 b = Inr v"
  then have b: "length b = 32" "v = decodeUnsignedBe b" by (auto simp: decodeUint256_def split: if_splits)
  with decodeUnsignedBe_bounds [of b] have "is_uint256 v"
    by (simp add: is_uint256_def integer_bounds pow_256_32)
  with b encode_decode [of b] show "is_uint256 v \<and> encodeUint256 (BigInt v) = Inr b"
    by (simp add: encodeUint256_def is_uint256_def)
qed

interpretation int256: strict_codec is_int256 "\<lambda>v. encodeInt256 (BigInt v)" decodeInt256
proof
  fix v
  assume v: "is_int256 v"
  then show "\<exists>b. encodeInt256 (BigInt v) = Inr b"
    by (simp add: is_int256_def encodeInt256_def)
  fix b
  assume "encodeInt256 (BigInt v) = Inr b"
  with v have "b = encodeUnsignedBe (if v \<ge> 0 then v else v + TWO_256) 32"
    by (simp add: is_int256_def encodeInt256_def split: if_splits)
  moreover have "decodeUnsignedBe (encodeUnsignedBe (if v \<ge> 0 then v else v + TWO_256) 32) =
      (if v \<ge> 0 then v else v + TWO_256)"
    using v by (intro decode_encode) (auto simp: is_int256_def integer_bounds pow_256_32)
  ultimately show "decodeInt256 b = Inr v"
    using v by (auto simp: decodeInt256_def is_int256_def integer_bounds Let_def)
next
  fix b v
  assume "decodeInt256 b = Inr v"
  then have b: "length b = 32"
    "v = (if decodeUnsignedBe b \<ge> push_bit 255 1 then decodeUnsignedBe b - TWO_256 else decodeUnsignedBe b)"
    by (auto simp: decodeInt256_def Let_def split: if_splits)
  have bound: "0 \<le> decodeUnsignedBe b" "decodeUnsignedBe b < 2 ^ 256"
    using decodeUnsignedBe_bounds [of b] b(1) by (simp_all add: pow_256_32)
  from b(2) bound have "is_int256 v" "(if v \<ge> 0 then v else v + TWO_256) = decodeUnsignedBe b"
    by (auto simp: is_int256_def integer_bounds split: if_splits)
  with b(1) encode_decode [of b] show "is_int256 v \<and> encodeInt256 (BigInt v) = Inr b"
    by (simp add: encodeInt256_def is_int256_def)
qed

section \<open>Hex text\<close>

lemma hex_digits_checked:
  "list_all (\<lambda>d. parseHexDigit (hex_digit d) = d \<and> hex_digit d \<noteq> 0x78 \<and> hex_digit d \<noteq> 0x58) [0..15]"
  by code_simp

lemma hex_digit_range: "0 \<le> d \<Longrightarrow> d < 16 \<Longrightarrow>
    parseHexDigit (hex_digit d) = d \<and> hex_digit d \<noteq> 0x78 \<and> hex_digit d \<noteq> 0x58"
  using hex_digits_checked by (auto simp: list_all_iff)

lemmas parse_hex_digit = hex_digit_range [THEN conjunct1]

lemma or_nibbles: "0 \<le> lo \<Longrightarrow> lo < 16 \<Longrightarrow> or (push_bit 4 hi) lo = hi * 16 + lo" for hi lo :: int
proof -
  assume "0 \<le> lo" "lo < 16"
  then have lo: "take_bit 4 lo = lo" by (simp add: take_bit_eq_mod)
  have "push_bit 4 hi + lo = or (push_bit 4 hi) lo"
    by (rule disjunctive_add) (metis bit_push_bit_iff bit_take_bit_iff lo not_le)
  then show ?thesis by (simp add: push_bit_eq_mult)
qed

lemma byte_hex_parse [simp]: "hex_pairs (byte_hex b @ rest) = and_then (hex_pairs rest) (\<lambda>bs. Inr (b # bs))"
proof -
  have "uint b < 256" using uint_lt2p [of b] by simp
  then have "uint b div 16 < 16" by linarith
  then have "parseHexDigit (hex_digit (uint b div 16)) = uint b div 16"
    "parseHexDigit (hex_digit (uint b mod 16)) = uint b mod 16"
    by (simp_all add: parse_hex_digit pos_imp_zdiv_nonneg_iff)
  moreover have "or (push_bit 4 (uint b div 16)) (uint b mod 16) = uint b"
    by (simp add: or_nibbles)
  moreover have "\<not> uint b div 16 < 0" "\<not> uint b mod 16 < 0"
    by (simp_all add: not_less pos_imp_zdiv_nonneg_iff)
  ultimately show ?thesis by (simp only: byte_hex_def append.simps hex_pairs.simps Let_def) simp
qed

lemma hex_pairs_toHex: "hex_pairs (concat (map byte_hex bs)) = Inr bs"
  by (induction bs) (simp_all del: hex_pairs.simps(1))

lemma length_hex [simp]: "length (concat (map byte_hex bs)) = 2 * length bs"
  by (induction bs) (simp_all add: byte_hex_def)

lemma hex_no_prefix: "take 2 (concat (map byte_hex bs)) \<noteq> js ''0x''" "take 2 (concat (map byte_hex bs)) \<noteq> js ''0X''"
proof -
  have "hex_digit (uint b mod 16) \<noteq> 0x78 \<and> hex_digit (uint b mod 16) \<noteq> 0x58" for b :: "8 word"
    using hex_digit_range [of "uint b mod 16"] by simp
  then show "take 2 (concat (map byte_hex bs)) \<noteq> js ''0x''" "take 2 (concat (map byte_hex bs)) \<noteq> js ''0X''"
    by (cases bs; simp add: byte_hex_def js_def)+
qed

lemma fromHex_toHex: "fromHex (toHex bs p) = Inr bs"
proof -
  have "take 2 (js ''0x'') = js ''0x''" "drop 2 (js ''0x'') = []" by (simp_all add: js_def)
  then show ?thesis
    using hex_no_prefix [of bs] by (simp add: toHex_def fromHex_def hex_pairs_toHex Let_def)
qed

interpretation hex_text: codec "\<lambda>_. True" "\<lambda>bs. Inr (toHex bs p) :: jstring res" fromHex
  by unfold_locales (auto simp: fromHex_toHex)

lemma toHex_inject: "toHex bs p = toHex cs p \<longleftrightarrow> bs = cs"
  by (metis fromHex_toHex sum.inject(2))

end
