(* ===== verification/Canon_Framing.thy ===== *)
theory Canon_Framing
  imports Canon_Integers
begin

text \<open>
  \<^verbatim>\<open>canonical/src/framing.ts\<close>: binary frames (a tag, a version, the payload's length, the payload), and
  \<^verbatim>\<open>canonical/src/addresses.ts\<close>: raw addresses, with the decimal text of integers they need.
\<close>

section \<open>Frames\<close>

definition MAX_LENGTH :: nat where
  "MAX_LENGTH = 0xffffffff"

record frame =
  typeTag :: jsnum
  version :: jsnum
  payload :: bytes

definition uint16_number :: "jsnum \<Rightarrow> bool" where
  "uint16_number n \<longleftrightarrow> (case to_integer (Number n) of Some v \<Rightarrow> \<not> (v < 0 \<or> v > 0xffff) | None \<Rightarrow> False)"

definition encodeFrame :: "frame \<Rightarrow> bytes res" where
  "encodeFrame fr =
     (if \<not> uint16_number (typeTag fr) then enc_error ''FRAME_BAD_TYPE_TAG''
      else if \<not> uint16_number (version fr) then enc_error ''FRAME_BAD_VERSION''
      else if length (payload fr) > MAX_LENGTH then enc_error ''FRAME_PAYLOAD_TOO_LARGE''
      else
        (let len = word_of_nat (length (payload fr)) :: 32 word
         in and_then (encodeUint16 (Number (typeTag fr))) (\<lambda>t.
            and_then (encodeUint16 (Number (version fr))) (\<lambda>v.
              Inr (t @ v @ [ucast (drop_bit 24 len), ucast (drop_bit 16 len),
                            ucast (drop_bit 8 len), ucast len] @ payload fr)))))"

definition decodeFrame :: "bytes \<Rightarrow> frame res" where
  "decodeFrame bs =
     (case bs of
        b0 # b1 # b2 # b3 # b4 # b5 # b6 # b7 # rest \<Rightarrow>
          let tag = or (push_bit 8 (uint b0)) (uint b1);
              ver = or (push_bit 8 (uint b2)) (uint b3);
              len = uint b4 * 0x1000000 + or (or (push_bit 16 (uint b5)) (push_bit 8 (uint b6))) (uint b7)
          in if int (length bs) \<noteq> 8 + len then enc_error ''FRAME_LENGTH_MISMATCH''
             else Inr \<lparr>typeTag = NInt tag, version = NInt ver, payload = rest\<rparr>
      | _ \<Rightarrow> enc_error ''FRAME_TOO_SHORT'')"

lemma or_three_bytes:
  "or (or (push_bit 16 (uint b5)) (push_bit 8 (uint b6))) (uint b7) = uint b5 * 65536 + uint b6 * 256 + uint b7"
  for b5 b6 b7 :: "8 word"
proof -
  have "or (push_bit 16 (uint b5)) (push_bit 8 (uint b6)) = push_bit 8 (or (push_bit 8 (uint b5)) (uint b6))"
    by (simp add: push_bit_or push_bit_push_bit)
  then show ?thesis by (simp add: or_push_bit_byte)
qed

lemma encode_4:
  "encodeUnsignedBe v 4 = [word_of_int (v div 16777216), word_of_int (v div 65536), word_of_int (v div 256),
     word_of_int v]"
proof -
  have "encodeUnsignedBe v (Suc (Suc (Suc (Suc 0)))) = [word_of_int (v div 256 div 256 div 256),
      word_of_int (v div 256 div 256), word_of_int (v div 256), word_of_int v]"
    by (simp only: encodeUnsignedBe_Suc encodeUnsignedBe.simps(1)) simp
  moreover have "v div 256 div 256 div 256 = v div 16777216" "v div 256 div 256 = v div 65536"
    by (simp_all add: div_mult2_eq')
  moreover have "4 = Suc (Suc (Suc (Suc 0)))" by simp
  ultimately show ?thesis by (simp only:)
qed

lemma len_bytes:
  assumes "n < 2 ^ 32"
  shows "(let len = word_of_nat n :: 32 word
    in [ucast (drop_bit 24 len), ucast (drop_bit 16 len), ucast (drop_bit 8 len), ucast len :: 8 word]) =
    encodeUnsignedBe (int n) 4"
proof -
  have "ucast (drop_bit k (word_of_nat n :: 32 word)) = (word_of_int (int n div 2 ^ k) :: 8 word)" for k
  proof (rule word_uint_eqI)
    have "uint (drop_bit k (word_of_nat n :: 32 word)) = int n div 2 ^ k"
      unfolding unsigned_drop_bit_eq
      using assms by (simp add: drop_bit_eq_div unsigned_of_nat take_bit_eq_mod)
    then show "uint (ucast (drop_bit k (word_of_nat n :: 32 word)) :: 8 word) =
        uint (word_of_int (int n div 2 ^ k) :: 8 word)"
      by (simp add: uint_word_of_int unsigned_ucast_eq take_bit_eq_mod)
  qed
  from this [of 24] this [of 16] this [of 8] this [of 0] show ?thesis
    by (simp add: encode_4 Let_def)
qed

definition valid_frame :: "frame \<Rightarrow> bool" where
  "valid_frame fr \<longleftrightarrow>
     (case (typeTag fr, version fr) of
        (NInt t, NInt v) \<Rightarrow> 0 \<le> t \<and> t \<le> 0xffff \<and> 0 \<le> v \<and> v \<le> 0xffff
      | _ \<Rightarrow> False) \<and> length (payload fr) \<le> MAX_LENGTH"

lemma encode_2: "encodeUnsignedBe v 2 = [word_of_int (v div 256), word_of_int v]"
proof -
  have "encodeUnsignedBe v (Suc (Suc 0)) = [word_of_int (v div 256), word_of_int v]"
    by (simp only: encodeUnsignedBe_Suc encodeUnsignedBe.simps(1)) simp
  moreover have "2 = Suc (Suc 0)" by simp
  ultimately show ?thesis by (simp only:)
qed

lemma encodeUint16_NInt:
  "0 \<le> v \<Longrightarrow> v \<le> 0xffff \<Longrightarrow> encodeUint16 (Number (NInt v)) = Inr (encodeUnsignedBe v 2)"
  by (simp add: encodeUint16_def encode_2 integer_bounds and_255 drop_bit_eq_div word_of_int_eq_iff
      take_bit_eq_mod)

lemma encodeFrame_valid:
  assumes "typeTag fr = NInt t" "version fr = NInt v" "valid_frame fr"
  shows "encodeFrame fr = Inr (encodeUnsignedBe t 2 @ encodeUnsignedBe v 2 @
    encodeUnsignedBe (int (length (payload fr))) 4 @ payload fr)"
proof -
  have n: "length (payload fr) < 2 ^ 32" and b: "0 \<le> t" "t \<le> 0xffff" "0 \<le> v" "v \<le> 0xffff"
    using assms by (simp_all add: valid_frame_def MAX_LENGTH_def)
  have l: "\<not> length (payload fr) > MAX_LENGTH" using assms(3) by (simp add: valid_frame_def)
  from b have "uint16_number (NInt t)" "uint16_number (NInt v)" by (simp_all add: uint16_number_def)
  with l b assms(1,2) len_bytes [OF n, unfolded Let_def, symmetric] show ?thesis
    by (simp add: encodeFrame_def Let_def encodeUint16_NInt)
qed

lemma decodeUnsignedBe_bytes:
  "decodeUnsignedBe [a, b] = or (push_bit 8 (uint a)) (uint b)"
  "decodeUnsignedBe [c, d, e, f] = uint c * 0x1000000 + or (or (push_bit 16 (uint d)) (push_bit 8 (uint e))) (uint f)"
  by (simp_all add: decodeUnsignedBe_eq or_push_bit_byte or_three_bytes)

lemma decodeFrame_split:
  assumes "length t = 2" "length v = 2" "length l = 4"
  shows "decodeFrame (t @ v @ l @ p) =
    (if int (length p) \<noteq> decodeUnsignedBe l then enc_error ''FRAME_LENGTH_MISMATCH''
     else Inr \<lparr>typeTag = NInt (decodeUnsignedBe t), version = NInt (decodeUnsignedBe v), payload = p\<rparr>)"
proof -
  obtain b0 b1 where t: "t = [b0, b1]"
    using assms(1) by (auto simp: numeral_2_eq_2 length_Suc_conv)
  obtain b2 b3 where v: "v = [b2, b3]"
    using assms(2) by (auto simp: numeral_2_eq_2 length_Suc_conv)
  obtain b4 b5 b6 b7 where l: "l = [b4, b5, b6, b7]"
    using assms(3) by (auto simp: eval_nat_numeral length_Suc_conv)
  show ?thesis unfolding t v l decodeUnsignedBe_bytes by (simp add: decodeFrame_def Let_def)
qed

interpretation frames: strict_codec valid_frame encodeFrame decodeFrame
proof
  fix fr
  assume v: "valid_frame fr"
  then obtain tg vr where fr: "typeTag fr = NInt tg" "version fr = NInt vr"
    by (auto simp: valid_frame_def split: jsnum.splits)
  from encodeFrame_valid [OF fr v] show "\<exists>b. encodeFrame fr = Inr b" by simp
  fix b
  assume "encodeFrame fr = Inr b"
  with encodeFrame_valid [OF fr v] have b: "b = encodeUnsignedBe tg 2 @ encodeUnsignedBe vr 2 @
    encodeUnsignedBe (int (length (payload fr))) 4 @ payload fr" by simp
  have "decodeUnsignedBe (encodeUnsignedBe tg 2) = tg" "decodeUnsignedBe (encodeUnsignedBe vr 2) = vr"
    "decodeUnsignedBe (encodeUnsignedBe (int (length (payload fr))) 4) = int (length (payload fr))"
    using v fr by (auto intro!: decode_encode simp: valid_frame_def MAX_LENGTH_def)
  with fr show "decodeFrame b = Inr fr" unfolding b by (simp add: decodeFrame_split)
next
  fix b fr
  assume d: "decodeFrame b = Inr fr"
  then obtain b0 b1 b2 b3 b4 b5 b6 b7 p where
    bs: "b = b0 # b1 # b2 # b3 # b4 # b5 # b6 # b7 # p"
    by (auto simp: decodeFrame_def split: list.splits)
  define t v l where "t = [b0, b1]" and "v = [b2, b3]" and "l = [b4, b5, b6, b7]"
  with bs have b: "b = t @ v @ l @ p" and len: "length t = 2" "length v = 2" "length l = 4" by simp_all
  from d have fr: "int (length p) = decodeUnsignedBe l"
    "fr = \<lparr>typeTag = NInt (decodeUnsignedBe t), version = NInt (decodeUnsignedBe v), payload = p\<rparr>"
    unfolding b by (auto simp: decodeFrame_split len split: if_splits)
  have valid: "valid_frame fr"
    using decodeUnsignedBe_bounds [of t] decodeUnsignedBe_bounds [of v] decodeUnsignedBe_bounds [of l] len fr
    by (simp add: valid_frame_def MAX_LENGTH_def)
  show "valid_frame fr \<and> encodeFrame fr = Inr b"
    using encodeFrame_valid [OF _ _ valid] valid fr encode_decode [of t] encode_decode [of v] encode_decode [of l] len
    by (simp add: b)
qed

end
