(* ===== verification/Canon_Strings.thy ===== *)
theory Canon_Strings
  imports Canon_Integers Canon_Unicode
begin

text \<open>
  \<^verbatim>\<open>canonical/src/strings.ts\<close>: NFC, UTF-8 and the domain of canonical strings. UTF-16 iteration and the
  UTF-8 encoder and decoder of the language are written out. Normalisation (the engine's Unicode data) and
  SHA-256 (node:crypto) are not code of the repository: they are the fields of a record \<open>host\<close> that every
  function using them takes, and \<open>host_ok\<close> states what is relied on.
\<close>

record host =
  host_nfc :: "jstring \<Rightarrow> jstring"
  host_sha256 :: "bytes \<Rightarrow> bytes"

section \<open>UTF-16 and UTF-8\<close>

definition high_surrogate :: "16 word \<Rightarrow> bool" where
  "high_surrogate c \<longleftrightarrow> 0xd800 \<le> uint c \<and> uint c \<le> 0xdbff"

definition low_surrogate :: "16 word \<Rightarrow> bool" where
  "low_surrogate c \<longleftrightarrow> 0xdc00 \<le> uint c \<and> uint c \<le> 0xdfff"

definition pair_code_point :: "16 word \<Rightarrow> 16 word \<Rightarrow> int" where
  "pair_code_point c d = 0x10000 + (uint c - 0xd800) * 0x400 + (uint d - 0xdc00)"

text \<open>\<open>for (const ch of s)\<close>: a surrogate pair is one code point, a lone surrogate is itself.\<close>

fun code_points :: "jstring \<Rightarrow> int list" where
  "code_points (c # d # r) =
     (if high_surrogate c \<and> low_surrogate d
      then pair_code_point c d # code_points r
      else uint c # code_points (d # r))"
| "code_points [c] = [uint c]"
| "code_points [] = []"

fun well_formed :: "jstring \<Rightarrow> bool" where
  "well_formed (c # d # r) \<longleftrightarrow>
     (if high_surrogate c then low_surrogate d \<and> well_formed r
      else \<not> low_surrogate c \<and> well_formed (d # r))"
| "well_formed [c] \<longleftrightarrow> \<not> high_surrogate c \<and> \<not> low_surrogate c"
| "well_formed [] \<longleftrightarrow> True"

definition is_surrogate :: "int \<Rightarrow> bool" where
  "is_surrogate cp \<longleftrightarrow> 0xd800 \<le> cp \<and> cp \<le> 0xdfff"

definition utf8_cp :: "int \<Rightarrow> bytes" where
  "utf8_cp cp =
     (if cp < 0x80 then [word_of_int cp]
      else if cp < 0x800 then [word_of_int (0xc0 + cp div 64), word_of_int (0x80 + cp mod 64)]
      else if cp < 0x10000 then
        [word_of_int (0xe0 + cp div 4096), word_of_int (0x80 + cp div 64 mod 64),
         word_of_int (0x80 + cp mod 64)]
      else
        [word_of_int (0xf0 + cp div 262144), word_of_int (0x80 + cp div 4096 mod 64),
         word_of_int (0x80 + cp div 64 mod 64), word_of_int (0x80 + cp mod 64)])"

text \<open>\<open>TextEncoder\<close>: a lone surrogate becomes U+FFFD.\<close>

definition utf8_encode :: "jstring \<Rightarrow> bytes" where
  "utf8_encode s = concat (map (\<lambda>cp. utf8_cp (if is_surrogate cp then 0xfffd else cp)) (code_points s))"

definition is_cont :: "8 word \<Rightarrow> bool" where
  "is_cont b \<longleftrightarrow> 0x80 \<le> uint b \<and> uint b \<le> 0xbf"

text \<open>\<open>TextDecoder\<close> in fatal mode: shortest form, no surrogates, nothing above U+10FFFF.\<close>

fun utf8_decode :: "bytes \<Rightarrow> int list option" where
  "utf8_decode [] = Some []"
| "utf8_decode (a # r) =
     (if uint a < 0x80 then map_option (Cons (uint a)) (utf8_decode r)
      else if uint a < 0xc2 then None
      else if uint a < 0xe0 then
        (case r of
           b # r1 \<Rightarrow>
             if is_cont b
             then map_option (Cons ((uint a - 0xc0) * 64 + (uint b - 0x80))) (utf8_decode r1) else None
         | _ \<Rightarrow> None)
      else if uint a < 0xf0 then
        (case r of
           b # c # r1 \<Rightarrow>
             let cp = (uint a - 0xe0) * 4096 + (uint b - 0x80) * 64 + (uint c - 0x80)
             in if is_cont b \<and> is_cont c \<and> 0x800 \<le> cp \<and> \<not> is_surrogate cp
                then map_option (Cons cp) (utf8_decode r1) else None
         | _ \<Rightarrow> None)
      else if uint a < 0xf5 then
        (case r of
           b # c # d # r1 \<Rightarrow>
             let cp = (uint a - 0xf0) * 262144 + (uint b - 0x80) * 4096 + (uint c - 0x80) * 64 + (uint d - 0x80)
             in if is_cont b \<and> is_cont c \<and> is_cont d \<and> 0x10000 \<le> cp \<and> cp \<le> 0x10ffff
                then map_option (Cons cp) (utf8_decode r1) else None
         | _ \<Rightarrow> None)
      else None)"

definition utf16_cp :: "int \<Rightarrow> jstring" where
  "utf16_cp cp =
     (if cp < 0x10000 then [word_of_int cp]
      else [word_of_int (0xd800 + (cp - 0x10000) div 0x400), word_of_int (0xdc00 + (cp - 0x10000) mod 0x400)])"

section \<open>Canonical strings\<close>

abbreviation event_error :: "string \<Rightarrow> 'a res" where
  "event_error code \<equiv> Inl (Canon (NoncanonicalEventError code))"

definition assertAssigned :: "jstring \<Rightarrow> unit res" where
  "assertAssigned s =
     (if list_all isAssignedCodePoint (code_points s) then Inr () else event_error ''UTF8_UNASSIGNED_CODEPOINT'')"

definition starts_with_bom :: "jstring \<Rightarrow> bool" where
  "starts_with_bom s \<longleftrightarrow> (case s of c # _ \<Rightarrow> uint c = 0xfeff | [] \<Rightarrow> False)"

definition utf8NfcBytes :: "host \<Rightarrow> jstring \<Rightarrow> bytes res" where
  "utf8NfcBytes H s =
     (if starts_with_bom s then event_error ''UTF8_BOM_FORBIDDEN''
      else and_then (assertAssigned s) (\<lambda>_.
        let normalized = host_nfc H s
        in if \<not> well_formed normalized then event_error ''UTF8_LONE_SURROGATE''
           else Inr (utf8_encode normalized)))"

text \<open>The comparison loop: the first differing byte decides, then the lengths.\<close>

fun byte_compare :: "bytes \<Rightarrow> bytes \<Rightarrow> int" where
  "byte_compare (a # as) (b # bs) = (if a \<noteq> b then uint a - uint b else byte_compare as bs)"
| "byte_compare as bs = int (length as) - int (length bs)"

definition compareNfc :: "host \<Rightarrow> jstring \<Rightarrow> jstring \<Rightarrow> int res" where
  "compareNfc H a b =
     and_then (utf8NfcBytes H a) (\<lambda>ab. and_then (utf8NfcBytes H b) (\<lambda>bb. Inr (byte_compare ab bb)))"

text \<open>The decoder drops a leading byte order mark.\<close>

definition decodeUtf8Strict :: "bytes \<Rightarrow> jstring res" where
  "decodeUtf8Strict bs =
     (case utf8_decode bs of
        None \<Rightarrow> enc_error ''UTF8_INVALID''
      | Some cps \<Rightarrow> Inr (concat (map utf16_cp (case cps of c # r \<Rightarrow> if c = 0xfeff then r else cps | [] \<Rightarrow> []))))"

text \<open>The check at load time.\<close>

definition assertNfcAvailable :: "host \<Rightarrow> unit res" where
  "assertNfcAvailable H =
     (if host_nfc H [0x65, 0x301] \<noteq> [0xe9] then enc_error ''NFC_UNAVAILABLE'' else Inr ())"

section \<open>What is relied on\<close>

definition is_ascii :: "jstring \<Rightarrow> bool" where
  "is_ascii s \<longleftrightarrow> list_all (\<lambda>c. uint c < 0x80) s"

text \<open>
  \<open>normalize("NFC")\<close> leaves ASCII alone and is idempotent; a SHA-256 digest has 32 bytes.
\<close>

definition host_ok :: "host \<Rightarrow> bool" where
  "host_ok H \<longleftrightarrow> (\<forall>s. is_ascii s \<longrightarrow> host_nfc H s = s) \<and> (\<forall>s. host_nfc H (host_nfc H s) = host_nfc H s) \<and>
     (\<forall>bs. length (host_sha256 H bs) = 32)"

text \<open>A host for the witnesses.\<close>

definition plain_host :: host where
  "plain_host = \<lparr>host_nfc = (\<lambda>s. s), host_sha256 = (\<lambda>bs. take 32 (bs @ replicate 32 0))\<rparr>"

lemma plain_host_ok: "host_ok plain_host"
  by (auto simp: host_ok_def plain_host_def min_def)

section \<open>UTF-8 is a faithful encoding\<close>

definition is_scalar :: "int \<Rightarrow> bool" where
  "is_scalar cp \<longleftrightarrow> 0 \<le> cp \<and> cp \<le> 0x10ffff \<and> \<not> is_surrogate cp"

lemma uint_byte: "0 \<le> x \<Longrightarrow> x < 256 \<Longrightarrow> uint (word_of_int x :: 8 word) = x"
  by (simp add: uint_word_of_int)

lemma uint_cont: "uint (word_of_int (0x80 + x mod 64) :: 8 word) = 0x80 + x mod 64"
  by (rule uint_byte) (simp, smt (verit) pos_mod_bound)

lemma cont_byte: "is_cont (word_of_int (0x80 + x mod 64))"
proof -
  have "0 \<le> x mod 64" "x mod 64 < 64" by simp_all
  then show ?thesis unfolding is_cont_def uint_cont by linarith
qed

lemma decode_1: "0 \<le> a \<Longrightarrow> a < 0x80 \<Longrightarrow>
    utf8_decode (word_of_int a # r) = map_option (Cons a) (utf8_decode r)"
  by (simp add: uint_byte)

lemma decode_2:
  assumes "uint a = 0xc0 + x" "2 \<le> x" "x < 32" "is_cont b"
  shows "utf8_decode (a # b # r) = map_option (Cons (x * 64 + (uint b - 0x80))) (utf8_decode r)"
  using assms by simp

lemma decode_3:
  assumes "uint a = 0xe0 + x" "0 \<le> x" "x < 16" "is_cont b" "is_cont c"
    "cp = x * 4096 + (uint b - 0x80) * 64 + (uint c - 0x80)" "0x800 \<le> cp" "\<not> is_surrogate cp"
  shows "utf8_decode (a # b # c # r) = map_option (Cons cp) (utf8_decode r)"
  using assms by simp

lemma decode_4:
  assumes "uint a = 0xf0 + x" "0 \<le> x" "x < 5" "is_cont b" "is_cont c" "is_cont d"
    "cp = x * 262144 + (uint b - 0x80) * 4096 + (uint c - 0x80) * 64 + (uint d - 0x80)"
    "0x10000 \<le> cp" "cp \<le> 0x10ffff"
  shows "utf8_decode (a # b # c # d # r) = map_option (Cons cp) (utf8_decode r)"
  using assms by simp

lemma split_64: "x = x div 64 * 64 + x mod 64" for x :: int
  by simp

lemma div_64: "x div 64 div 64 = x div 4096" "x div 4096 div 64 = x div 262144" for x :: int
  using zdiv_zmult2_eq [of 64 x 64] zdiv_zmult2_eq [of 64 x 4096] by simp_all

lemma decode_utf8_cp:
  assumes "is_scalar cp"
  shows "utf8_decode (utf8_cp cp @ r) = map_option (Cons cp) (utf8_decode r)"
proof -
  have cp: "0 \<le> cp" "cp \<le> 0x10ffff" "\<not> is_surrogate cp" using assms by (simp_all add: is_scalar_def)
  consider (one) "cp < 0x80" | (two) "0x80 \<le> cp" "cp < 0x800" | (three) "0x800 \<le> cp" "cp < 0x10000"
    | (four) "0x10000 \<le> cp" by linarith
  then show ?thesis
  proof cases
    case one
    with cp show ?thesis by (simp add: utf8_cp_def decode_1 del: utf8_decode.simps)
  next
    case two
    then have x: "2 \<le> cp div 64" "cp div 64 < 32" by linarith+
    have "uint (word_of_int (0xc0 + cp div 64) :: 8 word) = 0xc0 + cp div 64"
      using x by (intro uint_byte) linarith+
    from decode_2 [OF this x cont_byte [of cp], of r] two show ?thesis
      by (simp add: utf8_cp_def uint_cont del: utf8_decode.simps of_int_add)
  next
    case three
    then have x: "0 \<le> cp div 4096" "cp div 4096 < 16" by linarith+
    have a: "uint (word_of_int (0xe0 + cp div 4096) :: 8 word) = 0xe0 + cp div 4096"
      using x by (intro uint_byte) linarith+
    have "cp = cp div 4096 * 4096 + cp div 64 mod 64 * 64 + cp mod 64"
      using split_64 [of cp] split_64 [of "cp div 64"] unfolding div_64 by linarith
    then have "cp = cp div 4096 * 4096 + (uint (word_of_int (0x80 + cp div 64 mod 64) :: 8 word) - 0x80) * 64 +
        (uint (word_of_int (0x80 + cp mod 64) :: 8 word) - 0x80)"
      unfolding uint_cont by simp
    from decode_3 [OF a x cont_byte cont_byte this three(1) cp(3)] three show ?thesis
      by (simp add: utf8_cp_def del: utf8_decode.simps of_int_add)
  next
    case four
    then have x: "0 \<le> cp div 262144" "cp div 262144 < 5" using cp by linarith+
    have a: "uint (word_of_int (0xf0 + cp div 262144) :: 8 word) = 0xf0 + cp div 262144"
      using x by (intro uint_byte) linarith+
    have "cp = cp div 262144 * 262144 + cp div 4096 mod 64 * 4096 + cp div 64 mod 64 * 64 + cp mod 64"
      using split_64 [of cp] split_64 [of "cp div 64"] split_64 [of "cp div 4096"] unfolding div_64 by linarith
    then have "cp = cp div 262144 * 262144 +
        (uint (word_of_int (0x80 + cp div 4096 mod 64) :: 8 word) - 0x80) * 4096 +
        (uint (word_of_int (0x80 + cp div 64 mod 64) :: 8 word) - 0x80) * 64 +
        (uint (word_of_int (0x80 + cp mod 64) :: 8 word) - 0x80)"
      unfolding uint_cont by simp
    from decode_4 [OF a x cont_byte cont_byte cont_byte this four cp(2)] four show ?thesis
      by (simp add: utf8_cp_def del: utf8_decode.simps of_int_add)
  qed
qed

lemma decode_utf8_cps: "list_all is_scalar cps \<Longrightarrow> utf8_decode (concat (map utf8_cp cps)) = Some cps"
  by (induction cps) (simp_all add: decode_utf8_cp)

lemma uint16_bounds: "0 \<le> uint c \<and> uint c < 65536" for c :: "16 word"
  using uint_lt2p [of c] by simp

lemma unit_scalar:
  "\<not> high_surrogate c \<Longrightarrow> \<not> low_surrogate c \<Longrightarrow> is_scalar (uint c)"
  using uint16_bounds [of c]
  unfolding is_scalar_def is_surrogate_def high_surrogate_def low_surrogate_def by linarith

lemma pair_scalar:
  "high_surrogate c \<Longrightarrow> low_surrogate d \<Longrightarrow>
   is_scalar (pair_code_point c d)"
  by (simp add: is_scalar_def is_surrogate_def high_surrogate_def low_surrogate_def
      pair_code_point_def algebra_simps)

lemma well_formed_scalars: "well_formed s \<Longrightarrow> list_all is_scalar (code_points s)"
proof (induction s rule: well_formed.induct)
  case (1 c d r)
  then show ?case
    by (cases "high_surrogate c") (simp_all add: pair_scalar unit_scalar)
qed (simp_all add: unit_scalar)

lemma pair_utf16:
  assumes "high_surrogate c" "low_surrogate d"
  shows "utf16_cp (pair_code_point c d) = [c, d]"
proof -
  define x y where xy: "x = uint c - 0xd800" "y = uint d - 0xdc00"
  have "0 \<le> x" "0 \<le> y" "y < 0x400" using assms by (simp_all add: xy high_surrogate_def low_surrogate_def)
  moreover have "word_of_int (0xd800 + x) = c" "word_of_int (0xdc00 + y) = d" by (simp_all add: xy)
  ultimately show ?thesis
    unfolding utf16_cp_def pair_code_point_def xy [symmetric] by (simp del: of_int_add)
qed

lemma unit_utf16: "utf16_cp (uint c) = [c]"
  using uint16_bounds [of c] by (simp add: utf16_cp_def)

lemma utf16_code_points: "well_formed s \<Longrightarrow> concat (map utf16_cp (code_points s)) = s"
proof (induction s rule: well_formed.induct)
  case (1 c d r)
  then show ?case
    by (cases "high_surrogate c") (simp_all add: pair_utf16 unit_utf16)
next
  case (2 c)
  then show ?case by (simp add: unit_utf16)
qed simp

lemma utf8_encode_scalars:
  "well_formed s \<Longrightarrow> utf8_encode s = concat (map utf8_cp (code_points s))"
proof -
  assume "well_formed s"
  then have "list_all is_scalar (code_points s)" by (rule well_formed_scalars)
  then have "map (\<lambda>cp. utf8_cp (if is_surrogate cp then 0xfffd else cp)) (code_points s) = map utf8_cp (code_points s)"
    by (auto simp: list_all_iff is_scalar_def)
  then show ?thesis unfolding utf8_encode_def by (rule arg_cong)
qed

lemma bom_code_point: "well_formed s \<Longrightarrow> \<not> starts_with_bom s \<Longrightarrow> code_points s = c # r \<Longrightarrow> c \<noteq> 0xfeff"
proof (cases s rule: code_points.cases)
  case (1 a b t)
  then show "well_formed s \<Longrightarrow> \<not> starts_with_bom s \<Longrightarrow> code_points s = c # r \<Longrightarrow> c \<noteq> 0xfeff"
    by (auto simp: starts_with_bom_def high_surrogate_def low_surrogate_def
        pair_code_point_def algebra_simps split: if_splits)
qed (auto simp: starts_with_bom_def)

interpretation utf8: codec "\<lambda>s. well_formed s \<and> \<not> starts_with_bom s"
  "\<lambda>s. Inr (utf8_encode s) :: bytes res" decodeUtf8Strict
proof
  fix s b
  assume s: "well_formed s \<and> \<not> starts_with_bom s" and b: "(Inr (utf8_encode s) :: bytes res) = Inr b"
  then have "utf8_decode b = Some (code_points s)"
    using decode_utf8_cps [OF well_formed_scalars] utf8_encode_scalars by auto
  moreover have "(case code_points s of c # r \<Rightarrow> if c = 0xfeff then r else code_points s | [] \<Rightarrow> []) = code_points s"
    using bom_code_point s by (auto split: list.splits)
  ultimately show "decodeUtf8Strict b = Inr s"
    using s by (simp add: decodeUtf8Strict_def utf16_code_points)
qed simp

lemma utf8_encode_inject:
  assumes "well_formed s" "well_formed t" "utf8_encode s = utf8_encode t"
  shows "s = t"
proof -
  have "utf8_decode (utf8_encode s) = Some (code_points s)" "utf8_decode (utf8_encode t) = Some (code_points t)"
    using assms(1,2) by (simp_all only: utf8_encode_scalars decode_utf8_cps well_formed_scalars)
  with assms(3) have "code_points s = code_points t" by simp
  then have "concat (map utf16_cp (code_points s)) = concat (map utf16_cp (code_points t))" by simp
  then show ?thesis using assms(1,2) by (simp only: utf16_code_points)
qed

end
