(* ===== verification/Canon_Hash.thy ===== *)
theory Canon_Hash
  imports Canon_Strings "HOL-Library.Sublist"
begin

text \<open>
  \<^verbatim>\<open>canonical/src/domains.ts\<close> and \<^verbatim>\<open>canonical/src/hash.ts\<close>: the domain tags and domain-separated
  hashing. The tags are shown to be prefix-free, so that a tagged payload determines its tag and payload.
\<close>

section \<open>Tags\<close>

definition DOMAIN_TAGS :: "(string \<times> jstring) list" where
  "DOMAIN_TAGS =
    [(''DSL_V1_1'', js ''PARADIGM_TERRA_DSL_V1.1''),
     (''MERKLE_LEAF_V1'', js ''PARADIGM_TERRA_MERKLE_LEAF_V1''),
     (''MERKLE_NODE_V1'', js ''PARADIGM_TERRA_MERKLE_NODE_V1''),
     (''STATE_V1'', js ''PARADIGM_TERRA_STATE_V1''),
     (''EVENT_V1'', js ''PARADIGM_TERRA_EVENT_V1''),
     (''EVENTCHAIN_V1'', js ''PARADIGM_TERRA_EVENTCHAIN_V1''),
     (''RECEIPT_V1'', js ''PARADIGM_TERRA_RECEIPT_V1''),
     (''CAL_V1'', js ''PARADIGM_TERRA_CAL_V1''),
     (''ADDRESS_V1'', js ''PARADIGM_TERRA_ADDRESS_V1''),
     (''JETTON_TRANSFER_V1'', js ''PARADIGM_TERRA_JETTON_TRANSFER_V1''),
     (''PTRA_STAKE_V1'', js ''PARADIGM_TERRA_PTRA_STAKE_V1''),
     (''PTRA_UNSTAKE_V1'', js ''PARADIGM_TERRA_PTRA_UNSTAKE_V1''),
     (''PTRA_BURN_V1'', js ''PARADIGM_TERRA_PTRA_BURN_V1''),
     (''MCP_V1'', js ''PARADIGM_TERRA_MCP_V1''),
     (''STATE_ROOT_V1'', js ''PARADIGM_TERRA_STATE_ROOT_V1''),
     (''DSL_V1_2'', js ''PARADIGM_TERRA_DSL_V1.2'')]"

definition domain_tag :: "string \<Rightarrow> jstring" where
  "domain_tag name = the (map_of DOMAIN_TAGS name)"

definition ALL_DOMAIN_TAGS :: "jstring list" where
  "ALL_DOMAIN_TAGS = map snd DOMAIN_TAGS"

definition isAsciiDomainTag :: "jstring \<Rightarrow> bool" where
  "isAsciiDomainTag tag \<longleftrightarrow> \<not> length tag = 0 \<and> list_all (\<lambda>code. \<not> (uint code = 0 \<or> uint code > 0x7f)) tag"

section \<open>Hashing\<close>

definition sha256 :: "host \<Rightarrow> bytes \<Rightarrow> bytes" where
  "sha256 H bs = host_sha256 H bs"

definition domainHash :: "host \<Rightarrow> jstring \<Rightarrow> bytes \<Rightarrow> bytes res" where
  "domainHash H domain payload =
     (if \<not> isAsciiDomainTag domain then enc_error ''DOMAIN_TAG_NONCANONICAL''
      else Inr (sha256 H (utf8_encode domain @ payload)))"

definition concatBytes :: "bytes list \<Rightarrow> bytes" where
  "concatBytes parts = concat parts"

section \<open>ASCII\<close>

lemma utf8_encode_ascii: "is_ascii s \<Longrightarrow> utf8_encode s = map ucast s"
proof (induction s rule: code_points.induct)
  case (1 c d r)
  then have "\<not> high_surrogate c" by (simp add: is_ascii_def high_surrogate_def)
  with 1 show ?case
    by (simp add: is_ascii_def utf8_encode_def utf8_cp_def is_surrogate_def word_uint_eq_iff
        uint_word_of_int unsigned_ucast_eq take_bit_eq_mod)
next
  case (2 c)
  then show ?case
    by (simp add: is_ascii_def utf8_encode_def utf8_cp_def is_surrogate_def word_uint_eq_iff
        uint_word_of_int unsigned_ucast_eq take_bit_eq_mod)
qed (simp add: utf8_encode_def)

lemma ascii_well_formed: "is_ascii s \<Longrightarrow> well_formed s"
  by (induction s rule: well_formed.induct)
     (simp_all add: is_ascii_def high_surrogate_def low_surrogate_def)

lemma js_ascii: "list_all (\<lambda>c. (of_char c :: nat) < 128) t \<Longrightarrow> is_ascii (js t)"
  by (induction t) (simp_all add: is_ascii_def js_def unsigned_of_nat take_bit_eq_mod)

lemma ascii_code_points: "is_ascii s \<Longrightarrow> cp \<in> set (code_points s) \<Longrightarrow> 0 \<le> cp \<and> cp < 0x80"
proof (induction s rule: code_points.induct)
  case (1 c d r)
  then have "\<not> high_surrogate c" by (simp add: is_ascii_def high_surrogate_def)
  with 1 show ?case by (auto simp: is_ascii_def)
qed (auto simp: is_ascii_def)

lemma ascii_assigned: "is_ascii s \<Longrightarrow> assertAssigned s = Inr ()"
  using ascii_code_points [of s] by (force simp: assertAssigned_def list_all_iff intro: low_assigned)

lemma ascii_no_bom: "is_ascii s \<Longrightarrow> \<not> starts_with_bom s"
  by (cases s) (auto simp: is_ascii_def starts_with_bom_def)

lemma utf8NfcBytes_ascii: "host_ok H \<Longrightarrow> is_ascii s \<Longrightarrow> utf8NfcBytes H s = Inr (utf8_encode s)"
  by (simp add: utf8NfcBytes_def ascii_assigned ascii_no_bom ascii_well_formed host_ok_def)

definition ascii_bytes :: "string \<Rightarrow> bytes" where
  "ascii_bytes t = map (\<lambda>c. word_of_nat (of_char c)) t"

lemma ucast_small: "n < 256 \<Longrightarrow> (ucast (word_of_nat n :: 16 word) :: 8 word) = word_of_nat n"
  by (rule word_uint_eqI) (simp add: unsigned_ucast_eq unsigned_of_nat take_bit_eq_mod)

lemma ucast_of_char: "(ucast (word_of_nat (of_char c) :: 16 word) :: 8 word) = word_of_nat (of_char c)"
  by (rule ucast_small [OF of_char_less])

lemma utf8_js: "list_all (\<lambda>c. (of_char c :: nat) < 128) t \<Longrightarrow> utf8_encode (js t) = ascii_bytes t"
  using utf8_encode_ascii [OF js_ascii] by (simp add: js_def ascii_bytes_def ucast_of_char)

lemma byte_of_char_inject: "(word_of_nat (of_char c) :: 8 word) = word_of_nat (of_char d) \<longleftrightarrow> c = d"
proof
  assume eq: "(word_of_nat (of_char c) :: 8 word) = word_of_nat (of_char d)"
  have "unat (word_of_nat (of_char x) :: 8 word) = of_char x" for x
    using of_char_less [of x] by (simp add: unsigned_of_nat take_bit_eq_mod)
  with eq have "(of_char c :: nat) = of_char d" by metis
  then show "c = d" by simp
qed simp

lemma prefix_ascii_bytes: "prefix (ascii_bytes t) (ascii_bytes u) \<longleftrightarrow> prefix t u"
proof (induction t arbitrary: u)
  case (Cons a t)
  then show ?case by (cases u) (simp_all add: ascii_bytes_def byte_of_char_inject)
qed (simp add: ascii_bytes_def)

section \<open>Domain separation\<close>

definition TAG_TEXTS :: "string list" where
  "TAG_TEXTS = [''PARADIGM_TERRA_DSL_V1.1'', ''PARADIGM_TERRA_MERKLE_LEAF_V1'',
     ''PARADIGM_TERRA_MERKLE_NODE_V1'', ''PARADIGM_TERRA_STATE_V1'', ''PARADIGM_TERRA_EVENT_V1'',
     ''PARADIGM_TERRA_EVENTCHAIN_V1'', ''PARADIGM_TERRA_RECEIPT_V1'', ''PARADIGM_TERRA_CAL_V1'',
     ''PARADIGM_TERRA_ADDRESS_V1'', ''PARADIGM_TERRA_JETTON_TRANSFER_V1'', ''PARADIGM_TERRA_PTRA_STAKE_V1'',
     ''PARADIGM_TERRA_PTRA_UNSTAKE_V1'', ''PARADIGM_TERRA_PTRA_BURN_V1'', ''PARADIGM_TERRA_MCP_V1'',
     ''PARADIGM_TERRA_STATE_ROOT_V1'', ''PARADIGM_TERRA_DSL_V1.2'']"

lemma tags_checked:
  "list_all (\<lambda>t. list_all (\<lambda>c. (of_char c :: nat) < 128 \<and> (of_char c :: nat) \<noteq> 0) t \<and> t \<noteq> [] \<and>
     list_all (\<lambda>u. prefix t u \<longrightarrow> t = u) TAG_TEXTS) TAG_TEXTS"
  by code_simp

lemma ALL_DOMAIN_TAGS_eq: "ALL_DOMAIN_TAGS = map js TAG_TEXTS"
  by (simp add: ALL_DOMAIN_TAGS_def DOMAIN_TAGS_def TAG_TEXTS_def)

lemma domain_tag_registered:
  "name \<in> fst ` set DOMAIN_TAGS \<Longrightarrow> domain_tag name \<in> set ALL_DOMAIN_TAGS"
  by (auto simp: domain_tag_def ALL_DOMAIN_TAGS_def DOMAIN_TAGS_def)

lemma registered_ascii: "tag \<in> set ALL_DOMAIN_TAGS \<Longrightarrow> isAsciiDomainTag tag"
proof -
  assume "tag \<in> set ALL_DOMAIN_TAGS"
  then obtain t where t: "tag = js t" "list_all (\<lambda>c. (of_char c :: nat) < 128 \<and> (of_char c :: nat) \<noteq> 0) t" "t \<noteq> []"
    using tags_checked by (auto simp: ALL_DOMAIN_TAGS_eq list_all_iff)
  have "\<not> (uint (word_of_nat (of_char c) :: 16 word) = 0 \<or> uint (word_of_nat (of_char c) :: 16 word) > 0x7f)"
    if "(of_char c :: nat) < 128" "(of_char c :: nat) \<noteq> 0" for c
  proof -
    have "uint (word_of_nat (of_char c) :: 16 word) = int (of_char c)"
      using that(1) by (simp only: unsigned_of_nat take_bit_eq_mod) simp
    with that show ?thesis by linarith
  qed
  with t show "isAsciiDomainTag tag" by (auto simp: isAsciiDomainTag_def list_all_iff js_def)
qed

lemma registered_prefix_free:
  assumes "t \<in> set ALL_DOMAIN_TAGS" "u \<in> set ALL_DOMAIN_TAGS"
    "utf8_encode t @ p = utf8_encode u @ q"
  shows "t = u \<and> p = q"
proof -
  obtain x y where xy: "t = js x" "u = js y" "x \<in> set TAG_TEXTS" "y \<in> set TAG_TEXTS"
    using assms(1,2) by (auto simp: ALL_DOMAIN_TAGS_eq)
  then have e: "utf8_encode t = ascii_bytes x" "utf8_encode u = ascii_bytes y"
    using tags_checked by (auto simp: list_all_iff intro!: utf8_js)
  have "prefix (ascii_bytes x) (ascii_bytes y @ q)" using assms(3) e by (metis prefixI)
  then have "prefix x y \<or> prefix y x"
    using prefix_same_cases [of "ascii_bytes x" "ascii_bytes y @ q" "ascii_bytes y"]
    by (simp add: prefix_ascii_bytes)
  then have "x = y" using tags_checked xy by (auto simp: list_all_iff)
  with xy assms(3) show ?thesis by simp
qed

text \<open>
  C31: Domain separation. If the tagged hashes of two payloads under two registered tags are equal, and SHA-256 does not collide on the two
  byte strings that are hashed, then the tags are the same and so are the payloads: no payload under one tag is hashed as the bytes of a
  payload under another.
\<close>

theorem domain_separation:
  assumes "t \<in> set ALL_DOMAIN_TAGS" "u \<in> set ALL_DOMAIN_TAGS"
    and "inj_on (host_sha256 H) {utf8_encode t @ p, utf8_encode u @ q}"
    and "domainHash H t p = domainHash H u q"
  shows "t = u \<and> p = q"
proof -
  have "host_sha256 H (utf8_encode t @ p) = host_sha256 H (utf8_encode u @ q)"
    using assms(4) registered_ascii [OF assms(1)] registered_ascii [OF assms(2)]
    by (simp add: domainHash_def sha256_def)
  then have "utf8_encode t @ p = utf8_encode u @ q" by (rule inj_onD [OF assms(3)]) simp_all
  then show ?thesis by (rule registered_prefix_free [OF assms(1,2)])
qed

text \<open>A host whose hash has no collisions; one of the two tags is the beginning of the other up to its version.\<close>

definition spread_host :: host where
  "spread_host = plain_host\<lparr>host_sha256 := (\<lambda>bs. bs)\<rparr>"

theorem domain_separation_witness:
  "(\<forall>p q. domainHash spread_host (domain_tag ''EVENT_V1'') p \<noteq> domainHash spread_host (domain_tag ''EVENTCHAIN_V1'') q) \<and>
   domainHash spread_host (domain_tag ''EVENT_V1'') [1] \<noteq> domainHash spread_host (domain_tag ''EVENT_V1'') [2]"
proof -
  have t: "domain_tag ''EVENT_V1'' \<in> set ALL_DOMAIN_TAGS" "domain_tag ''EVENTCHAIN_V1'' \<in> set ALL_DOMAIN_TAGS"
    by (rule domain_tag_registered, simp add: DOMAIN_TAGS_def)+
  have i: "inj_on (host_sha256 spread_host) A" for A by (simp add: spread_host_def)
  have "domain_tag ''EVENT_V1'' \<noteq> domain_tag ''EVENTCHAIN_V1''" by (simp add: domain_tag_def DOMAIN_TAGS_def)
  with domain_separation [OF t(1,2) i] domain_separation [OF t(1,1) i, of "[1]" "[2]"] show ?thesis by auto
qed

end
