(* ===== verification/Canon_Merkle.thy ===== *)
theory Canon_Merkle
  imports Canon_Hash "HOL-Library.Multiset"
begin

text \<open>
  \<^verbatim>\<open>canonical/src/merkle.ts\<close>: the binary Merkle root with odd-level duplication, the stream tree and the
  state root. What a root binds is stated under the hypothesis that the hash is injective on the finitely
  many inputs that the two computations feed to it (\<open>merkle_inputs\<close>).
\<close>

section \<open>The tree\<close>

text \<open>One level: pairs are hashed, a last odd node is paired with itself.\<close>

fun merkle_next :: "host \<Rightarrow> jstring \<Rightarrow> bytes list \<Rightarrow> bytes list res" where
  "merkle_next H tag (l # r # rest) =
     and_then (domainHash H tag (concatBytes [l, r])) (\<lambda>h.
     and_then (merkle_next H tag rest) (\<lambda>t. Inr (h # t)))"
| "merkle_next H tag [l] = and_then (domainHash H tag (concatBytes [l, l])) (\<lambda>h. Inr [h])"
| "merkle_next H tag [] = Inr []"

lemma merkle_next_length: "merkle_next H tag level = Inr next \<Longrightarrow> length next = (length level + 1) div 2"
  by (induction H tag level arbitrary: "next" rule: merkle_next.induct) auto

function merkle_loop :: "host \<Rightarrow> jstring \<Rightarrow> bytes list \<Rightarrow> bytes res" where
  "merkle_loop H tag level =
     (if length level > 1
      then and_then (merkle_next H tag level) (\<lambda>next. merkle_loop H tag next)
      else Inr (level ! 0))"
  by pat_completeness auto
termination
  by (relation "measure (\<lambda>(H, tag, level). length level)") (auto dest: merkle_next_length)

declare merkle_loop.simps [simp del]

definition binaryMerkle :: "host \<Rightarrow> bytes list \<Rightarrow> jstring \<Rightarrow> bytes res" where
  "binaryMerkle H leafHashes nodeTag =
     (if length leafHashes = 0 then enc_error ''MERKLE_EMPTY''
      else if \<not> list_all (\<lambda>h. length h = 32) leafHashes then enc_error ''MERKLE_BAD_LEAF_LEN''
      else merkle_loop H nodeTag leafHashes)"

section \<open>Sorting by UTF-8 bytes\<close>

text \<open>
  The comparator computes the bytes of both names and is called when there are two leaves or more; which
  of several unusable names it meets first depends on the engine, the model takes the first in the list.
\<close>

definition sort_by_name :: "host \<Rightarrow> ('a \<Rightarrow> jstring) \<Rightarrow> 'a list \<Rightarrow> 'a list res" where
  "sort_by_name H name xs =
     (if length xs < 2 then Inr xs
      else and_then (map_res (\<lambda>x. and_then (utf8NfcBytes H (name x)) (\<lambda>b. Inr (b, x))) xs)
        (\<lambda>keyed. Inr (map snd (sort_key fst keyed))))"

section \<open>Stream tree\<close>

record stream_leaf =
  streamId :: jstring
  stateHash :: bytes
  lastEventHash :: bytes
  lastSeqno :: numeric

definition streamLeafHash :: "host \<Rightarrow> stream_leaf \<Rightarrow> bytes res" where
  "streamLeafHash H leaf =
     (if length (stateHash leaf) \<noteq> 32 then enc_error ''MERKLE_BAD_STATE_HASH_LEN''
      else if length (lastEventHash leaf) \<noteq> 32 then enc_error ''MERKLE_BAD_EVENT_HASH_LEN''
      else and_then (utf8NfcBytes H (streamId leaf)) (\<lambda>idBytes.
        if length idBytes > 0xffff then enc_error ''MERKLE_STREAM_ID_TOO_LONG''
        else and_then (encodeUint16 (BigInt (int (length idBytes)))) (\<lambda>len.
          and_then (encodeUint64 (lastSeqno leaf)) (\<lambda>seqno.
            domainHash H (domain_tag ''MERKLE_LEAF_V1'')
              (concatBytes [len, idBytes, stateHash leaf, lastEventHash leaf, seqno])))))"

definition streamTreeRoot :: "host \<Rightarrow> stream_leaf list \<Rightarrow> bytes res" where
  "streamTreeRoot H leaves =
     (if length leaves = 0 then enc_error ''MERKLE_EMPTY''
      else and_then (sort_by_name H streamId leaves) (\<lambda>sorted.
        and_then (map_res (streamLeafHash H) sorted) (\<lambda>leafHashes.
          binaryMerkle H leafHashes (domain_tag ''MERKLE_NODE_V1''))))"

section \<open>State root\<close>

record state_namespace =
  ns_name :: jstring
  canonicalBytes :: bytes

definition stateNamespaceLeafHash :: "host \<Rightarrow> state_namespace \<Rightarrow> bytes res" where
  "stateNamespaceLeafHash H ns =
     and_then (domainHash H (domain_tag ''STATE_V1'') (canonicalBytes ns)) (\<lambda>inner.
     and_then (utf8NfcBytes H (ns_name ns)) (\<lambda>nameBytes.
       if length nameBytes > 0xffff then enc_error ''STATE_ROOT_NAME_TOO_LONG''
       else and_then (encodeUint16 (BigInt (int (length nameBytes)))) (\<lambda>len.
         domainHash H (domain_tag ''STATE_ROOT_V1'') (concatBytes [len, nameBytes, inner]))))"

definition stateRoot :: "host \<Rightarrow> state_namespace list \<Rightarrow> bytes res" where
  "stateRoot H namespaces =
     (if length namespaces = 0 then enc_error ''STATE_ROOT_EMPTY''
      else if \<not> distinct (map ns_name namespaces) then enc_error ''STATE_ROOT_DUPLICATE_NAMESPACE''
      else and_then (sort_by_name H ns_name namespaces) (\<lambda>sorted.
        and_then (map_res (stateNamespaceLeafHash H) sorted) (\<lambda>leafHashes.
          binaryMerkle H leafHashes (domain_tag ''STATE_ROOT_V1''))))"

section \<open>Roots exist and have 32 bytes\<close>

lemma domainHash_ok:
  "isAsciiDomainTag tag \<Longrightarrow> domainHash H tag p = Inr (host_sha256 H (utf8_encode tag @ p))"
  by (simp add: domainHash_def sha256_def)

text \<open>One level as a pure function.\<close>

fun level_up :: "(bytes \<Rightarrow> bytes) \<Rightarrow> bytes list \<Rightarrow> bytes list" where
  "level_up f (l # r # rest) = f (l @ r) # level_up f rest"
| "level_up f [l] = [f (l @ l)]"
| "level_up f [] = []"

definition node_hash :: "host \<Rightarrow> jstring \<Rightarrow> bytes \<Rightarrow> bytes" where
  "node_hash H tag p = host_sha256 H (utf8_encode tag @ p)"

lemma merkle_next_eq: "isAsciiDomainTag tag \<Longrightarrow> merkle_next H tag level = Inr (level_up (node_hash H tag) level)"
  by (induction H tag level rule: merkle_next.induct)
     (simp_all add: domainHash_ok concatBytes_def node_hash_def)

lemma level_up_length [simp]: "length (level_up f xs) = (length xs + 1) div 2"
  by (induction f xs rule: level_up.induct) auto

lemma level_up_Nil [simp]: "level_up f xs = [] \<longleftrightarrow> xs = []"
  by (cases "(f, xs)" rule: level_up.cases) auto

function root_of :: "(bytes \<Rightarrow> bytes) \<Rightarrow> bytes list \<Rightarrow> bytes" where
  "root_of f level = (if length level > 1 then root_of f (level_up f level) else level ! 0)"
  by pat_completeness auto
termination
  by (relation "measure (\<lambda>(f, level). length level)") auto

declare root_of.simps [simp del]

lemma merkle_loop_eq: "isAsciiDomainTag tag \<Longrightarrow> merkle_loop H tag level = Inr (root_of (node_hash H tag) level)"
proof (induction H tag level rule: merkle_loop.induct)
  case (1 H tag level)
  then show ?case
    by (subst merkle_loop.simps, subst root_of.simps) (simp add: merkle_next_eq)
qed

lemma level_up_all: "(\<And>p. P (f p)) \<Longrightarrow> list_all P (level_up f xs)"
  by (induction f xs rule: level_up.induct) auto

lemma root_of_all:
  "(\<And>p. P (f p)) \<Longrightarrow> list_all P level \<Longrightarrow> level \<noteq> [] \<Longrightarrow> P (root_of f level)"
proof (induction f level rule: root_of.induct)
  case (1 f level)
  show ?case
  proof (cases "length level > 1")
    case True
    then have "level_up f level \<noteq> []" by auto
    with True 1 show ?thesis by (subst root_of.simps) (simp add: level_up_all)
  next
    case False
    with 1 show ?thesis by (subst root_of.simps) (cases level, auto)
  qed
qed

lemma binaryMerkle_accepts:
  assumes "host_ok H" "tag \<in> set ALL_DOMAIN_TAGS"
  shows "(\<exists>root. binaryMerkle H leaves tag = Inr root \<and> length root = 32) \<longleftrightarrow>
    leaves \<noteq> [] \<and> list_all (\<lambda>h. length h = 32) leaves"
proof -
  have f: "length (node_hash H tag p) = 32" for p
    using assms(1) by (simp add: host_ok_def node_hash_def)
  show ?thesis
    using root_of_all [of "\<lambda>h. length h = 32" "node_hash H tag" leaves, OF f]
    by (auto simp: binaryMerkle_def merkle_loop_eq registered_ascii [OF assms(2)])
qed

text \<open>
  Merkle roots are total and of fixed width: for a registered node tag and a non-empty list of 32-byte
  leaves there is a root, and it has 32 bytes; no other list of leaves is accepted.
\<close>

theorem binaryMerkle_total:
  assumes "host_ok H" "tag \<in> set ALL_DOMAIN_TAGS"
  shows "(\<exists>root. binaryMerkle H leaves tag = Inr root \<and> length root = 32) \<longleftrightarrow>
    leaves \<noteq> [] \<and> list_all (\<lambda>h. length h = 32) leaves"
  by (rule binaryMerkle_accepts [OF assms])

theorem binaryMerkle_total_witness:
  "\<exists>root. binaryMerkle plain_host [replicate 32 1, replicate 32 2, replicate 32 3] (domain_tag ''STATE_ROOT_V1'') =
     Inr root \<and> length root = 32"
proof -
  have "domain_tag ''STATE_ROOT_V1'' \<in> set ALL_DOMAIN_TAGS"
    by (rule domain_tag_registered) (simp add: DOMAIN_TAGS_def)
  from binaryMerkle_total [OF plain_host_ok this] show ?thesis by simp
qed

section \<open>What a root binds\<close>

text \<open>The inputs hashed on the way to a root.\<close>

fun pair_inputs :: "bytes list \<Rightarrow> bytes list" where
  "pair_inputs (l # r # rest) = (l @ r) # pair_inputs rest"
| "pair_inputs [l] = [l @ l]"
| "pair_inputs [] = []"

function merkle_inputs :: "host \<Rightarrow> jstring \<Rightarrow> bytes list \<Rightarrow> bytes list" where
  "merkle_inputs H tag level =
     (if length level > 1
      then map (\<lambda>p. utf8_encode tag @ p) (pair_inputs level) @
        merkle_inputs H tag (level_up (node_hash H tag) level)
      else [])"
  by pat_completeness auto
termination
  by (relation "measure (\<lambda>(H, tag, level). length level)") auto

declare merkle_inputs.simps [simp del]

lemma level_up_inputs: "level_up f xs = map f (pair_inputs xs)"
  by (induction f xs rule: level_up.induct) auto

lemma pair_inputs_inj:
  "length xs = length ys \<Longrightarrow> list_all (\<lambda>h. length h = n) xs \<Longrightarrow> list_all (\<lambda>h. length h = n) ys \<Longrightarrow>
   pair_inputs xs = pair_inputs ys \<Longrightarrow> xs = ys"
proof (induction xs arbitrary: ys rule: pair_inputs.induct)
  case (1 l r rest)
  then obtain l' r' rest' where "ys = l' # r' # rest'" by (cases ys rule: pair_inputs.cases) auto
  with 1 show ?case by simp
next
  case (2 l)
  then obtain l' where "ys = [l']" by (cases ys rule: pair_inputs.cases) auto
  with 2 show ?case by simp
qed simp

lemma map_inj_on_eq:
  "inj_on f (set xs \<union> set ys) \<Longrightarrow> map f xs = map f ys \<Longrightarrow> xs = ys"
  using map_inj_on [of f xs ys] by blast

lemma root_binds:
  assumes "\<And>p. length (node_hash H tag p) = 32"
  shows "length xs = length ys \<Longrightarrow> xs \<noteq> [] \<Longrightarrow> list_all (\<lambda>h. length h = 32) xs \<Longrightarrow>
    list_all (\<lambda>h. length h = 32) ys \<Longrightarrow>
    inj_on (host_sha256 H) (set (merkle_inputs H tag xs) \<union> set (merkle_inputs H tag ys)) \<Longrightarrow>
    root_of (node_hash H tag) xs = root_of (node_hash H tag) ys \<Longrightarrow> xs = ys"
proof (induction "length xs" arbitrary: xs ys rule: less_induct)
  case less
  show ?case
  proof (cases "length xs > 1")
    case False
    with less.prems obtain a b where "xs = [a]" "ys = [b]"
      by (cases xs; cases ys) auto
    with less.prems(6) show ?thesis by (simp add: root_of.simps)
  next
    case True
    let ?f = "node_hash H tag" and ?enc = "\<lambda>p. utf8_encode tag @ p"
    have ins: "merkle_inputs H tag xs = map ?enc (pair_inputs xs) @ merkle_inputs H tag (level_up ?f xs)"
      "merkle_inputs H tag ys = map ?enc (pair_inputs ys) @ merkle_inputs H tag (level_up ?f ys)"
      using True less.prems(1) by (subst merkle_inputs.simps, simp)+
    have "level_up ?f xs = level_up ?f ys"
    proof (rule less.hyps)
      show "length (level_up ?f xs) < length xs" using True by simp
      show "root_of ?f (level_up ?f xs) = root_of ?f (level_up ?f ys)"
        using less.prems(6) True less.prems(1) root_of.simps [of ?f xs] root_of.simps [of ?f ys] by simp
      show "inj_on (host_sha256 H) (set (merkle_inputs H tag (level_up ?f xs)) \<union> set (merkle_inputs H tag (level_up ?f ys)))"
        using less.prems(5) by (rule inj_on_subset) (auto simp: ins)
    qed (use less.prems assms level_up_all [of "\<lambda>h. length h = 32"] in auto)
    then have "map (host_sha256 H) (map ?enc (pair_inputs xs)) = map (host_sha256 H) (map ?enc (pair_inputs ys))"
      by (simp add: level_up_inputs node_hash_def [abs_def] o_def)
    moreover have "inj_on (host_sha256 H) (set (map ?enc (pair_inputs xs)) \<union> set (map ?enc (pair_inputs ys)))"
      using less.prems(5) by (rule inj_on_subset) (auto simp: ins)
    ultimately have "map ?enc (pair_inputs xs) = map ?enc (pair_inputs ys)"
      by (rule map_inj_on_eq [rotated])
    then have "pair_inputs xs = pair_inputs ys"
      using inj_map_eq_map [of ?enc] by (simp add: inj_def)
    with pair_inputs_inj [OF less.prems(1,3,4)] show ?thesis by simp
  qed
qed

lemma merkle_inputs_pair: "merkle_inputs H tag [a, b] = [utf8_encode tag @ a @ b]"
proof -
  have "merkle_inputs H tag [x] = []" for x by (subst merkle_inputs.simps) simp
  then show ?thesis by (subst merkle_inputs.simps) simp
qed

text \<open>
  C32: A Merkle root binds its leaves: two lists of equally many leaves with the same root are the same list,
  as long as the hash has no collision among the inputs the two computations hash.
\<close>

theorem binaryMerkle_binds_leaves:
  assumes "host_ok H" "tag \<in> set ALL_DOMAIN_TAGS" "length xs = length ys"
    and "inj_on (host_sha256 H) (set (merkle_inputs H tag xs) \<union> set (merkle_inputs H tag ys))"
    and "binaryMerkle H xs tag = Inr root" "binaryMerkle H ys tag = Inr root"
  shows "xs = ys"
proof -
  have "length (node_hash H tag p) = 32" for p
    using assms(1) by (simp add: host_ok_def node_hash_def)
  moreover have "xs \<noteq> []" "list_all (\<lambda>h. length h = 32) xs" "list_all (\<lambda>h. length h = 32) ys"
    "root_of (node_hash H tag) xs = root_of (node_hash H tag) ys"
    using assms(5,6) by (auto simp: binaryMerkle_def merkle_loop_eq registered_ascii [OF assms(2)] split: if_splits)
  ultimately show ?thesis using root_binds assms(3,4) by blast
qed

theorem binaryMerkle_binds_leaves_witness:
  "\<exists>root. binaryMerkle plain_host [replicate 32 1, replicate 32 2] (domain_tag ''STATE_ROOT_V1'') = Inr root \<and>
     [replicate 32 (1 :: 8 word), replicate 32 2] = [replicate 32 1, replicate 32 2]"
proof -
  let ?ls = "[replicate 32 1, replicate 32 2] :: bytes list"
  have t: "domain_tag ''STATE_ROOT_V1'' \<in> set ALL_DOMAIN_TAGS"
    by (rule domain_tag_registered) (simp add: DOMAIN_TAGS_def)
  obtain root where r: "binaryMerkle plain_host ?ls (domain_tag ''STATE_ROOT_V1'') = Inr root"
    using binaryMerkle_accepts [OF plain_host_ok t, of ?ls] by auto
  have "inj_on (host_sha256 plain_host) (set (merkle_inputs plain_host (domain_tag ''STATE_ROOT_V1'') ?ls) \<union>
      set (merkle_inputs plain_host (domain_tag ''STATE_ROOT_V1'') ?ls))"
    by (simp add: merkle_inputs_pair)
  from binaryMerkle_binds_leaves [OF plain_host_ok t refl this r r] r show ?thesis by blast
qed

text \<open>It does not bind their number: an odd last leaf may be repeated.\<close>

lemma odd_leaf_repeated: "binaryMerkle H [a, b, c] tag = binaryMerkle H [a, b, c, c] tag"
  by (simp add: binaryMerkle_def merkle_loop.simps)

section \<open>The state root does not depend on the order of the namespaces\<close>

lemma sort_key_mset:
  assumes "mset xs = mset ys" "inj_on f (set xs)"
  shows "sort_key f xs = sort_key f ys"
proof -
  have s: "set xs = set ys" using assms(1) by (rule mset_eq_setD)
  have "sort (map f (sort_key f xs)) = map f (sort_key f ys)"
    using assms(1) by (intro properties_for_sort) simp_all
  moreover have "sort (map f (sort_key f xs)) = map f (sort_key f xs)"
    by (intro properties_for_sort) simp_all
  ultimately have "map f (sort_key f xs) = map f (sort_key f ys)" by simp
  moreover have "inj_on f (set (sort_key f xs) \<union> set (sort_key f ys))"
    using assms(2) s by simp
  ultimately show ?thesis by (rule map_inj_on_eq [rotated])
qed

text \<open>The bytes of the names, for lists whose names are all usable.\<close>

definition names_ok :: "host \<Rightarrow> ('a \<Rightarrow> jstring) \<Rightarrow> 'a list \<Rightarrow> bool" where
  "names_ok H name xs \<longleftrightarrow>
     list_all (\<lambda>x. case utf8NfcBytes H (name x) of Inr _ \<Rightarrow> True | Inl _ \<Rightarrow> False) xs"

definition name_bytes :: "host \<Rightarrow> jstring \<Rightarrow> bytes" where
  "name_bytes H n = (case utf8NfcBytes H n of Inr b \<Rightarrow> b | Inl _ \<Rightarrow> [])"

lemma sort_by_name_eq:
  assumes "names_ok H name xs"
  shows "sort_by_name H name xs = Inr (sort_key (\<lambda>x. name_bytes H (name x)) xs)"
proof (cases "length xs < 2")
  case True
  then have "sort_key (\<lambda>x. name_bytes H (name x)) xs = xs"
    by (cases xs; cases "tl xs") auto
  with True show ?thesis by (simp add: sort_by_name_def)
next
  case False
  have "map_res (\<lambda>x. and_then (utf8NfcBytes H (name x)) (\<lambda>b. Inr (b, x))) xs =
      Inr (map (\<lambda>x. (name_bytes H (name x), x)) xs)"
    using assms by (intro map_res_total) (auto simp: names_ok_def list_all_iff name_bytes_def split: sum.splits)
  moreover have "map snd (sort_key fst (map (\<lambda>x. (name_bytes H (name x), x)) xs)) =
      sort_key (\<lambda>x. name_bytes H (name x)) xs"
  proof -
    have "insort_key fst (k x, x) (map (\<lambda>x. (k x, x)) ys) = map (\<lambda>x. (k x, x)) (insort_key k x ys)"
      for k :: "'a \<Rightarrow> bytes" and x ys
      by (induction ys) auto
    then have "sort_key fst (map (\<lambda>x. (k x, x)) ys) = map (\<lambda>x. (k x, x)) (sort_key k ys)" for k :: "'a \<Rightarrow> bytes" and ys
      by (induction ys) auto
    then show ?thesis by (simp add: o_def)
  qed
  ultimately show ?thesis using False by (simp add: sort_by_name_def)
qed

lemma name_bytes_js:
  "list_all (\<lambda>c. (of_char c :: nat) < 128) t \<Longrightarrow> name_bytes plain_host (js t) = ascii_bytes t"
  by (simp add: name_bytes_def utf8NfcBytes_ascii [OF plain_host_ok] js_ascii utf8_js)

lemma names_ok_mset: "mset xs = mset ys \<Longrightarrow> names_ok H name xs = names_ok H name ys"
  by (auto simp: names_ok_def list_all_iff dest: mset_eq_setD)

text \<open>
  The state root is a function of the set of namespaces: any two orders of namespaces with usable names
  whose normalised bytes differ give the same root.
\<close>

theorem stateRoot_order_independent:
  assumes "mset xs = mset ys" "names_ok H ns_name xs"
    and "inj_on (\<lambda>x. name_bytes H (ns_name x)) (set xs)"
  shows "stateRoot H xs = stateRoot H ys"
proof -
  have "length xs = length ys" using assms(1) by (rule mset_eq_length)
  moreover have "distinct (map ns_name xs) = distinct (map ns_name ys)"
    using assms(1) by (metis mset_eq_imp_distinct_iff mset_map)
  moreover have "sort_by_name H ns_name xs = sort_by_name H ns_name ys"
    using assms names_ok_mset [OF assms(1)] sort_key_mset [OF assms(1,3)] by (simp add: sort_by_name_eq)
  ultimately show ?thesis by (simp add: stateRoot_def)
qed

theorem stateRoot_order_independent_witness:
  "stateRoot plain_host [\<lparr>ns_name = js ''state.cal'', canonicalBytes = [1]\<rparr>, \<lparr>ns_name = js ''state.ptra'', canonicalBytes = [2]\<rparr>] =
   stateRoot plain_host [\<lparr>ns_name = js ''state.ptra'', canonicalBytes = [2]\<rparr>, \<lparr>ns_name = js ''state.cal'', canonicalBytes = [1]\<rparr>]"
proof (rule stateRoot_order_independent)
  have "name_bytes plain_host (js ''state.cal'') = ascii_bytes ''state.cal''"
    "name_bytes plain_host (js ''state.ptra'') = ascii_bytes ''state.ptra''"
    by (simp_all add: name_bytes_js)
  then have "name_bytes plain_host (js ''state.cal'') \<noteq> name_bytes plain_host (js ''state.ptra'')"
    by (simp add: ascii_bytes_def)
  then show "inj_on (\<lambda>x. name_bytes plain_host (ns_name x))
      (set [\<lparr>ns_name = js ''state.cal'', canonicalBytes = [1]\<rparr>, \<lparr>ns_name = js ''state.ptra'', canonicalBytes = [2]\<rparr>])"
    by simp
  show "names_ok plain_host ns_name
      [\<lparr>ns_name = js ''state.cal'', canonicalBytes = [1]\<rparr>, \<lparr>ns_name = js ''state.ptra'', canonicalBytes = [2]\<rparr>]"
    by (simp add: names_ok_def utf8NfcBytes_ascii [OF plain_host_ok] js_ascii)
qed (simp add: add_mset_commute)

end
