(* ===== verification/Canon_Addresses.thy ===== *)
theory Canon_Addresses
  imports Canon_Framing
begin

text \<open>
  \<^verbatim>\<open>canonical/src/addresses.ts\<close>: raw addresses \<open><workchain>:<64 hex digits>\<close>, with the decimal text of
  integers (\<open>toString(10)\<close> and template literals) and its reading. The regular expression is deterministic
  (each part ends where the next begins), so it is a left-to-right scan.
\<close>

section \<open>Decimal text\<close>

definition dec_digit :: "nat \<Rightarrow> 16 word" where
  "dec_digit d = word_of_nat (0x30 + d)"

fun dec_nat :: "nat \<Rightarrow> jstring" where
  "dec_nat n = (if n < 10 then [dec_digit n] else dec_nat (n div 10) @ [dec_digit (n mod 10)])"

definition dec_int :: "int \<Rightarrow> jstring" where
  "dec_int v = (if v < 0 then 0x2d # dec_nat (nat (- v)) else dec_nat (nat v))"

definition is_digit :: "16 word \<Rightarrow> bool" where
  "is_digit c \<longleftrightarrow> c \<ge> 0x30 \<and> c \<le> 0x39"

definition read_nat :: "jstring \<Rightarrow> nat" where
  "read_nat ds = foldl (\<lambda>n c. 10 * n + (unat c - 0x30)) 0 ds"

text \<open>\<open>Number.parseInt\<close> and \<open>BigInt\<close> on the texts that reach them: digits with an optional sign.\<close>

definition read_int :: "jstring \<Rightarrow> int" where
  "read_int s = (case s of c # ds \<Rightarrow> if c = 0x2d then - int (read_nat ds) else int (read_nat s) | [] \<Rightarrow> 0)"

declare dec_nat.simps [simp del]

lemma dec_digit_facts:
  "d < 10 \<Longrightarrow> is_digit (dec_digit d) \<and> unat (dec_digit d) - 0x30 = d \<and> dec_digit d \<noteq> 0x2d \<and>
     (dec_digit d = 0x30 \<longleftrightarrow> d = 0)"
proof -
  have "list_all (\<lambda>d. is_digit (dec_digit d) \<and> unat (dec_digit d) - 0x30 = d \<and> dec_digit d \<noteq> 0x2d \<and>
      (dec_digit d = 0x30 \<longleftrightarrow> d = 0)) [0..<10]"
    by code_simp
  then show "d < 10 \<Longrightarrow> is_digit (dec_digit d) \<and> unat (dec_digit d) - 0x30 = d \<and> dec_digit d \<noteq> 0x2d \<and>
      (dec_digit d = 0x30 \<longleftrightarrow> d = 0)"
    by (simp add: list_all_iff)
qed

lemma dec_nat_digits: "list_all is_digit (dec_nat n) \<and> dec_nat n \<noteq> []"
  by (induction n rule: dec_nat.induct) (subst (1 2) dec_nat.simps, auto simp: dec_digit_facts)

lemma read_nat_snoc: "read_nat (ds @ [c]) = 10 * read_nat ds + (unat c - 0x30)"
  by (simp add: read_nat_def)

lemma read_dec_nat [simp]: "read_nat (dec_nat n) = n"
proof (induction n rule: dec_nat.induct)
  case (1 n)
  show ?case
  proof (cases "n < 10")
    case True
    then show ?thesis by (simp add: dec_nat.simps [of n] read_nat_def dec_digit_facts)
  next
    case False
    with 1 show ?thesis by (simp add: dec_nat.simps [of n] read_nat_snoc dec_digit_facts)
  qed
qed

lemma dec_nat_hd: "0 < n \<Longrightarrow> hd (dec_nat n) \<noteq> 0x30"
proof (induction n rule: dec_nat.induct)
  case (1 n)
  show ?case
  proof (cases "n < 10")
    case True
    with 1 show ?thesis by (simp add: dec_nat.simps [of n] dec_digit_facts)
  next
    case False
    with 1 dec_nat_digits [of "n div 10"] show ?thesis by (simp add: dec_nat.simps [of n])
  qed
qed

lemma dec_nat_no_minus: "hd (dec_nat n) \<noteq> 0x2d"
proof -
  obtain c cs where c: "dec_nat n = c # cs" "is_digit c" using dec_nat_digits [of n] by (cases "dec_nat n") auto
  have "\<not> is_digit 0x2d" by (simp add: is_digit_def)
  with c show ?thesis by auto
qed

lemma read_dec_int [simp]: "read_int (dec_int v) = v"
proof (cases "v < 0")
  case True
  then show ?thesis by (simp add: dec_int_def read_int_def)
next
  case False
  obtain c cs where c: "dec_nat (nat v) = c # cs" using dec_nat_digits [of "nat v"] by (cases "dec_nat (nat v)") auto
  moreover have "c \<noteq> 0x2d" using dec_nat_no_minus [of "nat v"] c by simp
  moreover have "int (read_nat (dec_nat (nat v))) = v" using False by simp
  ultimately show ?thesis using False by (simp add: dec_int_def read_int_def)
qed

section \<open>Addresses\<close>

record parsed_address =
  workchain :: int
  addr_hash :: bytes

definition is_lower_hex :: "16 word \<Rightarrow> bool" where
  "is_lower_hex c \<longleftrightarrow> is_digit c \<or> (c \<ge> 0x61 \<and> c \<le> 0x66)"

text \<open>\<open>RAW_RE.exec\<close>: the two groups of the match.\<close>

definition raw_match :: "jstring \<Rightarrow> (jstring \<times> jstring) option" where
  "raw_match addr =
     (let (sign, body) = (case addr of c # r \<Rightarrow> if c = 0x2d then ([0x2d], r) else ([], addr) | [] \<Rightarrow> ([], []));
          ds = takeWhile is_digit body;
          tail = dropWhile is_digit body
      in if 1 \<le> length ds \<and> length ds \<le> 4 then
           (case tail of
              c # h \<Rightarrow> if c = 0x3a \<and> length h = 64 \<and> list_all is_lower_hex h then Some (sign @ ds, h) else None
            | [] \<Rightarrow> None)
         else None)"

definition parseAddress :: "jstring \<Rightarrow> parsed_address res" where
  "parseAddress addr =
     (case raw_match addr of
        None \<Rightarrow> enc_error ''ADDRESS_NONCANONICAL''
      | Some (wcStr, hexStr) \<Rightarrow>
          let wc = read_int wcStr
          in if wc < -128 \<or> wc > 127 then enc_error ''ADDRESS_WORKCHAIN_RANGE''
             else and_then (fromHex hexStr) (\<lambda>h. Inr \<lparr>workchain = wc, addr_hash = h\<rparr>))"

definition formatAddress :: "parsed_address \<Rightarrow> jstring res" where
  "formatAddress p =
     (if length (addr_hash p) \<noteq> 32 then enc_error ''ADDRESS_BAD_HASH''
      else Inr (dec_int (workchain p) @ [0x3a] @ toHex (addr_hash p) False))"

definition isCanonicalAddress :: "jstring \<Rightarrow> bool" where
  "isCanonicalAddress addr = (case parseAddress addr of Inr _ \<Rightarrow> True | Inl _ \<Rightarrow> False)"

text \<open>\<open>out.set\<close> raises when the hash does not fit; a shorter one leaves zeros.\<close>

definition addressToBytes :: "jstring + parsed_address \<Rightarrow> bytes res" where
  "addressToBytes addr =
     and_then (case addr of Inl s \<Rightarrow> parseAddress s | Inr p \<Rightarrow> Inr p) (\<lambda>parsed.
       if length (addr_hash parsed) > 32 then Inl TypeError
       else Inr (word_of_int (if workchain parsed < 0 then workchain parsed + 256 else workchain parsed)
         # addr_hash parsed @ replicate (32 - length (addr_hash parsed)) 0))"

definition valid_address :: "parsed_address \<Rightarrow> bool" where
  "valid_address p \<longleftrightarrow> -128 \<le> workchain p \<and> workchain p \<le> 127 \<and> length (addr_hash p) = 32"

lemma lower_hex_digit: "0 \<le> d \<Longrightarrow> d < 16 \<Longrightarrow> is_lower_hex (hex_digit d)"
proof -
  have "list_all (\<lambda>d. is_lower_hex (hex_digit d)) [0..15]" by code_simp
  then show "0 \<le> d \<Longrightarrow> d < 16 \<Longrightarrow> is_lower_hex (hex_digit d)" by (auto simp: list_all_iff)
qed

lemma lower_hex_toHex: "list_all is_lower_hex (toHex bs False)"
proof -
  have "is_lower_hex (hex_digit (uint b div 16))" "is_lower_hex (hex_digit (uint b mod 16))" for b :: "8 word"
  proof -
    have "uint b < 256" using uint_lt2p [of b] by simp
    then have "uint b div 16 < 16" by linarith
    then show "is_lower_hex (hex_digit (uint b div 16))"
      by (intro lower_hex_digit) (simp_all add: pos_imp_zdiv_nonneg_iff)
    show "is_lower_hex (hex_digit (uint b mod 16))" by (intro lower_hex_digit) simp_all
  qed
  then have "list_all is_lower_hex (byte_hex b)" for b by (simp add: byte_hex_def)
  then show ?thesis by (induction bs) (simp_all add: toHex_def)
qed

lemma dec_nat_length: "n < 1000 \<Longrightarrow> length (dec_nat n) \<le> 3"
proof -
  assume n: "n < 1000"
  have "length (dec_nat n) \<le> k" if "n < 10 ^ k" "0 < k" for n k
    using that
  proof (induction k arbitrary: n)
    case (Suc k)
    show ?case
    proof (cases "n < 10")
      case False
      then have "0 < k" using Suc.prems by (cases k) auto
      moreover have "n div 10 < 10 ^ k" using Suc.prems(1) by (simp add: div_less_iff_less_mult)
      ultimately show ?thesis using False Suc.IH [of "n div 10"] by (simp add: dec_nat.simps [of n])
    qed (simp add: dec_nat.simps [of n])
  qed simp
  from this [of n 3] n show ?thesis by simp
qed

lemma digits_split:
  assumes "list_all is_digit ds" "\<not> is_digit c"
  shows "takeWhile is_digit (ds @ c # r) = ds" "dropWhile is_digit (ds @ c # r) = c # r"
  using assms by (induction ds) simp_all

lemma raw_match_format:
  assumes "valid_address p"
  shows "raw_match (dec_int (workchain p) @ [0x3a] @ toHex (addr_hash p) False) =
    Some (dec_int (workchain p), toHex (addr_hash p) False)"
proof -
  let ?h = "toHex (addr_hash p) False"
  have h: "length ?h = 64" "list_all is_lower_hex ?h"
    using assms lower_hex_toHex by (simp_all add: valid_address_def toHex_def)
  have colon: "\<not> is_digit 0x3a" by (simp add: is_digit_def)
  define n where "n = nat (if workchain p < 0 then - workchain p else workchain p)"
  have "n < 1000" using assms by (auto simp: n_def valid_address_def)
  then have n: "1 \<le> length (dec_nat n)" "length (dec_nat n) \<le> 4"
    using dec_nat_length [of n] dec_nat_digits [of n] by (auto simp: Suc_le_eq)
  have d: "list_all is_digit (dec_nat n)" using dec_nat_digits by simp
  obtain c cs where c: "dec_nat n = c # cs" "c \<noteq> 0x2d"
    using dec_nat_digits [of n] dec_nat_no_minus [of n] by (cases "dec_nat n") auto
  have split: "takeWhile is_digit (dec_nat n @ 0x3a # ?h) = dec_nat n"
    "dropWhile is_digit (dec_nat n @ 0x3a # ?h) = 0x3a # ?h"
    using digits_split [OF d colon] by simp_all
  show ?thesis
  proof (cases "workchain p < 0")
    case True
    then have "dec_int (workchain p) = 0x2d # dec_nat n" by (simp add: dec_int_def n_def)
    then show ?thesis using split n h by (simp add: raw_match_def Let_def)
  next
    case False
    then have "dec_int (workchain p) = dec_nat n" by (simp add: dec_int_def n_def)
    then show ?thesis using split n h c by (simp add: raw_match_def Let_def)
  qed
qed

interpretation addresses: codec valid_address formatAddress parseAddress
proof
  fix p
  assume v: "valid_address p"
  then show "\<exists>b. formatAddress p = Inr b" by (simp add: valid_address_def formatAddress_def)
  fix b
  assume "formatAddress p = Inr b"
  with v have "b = dec_int (workchain p) @ [0x3a] @ toHex (addr_hash p) False"
    by (simp add: formatAddress_def valid_address_def)
  with v raw_match_format [OF v] show "parseAddress b = Inr p"
    by (simp add: parseAddress_def valid_address_def fromHex_toHex Let_def)
qed

lemma hex_pairs_length: "hex_pairs s = Inr bs \<Longrightarrow> length bs = length s div 2"
  by (induction s arbitrary: bs rule: hex_pairs.induct) (auto simp: Let_def split: if_splits)

lemma lower_hex_parses: "is_lower_hex c \<Longrightarrow> 0 \<le> parseHexDigit c"
proof -
  assume c: "is_lower_hex c"
  have "uint (0x30 :: 16 word) \<le> uint c" if "0x30 \<le> c" using that by (simp add: word_le_def)
  moreover have "uint (0x61 :: 16 word) \<le> uint c" if "0x61 \<le> c" using that by (simp add: word_le_def)
  ultimately show ?thesis
    using c by (auto simp: is_lower_hex_def is_digit_def parseHexDigit_def)
qed

lemma fromHex_lower:
  assumes "list_all is_lower_hex h" "even (length h)"
  shows "\<exists>bs. fromHex h = Inr bs \<and> length bs = length h div 2"
proof -
  have x: "\<not> is_lower_hex 0x78" "\<not> is_lower_hex 0x58" by (simp_all add: is_lower_hex_def is_digit_def)
  have "list_all is_lower_hex (take 2 h)"
    using assms(1) by (auto simp: list_all_iff dest: in_set_takeD)
  with x have "take 2 h \<noteq> js ''0x''" "take 2 h \<noteq> js ''0X''" by (auto simp: js_def)
  then have "fromHex h = hex_pairs h" using assms(2) by (simp add: fromHex_def Let_def)
  moreover have "\<exists>bs. hex_pairs h = Inr bs"
    using assms
  proof (induction h rule: hex_pairs.induct)
    case (1 a b rest)
    then obtain bs where "hex_pairs rest = Inr bs" using lower_hex_parses by fastforce
    with 1 lower_hex_parses [of a] lower_hex_parses [of b] show ?case by (simp add: Let_def)
  qed auto
  ultimately show ?thesis using hex_pairs_length by auto
qed

lemma raw_match_hash: "raw_match a = Some (w, h) \<Longrightarrow> list_all is_lower_hex h \<and> length h = 64"
  by (auto simp: raw_match_def Let_def split: if_splits list.splits)

lemma parseAddress_cases:
  "parseAddress a = Inr p \<longleftrightarrow>
     (\<exists>w h. raw_match a = Some (w, h) \<and> -128 \<le> read_int w \<and> read_int w \<le> 127 \<and>
        fromHex h = Inr (addr_hash p) \<and> workchain p = read_int w)"
proof -
  have "p = \<lparr>workchain = x, addr_hash = y\<rparr> \<longleftrightarrow> x = workchain p \<and> y = addr_hash p" for x y
    by auto
  then show ?thesis
    by (auto simp: parseAddress_def Let_def split: option.splits if_splits)
qed

lemma parseAddress_valid: "parseAddress a = Inr p \<Longrightarrow> valid_address p"
proof -
  assume "parseAddress a = Inr p"
  then obtain w h where wh: "raw_match a = Some (w, h)" "-128 \<le> workchain p" "workchain p \<le> 127"
    "fromHex h = Inr (addr_hash p)" by (auto simp: parseAddress_cases)
  with raw_match_hash [OF wh(1)] fromHex_lower [of h] show ?thesis by (auto simp: valid_address_def)
qed

text \<open>
  Not strict: the workchain's decimal text may carry leading zeros or be \<open>-0\<close>, so an address has several
  accepted texts and \<open>formatAddress\<close> does not give back the one that was parsed.
\<close>

definition zero_hash_text :: jstring where
  "zero_hash_text = js (replicate 64 CHR ''0'')"

lemma two_texts_one_address:
  "isCanonicalAddress (js ''0:'' @ zero_hash_text) \<and> isCanonicalAddress (js ''-00:'' @ zero_hash_text) \<and>
   parseAddress (js ''0:'' @ zero_hash_text) = parseAddress (js ''-00:'' @ zero_hash_text)"
  by code_simp

end
