(* ===== verification/Canon_Codecs.thy ===== *)
theory Canon_Codecs
  imports Canon_Addresses Canon_Framing Canon_Strings
begin

text \<open>
  The round trips of the byte formats of \<^verbatim>\<open>canonical/src\<close>, written out over the functions of the code from the
  interpretations of \<open>codec\<close> and \<open>strict_codec\<close> that the format theories give.
\<close>

text \<open>
  int256 is a strict encoding: exactly the integers from -2^255 to 2^255 - 1 are encoded, into 32 bytes, decoding gives the integer back, and
  every 32-byte string the decoder accepts is the encoding of its result, so no integer has two encodings.
\<close>

theorem int256_strict_round_trip:
  "((\<exists>b. encodeInt256 (BigInt v) = Inr b) \<longleftrightarrow> - (2 ^ 255) \<le> v \<and> v < 2 ^ 255) \<and>
   (encodeInt256 (BigInt v) = Inr b \<longleftrightarrow> decodeInt256 b = Inr v)"
proof -
  have r: "is_int256 v \<longleftrightarrow> - (2 ^ 255) \<le> v \<and> v < 2 ^ 255"
    by (auto simp: is_int256_def MIN_INT256_def MAX_INT256_def push_bit_eq_mult)
  have "encodeInt256 (BigInt v) = Inr c \<Longrightarrow> is_int256 v" for c
    by (auto simp: encodeInt256_def is_int256_def split: if_splits)
  then show ?thesis
    using r int256.enc_total [of v] int256.dec_enc [of v b] int256.enc_dec [of b v] by blast
qed

text \<open>
  An address with a signed 8-bit workchain and a 32-byte hash is formatted to a text that parses back to it, and every text the parser
  accepts gives such an address; distinct addresses have distinct texts.
\<close>

theorem address_round_trip:
  "(valid_address p \<longrightarrow> (\<exists>t. formatAddress p = Inr t \<and> parseAddress t = Inr p \<and> isCanonicalAddress t)) \<and>
   (parseAddress t = Inr p \<longrightarrow> valid_address p) \<and>
   (valid_address p \<and> valid_address q \<and> formatAddress p = formatAddress q \<longrightarrow> p = q)"
proof -
  have "\<exists>t. formatAddress p = Inr t \<and> parseAddress t = Inr p \<and> isCanonicalAddress t" if "valid_address p"
    using addresses.roundtrip [OF that] by (auto simp: isCanonicalAddress_def)
  then show ?thesis using parseAddress_valid addresses.enc_inj by blast
qed

theorem address_round_trip_witness:
  "\<exists>t. formatAddress \<lparr>workchain = -1, addr_hash = replicate 32 7\<rparr> = Inr t \<and>
     parseAddress t = Inr \<lparr>workchain = -1, addr_hash = replicate 32 7\<rparr>"
  using address_round_trip [of "\<lparr>workchain = -1, addr_hash = replicate 32 7\<rparr>" "[]"
      "\<lparr>workchain = -1, addr_hash = replicate 32 7\<rparr>"]
  by (auto simp: valid_address_def)

end
