(* ===== verification/Canon_Parse.thy ===== *)
theory Canon_Parse
  imports Canon_Addresses Canon_Strings
begin

text \<open>
  \<^verbatim>\<open>canonical/src/jcs.ts\<close>, class \<open>JcsParser\<close>: the restricted JSON parser. Its state is the position in the
  source; the model passes the remaining input. Values nest, so the three mutually recursive methods take
  fuel; \<open>parseValue_fuel\<close> shows that fuel for twice the length of the input is never used up. An object's member is
  stored by plain assignment (\<open>js_assign\<close>).
\<close>

section \<open>Tokens\<close>

definition is_ws :: "16 word \<Rightarrow> bool" where
  "is_ws c \<longleftrightarrow> c = 0x20 \<or> c = 0x09 \<or> c = 0x0a \<or> c = 0x0d"

definition skipWhitespace :: "jstring \<Rightarrow> jstring" where
  "skipWhitespace s = dropWhile is_ws s"

definition peek :: "jstring \<Rightarrow> 16 word option" where
  "peek s = (case s of c # _ \<Rightarrow> Some c | [] \<Rightarrow> None)"

definition expect :: "16 word \<Rightarrow> jstring \<Rightarrow> jstring res" where
  "expect c s = (if peek s \<noteq> Some c then event_error ''JCS_EXPECTED_CHAR'' else Inr (tl s))"

definition simple_escape :: "16 word \<Rightarrow> 16 word option" where
  "simple_escape esc =
     (if esc = 0x22 then Some 0x22
      else if esc = 0x5c then Some 0x5c
      else if esc = 0x2f then Some 0x2f
      else if esc = 0x62 then Some 0x08
      else if esc = 0x66 then Some 0x0c
      else if esc = 0x6e then Some 0x0a
      else if esc = 0x72 then Some 0x0d
      else if esc = 0x74 then Some 0x09
      else None)"

definition is_hex_char :: "16 word \<Rightarrow> bool" where
  "is_hex_char c \<longleftrightarrow> 0 \<le> parseHexDigit c"

definition hex_value :: "jstring \<Rightarrow> int" where
  "hex_value hex = foldl (\<lambda>v c. v * 16 + parseHexDigit c) 0 hex"

text \<open>The escape after a backslash: the unit it stands for and the remaining input.\<close>

definition parse_escape :: "jstring \<Rightarrow> (16 word \<times> jstring) res" where
  "parse_escape r =
     (case r of
        [] \<Rightarrow> event_error ''JCS_BAD_ESCAPE''
      | esc # r1 \<Rightarrow>
          (case simple_escape esc of
             Some u \<Rightarrow> Inr (u, r1)
           | None \<Rightarrow>
               if esc = 0x75 then
                 (if length r1 < 4 then event_error ''JCS_BAD_UNICODE_ESCAPE''
                  else
                    let hex = take 4 r1; code = hex_value hex
                    in if \<not> list_all is_hex_char hex then event_error ''JCS_BAD_UNICODE_ESCAPE''
                       else if is_surrogate code then event_error ''JCS_SURROGATE_ESCAPE''
                       else Inr (word_of_int code, drop 4 r1))
               else event_error ''JCS_BAD_ESCAPE''))"

lemma parse_escape_length: "parse_escape r = Inr (u, r1) \<Longrightarrow> length r1 < length r"
  by (auto simp: parse_escape_def Let_def split: list.splits option.splits if_splits)

text \<open>The loop of \<open>parseString\<close> after the opening quote; \<open>acc\<close> is \<open>result\<close>.\<close>

function parse_chars :: "jstring \<Rightarrow> jstring \<Rightarrow> (jstring \<times> jstring) res" where
  "parse_chars acc [] = event_error ''JCS_STRING_UNTERMINATED''"
| "parse_chars acc (c # r) =
     (if c = 0x22 then Inr (acc, r)
      else if c = 0x5c then and_then (parse_escape r) (\<lambda>(u, r1). parse_chars (acc @ [u]) r1)
      else if uint c < 0x20 then event_error ''JCS_CONTROL_IN_STRING''
      else if high_surrogate c then
        (case r of
           d # r1 \<Rightarrow> if low_surrogate d then parse_chars (acc @ [c, d]) r1 else event_error ''JCS_LONE_SURROGATE''
         | [] \<Rightarrow> event_error ''JCS_LONE_SURROGATE'')
      else if low_surrogate c then event_error ''JCS_LONE_SURROGATE''
      else parse_chars (acc @ [c]) r)"
  by pat_completeness auto
termination
  by (relation "measure (\<lambda>(acc, s). length s)") (auto dest: parse_escape_length)

declare parse_chars.simps(2) [simp del]

definition parseString :: "jstring \<Rightarrow> (jstring \<times> jstring) res" where
  "parseString s = and_then (expect 0x22 s) (\<lambda>r. parse_chars [] r)"

text \<open>The digits the loop of \<open>parseNumber\<close> takes: a single 0, or a run that does not start with 0.\<close>

definition number_digits :: "jstring \<Rightarrow> jstring" where
  "number_digits s =
     (case s of
        c # _ \<Rightarrow> if c = 0x30 then [c] else takeWhile is_digit s
      | [] \<Rightarrow> [])"

definition parseNumber :: "jstring \<Rightarrow> (int \<times> jstring) res" where
  "parseNumber s =
     (let sign = (if peek s = Some 0x2d then [0x2d] else []);
          body = drop (length sign) s;
          digits = number_digits body;
          tail = drop (length digits) body;
          text = sign @ digits
      in if digits = [] then event_error ''JCS_BAD_NUMBER''
         else if peek tail = Some 0x2e then event_error ''JCS_FRACTIONAL_FORBIDDEN''
         else if peek tail = Some 0x65 \<or> peek tail = Some 0x45 then event_error ''JCS_EXPONENT_FORBIDDEN''
         else if peek text = Some 0x2b then event_error ''JCS_BAD_NUMBER''
         else if length digits > 1 \<and> peek digits = Some 0x30 then event_error ''JCS_LEADING_ZERO''
         else if text = js ''-0'' then event_error ''JCS_NEGATIVE_ZERO''
         else Inr (read_int text, tail))"

definition parse_literal :: "string \<Rightarrow> json \<Rightarrow> jstring \<Rightarrow> (json \<times> jstring) option" where
  "parse_literal lit v s =
     (if take (length lit) s = js lit then Some (v, drop (length lit) s) else None)"

definition parseBool :: "jstring \<Rightarrow> (json \<times> jstring) res" where
  "parseBool s =
     (case parse_literal ''true'' (JBool True) s of
        Some r \<Rightarrow> Inr r
      | None \<Rightarrow>
          (case parse_literal ''false'' (JBool False) s of
             Some r \<Rightarrow> Inr r
           | None \<Rightarrow> event_error ''JCS_BAD_LITERAL''))"

definition parseNull :: "jstring \<Rightarrow> (json \<times> jstring) res" where
  "parseNull s =
     (case parse_literal ''null'' JNull s of Some r \<Rightarrow> Inr r | None \<Rightarrow> event_error ''JCS_BAD_LITERAL'')"

section \<open>Values\<close>

fun parseValue :: "nat \<Rightarrow> jstring \<Rightarrow> (json \<times> jstring) res"
  and parse_members :: "nat \<Rightarrow> jstring list \<Rightarrow> obj \<Rightarrow> jstring \<Rightarrow> (json \<times> jstring) res"
  and parse_elements :: "nat \<Rightarrow> json list \<Rightarrow> jstring \<Rightarrow> (json \<times> jstring) res" where
  "parseValue 0 s0 = Inl OutOfFuel"
| "parseValue (Suc n) s0 =
     (let s = skipWhitespace s0
      in case s of
           [] \<Rightarrow> event_error ''JCS_UNEXPECTED_EOF''
         | c # r \<Rightarrow>
             if c = 0x7b then
               (let r1 = skipWhitespace r
                in if peek r1 = Some 0x7d then Inr (JObj [], tl r1) else parse_members n [] [] r1)
             else if c = 0x5b then
               (let r1 = skipWhitespace r
                in if peek r1 = Some 0x5d then Inr (JArr [], tl r1) else parse_elements n [] r1)
             else if c = 0x22 then and_then (parseString s) (\<lambda>(str, rest). Inr (JStr str, rest))
             else if c = 0x74 \<or> c = 0x66 then parseBool s
             else if c = 0x6e then parseNull s
             else if c = 0x2d \<or> is_digit c then and_then (parseNumber s) (\<lambda>(v, rest). Inr (JInt v, rest))
             else event_error ''JCS_UNEXPECTED_CHAR'')"
| "parse_members 0 seenKeys out s0 = Inl OutOfFuel"
| "parse_members (Suc n) seenKeys out s0 =
     (let s = skipWhitespace s0
      in if peek s \<noteq> Some 0x22 then event_error ''JCS_KEY_NOT_STRING''
         else and_then (parseString s) (\<lambda>(key, s1).
           if key \<in> set seenKeys then event_error ''JCS_DUPLICATE_KEY''
           else and_then (expect 0x3a (skipWhitespace s1)) (\<lambda>s2.
             and_then (parseValue n s2) (\<lambda>(value, s3).
               let out' = js_assign key value out;
                   s4 = skipWhitespace s3
               in if peek s4 = Some 0x2c then parse_members n (key # seenKeys) out' (tl s4)
                  else if peek s4 = Some 0x7d then Inr (JObj out', tl s4)
                  else event_error ''JCS_EXPECTED_COMMA_OR_BRACE''))))"
| "parse_elements 0 out s0 = Inl OutOfFuel"
| "parse_elements (Suc n) out s0 =
     and_then (parseValue n s0) (\<lambda>(value, s1).
       let out' = out @ [value];
           s2 = skipWhitespace s1
       in if peek s2 = Some 0x2c then parse_elements n out' (tl s2)
          else if peek s2 = Some 0x5d then Inr (JArr out', tl s2)
          else event_error ''JCS_EXPECTED_COMMA_OR_BRACKET'')"

definition parseCanonical :: "jstring \<Rightarrow> json res" where
  "parseCanonical src =
     and_then (parseValue (Suc (2 * length src)) (skipWhitespace src)) (\<lambda>(value, rest).
       if skipWhitespace rest \<noteq> [] then event_error ''JCS_TRAILING_INPUT'' else Inr value)"

section \<open>Every method consumes input\<close>

lemma skip_length [simp]: "length (skipWhitespace s) \<le> length s"
  by (simp add: skipWhitespace_def length_dropWhile_le)

lemma peek_Some: "peek s = Some c \<longleftrightarrow> (\<exists>r. s = c # r)"
  by (cases s) (auto simp: peek_def)

lemma expect_Inr: "expect c s = Inr r \<longleftrightarrow> s = c # r"
  by (cases s) (auto simp: expect_def peek_def)

lemma parse_chars_length: "parse_chars acc s = Inr (k, r) \<Longrightarrow> length r < length s"
proof (induction acc s rule: parse_chars.induct)
  case (2 acc c t)
  consider (quote) "c = 0x22" | (escape) u t1 where "c \<noteq> 0x22" "c = 0x5c" "parse_escape t = Inr (u, t1)"
      "parse_chars (acc @ [u]) t1 = Inr (k, r)"
    | (pair) d t1 where "c \<noteq> 0x22" "c \<noteq> 0x5c" "\<not> uint c < 0x20" "high_surrogate c" "t = d # t1" "low_surrogate d"
      "parse_chars (acc @ [c, d]) t1 = Inr (k, r)"
    | (plain) "c \<noteq> 0x22" "c \<noteq> 0x5c" "\<not> uint c < 0x20" "\<not> high_surrogate c" "\<not> low_surrogate c"
      "parse_chars (acc @ [c]) t = Inr (k, r)"
    using "2.prems" by (auto simp: parse_chars.simps(2) split: if_splits list.splits)
  then show ?case
  proof cases
    case quote
    with "2.prems" show ?thesis by (simp add: parse_chars.simps(2))
  next
    case escape
    with "2.IH"(1) parse_escape_length [OF escape(3)] show ?thesis by fastforce
  next
    case pair
    with "2.IH"(2) show ?thesis by fastforce
  next
    case plain
    with "2.IH"(3) show ?thesis by simp
  qed
qed simp

lemma parseString_length: "parseString s = Inr (k, r) \<Longrightarrow> length r < length s"
  by (auto simp: parseString_def expect_Inr dest!: parse_chars_length)

lemma number_digits_length: "length (number_digits s) \<le> length s"
  by (auto simp: number_digits_def length_takeWhile_le split: list.splits)

lemma parseNumber_length: "parseNumber s = Inr (v, r) \<Longrightarrow> length r < length s"
proof -
  assume p: "parseNumber s = Inr (v, r)"
  define sign body digits where "sign = (if peek s = Some 0x2d then [0x2d] else [])"
    and "body = drop (length sign) s" and "digits = number_digits body"
  from p have r: "r = drop (length digits) body" and d: "digits \<noteq> []"
    by (auto simp: parseNumber_def Let_def sign_def body_def digits_def split: if_splits)
  have "length digits \<le> length body" by (simp add: digits_def number_digits_length)
  moreover have "length body \<le> length s" by (simp add: body_def)
  moreover have "0 < length digits" using d by simp
  ultimately show ?thesis unfolding r length_drop by linarith
qed

lemma parse_literal_length: "lit \<noteq> [] \<Longrightarrow> parse_literal lit v s = Some (w, r) \<Longrightarrow> length r < length s"
  by (cases s) (auto simp: parse_literal_def split: if_splits)

lemma parseBool_length: "parseBool s = Inr (v, r) \<Longrightarrow> length r < length s"
  by (auto simp: parseBool_def dest: parse_literal_length [rotated] split: option.splits)

lemma parseNull_length: "parseNull s = Inr (v, r) \<Longrightarrow> length r < length s"
  by (auto simp: parseNull_def dest: parse_literal_length [rotated] split: option.splits)

lemmas token_length = parseString_length parseNumber_length parseBool_length parseNull_length

lemma skip_Cons_length: "skipWhitespace s = c # r \<Longrightarrow> length r < length s"
  using skip_length [of s] by simp

text \<open>A value that is neither an object nor an array is one token.\<close>

lemma parse_token_length:
  assumes "skipWhitespace s0 = c # r" "c \<noteq> 0x7b" "c \<noteq> 0x5b" "parseValue (Suc n) s0 = Inr vr"
  shows "length (snd vr) < length (skipWhitespace s0)"
proof -
  let ?s = "skipWhitespace s0"
  consider str rest where "parseString ?s = Inr (str, rest)" "vr = (JStr str, rest)" | "parseBool ?s = Inr vr"
    | "parseNull ?s = Inr vr" | k rest where "parseNumber ?s = Inr (k, rest)" "vr = (JInt k, rest)"
    using assms by (auto simp: Let_def split: if_splits)
  then show ?thesis by cases (use token_length in \<open>(cases vr, force)+\<close>)
qed

lemma parse_length:
  "parseValue n s = Inr vr \<Longrightarrow> length (snd vr) < length s"
  "parse_members n seen ob s = Inr vr \<Longrightarrow> length (snd vr) < length s"
  "parse_elements n xs s = Inr vr \<Longrightarrow> length (snd vr) < length s"
proof (induction n s and n seen ob s and n xs s arbitrary: vr and vr and vr
    rule: parseValue_parse_members_parse_elements.induct)
  case (2 n s0)
  from "2.prems" obtain c r where s: "skipWhitespace s0 = c # r"
    by (cases "skipWhitespace s0") (auto simp: Let_def)
  have len: "length r < length s0" using skip_Cons_length [OF s] .
  have skip: "length (skipWhitespace r) < length s0" using skip_length [of r] len by linarith
  consider (obj) "c = 0x7b" "peek (skipWhitespace r) \<noteq> Some 0x7d"
    | (arr) "c = 0x5b" "peek (skipWhitespace r) \<noteq> Some 0x5d"
    | (none) "c = 0x7b" "peek (skipWhitespace r) = Some 0x7d" | (nil) "c = 0x5b" "peek (skipWhitespace r) = Some 0x5d"
    | (token) "c \<noteq> 0x7b" "c \<noteq> 0x5b"
    by blast
  then show ?case
  proof cases
    case obj
    from obj "2.prems" s have "parse_members n [] [] (skipWhitespace r) = Inr vr" by (simp add: Let_def)
    from "2.IH"(1) [OF refl s obj(1) refl obj(2) this] skip show ?thesis by simp
  next
    case arr
    from arr "2.prems" s have "parse_elements n [] (skipWhitespace r) = Inr vr" by (simp add: Let_def)
    from "2.IH"(2) [OF refl s _ arr(1) refl arr(2) this] arr skip show ?thesis by simp
  next
    case none
    with "2.prems" s skip show ?thesis by (auto simp: Let_def)
  next
    case nil
    with "2.prems" s skip show ?thesis by (auto simp: Let_def)
  next
    case token
    from parse_token_length [OF s token "2.prems"] skip_length [of s0] show ?thesis by linarith
  qed
next
  case (4 n seen ob s0)
  from "4.prems" obtain key s1 s2 v s3 where
    s1: "parseString (skipWhitespace s0) = Inr (key, s1)" and nk: "key \<notin> set seen"
    and s2: "expect 0x3a (skipWhitespace s1) = Inr s2" and s3: "parseValue n s2 = Inr (v, s3)"
    and p: "peek (skipWhitespace s0) = Some 0x22"
    by (auto simp: Let_def split: if_splits)
  have "skipWhitespace s1 = 0x3a # s2" using s2 by (simp add: expect_Inr)
  note c = skip_Cons_length [OF this]
  have "length s3 < length s2" using "4.IH"(1) [OF refl _ s1 refl nk s2 s3] p by simp
  with c parseString_length [OF s1] skip_length [of s0] have l: "length s3 < length s0" by linarith
  from "4.prems" p s1 nk s2 s3 consider
    (more) s4 where "skipWhitespace s3 = 0x2c # s4" "parse_members n (key # seen) (js_assign key v ob) s4 = Inr vr"
    | (stop) s4 where "skipWhitespace s3 = 0x7d # s4" "vr = (JObj (js_assign key v ob), s4)"
    by (auto simp: Let_def peek_Some split: if_splits)
  then show ?case
  proof cases
    case more
    have "length (snd vr) < length (tl (skipWhitespace s3))"
      by (rule "4.IH"(2) [OF refl _ s1 refl nk s2 s3 refl refl refl]) (use more p in \<open>simp_all add: peek_def\<close>)
    with l more(1) skip_Cons_length [OF more(1)] show ?thesis by simp
  next
    case stop
    with l skip_Cons_length [OF stop(1)] show ?thesis by simp
  qed
next
  case (6 n xs s0)
  from "6.prems" obtain v s1 where s1: "parseValue n s0 = Inr (v, s1)" by auto
  have l: "length s1 < length s0" using "6.IH"(1) [OF s1] by simp
  from "6.prems" s1 consider
    (more) s2 where "skipWhitespace s1 = 0x2c # s2" "parse_elements n (xs @ [v]) s2 = Inr vr"
    | (stop) s2 where "skipWhitespace s1 = 0x5d # s2" "vr = (JArr (xs @ [v]), s2)"
    by (auto simp: Let_def peek_Some split: if_splits)
  then show ?case
  proof cases
    case more
    have "length (snd vr) < length (tl (skipWhitespace s1))"
      by (rule "6.IH"(2) [OF s1 refl refl refl]) (use more in \<open>simp_all add: peek_def\<close>)
    with l more(1) skip_Cons_length [OF more(1)] show ?thesis by simp
  next
    case stop
    with l skip_Cons_length [OF stop(1)] show ?thesis by simp
  qed
qed simp_all

section \<open>The fuel is enough\<close>

lemma parse_escape_fuel: "parse_escape r \<noteq> Inl OutOfFuel"
  by (auto simp: parse_escape_def Let_def split: list.splits option.splits)

lemma parse_chars_fuel: "parse_chars acc s \<noteq> Inl OutOfFuel"
proof (induction acc s rule: parse_chars.induct)
  case (2 acc c t)
  then show ?case
    by (auto simp: parse_chars.simps(2) and_then_Inl parse_escape_fuel split: list.splits)
qed simp

lemma parseString_fuel: "parseString s \<noteq> Inl OutOfFuel"
  by (simp add: parseString_def and_then_Inl expect_def parse_chars_fuel)

lemma parseNumber_fuel: "parseNumber s \<noteq> Inl OutOfFuel"
  by (simp add: parseNumber_def Let_def)

lemma parseBool_fuel: "parseBool s \<noteq> Inl OutOfFuel"
  by (simp add: parseBool_def split: option.splits)

lemma parseNull_fuel: "parseNull s \<noteq> Inl OutOfFuel"
  by (simp add: parseNull_def split: option.splits)

lemmas token_fuel = parseString_fuel parseNumber_fuel parseBool_fuel parseNull_fuel

lemma parse_fuel:
  "2 * length s < n \<Longrightarrow> parseValue n s \<noteq> Inl OutOfFuel"
  "2 * length s + 1 < n \<Longrightarrow> parse_members n seen ob s \<noteq> Inl OutOfFuel"
  "2 * length s + 1 < n \<Longrightarrow> parse_elements n xs s \<noteq> Inl OutOfFuel"
proof (induction n s and n seen ob s and n xs s rule: parseValue_parse_members_parse_elements.induct)
  case (2 n s0)
  show ?case
  proof (cases "skipWhitespace s0")
    case Nil
    then show ?thesis by simp
  next
    case (Cons c r)
    have "length (skipWhitespace r) < length s0"
      using skip_Cons_length [OF Cons] skip_length [of r] by linarith
    with "2.prems" have len: "2 * length (skipWhitespace r) + 1 < n" by linarith
    have "c = 0x7b \<Longrightarrow> peek (skipWhitespace r) \<noteq> Some 0x7d \<Longrightarrow>
        parse_members n [] [] (skipWhitespace r) \<noteq> Inl OutOfFuel"
      using "2.IH"(1) [OF refl Cons _ refl _ len] by simp
    moreover have "c = 0x5b \<Longrightarrow> peek (skipWhitespace r) \<noteq> Some 0x5d \<Longrightarrow>
        parse_elements n [] (skipWhitespace r) \<noteq> Inl OutOfFuel"
      using "2.IH"(2) [OF refl Cons _ _ refl _ len] by simp
    ultimately show ?thesis
      using Cons by (simp add: Let_def and_then_Inl token_fuel)
  qed
next
  case (4 n seen ob s0)
  show ?case
  proof
    assume out: "parse_members (Suc n) seen ob s0 = Inl OutOfFuel"
    then have p: "peek (skipWhitespace s0) = Some 0x22" by (auto simp: Let_def split: if_splits)
    with out obtain key s1 where s1: "parseString (skipWhitespace s0) = Inr (key, s1)" and nk: "key \<notin> set seen"
      by (auto simp: Let_def and_then_Inl token_fuel split: if_splits)
    with out p obtain s2 where s2: "expect 0x3a (skipWhitespace s1) = Inr s2"
      by (auto simp: Let_def and_then_Inl expect_def split: if_splits)
    have "length s2 < length (skipWhitespace s1)" using s2 by (simp add: expect_Inr)
    then have l2: "length s2 + 2 \<le> length s0"
      using parseString_length [OF s1] skip_length [of s0] skip_length [of s1] by linarith
    then have "parseValue n s2 \<noteq> Inl OutOfFuel"
      using "4.IH"(1) [OF refl _ s1 refl nk s2] p "4.prems" by simp
    with out p s1 nk s2 obtain v s3 where s3: "parseValue n s2 = Inr (v, s3)"
      by (auto simp: Let_def and_then_Inl)
    have l3: "length s3 < length s2" using parse_length(1) [OF s3] by simp
    from out p s1 nk s2 s3 obtain s4 where s4: "skipWhitespace s3 = 0x2c # s4"
      and o4: "parse_members n (key # seen) (js_assign key v ob) s4 = Inl OutOfFuel"
      by (auto simp: Let_def peek_Some split: if_splits)
    have "2 * length s4 + 1 < n" using skip_Cons_length [OF s4] l2 l3 "4.prems" by linarith
    then have "parse_members n (key # seen) (js_assign key v ob) (tl (skipWhitespace s3)) \<noteq> Inl OutOfFuel"
      by (intro "4.IH"(2) [OF refl _ s1 refl nk s2 s3 refl refl refl]) (use p s4 in \<open>simp_all add: peek_def\<close>)
    with o4 s4 show False by simp
  qed
next
  case (6 n xs s0)
  show ?case
  proof
    assume out: "parse_elements (Suc n) xs s0 = Inl OutOfFuel"
    have "parseValue n s0 \<noteq> Inl OutOfFuel" using "6.IH"(1) "6.prems" by simp
    with out obtain v s1 where s1: "parseValue n s0 = Inr (v, s1)" by (auto simp: and_then_Inl)
    have l: "length s1 < length s0" using parse_length(1) [OF s1] by simp
    from out s1 obtain s2 where s2: "skipWhitespace s1 = 0x2c # s2"
      and o2: "parse_elements n (xs @ [v]) s2 = Inl OutOfFuel"
      by (auto simp: Let_def peek_Some split: if_splits)
    have "2 * length s2 + 1 < n" using skip_Cons_length [OF s2] l "6.prems" by linarith
    then have "parse_elements n (xs @ [v]) (tl (skipWhitespace s1)) \<noteq> Inl OutOfFuel"
      by (intro "6.IH"(2) [OF s1 refl refl refl]) (use s2 in \<open>simp_all add: peek_def\<close>)
    with o2 s2 show False by simp
  qed
qed simp_all

lemma parseCanonical_total: "parseCanonical s \<noteq> Inl OutOfFuel"
proof -
  have "2 * length (skipWhitespace s) < Suc (2 * length s)" using skip_length [of s] by linarith
  then show ?thesis by (auto simp: parseCanonical_def and_then_Inl parse_fuel(1) simp del: parseValue.simps)
qed

end
