(* ===== verification/Canon_Jcs.thy ===== *)
theory Canon_Jcs
  imports Canon_Parse Canon_Hash
begin

text \<open>
  \<^verbatim>\<open>canonical/src/jcs.ts\<close>, the validator of arbitrary values, the serializer and the entry points. The
  serializer is compared with a printer without checks (\<open>render\<close>) applied to the normal form of a value
  (\<open>norm_json\<close>: strings in NFC, members in the order of the UTF-8 bytes of their keys), and the parser inverts the
  printer. Two values have the same canonical bytes exactly when they have the same normal form.

  \<open>Object.keys\<close> lists array-index keys first; a \<open>json\<close> object lists its members in insertion order. Every output
  sorts the keys, so only the choice between two errors of one object could tell the difference.
\<close>

section \<open>Validation of values\<close>

lemma size_member: "kv \<in> set ob \<Longrightarrow> size (snd kv) < size (JObj ob)"
  by (induction ob) (auto split: prod.splits)

lemma size_element: "x \<in> set xs \<Longrightarrow> size x < size (JArr xs)"
  by (induction xs) auto

fun coerceToJcsValue :: "json \<Rightarrow> json res" where
  "coerceToJcsValue JNull = Inr JNull"
| "coerceToJcsValue (JBool b) = Inr (JBool b)"
| "coerceToJcsValue (JInt v) = Inr (JInt v)"
| "coerceToJcsValue (JNum n) =
     (case n of
        NNonFinite \<Rightarrow> event_error ''JCS_NON_FINITE_NUMBER''
      | NFractional \<Rightarrow> event_error ''JCS_FRACTIONAL_FORBIDDEN''
      | NNegZero \<Rightarrow> event_error ''JCS_NEGATIVE_ZERO''
      | NInt v \<Rightarrow> Inr (JInt v))"
| "coerceToJcsValue (JStr s) = (if well_formed s then Inr (JStr s) else event_error ''JCS_LONE_SURROGATE'')"
| "coerceToJcsValue (JArr xs) = and_then (map_res coerceToJcsValue xs) (\<lambda>ys. Inr (JArr ys))"
| "coerceToJcsValue (JObj ob) =
     and_then (map_res (\<lambda>kv. and_then (coerceToJcsValue (snd kv)) (\<lambda>v. Inr (fst kv, v))) ob)
       (\<lambda>kvs. Inr (JObj (foldl (\<lambda>out kv. js_assign (fst kv) (snd kv) out) [] kvs)))"
| "coerceToJcsValue JFun = event_error ''JCS_UNSUPPORTED_TYPE''"

section \<open>The serializer\<close>

definition compareUtf8Bytes :: "host \<Rightarrow> jstring \<Rightarrow> jstring \<Rightarrow> int" where
  "compareUtf8Bytes H a b = byte_compare (utf8_encode (host_nfc H a)) (utf8_encode (host_nfc H b))"

text \<open>The stable sort by that comparison is the stable sort by the byte string of the key.\<close>

definition sort_key_bytes :: "host \<Rightarrow> jstring \<Rightarrow> bytes" where
  "sort_key_bytes H k = utf8_encode (host_nfc H k)"

definition sort_members :: "host \<Rightarrow> obj \<Rightarrow> obj" where
  "sort_members H ob = sort_key (\<lambda>kv. sort_key_bytes H (fst kv)) ob"

definition escape_unit :: "16 word \<Rightarrow> jstring" where
  "escape_unit c =
     (if c = 0x22 then [0x5c, 0x22]
      else if c = 0x5c then [0x5c, 0x5c]
      else if c = 0x08 then [0x5c, 0x62]
      else if c = 0x09 then [0x5c, 0x74]
      else if c = 0x0a then [0x5c, 0x6e]
      else if c = 0x0c then [0x5c, 0x66]
      else if c = 0x0d then [0x5c, 0x72]
      else if uint c < 0x20 then [0x5c, 0x75, 0x30, 0x30] @ byte_hex (ucast c)
      else [c])"

definition quote :: "jstring \<Rightarrow> jstring" where
  "quote s = 0x22 # concat (map escape_unit s) @ [0x22]"

definition escapeString :: "host \<Rightarrow> jstring \<Rightarrow> jstring res" where
  "escapeString H s =
     (if starts_with_bom s then event_error ''UTF8_BOM_FORBIDDEN''
      else and_then (assertAssigned s) (\<lambda>_. Inr (quote (host_nfc H s))))"

fun commas :: "jstring list \<Rightarrow> jstring" where
  "commas [] = []"
| "commas [p] = p"
| "commas (p # q # ps) = p @ 0x2c # commas (q # ps)"

lemma sort_members_set [simp]: "set (sort_members H ob) = set ob"
  by (simp add: sort_members_def)

function serialize :: "host \<Rightarrow> json \<Rightarrow> jstring res" where
  "serialize H JNull = Inr (js ''null'')"
| "serialize H (JBool b) = Inr (if b then js ''true'' else js ''false'')"
| "serialize H (JInt v) = Inr (dec_int v)"
| "serialize H (JStr s) = escapeString H s"
| "serialize H (JArr xs) = and_then (map_res (serialize H) xs) (\<lambda>ps. Inr (0x5b # commas ps @ [0x5d]))"
| "serialize H (JObj ob) =
     and_then (map_res (\<lambda>kv. and_then (escapeString H (fst kv)) (\<lambda>k.
         and_then (serialize H (snd kv)) (\<lambda>v. Inr (k @ 0x3a # v)))) (sort_members H ob))
       (\<lambda>ps. Inr (0x7b # commas ps @ [0x7d]))"
| "serialize H (JNum n) = event_error ''JCS_UNSUPPORTED_TYPE''"
| "serialize H JFun = event_error ''JCS_UNSUPPORTED_TYPE''"
  by pat_completeness auto
termination
  by (relation "measure (\<lambda>(H, v). size v)") (use size_member size_element in auto)

section \<open>Entry points\<close>

definition canonicalizeString :: "host \<Rightarrow> jstring \<Rightarrow> bytes res" where
  "canonicalizeString H src =
     and_then (parseCanonical src) (\<lambda>v. and_then (serialize H v) (\<lambda>s. Inr (utf8_encode s)))"

definition canonicalizeValue :: "host \<Rightarrow> json \<Rightarrow> bytes res" where
  "canonicalizeValue H value =
     and_then (coerceToJcsValue value) (\<lambda>v. and_then (serialize H v) (\<lambda>s. Inr (utf8_encode s)))"

definition serializeCanonical :: "host \<Rightarrow> json \<Rightarrow> jstring res" where
  "serializeCanonical H value = serialize H value"

section \<open>The key order\<close>

lemma Nil_less: "[] < bs \<longleftrightarrow> bs \<noteq> []" for bs :: bytes
  by (cases bs) simp_all

lemma byte_compare_less: "byte_compare as bs < 0 \<longleftrightarrow> as < bs"
proof (induction as bs rule: byte_compare.induct)
  case (1 a as b bs)
  show ?case
  proof (cases "a = b")
    case True
    with 1 show ?thesis by simp
  next
    case False
    then show ?thesis by (simp add: word_less_def)
  qed
qed (simp_all add: Nil_less)

lemma byte_compare_zero: "byte_compare as bs = 0 \<longleftrightarrow> as = bs"
proof (induction as bs rule: byte_compare.induct)
  case (1 a as b bs)
  then show ?case by (cases "a = b") (simp_all add: word_uint_eq_iff)
qed auto

lemma compareUtf8Bytes_order:
  "compareUtf8Bytes H a b < 0 \<longleftrightarrow> sort_key_bytes H a < sort_key_bytes H b"
  "compareUtf8Bytes H a b = 0 \<longleftrightarrow> sort_key_bytes H a = sort_key_bytes H b"
  by (simp_all add: compareUtf8Bytes_def sort_key_bytes_def byte_compare_less byte_compare_zero)

section \<open>Normal form and printer\<close>

function norm_json :: "host \<Rightarrow> json \<Rightarrow> json" where
  "norm_json H (JStr s) = JStr (host_nfc H s)"
| "norm_json H (JArr xs) = JArr (map (norm_json H) xs)"
| "norm_json H (JObj ob) =
     JObj (map (\<lambda>kv. (host_nfc H (fst kv), norm_json H (snd kv))) (sort_members H ob))"
| "norm_json H JNull = JNull"
| "norm_json H (JBool b) = JBool b"
| "norm_json H (JInt v) = JInt v"
| "norm_json H (JNum n) = JNum n"
| "norm_json H JFun = JFun"
  by pat_completeness auto
termination
  by (relation "measure (\<lambda>(H, v). size v)") (use size_member size_element in auto)

fun render :: "json \<Rightarrow> jstring" where
  "render JNull = js ''null''"
| "render (JBool b) = (if b then js ''true'' else js ''false'')"
| "render (JInt v) = dec_int v"
| "render (JStr s) = quote s"
| "render (JArr xs) = 0x5b # commas (map render xs) @ [0x5d]"
| "render (JObj ob) = 0x7b # commas (map (\<lambda>kv. quote (fst kv) @ 0x3a # render (snd kv)) ob) @ [0x7d]"
| "render _ = []"

lemma escapeString_quote: "escapeString H s = Inr t \<Longrightarrow> t = quote (host_nfc H s)"
  by (simp add: escapeString_def split: if_splits)

lemma map_res_render:
  "map_res f xs = Inr ys \<Longrightarrow> (\<And>x y. x \<in> set xs \<Longrightarrow> f x = Inr y \<Longrightarrow> y = g x) \<Longrightarrow> ys = map g xs"
  by (induction xs arbitrary: ys) auto

lemma serialize_render: "serialize H v = Inr s \<Longrightarrow> s = render (norm_json H v)"
proof (induction v arbitrary: s rule: serialize.induct)
  case (5 H xs)
  then obtain ps where ps: "map_res (serialize H) xs = Inr ps" "s = 0x5b # commas ps @ [0x5d]" by auto
  have "ps = map (\<lambda>x. render (norm_json H x)) xs"
    by (rule map_res_render [OF ps(1)]) (use "5.IH" in blast)
  with ps show ?case by (simp add: comp_def)
next
  case (6 H ob)
  let ?f = "\<lambda>kv. and_then (escapeString H (fst kv)) (\<lambda>k. and_then (serialize H (snd kv)) (\<lambda>v. Inr (k @ 0x3a # v)))"
  from "6.prems" obtain ps where ps: "map_res ?f (sort_members H ob) = Inr ps" "s = 0x7b # commas ps @ [0x7d]"
    by auto
  have "ps = map (\<lambda>kv. quote (host_nfc H (fst kv)) @ 0x3a # render (norm_json H (snd kv))) (sort_members H ob)"
    by (rule map_res_render [OF ps(1)]) (use "6.IH" in \<open>auto dest: escapeString_quote\<close>)
  with ps show ?case by (simp add: comp_def)
qed (auto dest: escapeString_quote split: if_splits)

section \<open>The parser inverts the printer\<close>

fun printable :: "json \<Rightarrow> bool" where
  "printable (JStr s) \<longleftrightarrow> well_formed s"
| "printable (JArr xs) \<longleftrightarrow> (\<forall>x \<in> set xs. printable x)"
| "printable (JObj ob) \<longleftrightarrow> distinct (map fst ob) \<and>
     (\<forall>kv \<in> set ob. well_formed (fst kv) \<and> fst kv \<noteq> js ''__proto__'' \<and> printable (snd kv))"
| "printable (JNum n) \<longleftrightarrow> False"
| "printable JFun \<longleftrightarrow> False"
| "printable JNull \<longleftrightarrow> True"
| "printable (JBool b) \<longleftrightarrow> True"
| "printable (JInt i) \<longleftrightarrow> True"

lemma u_escape_checked:
  "list_all (\<lambda>n. let h = [0x30, 0x30] @ byte_hex (ucast (word_of_nat n :: 16 word))
     in length h = 4 \<and> list_all is_hex_char h \<and> hex_value h = int n) [0..<32]"
  by code_simp

lemma parse_u_escape:
  assumes "uint c < 0x20"
  shows "parse_escape (0x75 # [0x30, 0x30] @ byte_hex (ucast c) @ r) = Inr (c, r)"
proof -
  define h where "h = [0x30, 0x30] @ byte_hex (ucast c)"
  have n: "unat c \<in> set [0..<32]" using assms by (simp flip: nat_uint_eq)
  have h: "length h = 4" "list_all is_hex_char h" "hex_value h = uint c"
    using u_escape_checked [unfolded list_all_iff, rule_format, OF n] by (simp_all add: h_def Let_def list_all_iff)
  have "simple_escape 0x75 = None" by (simp add: simple_escape_def)
  moreover have "\<not> is_surrogate (uint c)" using assms by (simp add: is_surrogate_def)
  ultimately have "parse_escape (0x75 # h @ r) = Inr (c, r)" using h by (simp add: parse_escape_def Let_def)
  then show ?thesis by (simp add: h_def)
qed

lemma parse_chars_unit:
  assumes "\<not> high_surrogate c" "\<not> low_surrogate c"
  shows "parse_chars acc (escape_unit c @ r) = parse_chars (acc @ [c]) r"
proof (cases "uint c < 0x20 \<or> c = 0x22 \<or> c = 0x5c")
  case False
  then have "escape_unit c = [c]" by (auto simp: escape_unit_def)
  with False assms show ?thesis by (simp add: parse_chars.simps(2))
next
  case True
  then have "\<exists>e. escape_unit c = 0x5c # e \<and> parse_escape (e @ r) = Inr (c, r)"
    using parse_u_escape [of c r]
    by (auto simp: escape_unit_def parse_escape_def simple_escape_def)
  then show ?thesis by (auto simp: parse_chars.simps(2))
qed

lemma surrogate_plain: "high_surrogate c \<or> low_surrogate c \<Longrightarrow> escape_unit c = [c]"
  by (auto simp: escape_unit_def high_surrogate_def low_surrogate_def)

lemma parse_chars_pair:
  assumes "high_surrogate c" "low_surrogate d"
  shows "parse_chars acc (escape_unit c @ escape_unit d @ r) = parse_chars (acc @ [c, d]) r"
proof -
  have "c \<noteq> 0x22" "c \<noteq> 0x5c" "\<not> uint c < 0x20" using assms(1) by (auto simp: high_surrogate_def)
  with assms show ?thesis by (simp add: surrogate_plain parse_chars.simps(2))
qed

lemma parse_chars_quote:
  "well_formed s \<Longrightarrow> parse_chars acc (concat (map escape_unit s) @ 0x22 # r) = Inr (acc @ s, r)"
proof (induction s arbitrary: acc rule: well_formed.induct)
  case (1 c d s)
  show ?case
  proof (cases "high_surrogate c")
    case True
    with 1 show ?thesis by (simp add: parse_chars_pair)
  next
    case False
    with 1 show ?thesis by (simp add: parse_chars_unit)
  qed
next
  case (2 c)
  then show ?case by (simp add: parse_chars_unit parse_chars.simps(2))
qed (simp add: parse_chars.simps(2))

lemma parseString_quote: "well_formed s \<Longrightarrow> parseString (quote s @ r) = Inr (s, r)"
  using parse_chars_quote [of s "[]"] by (simp add: parseString_def quote_def expect_def peek_def)

text \<open>What may follow a number.\<close>

definition ends_number :: "jstring \<Rightarrow> bool" where
  "ends_number r \<longleftrightarrow> (case r of c # _ \<Rightarrow> \<not> is_digit c \<and> c \<noteq> 0x2e \<and> c \<noteq> 0x65 \<and> c \<noteq> 0x45 | [] \<Rightarrow> True)"

lemma number_digits_dec:
  assumes "ends_number r"
  shows "number_digits (dec_nat n @ r) = dec_nat n"
proof (cases "n = 0")
  case True
  have "dec_nat 0 = [0x30]" by (simp add: dec_nat.simps dec_digit_def)
  with True show ?thesis by (simp add: number_digits_def)
next
  case False
  obtain c cs where c: "dec_nat n = c # cs" "list_all is_digit (c # cs)"
    using dec_nat_digits [of n] by (cases "dec_nat n") auto
  have "c \<noteq> 0x30" using dec_nat_hd [of n] False c by simp
  moreover have "takeWhile is_digit (c # cs @ r) = c # cs"
    using c(2) assms by (cases r) (auto simp: ends_number_def takeWhile_append list_all_iff)
  ultimately show ?thesis using c(1) by (simp add: number_digits_def)
qed

lemma ends_peek: "ends_number r \<Longrightarrow> peek r \<noteq> Some 0x2e \<and> peek r \<noteq> Some 0x65 \<and> peek r \<noteq> Some 0x45"
  by (auto simp: ends_number_def peek_Some)

lemma dec_nat_leading: "\<not> (1 < length (dec_nat n) \<and> peek (dec_nat n) = Some 0x30)"
proof (cases "n = 0")
  case True
  then show ?thesis by (simp add: dec_nat.simps)
next
  case False
  with dec_nat_hd [of n] dec_nat_digits [of n] show ?thesis by (cases "dec_nat n") (auto simp: peek_def)
qed

lemma minus_zero: "js ''-0'' = 0x2d # dec_nat 0"
  by (simp add: js_def dec_nat.simps dec_digit_def)

lemma dec_nat_inject: "dec_nat m = dec_nat n \<longleftrightarrow> m = n"
  by (metis read_dec_nat)

lemma parseNumber_dec:
  assumes "ends_number r"
  shows "parseNumber (dec_int v @ r) = Inr (v, r)"
proof (cases "v < 0")
  case True
  let ?d = "dec_nat (nat (- v))"
  have "0x2d # ?d \<noteq> js ''-0''" using True by (simp add: minus_zero dec_nat_inject)
  moreover have "?d \<noteq> []" using dec_nat_digits by blast
  moreover have "read_int (0x2d # ?d) = v" using read_dec_int [of v] True by (simp add: dec_int_def)
  ultimately show ?thesis
    using True assms ends_peek [OF assms] dec_nat_leading [of "nat (- v)"]
    by (simp add: parseNumber_def dec_int_def Let_def number_digits_dec peek_def [of "_ # _"])
next
  case False
  let ?d = "dec_nat (nat v)"
  obtain c cs where c: "?d = c # cs" "is_digit c" using dec_nat_digits [of "nat v"] by (cases ?d) auto
  have "c \<noteq> 0x2d" "c \<noteq> 0x2b" using c(2) by (auto simp: is_digit_def)
  then have p: "peek (?d @ r) \<noteq> Some 0x2d" "peek ?d \<noteq> Some 0x2b" "?d \<noteq> js ''-0''" "?d \<noteq> []"
    using c(1) by (auto simp: peek_def minus_zero)
  have "read_int ?d = v" using read_dec_int [of v] False by (simp add: dec_int_def)
  with p show ?thesis
    using False assms ends_peek [OF assms] dec_nat_leading [of "nat v"]
    by (simp add: parseNumber_def dec_int_def Let_def number_digits_dec)
qed

lemma skip_plain: "\<not> is_ws c \<Longrightarrow> skipWhitespace (c # r) = c # r"
  by (simp add: skipWhitespace_def)

lemma ends_simps [simp]: "ends_number (0x2c # r)" "ends_number (0x5d # r)" "ends_number (0x7d # r)" "ends_number []"
  by (simp_all add: ends_number_def is_digit_def)

lemma quote_head: "\<exists>t. quote s @ r = 0x22 # t"
  by (simp add: quote_def)

text \<open>The first unit of a printed value selects the method that parses it.\<close>

lemma dec_int_head: "\<exists>c t. dec_int v = c # t \<and> (c = 0x2d \<or> is_digit c)"
  using dec_nat_digits [of "nat v"] dec_nat_digits [of "nat (- v)"]
  by (cases "dec_nat (nat v)") (auto simp: dec_int_def)

lemma number_head: "c = 0x2d \<or> is_digit c \<Longrightarrow> \<not> is_ws c \<and> c \<noteq> 0x7b \<and> c \<noteq> 0x5b \<and> c \<noteq> 0x22 \<and> c \<noteq> 0x74 \<and> c \<noteq> 0x66 \<and> c \<noteq> 0x6e \<and> c \<noteq> 0x5d \<and> c \<noteq> 0x7d"
  by (auto simp: is_digit_def is_ws_def)

lemma render_head:
  assumes "printable v"
  shows "\<exists>c t. render v = c # t \<and> \<not> is_ws c \<and> c \<noteq> 0x5d \<and> c \<noteq> 0x7d"
proof (cases v)
  case (JInt i)
  then show ?thesis using dec_int_head [of i] number_head by auto
qed (use assms in \<open>auto simp: js_def quote_def is_ws_def\<close>)

lemma parse_number_value:
  assumes "ends_number r"
  shows "parseValue (Suc n) (dec_int v @ r) = Inr (JInt v, r)"
proof -
  obtain c t where c: "dec_int v = c # t" "c = 0x2d \<or> is_digit c" using dec_int_head by blast
  have "skipWhitespace (dec_int v @ r) = c # t @ r" using c number_head [of c] by (simp add: skip_plain)
  moreover have "parseNumber (c # t @ r) = Inr (v, r)" using parseNumber_dec [OF assms, of v] c(1) by simp
  ultimately show ?thesis using c(2) number_head [of c] by (simp add: Let_def)
qed

lemma parse_literal_js: "parse_literal lit v (js lit @ r) = Some (v, r)"
  by (simp add: parse_literal_def)

lemma parse_bool_value: "parseBool (js ''true'' @ r) = Inr (JBool True, r)" "parseBool (js ''false'' @ r) = Inr (JBool False, r)"
proof -
  have "parse_literal ''true'' (JBool True) (js ''false'' @ r) = None" by (simp add: parse_literal_def js_def)
  then show "parseBool (js ''true'' @ r) = Inr (JBool True, r)" "parseBool (js ''false'' @ r) = Inr (JBool False, r)"
    by (simp_all add: parseBool_def parse_literal_js)
qed

lemma parse_literal_values:
  "parseValue (Suc n) (js ''true'' @ r) = Inr (JBool True, r)"
  "parseValue (Suc n) (js ''false'' @ r) = Inr (JBool False, r)"
  "parseValue (Suc n) (js ''null'' @ r) = Inr (JNull, r)"
proof -
  have t: "js ''true'' @ r = 0x74 # js ''rue'' @ r" and f: "js ''false'' @ r = 0x66 # js ''alse'' @ r"
    and nl: "js ''null'' @ r = 0x6e # js ''ull'' @ r"
    by (simp_all add: js_def)
  have "parseNull (js ''null'' @ r) = Inr (JNull, r)" by (simp add: parseNull_def parse_literal_js)
  then have "parseNull (0x6e # js ''ull'' @ r) = Inr (JNull, r)" by (simp only: nl)
  then show "parseValue (Suc n) (js ''null'' @ r) = Inr (JNull, r)"
    unfolding nl by (simp add: skip_plain is_ws_def)
  show "parseValue (Suc n) (js ''true'' @ r) = Inr (JBool True, r)"
    "parseValue (Suc n) (js ''false'' @ r) = Inr (JBool False, r)"
    using parse_bool_value [of r] unfolding t f by (simp_all add: skip_plain is_ws_def)
qed

lemma parse_string_value:
  assumes "well_formed s"
  shows "parseValue (Suc n) (quote s @ r) = Inr (JStr s, r)"
proof -
  obtain t where t: "quote s @ r = 0x22 # t" using quote_head by blast
  have "parseString (0x22 # t) = Inr (s, r)" using parseString_quote [OF assms, of r] t by simp
  then show ?thesis unfolding t by (simp add: skip_plain is_ws_def)
qed

text \<open>Arrays and objects, from what holds of their parts.\<close>

definition parses :: "json \<Rightarrow> bool" where
  "parses v \<longleftrightarrow> (\<forall>n r. ends_number r \<longrightarrow> 2 * length (render v) < n \<longrightarrow> parseValue n (render v @ r) = Inr (v, r))"

lemma parse_elements_render:
  assumes "\<forall>v \<in> set vs. parses v" "vs \<noteq> []" "2 * length (commas (map render vs)) + 1 < n"
  shows "parse_elements n acc (commas (map render vs) @ 0x5d # r) = Inr (JArr (acc @ vs), r)"
  using assms
proof (induction vs arbitrary: n acc)
  case Nil
  then show ?case by simp
next
  case (Cons v vs)
  obtain m where n: "n = Suc m" using Cons.prems(3) by (cases n) auto
  show ?case
  proof (cases vs)
    case Nil
    have "parseValue m (render v @ 0x5d # r) = Inr (v, 0x5d # r)"
      using Cons.prems n Nil by (simp add: parses_def)
    with n Nil show ?thesis by (simp add: skip_plain is_ws_def peek_def)
  next
    case (Cons w ws)
    let ?rest = "commas (map render vs) @ 0x5d # r"
    have "parseValue m (render v @ 0x2c # ?rest) = Inr (v, 0x2c # ?rest)"
      using Cons.prems n Cons by (simp add: parses_def)
    moreover have "parse_elements m (acc @ [v]) ?rest = Inr (JArr (acc @ [v] @ vs), r)"
      using Cons.IH [of m "acc @ [v]"] Cons.prems n Cons by simp
    ultimately show ?thesis using n Cons by (simp add: skip_plain is_ws_def peek_def)
  qed
qed

definition render_member :: "jstring \<times> json \<Rightarrow> jstring" where
  "render_member kv = quote (fst kv) @ 0x3a # render (snd kv)"

lemma assign_new: "k \<notin> fst ` set ob \<Longrightarrow> k \<noteq> js ''__proto__'' \<Longrightarrow> js_assign k v ob = ob @ [(k, v)]"
proof -
  have "k \<notin> fst ` set ob \<Longrightarrow> AList.update k v ob = ob @ [(k, v)]" by (induction ob) auto
  then show "k \<notin> fst ` set ob \<Longrightarrow> k \<noteq> js ''__proto__'' \<Longrightarrow> js_assign k v ob = ob @ [(k, v)]"
    by (simp add: js_assign_def)
qed

text \<open>One turn of the member loop on a printed member.\<close>

lemma parse_member_step:
  assumes "well_formed k" "k \<noteq> js ''__proto__''" "k \<notin> set seen" "k \<notin> fst ` set ob" "parses v"
    "2 * length (render v) < m" "c = 0x2c \<or> c = 0x7d"
  shows "parse_members (Suc m) seen ob (render_member (k, v) @ c # r) =
     (if c = 0x2c then parse_members m (k # seen) (ob @ [(k, v)]) r else Inr (JObj (ob @ [(k, v)]), r))"
proof -
  have ends: "ends_number (c # r)" using assms(7) by auto
  have "\<not> is_ws c" using assms(7) by (auto simp: is_ws_def)
  then have sc: "skipWhitespace (c # r) = c # r" by (rule skip_plain)
  let ?t = "0x3a # render v @ c # r"
  have m: "render_member (k, v) @ c # r = quote k @ ?t" by (simp add: render_member_def)
  obtain q where q: "quote k @ ?t = 0x22 # q" using quote_head by blast
  have sq: "skipWhitespace (quote k @ ?t) = quote k @ ?t" unfolding q by (rule skip_plain) (simp add: is_ws_def)
  have pq: "peek (quote k @ ?t) = Some 0x22" unfolding q by (simp add: peek_def)
  have st: "skipWhitespace ?t = ?t" by (rule skip_plain) (simp add: is_ws_def)
  have e: "expect 0x3a ?t = Inr (render v @ c # r)" by (simp add: expect_def peek_def)
  have v: "parseValue m (render v @ c # r) = Inr (v, c # r)" using assms(5,6) ends by (simp add: parses_def)
  have "parse_members (Suc m) seen ob (quote k @ ?t) =
     (if c = 0x2c then parse_members m (k # seen) (js_assign k v ob) r else Inr (JObj (js_assign k v ob), r))"
    using assms(3,7) v sc
    by (simp add: Let_def sq pq parseString_quote [OF assms(1)] st e del: parseValue.simps) (auto simp: peek_def)
  then show ?thesis unfolding m by (simp add: assign_new [OF assms(4,2)])
qed

lemma parse_members_render:
  assumes "\<forall>kv \<in> set kvs. well_formed (fst kv) \<and> fst kv \<noteq> js ''__proto__'' \<and> parses (snd kv)"
    "kvs \<noteq> []" "distinct (map fst kvs)" "set seen \<inter> fst ` set kvs = {}" "fst ` set ob \<inter> fst ` set kvs = {}"
    "2 * length (commas (map render_member kvs)) + 1 < n"
  shows "parse_members n seen ob (commas (map render_member kvs) @ 0x7d # r) = Inr (JObj (ob @ kvs), r)"
  using assms
proof (induction kvs arbitrary: n seen ob)
  case Nil
  then show ?case by simp
next
  case (Cons kv kvs)
  obtain m where n: "n = Suc m" using Cons.prems(6) by (cases n) auto
  obtain k v where kv: "kv = (k, v)" by (cases kv)
  have kv_ok: "well_formed k" "k \<noteq> js ''__proto__''" "k \<notin> set seen" "k \<notin> fst ` set ob" "parses v"
    using Cons.prems kv by auto
  have member: "length (render_member (k, v)) = length (quote k) + 1 + length (render v)"
    by (simp add: render_member_def)
  then have len: "2 * length (render v) < m"
    using Cons.prems(6) n kv by (cases kvs) simp_all
  note step = parse_member_step [OF kv_ok len]
  show ?case
  proof (cases kvs)
    case Nil
    then show ?thesis using n kv step [of "0x7d" r] by simp
  next
    case (Cons kw kws)
    let ?rest = "commas (map render_member kvs) @ 0x7d # r"
    have "parse_members m (k # seen) (ob @ [(k, v)]) ?rest = Inr (JObj ((ob @ [(k, v)]) @ kvs), r)"
    proof (rule Cons.IH)
      show "2 * length (commas (map render_member kvs)) + 1 < m"
        using Cons.prems(6) n kv Cons by simp
    qed (use Cons.prems kv Cons in auto)
    then show ?thesis using n kv Cons step [of "0x2c" ?rest] by simp
  qed
qed

lemma parses_array:
  assumes "\<forall>v \<in> set vs. parses v \<and> printable v"
  shows "parses (JArr vs)"
  unfolding parses_def
proof (intro allI impI)
  fix n r
  assume len: "2 * length (render (JArr vs)) < n"
  then obtain m where n: "n = Suc m" by (cases n) auto
  have start: "skipWhitespace (0x5b # t) = 0x5b # t" for t by (rule skip_plain) (simp add: is_ws_def)
  show "parseValue n (render (JArr vs) @ r) = Inr (JArr vs, r)"
  proof (cases vs)
    case Nil
    have "skipWhitespace (0x5d # r) = 0x5d # r" by (rule skip_plain) (simp add: is_ws_def)
    with n Nil show ?thesis by (simp add: start peek_def)
  next
    case (Cons v ws)
    let ?t = "commas (map render vs) @ 0x5d # r"
    obtain c t where c: "render v = c # t" "\<not> is_ws c" "c \<noteq> 0x5d" using render_head [of v] assms Cons by auto
    then obtain u where u: "?t = c # u" using Cons by (cases ws) auto
    then have "skipWhitespace ?t = ?t" "peek ?t \<noteq> Some 0x5d" using c by (simp_all add: skip_plain peek_def)
    moreover have "parse_elements m [] ?t = Inr (JArr ([] @ vs), r)"
      using assms Cons len n by (intro parse_elements_render) auto
    ultimately have "parseValue (Suc m) (0x5b # ?t) = Inr (JArr vs, r)" by (simp add: start)
    with n show ?thesis by simp
  qed
qed

lemma parses_object:
  assumes "\<forall>kv \<in> set kvs. well_formed (fst kv) \<and> fst kv \<noteq> js ''__proto__'' \<and> parses (snd kv)"
    "distinct (map fst kvs)"
  shows "parses (JObj kvs)"
  unfolding parses_def
proof (intro allI impI)
  fix n r
  have tx: "render (JObj kvs) @ r = 0x7b # commas (map render_member kvs) @ 0x7d # r"
    and l: "length (render (JObj kvs)) = length (commas (map render_member kvs)) + 2"
    by (simp_all add: render_member_def [abs_def])
  assume len: "2 * length (render (JObj kvs)) < n"
  then obtain m where n: "n = Suc m" by (cases n) auto
  have start: "skipWhitespace (0x7b # t) = 0x7b # t" for t by (rule skip_plain) (simp add: is_ws_def)
  show "parseValue n (render (JObj kvs) @ r) = Inr (JObj kvs, r)"
  proof (cases kvs)
    case Nil
    have "skipWhitespace (0x7d # r) = 0x7d # r" by (rule skip_plain) (simp add: is_ws_def)
    with n Nil show ?thesis by (simp add: start peek_def)
  next
    case (Cons kv kws)
    let ?t = "commas (map render_member kvs) @ 0x7d # r"
    obtain u where u: "?t = 0x22 # u" using Cons by (cases kws) (simp_all add: render_member_def quote_def)
    then have "skipWhitespace ?t = ?t" "peek ?t \<noteq> Some 0x7d" by (simp_all add: skip_plain peek_def is_ws_def)
    moreover have "parse_members m [] [] ?t = Inr (JObj ([] @ kvs), r)"
      using assms Cons len n l by (intro parse_members_render) auto
    ultimately have "parseValue (Suc m) (0x7b # ?t) = Inr (JObj kvs, r)" by (simp add: start)
    with n show ?thesis unfolding tx by simp
  qed
qed

lemma parse_render: "printable v \<Longrightarrow> parses v"
proof (induction v rule: printable.induct)
  case (2 xs)
  then show ?case by (intro parses_array) auto
next
  case (3 ob)
  then show ?case by (intro parses_object) auto
next
  case (1 s)
  then show ?case by (auto simp: parses_def parse_string_value gr0_conv_Suc dest!: gr_implies_not0 not0_implies_Suc simp del: parseValue.simps)
next
  case (7 b)
  show ?case unfolding parses_def
    by (intro allI impI, case_tac n) (simp_all add: parse_literal_values del: parseValue.simps(2))
next
  case (8 i)
  show ?case unfolding parses_def
    by (intro allI impI, case_tac n) (simp_all add: parse_number_value del: parseValue.simps(2))
next
  case 6
  show ?case unfolding parses_def
    by (intro allI impI, case_tac n) (simp_all add: parse_literal_values del: parseValue.simps(2))
qed simp_all

lemma parseCanonical_render:
  assumes "printable v"
  shows "parseCanonical (render v) = Inr v"
proof -
  have "parseValue (Suc (2 * length (render v))) (render v @ []) = Inr (v, [])"
    by (rule parse_render [OF assms, unfolded parses_def, rule_format]) simp_all
  moreover obtain c t where "render v = c # t" "\<not> is_ws c" using render_head [OF assms] by blast
  then have "skipWhitespace (render v) = render v" by (simp add: skip_plain)
  ultimately show ?thesis by (simp add: parseCanonical_def skipWhitespace_def del: parseValue.simps)
qed

section \<open>Canonical bytes\<close>

lemma well_formed_append: "well_formed s \<Longrightarrow> well_formed t \<Longrightarrow> well_formed (s @ t)"
proof (induction s rule: well_formed.induct)
  case (1 c d r)
  then show ?case by (cases "high_surrogate c") simp_all
next
  case (2 c)
  then show ?case by (cases t) simp_all
qed simp

lemma well_formed_unit: "\<not> high_surrogate c \<Longrightarrow> \<not> low_surrogate c \<Longrightarrow> well_formed s \<Longrightarrow> well_formed (c # s)"
  using well_formed_append [of "[c]" s] by simp

lemma plain_units:
  "well_formed s \<Longrightarrow> well_formed (0x22 # s)" "well_formed s \<Longrightarrow> well_formed (0x2c # s)" "well_formed s \<Longrightarrow> well_formed (0x3a # s)"
  "well_formed s \<Longrightarrow> well_formed (0x5b # s)" "well_formed s \<Longrightarrow> well_formed (0x7b # s)"
  by (rule well_formed_unit, simp_all add: high_surrogate_def low_surrogate_def)+

lemma plain_ends: "well_formed [0x22]" "well_formed [0x5d]" "well_formed [0x7d]"
  by (simp_all add: high_surrogate_def low_surrogate_def)

lemma byte_hex_ascii: "is_ascii (byte_hex b)"
proof -
  have "list_all (\<lambda>n. is_ascii (byte_hex (word_of_nat n))) [0..<256]" by code_simp
  moreover have "unat b \<in> set [0..<256]" using unsigned_less [of b] by simp
  ultimately have "is_ascii (byte_hex (word_of_nat (unat b)))" unfolding list_all_iff by blast
  then show ?thesis by simp
qed

lemma escape_unit_wf: "\<not> high_surrogate c \<Longrightarrow> \<not> low_surrogate c \<Longrightarrow> well_formed (escape_unit c)"
proof (cases "escape_unit c = [c]")
  case False
  have "is_ascii (escape_unit c)"
    using False byte_hex_ascii [of "ucast c"] by (auto simp: escape_unit_def is_ascii_def split: if_splits)
  then show ?thesis by (rule ascii_well_formed)
qed simp

lemma escape_units_wf: "well_formed s \<Longrightarrow> well_formed (concat (map escape_unit s))"
proof (induction s rule: well_formed.induct)
  case (1 c d r)
  show ?case
  proof (cases "high_surrogate c")
    case True
    with 1 show ?thesis by (simp add: surrogate_plain)
  next
    case False
    with 1 show ?thesis by (simp add: well_formed_append escape_unit_wf)
  qed
qed (simp_all add: escape_unit_wf)

lemma quote_wf: "well_formed s \<Longrightarrow> well_formed (quote s)"
  unfolding quote_def by (intro plain_units well_formed_append escape_units_wf plain_ends)

lemma commas_wf: "\<forall>p \<in> set ps. well_formed p \<Longrightarrow> well_formed (commas ps)"
  by (induction ps rule: commas.induct) (simp_all add: well_formed_append plain_units)

lemma digits_ascii: "list_all is_digit s \<Longrightarrow> is_ascii s"
  by (induction s) (auto simp: is_ascii_def is_digit_def word_le_def)

lemma dec_int_ascii: "is_ascii (dec_int v)"
  using digits_ascii dec_nat_digits by (auto simp: dec_int_def is_ascii_def)

lemma render_wf: "printable v \<Longrightarrow> well_formed (render v)"
proof (induction v rule: render.induct)
  case (3 v)
  then show ?case by (simp add: ascii_well_formed dec_int_ascii)
next
  case (5 xs)
  then show ?case unfolding render.simps by (intro plain_units well_formed_append commas_wf plain_ends) auto
next
  case (6 ob)
  have "well_formed (quote (fst kv) @ 0x3a # render (snd kv))" if "kv \<in> set ob" for kv
    using 6 that by (intro plain_units well_formed_append quote_wf) auto
  then show ?case unfolding render.simps by (intro plain_units well_formed_append commas_wf plain_ends) auto
qed (simp_all add: quote_wf js_def high_surrogate_def low_surrogate_def)

lemma render_no_bom: "printable v \<Longrightarrow> \<not> starts_with_bom (render v)"
proof (cases v)
  case (JInt i)
  obtain c t where "dec_int i = c # t" "c = 0x2d \<or> is_digit c" using dec_int_head by blast
  then show ?thesis using JInt by (auto simp: starts_with_bom_def is_digit_def word_le_def)
qed (simp_all add: starts_with_bom_def quote_def js_def)

lemma render_bytes_inject:
  "printable v \<Longrightarrow> printable w \<Longrightarrow> utf8_encode (render v) = utf8_encode (render w) \<longleftrightarrow> v = w"
  using utf8_encode_inject [of "render v" "render w"] render_wf parseCanonical_render [of v] parseCanonical_render [of w]
  by (metis sum.inject(2))

lemma canonicalizeValue_render:
  "coerceToJcsValue v = Inr v' \<Longrightarrow> canonicalizeValue H v = Inr b \<Longrightarrow> b = utf8_encode (render (norm_json H v'))"
  by (auto simp: canonicalizeValue_def dest: serialize_render)

end
