(* ===== verification/Canon_Json_Props.thy ===== *)
theory Canon_Json_Props
  imports Canon_Jcs
begin

text \<open>
  What \<^verbatim>\<open>canonical/src/jcs.ts\<close> is for: the parser ends on every input, canonical text parses back to the value,
  equal bytes mean equal values, and canonicalising canonical bytes changes nothing.
\<close>

section \<open>The errors of the parser\<close>

definition event_exn :: "exn \<Rightarrow> bool" where
  "event_exn e \<longleftrightarrow> (\<exists>c. e = Canon (NoncanonicalEventError c))"

lemma event_exn_Canon [simp]: "event_exn (Canon (NoncanonicalEventError c))"
  by (simp add: event_exn_def)

lemma parse_escape_exn: "parse_escape r = Inl e \<Longrightarrow> event_exn e"
  by (auto simp: parse_escape_def Let_def split: list.splits option.splits if_splits)

lemma parse_chars_exn: "parse_chars acc s = Inl e \<Longrightarrow> event_exn e"
proof (induction acc s rule: parse_chars.induct)
  case (2 acc c t)
  then show ?case
    by (auto simp: parse_chars.simps(2) and_then_Inl split: if_splits list.splits dest: parse_escape_exn)
qed auto

lemma token_exn:
  "expect c s = Inl e \<Longrightarrow> event_exn e" "parseString s = Inl e \<Longrightarrow> event_exn e"
  "parseNumber s = Inl e \<Longrightarrow> event_exn e" "parseBool s = Inl e \<Longrightarrow> event_exn e" "parseNull s = Inl e \<Longrightarrow> event_exn e"
proof -
  show x: "event_exn e" if "expect c s = Inl e" for c s using that by (auto simp: expect_def split: if_splits)
  show "parseString s = Inl e \<Longrightarrow> event_exn e"
    by (auto simp: parseString_def and_then_Inl dest: x parse_chars_exn)
  show "parseNumber s = Inl e \<Longrightarrow> event_exn e" by (auto simp: parseNumber_def Let_def split: if_splits)
  show "parseBool s = Inl e \<Longrightarrow> event_exn e" by (auto simp: parseBool_def split: option.splits)
  show "parseNull s = Inl e \<Longrightarrow> event_exn e" by (auto simp: parseNull_def split: option.splits)
qed

lemma parse_exn:
  "parseValue n s = Inl e \<Longrightarrow> e = OutOfFuel \<or> event_exn e"
  "parse_members n seen ob s = Inl e \<Longrightarrow> e = OutOfFuel \<or> event_exn e"
  "parse_elements n xs s = Inl e \<Longrightarrow> e = OutOfFuel \<or> event_exn e"
proof (induction n s and n seen ob s and n xs s rule: parseValue_parse_members_parse_elements.induct)
  case (2 n s0)
  show ?case
  proof (cases "skipWhitespace s0")
    case Nil
    with "2.prems" show ?thesis by auto
  next
    case (Cons c r)
    have o: "c = 0x7b \<Longrightarrow> peek (skipWhitespace r) \<noteq> Some 0x7d \<Longrightarrow>
        parse_members n [] [] (skipWhitespace r) = Inl e \<Longrightarrow> e = OutOfFuel \<or> event_exn e"
      using "2.IH"(1) [OF refl Cons _ refl] by blast
    have a: "c = 0x5b \<Longrightarrow> peek (skipWhitespace r) \<noteq> Some 0x5d \<Longrightarrow>
        parse_elements n [] (skipWhitespace r) = Inl e \<Longrightarrow> e = OutOfFuel \<or> event_exn e"
      using "2.IH"(2) [OF refl Cons _ _ refl] by auto
    from "2.prems" Cons show ?thesis
      by (auto simp: Let_def and_then_Inl split: if_splits dest: token_exn o a)
  qed
next
  case (4 n seen ob s0)
  from "4.prems" consider (tok) "event_exn e"
    | (val) key s1 s2 where "peek (skipWhitespace s0) = Some 0x22" "parseString (skipWhitespace s0) = Inr (key, s1)"
      "key \<notin> set seen" "expect 0x3a (skipWhitespace s1) = Inr s2" "parseValue n s2 = Inl e"
    | (more) key s1 s2 v s3 where "peek (skipWhitespace s0) = Some 0x22" "parseString (skipWhitespace s0) = Inr (key, s1)"
      "key \<notin> set seen" "expect 0x3a (skipWhitespace s1) = Inr s2" "parseValue n s2 = Inr (v, s3)"
      "peek (skipWhitespace s3) = Some 0x2c"
      "parse_members n (key # seen) (js_assign key v ob) (tl (skipWhitespace s3)) = Inl e"
    by (auto simp: Let_def and_then_Inl split: if_splits dest: token_exn)
  then show ?case
  proof cases
    case val
    from "4.IH"(1) [OF refl _ val(2) refl val(3,4,5)] val(1) show ?thesis by simp
  next
    case more
    from "4.IH"(2) [OF refl _ more(2) refl more(3,4,5) refl refl refl more(6,7)] more(1) show ?thesis by simp
  qed simp
next
  case (6 n xs s0)
  from "6.prems" consider (val) "parseValue n s0 = Inl e" | (tok) "event_exn e"
    | (more) v s1 where "parseValue n s0 = Inr (v, s1)" "peek (skipWhitespace s1) = Some 0x2c"
      "parse_elements n (xs @ [v]) (tl (skipWhitespace s1)) = Inl e"
    by (auto simp: Let_def and_then_Inl split: if_splits)
  then show ?case
  proof cases
    case val
    from "6.IH"(1) [OF this] show ?thesis .
  next
    case more
    from "6.IH"(2) [OF more(1) refl refl refl more(2,3)] show ?thesis .
  qed simp
qed auto

text \<open>
  C35: The JCS parser always ends: on every input it returns a value or throws NoncanonicalEventError with a code. In
  particular the fuel of the model is never used up, so the recursion of parseValue is bounded by the length of
  the input.
\<close>

theorem parser_terminates:
  "(\<exists>v. parseCanonical s = Inr v) \<or> (\<exists>code. parseCanonical s = Inl (Canon (NoncanonicalEventError code)))"
proof (cases "parseCanonical s")
  case (Inl e)
  then have "e = OutOfFuel \<or> event_exn e"
    by (auto simp: parseCanonical_def and_then_Inl split: if_splits dest: parse_exn(1) simp del: parseValue.simps)
  with Inl parseCanonical_total [of s] show ?thesis by (auto simp: event_exn_def)
qed simp

text \<open>The check for a leading zero is never reached: the digit loop stops after a leading 0.\<close>

lemma leading_zero_unreachable: "parseNumber s \<noteq> event_error ''JCS_LEADING_ZERO''"
proof -
  have "\<not> (1 < length (number_digits b) \<and> peek (number_digits b) = Some 0x30)" for b
    by (cases b) (auto simp: number_digits_def peek_def)
  moreover have "peek (js ''-0'') = Some 0x2d" by (simp add: js_def peek_def)
  ultimately show ?thesis by (auto simp: parseNumber_def Let_def)
qed

section \<open>Round trip\<close>

lemma round_trip: "serializeCanonical H v = Inr s \<Longrightarrow> printable (norm_json H v) \<Longrightarrow> parseCanonical s = Inr (norm_json H v)"
  using serialize_render [of H v s] parseCanonical_render [of "norm_json H v"] by (simp add: serializeCanonical_def)

text \<open>A value of ASCII strings is serialised by the printer whatever the host is.\<close>

fun ascii_json :: "json \<Rightarrow> bool" where
  "ascii_json (JStr s) \<longleftrightarrow> is_ascii s"
| "ascii_json (JArr xs) \<longleftrightarrow> (\<forall>x \<in> set xs. ascii_json x)"
| "ascii_json (JObj ob) \<longleftrightarrow> (\<forall>kv \<in> set ob. is_ascii (fst kv) \<and> ascii_json (snd kv))"
| "ascii_json (JNum n) \<longleftrightarrow> False"
| "ascii_json JFun \<longleftrightarrow> False"
| "ascii_json _ \<longleftrightarrow> True"

lemma escapeString_ascii: "is_ascii s \<Longrightarrow> escapeString H s = Inr (quote (host_nfc H s))"
  by (simp add: escapeString_def ascii_assigned ascii_no_bom)

lemma ascii_serialize: "ascii_json v \<Longrightarrow> serialize H v = Inr (render (norm_json H v))"
proof (induction v rule: serialize.induct)
  case (5 H xs)
  then have "map_res (serialize H) xs = Inr (map (\<lambda>x. render (norm_json H x)) xs)"
    by (intro map_res_total) simp
  then show ?case by (simp add: comp_def)
next
  case (6 H ob)
  have "map_res (\<lambda>kv. and_then (escapeString H (fst kv)) (\<lambda>k. and_then (serialize H (snd kv)) (\<lambda>v. Inr (k @ 0x3a # v))))
      (sort_members H ob) =
      Inr (map (\<lambda>kv. quote (host_nfc H (fst kv)) @ 0x3a # render (norm_json H (snd kv))) (sort_members H ob))"
    using 6 by (intro map_res_total) (simp add: escapeString_ascii)
  then show ?case by (simp add: comp_def)
qed (simp_all add: escapeString_ascii)

definition sample_json :: json where
  "sample_json = JObj [(js ''b'', JArr [JInt (-12), JBool True]), (js ''a'', JStr (js ''x''))]"

definition sample_norm :: json where
  "sample_norm = JObj [(js ''a'', JStr (js ''x'')), (js ''b'', JArr [JInt (-12), JBool True])]"

lemma sample_norm_json: "norm_json plain_host sample_json = sample_norm"
  by (simp add: sample_json_def sample_norm_def sort_members_def sort_key_bytes_def plain_host_def utf8_js ascii_bytes_def)

lemma sample_ascii: "ascii_json sample_json" "ascii_json sample_norm"
  by (simp_all add: sample_json_def sample_norm_def js_ascii)

lemma sample_printable: "printable sample_json" "printable sample_norm"
  by (simp_all add: sample_json_def sample_norm_def js_ascii ascii_well_formed)

lemma sample_serialize: "serialize plain_host sample_json = Inr (render sample_norm)"
  using ascii_serialize [OF sample_ascii(1)] by (simp add: sample_norm_json)

text \<open>
  C33: Canonical JSON round trips: parsing the text the serializer produced returns the value in normal form
  (strings in NFC, members in the order of the UTF-8 bytes of their keys), for every value whose normal form has well-formed strings and
  distinct keys other than __proto__.
\<close>

theorem canonical_text_round_trip:
  assumes "serializeCanonical H v = Inr s" and "printable (norm_json H v)"
  shows "parseCanonical s = Inr (norm_json H v)"
  using assms by (rule round_trip)

theorem canonical_text_round_trip_witness:
  "parseCanonical (render sample_norm) = Inr sample_norm"
  using canonical_text_round_trip [of plain_host sample_json "render sample_norm"]
  by (simp add: serializeCanonical_def sample_serialize sample_norm_json sample_printable)

section \<open>Equal bytes\<close>

lemma bytes_equal_iff:
  assumes "coerceToJcsValue v = Inr v'" "coerceToJcsValue w = Inr w'"
    "canonicalizeValue H v = Inr b" "canonicalizeValue H w = Inr c"
    "printable (norm_json H v')" "printable (norm_json H w')"
  shows "b = c \<longleftrightarrow> norm_json H v' = norm_json H w'"
  using canonicalizeValue_render [OF assms(1,3)] canonicalizeValue_render [OF assms(2,4)] render_bytes_inject [OF assms(5,6)]
  by simp

lemma sample_coerce: "coerceToJcsValue sample_json = Inr sample_json" "coerceToJcsValue sample_norm = Inr sample_norm"
  by (simp_all add: sample_json_def sample_norm_def js_assign_def js_ascii ascii_well_formed)

lemma sample_canonical:
  "canonicalizeValue plain_host sample_json = Inr (utf8_encode (render sample_norm))"
  "canonicalizeValue plain_host JNull = Inr (utf8_encode (js ''null''))"
  by (simp_all add: canonicalizeValue_def sample_coerce sample_serialize)

text \<open>
  C24: Canonical bytes identify values: two accepted values, with printable normal forms (well-formed strings, distinct keys), have the
  same canonical bytes exactly when they have the same normal form. This is what makes a hash of canonical bytes a name of the value.
\<close>

theorem canonical_bytes_identify_values:
  assumes "coerceToJcsValue v = Inr v'" "coerceToJcsValue w = Inr w'"
    and "canonicalizeValue H v = Inr b" "canonicalizeValue H w = Inr c"
    and "printable (norm_json H v')" "printable (norm_json H w')"
  shows "b = c \<longleftrightarrow> norm_json H v' = norm_json H w'"
  using assms by (rule bytes_equal_iff)

theorem canonical_bytes_identify_values_witness:
  "utf8_encode (render sample_norm) \<noteq> utf8_encode (js ''null'')"
  using canonical_bytes_identify_values [of sample_json sample_json JNull JNull plain_host
      "utf8_encode (render sample_norm)" "utf8_encode (js ''null'')"]
  by (simp add: sample_coerce sample_canonical sample_norm_json sample_printable) (simp add: sample_norm_def)

section \<open>Idempotence\<close>

text \<open>
  What Unicode promises of NFC beyond \<open>host_ok\<close>: assigned code points stay assigned, and no leading byte order mark
  appears.
\<close>

definition nfc_keeps :: "host \<Rightarrow> bool" where
  "nfc_keeps H \<longleftrightarrow> (\<forall>s. assertAssigned s = Inr () \<longrightarrow> \<not> starts_with_bom s \<longrightarrow>
     assertAssigned (host_nfc H s) = Inr () \<and> \<not> starts_with_bom (host_nfc H s))"

lemma plain_nfc_keeps: "nfc_keeps plain_host"
  by (simp add: nfc_keeps_def plain_host_def)

fun emits :: "host \<Rightarrow> json \<Rightarrow> bool" where
  "emits H (JStr s) \<longleftrightarrow> assertAssigned s = Inr () \<and> \<not> starts_with_bom s"
| "emits H (JArr xs) \<longleftrightarrow> (\<forall>x \<in> set xs. emits H x)"
| "emits H (JObj ob) \<longleftrightarrow> (\<forall>kv \<in> set ob. assertAssigned (fst kv) = Inr () \<and> \<not> starts_with_bom (fst kv) \<and> emits H (snd kv))"
| "emits H (JNum n) \<longleftrightarrow> False"
| "emits H JFun \<longleftrightarrow> False"
| "emits H _ \<longleftrightarrow> True"

lemma escapeString_Inr: "escapeString H s = Inr t \<longleftrightarrow> assertAssigned s = Inr () \<and> \<not> starts_with_bom s \<and> t = quote (host_nfc H s)"
  by (auto simp: escapeString_def)

lemma map_res_defined: "map_res f xs = Inr ys \<Longrightarrow> x \<in> set xs \<Longrightarrow> \<exists>y. f x = Inr y"
  by (induction xs arbitrary: ys) auto

lemma map_res_defined_iff: "(\<exists>ys. map_res f xs = Inr ys) \<longleftrightarrow> (\<forall>x \<in> set xs. \<exists>y. f x = Inr y)"
  by (induction xs) auto

lemma serialize_emits: "(\<exists>s. serialize H v = Inr s) \<longleftrightarrow> emits H v"
proof (induction v rule: serialize.induct)
  case (4 H s)
  then show ?case by (simp add: escapeString_Inr)
next
  case (5 H xs)
  then show ?case using map_res_defined_iff [of "serialize H" xs] by auto
next
  case (6 H ob)
  let ?f = "\<lambda>kv. and_then (escapeString H (fst kv)) (\<lambda>k. and_then (serialize H (snd kv)) (\<lambda>v. Inr (k @ 0x3a # v)))"
  have "(\<exists>ps. map_res ?f (sort_members H ob) = Inr ps) \<longleftrightarrow> emits H (JObj ob)"
    using 6 by (simp add: map_res_defined_iff escapeString_Inr) blast
  then show ?case by simp
qed auto

lemma emits_norm: "nfc_keeps H \<Longrightarrow> emits H v \<Longrightarrow> emits H (norm_json H v)"
  by (induction H v rule: norm_json.induct) (auto simp: nfc_keeps_def)

lemma sorted_sort_key: "sorted (map f xs) \<Longrightarrow> sort_key f xs = xs"
  by (induction xs) (simp_all add: insort_is_Cons)

lemma norm_idem: "host_ok H \<Longrightarrow> norm_json H (norm_json H v) = norm_json H v"
proof (induction H v rule: norm_json.induct)
  case (3 H ob)
  have nfc: "host_nfc H (host_nfc H s) = host_nfc H s" for s using 3(2) by (simp add: host_ok_def)
  let ?m = "\<lambda>kv. (host_nfc H (fst kv), norm_json H (snd kv))"
  have "sorted (map (\<lambda>kv. sort_key_bytes H (fst kv)) (sort_members H ob))"
    by (simp add: sort_members_def)
  moreover have "map (\<lambda>kv. sort_key_bytes H (fst kv)) (map ?m (sort_members H ob)) =
      map (\<lambda>kv. sort_key_bytes H (fst kv)) (sort_members H ob)"
    by (simp add: sort_key_bytes_def nfc)
  ultimately have s: "sort_members H (map ?m (sort_members H ob)) = map ?m (sort_members H ob)"
    unfolding sort_members_def [of H "map ?m _"] by (intro sorted_sort_key) (simp only:)
  have "norm_json H (norm_json H (JObj ob)) =
      JObj (map ?m (sort_members H (map ?m (sort_members H ob))))" by simp
  also have "\<dots> = JObj (map ?m (map ?m (sort_members H ob)))" by (simp only: s)
  also have "\<dots> = norm_json H (JObj ob)" using 3 nfc by simp
  finally show ?case .
next
  case (2 H xs)
  then show ?case by simp
qed (simp_all add: host_ok_def)

lemma canonical_again:
  assumes "host_ok H" "nfc_keeps H" "parseCanonical src = Inr v" "printable (norm_json H v)"
    "canonicalizeString H src = Inr b"
  shows "\<exists>t. decodeUtf8Strict b = Inr t \<and> canonicalizeString H t = Inr b"
proof -
  let ?n = "norm_json H v"
  from assms(3,5) obtain s where s: "serialize H v = Inr s" "b = utf8_encode s" by (auto simp: canonicalizeString_def)
  then have b: "b = utf8_encode (render ?n)" using serialize_render [OF s(1)] by simp
  have "decodeUtf8Strict b = Inr (render ?n)"
    using utf8.dec_enc [of "render ?n"] render_wf render_no_bom assms(4) b by blast
  moreover have "emits H ?n" using emits_norm assms(2) s(1) serialize_emits by blast
  then obtain u where u: "serialize H ?n = Inr u" using serialize_emits by blast
  then have "u = render ?n" using serialize_render [OF u] norm_idem [OF assms(1)] by simp
  then have "canonicalizeString H (render ?n) = Inr b"
    using parseCanonical_render [OF assms(4)] u b by (simp add: canonicalizeString_def)
  ultimately show ?thesis by blast
qed

text \<open>
  C34: Canonicalisation is idempotent: take a JSON text that parses to a value whose normal form has well-formed strings and, in every
  object, distinct keys other than \<open>__proto__\<close> (\<open>printable\<close>: two keys with the same NFC are both written, and that text does not
  parse again). Its canonical bytes, decoded and canonicalised again, are the same bytes. Of NFC it is used that it is idempotent, keeps
  assigned code points assigned and produces no leading byte order mark.
\<close>

theorem canonicalization_idempotent:
  assumes "host_ok H" "nfc_keeps H" "parseCanonical src = Inr v" "printable (norm_json H v)"
    and "canonicalizeString H src = Inr b"
  shows "\<exists>t. decodeUtf8Strict b = Inr t \<and> canonicalizeString H t = Inr b"
  using assms by (rule canonical_again)

theorem canonicalization_idempotent_witness:
  "\<exists>t. decodeUtf8Strict (utf8_encode (render sample_norm)) = Inr t \<and>
     canonicalizeString plain_host t = Inr (utf8_encode (render sample_norm))"
proof (rule canonicalization_idempotent)
  show "parseCanonical (render sample_json) = Inr sample_json"
    by (rule parseCanonical_render [OF sample_printable(1)])
  then show "canonicalizeString plain_host (render sample_json) = Inr (utf8_encode (render sample_norm))"
    by (simp add: canonicalizeString_def sample_serialize)
qed (simp_all add: plain_host_ok plain_nfc_keeps sample_norm_json sample_printable)

section \<open>What the canonical form does not keep\<close>

text \<open>A member named \<open>__proto__\<close> is dropped by the parser and by the validator.\<close>

lemma proto_member_dropped:
  "parseCanonical (js ''{\"__proto__\":1}'') = Inr (JObj [])"
  "coerceToJcsValue (JObj [(js ''__proto__'', JInt 1)]) = Inr (JObj [])"
  by code_simp (simp add: js_assign_def)

lemma small_assigned: "list_all (\<lambda>c. uint c \<le> 887) s \<Longrightarrow> assertAssigned s = Inr ()"
proof -
  assume s: "list_all (\<lambda>c. uint c \<le> 887) s"
  have "list_all (\<lambda>cp. 0 \<le> cp \<and> cp \<le> 887) (code_points s)"
    using s by (induction s rule: code_points.induct) (auto simp: high_surrogate_def)
  then have "list_all isAssignedCodePoint (code_points s)" using low_assigned by (auto simp: list_all_iff)
  then show ?thesis by (simp add: assertAssigned_def)
qed

text \<open>
  Keys that differ but have the same NFC are both written: the canonical text of such an object has a duplicate key and is
  rejected by the parser.
\<close>

lemma nfc_equal_keys:
  assumes "host_nfc H [0x65, 0x301] = [0xe9]" "host_nfc H [0xe9] = [0xe9]"
  shows "serialize H (JObj [([0x65, 0x301], JInt 1), ([0xe9], JInt 2)]) =
      Inr (render (JObj [([0xe9], JInt 1), ([0xe9], JInt 2)]))"
    "parseCanonical (render (JObj [([0xe9], JInt 1), ([0xe9], JInt 2)])) = event_error ''JCS_DUPLICATE_KEY''"
proof -
  have "assertAssigned [0x65, 0x301] = Inr ()" "assertAssigned [0xe9] = Inr ()" by (rule small_assigned, simp)+
  then show "serialize H (JObj [([0x65, 0x301], JInt 1), ([0xe9], JInt 2)]) =
      Inr (render (JObj [([0xe9], JInt 1), ([0xe9], JInt 2)]))"
    using assms
    by (simp add: escapeString_Inr escapeString_def sort_members_def sort_key_bytes_def starts_with_bom_def)
  show "parseCanonical (render (JObj [([0xe9], JInt 1), ([0xe9], JInt 2)])) = event_error ''JCS_DUPLICATE_KEY''"
    by code_simp
qed

end
