(* ===== verification/Canon_Mcp.thy ===== *)
theory Canon_Mcp
  imports Canon_Jcs "HOL-Library.Multiset"
begin

text \<open>
  \<^verbatim>\<open>canonical/src/mcp.ts\<close>: the hash of a set of MCP tool names. \<open>Array.prototype.sort\<close> without a comparator orders by code
  units, the order of \<open>jstring\<close>. The names are strings by their type; the guard on \<open>typeof\<close> has no counterpart.
\<close>

definition name_char :: "16 word \<Rightarrow> bool" where
  "name_char c \<longleftrightarrow> (0x41 \<le> c \<and> c \<le> 0x5a) \<or> (0x61 \<le> c \<and> c \<le> 0x7a) \<or> (0x30 \<le> c \<and> c \<le> 0x39) \<or> c = 0x5f"

definition NAME_RE :: "jstring \<Rightarrow> bool" where
  "NAME_RE s \<longleftrightarrow> s \<noteq> [] \<and> list_all name_char s"

fun check_names :: "jstring list \<Rightarrow> unit res" where
  "check_names [] = Inr ()"
| "check_names (name # names) =
     (if length name = 0 then enc_error ''MCP_TOOL_NAME_EMPTY''
      else if \<not> NAME_RE name then enc_error ''MCP_TOOL_NAME_NONCANONICAL''
      else check_names names)"

fun adjacent_equal :: "jstring list \<Rightarrow> bool" where
  "adjacent_equal (a # b # r) \<longleftrightarrow> b = a \<or> adjacent_equal (b # r)"
| "adjacent_equal _ \<longleftrightarrow> False"

definition canonicalizeMcpToolNames :: "jstring list \<Rightarrow> jstring list res" where
  "canonicalizeMcpToolNames toolNames =
     (if length toolNames = 0 then enc_error ''MCP_TOOLSET_EMPTY''
      else and_then (check_names toolNames) (\<lambda>_.
        let sorted = sort toolNames
        in if adjacent_equal sorted then enc_error ''MCP_TOOL_NAME_DUPLICATE'' else Inr sorted))"

definition mcpSchemaToolsetBytes :: "host \<Rightarrow> jstring list \<Rightarrow> bytes res" where
  "mcpSchemaToolsetBytes H toolNames =
     and_then (canonicalizeMcpToolNames toolNames) (\<lambda>sorted. canonicalizeValue H (JArr (map JStr sorted)))"

definition computeMcpSchemaHash :: "host \<Rightarrow> jstring list \<Rightarrow> bytes res" where
  "computeMcpSchemaHash H toolNames =
     and_then (mcpSchemaToolsetBytes H toolNames) (\<lambda>payload. domainHash H (domain_tag ''MCP_V1'') payload)"

lemma check_names_Inr: "check_names names = Inr () \<longleftrightarrow> list_all NAME_RE names"
  by (induction names) (auto simp: NAME_RE_def)

lemma adjacent_sorted: "sorted xs \<Longrightarrow> adjacent_equal xs \<longleftrightarrow> \<not> distinct xs"
  by (induction xs rule: adjacent_equal.induct) auto

lemma canonicalize_names_iff:
  "canonicalizeMcpToolNames names = Inr ns \<longleftrightarrow>
     names \<noteq> [] \<and> list_all NAME_RE names \<and> distinct names \<and> ns = sort names"
  by (auto simp: canonicalizeMcpToolNames_def check_names_Inr adjacent_sorted Let_def)

lemma name_ascii: "NAME_RE s \<Longrightarrow> is_ascii s"
  by (auto simp: NAME_RE_def name_char_def is_ascii_def list_all_iff word_le_def)

lemma name_bytes:
  assumes "host_ok H" "list_all NAME_RE ns"
  shows "canonicalizeValue H (JArr (map JStr ns)) = Inr (utf8_encode (render (JArr (map JStr ns))))"
proof -
  have a: "\<forall>s \<in> set ns. is_ascii s" using assms(2) name_ascii by (auto simp: list_all_iff)
  then have "map_res coerceToJcsValue (map JStr ns) = Inr (map JStr ns)"
    by (induction ns) (simp_all add: ascii_well_formed)
  moreover have "map_res (serialize H) (map JStr ns) = Inr (map render (map JStr ns))"
    using a assms(1) by (intro map_res_total) (auto simp: escapeString_def ascii_assigned ascii_no_bom host_ok_def)
  ultimately show ?thesis by (simp add: canonicalizeValue_def)
qed

lemma toolset_bytes_equal:
  assumes "host_ok H" "mcpSchemaToolsetBytes H ns = Inr b" "mcpSchemaToolsetBytes H ms = Inr c"
  shows "b = c \<longleftrightarrow> set ns = set ms"
proof -
  from assms(2,3) have n: "list_all NAME_RE ns" "distinct ns" and m: "list_all NAME_RE ms" "distinct ms"
    and bn: "canonicalizeValue H (JArr (map JStr (sort ns))) = Inr b"
    and cm: "canonicalizeValue H (JArr (map JStr (sort ms))) = Inr c"
    by (auto simp: mcpSchemaToolsetBytes_def canonicalize_names_iff)
  have sn: "list_all NAME_RE (sort ns)" and sm: "list_all NAME_RE (sort ms)" using n m by (simp_all add: list_all_iff)
  have b: "b = utf8_encode (render (JArr (map JStr (sort ns))))" and c: "c = utf8_encode (render (JArr (map JStr (sort ms))))"
    using name_bytes [OF assms(1) sn] name_bytes [OF assms(1) sm] bn cm by simp_all
  have "printable (JArr (map JStr (sort ns)))" "printable (JArr (map JStr (sort ms)))"
    using sn sm by (auto simp: list_all_iff name_ascii ascii_well_formed)
  from render_bytes_inject [OF this] have "b = c \<longleftrightarrow> map JStr (sort ns) = map JStr (sort ms)" by (simp add: b c del: render.simps)
  also have "\<dots> \<longleftrightarrow> sort ns = sort ms" by (rule inj_map_eq_map) (simp add: inj_def)
  also have "\<dots> \<longleftrightarrow> set ns = set ms"
    using n(2) m(2) by (metis set_sort sorted_distinct_set_unique sorted_sort distinct_sort)
  finally show ?thesis .
qed

lemma payload_accepts:
  assumes "host_ok H"
  shows "(\<exists>b. mcpSchemaToolsetBytes H ns = Inr b) \<longleftrightarrow> ns \<noteq> [] \<and> list_all NAME_RE ns \<and> distinct ns"
  using name_bytes [OF assms, of "sort ns"]
  unfolding mcpSchemaToolsetBytes_def by (auto simp: canonicalize_names_iff list_all_iff simp del: render.simps)

lemma sample_names: "list_all NAME_RE [js ''b'', js ''a'']" "list_all NAME_RE [js ''a'', js ''b'']"
  by (simp_all add: NAME_RE_def name_char_def js_def)

text \<open>
  The MCP schema payload names the set of tools: a list is accepted exactly when it is non-empty, has no duplicate and every name is an
  identifier, and two accepted lists have the same payload exactly when they hold the same set of names, whatever their order.
\<close>

theorem mcp_payload_is_toolset:
  assumes "host_ok H"
  shows "((\<exists>b. mcpSchemaToolsetBytes H ns = Inr b) \<longleftrightarrow> ns \<noteq> [] \<and> list_all NAME_RE ns \<and> distinct ns) \<and>
    (\<forall>b c. mcpSchemaToolsetBytes H ns = Inr b \<and> mcpSchemaToolsetBytes H ms = Inr c \<longrightarrow> (b = c \<longleftrightarrow> set ns = set ms))"
  by (intro conjI allI impI payload_accepts [OF assms]) (elim conjE, rule toolset_bytes_equal [OF assms])

theorem mcp_payload_is_toolset_witness:
  "\<exists>b. mcpSchemaToolsetBytes plain_host [js ''b'', js ''a''] = Inr b \<and> mcpSchemaToolsetBytes plain_host [js ''a'', js ''b''] = Inr b"
proof -
  note p = mcp_payload_is_toolset [OF plain_host_ok, of "[js ''b'', js ''a'']" "[js ''a'', js ''b'']"]
  note q = mcp_payload_is_toolset [OF plain_host_ok, of "[js ''a'', js ''b'']" "[]"]
  from p [THEN conjunct1] sample_names(1) obtain b where b: "mcpSchemaToolsetBytes plain_host [js ''b'', js ''a''] = Inr b" by auto
  from q [THEN conjunct1] sample_names(2) obtain c where c: "mcpSchemaToolsetBytes plain_host [js ''a'', js ''b''] = Inr c" by auto
  have "b = c \<longleftrightarrow> set [js ''b'', js ''a''] = set [js ''a'', js ''b'']" using p [THEN conjunct2, rule_format, OF conjI, OF b c] .
  then have "b = c" by (simp add: insert_commute)
  with b c show ?thesis by blast
qed

end
