(* ===== verification/Dsl_Taxonomy.thy ===== *)
theory Dsl_Taxonomy
  imports Canon_Jcs
begin

text \<open>
  \<^verbatim>\<open>dsl/src/taxonomy.ts\<close>: the registered actions, the owner-required and bounded-mode sets, and the scope table. The
  two tables are plain objects that are indexed with a string of the expression, so an index such as \<open>constructor\<close> finds a
  member of \<open>Object.prototype\<close>, which has no \<open>includes\<close> and cannot be iterated: a \<open>TypeError\<close>.
\<close>

definition ACTION_TAXONOMY :: "(string \<times> string list) list" where
  "ACTION_TAXONOMY =
    [(''wallet'', [''send_ton'', ''send_jetton'', ''send_nft'']),
     (''agent'', [''register'', ''migrate'', ''freeze'', ''unfreeze'']),
     (''capability'', [''update'', ''temporal_boost_request'', ''temporal_boost_release'']),
     (''treasury'', [''transfer'', ''distribute_rewards'', ''buyback_burn'']),
     (''governance'', [''propose_amendment'', ''vote'', ''vote_as_agent'', ''finalize_amendment'']),
     (''oracles'', [''submit_feed'', ''slash'', ''force_update'']),
     (''ptra'', [''stake'', ''unstake'', ''claim_rewards'']),
     (''failure_mode'', [''emergency_withdraw'', ''enter_bounded'', ''exit_bounded'']),
     (''cal'', [''cancel''])]"

definition REGISTERED_ACTIONS :: "jstring list" where
  "REGISTERED_ACTIONS =
     concat (map (\<lambda>(ns, verbs). map (\<lambda>v. js (ns @ ''.'' @ v)) verbs) ACTION_TAXONOMY)"

definition isRegisteredAction :: "jstring \<Rightarrow> bool" where
  "isRegisteredAction action \<longleftrightarrow> action \<in> set REGISTERED_ACTIONS"

definition OWNER_REQUIRED_ACTIONS :: "jstring list" where
  "OWNER_REQUIRED_ACTIONS = map js
    [''capability.update'', ''agent.migrate'', ''treasury.transfer'', ''governance.vote_as_agent'',
     ''governance.propose_amendment'', ''ptra.stake'', ''ptra.unstake'', ''failure_mode.emergency_withdraw'']"

definition isOwnerRequired :: "jstring \<Rightarrow> bool" where
  "isOwnerRequired action \<longleftrightarrow> action \<in> set OWNER_REQUIRED_ACTIONS"

definition BOUNDED_MODE_WHITELIST :: "jstring list" where
  "BOUNDED_MODE_WHITELIST = map js
    [''failure_mode.emergency_withdraw'', ''failure_mode.exit_bounded'', ''oracles.force_update'',
     ''oracles.submit_feed'', ''agent.freeze'', ''cal.cancel'']"

definition isBoundedAllowed :: "jstring \<Rightarrow> bool" where
  "isBoundedAllowed action \<longleftrightarrow> action \<in> set BOUNDED_MODE_WHITELIST"

definition REQUIRES_SCOPE_TABLE :: "(jstring \<times> jstring list) list" where
  "REQUIRES_SCOPE_TABLE = map (map_prod js (map js))
    [(''wallet.send_ton'', [''ton_transfer'']),
     (''wallet.send_jetton'', [''jetton_access'']),
     (''wallet.send_nft'', [''nft_access'']),
     (''treasury.transfer'', [''treasury_access:transfer'']),
     (''treasury.distribute_rewards'', [''treasury_access:transfer'']),
     (''treasury.buyback_burn'', [''treasury_access:transfer'']),
     (''governance.propose_amendment'', [''governance_scope:propose'']),
     (''governance.vote'', [''governance_scope:vote'']),
     (''governance.finalize_amendment'', [''governance_scope:vote'']),
     (''governance.vote_as_agent'', [''ptra_governance_vote'']),
     (''ptra.stake'', [''ptra_stake'']),
     (''ptra.unstake'', [''ptra_stake'']),
     (''ptra.claim_rewards'', [''ptra_stake''])]"

definition IMPLIED_SCOPES :: "(jstring \<times> jstring list) list" where
  "IMPLIED_SCOPES = map (map_prod js (map js))
    [(''treasury_access:transfer'', [''treasury_access:view'']),
     (''governance_scope:vote'', [''governance_scope:propose''])]"

text \<open>Indexing such a table: the entry, nothing, or a member of \<open>Object.prototype\<close>.\<close>

definition table_index :: "(jstring \<times> 'a) list \<Rightarrow> jstring \<Rightarrow> 'a option res" where
  "table_index t k =
     (case map_of t k of
        Some x \<Rightarrow> Inr (Some x)
      | None \<Rightarrow> if k \<in> set proto_keys then Inl TypeError else Inr None)"

definition requiresScope :: "jstring \<Rightarrow> jstring \<Rightarrow> bool res" where
  "requiresScope action scope =
     and_then (table_index REQUIRES_SCOPE_TABLE action) (\<lambda>scopes.
       Inr (case scopes of Some ss \<Rightarrow> scope \<in> set ss | None \<Rightarrow> False))"

text \<open>The set is returned as the list of its elements in the order of insertion.\<close>

definition add_to_set :: "jstring \<Rightarrow> jstring list \<Rightarrow> jstring list" where
  "add_to_set x s = (if x \<in> set s then s else s @ [x])"

fun expand_scopes :: "jstring list \<Rightarrow> jstring list \<Rightarrow> jstring list res" where
  "expand_scopes s [] = Inr s"
| "expand_scopes s (g # gs) =
     and_then (table_index IMPLIED_SCOPES g) (\<lambda>implied.
       expand_scopes (fold add_to_set (case implied of Some ss \<Rightarrow> ss | None \<Rightarrow> []) (add_to_set g s)) gs)"

definition expandGrantedScopes :: "jstring list \<Rightarrow> jstring list res" where
  "expandGrantedScopes granted = expand_scopes [] granted"

text \<open>The keys of the tables have a dot or a colon, the inherited ones do not.\<close>

definition dotted :: "jstring \<Rightarrow> bool" where
  "dotted k \<longleftrightarrow> {word_of_nat (of_char (CHR ''.'')), word_of_nat (of_char (CHR '':''))} \<inter> set k \<noteq> {}"

lemma dotted_js: "dotted (js s) \<longleftrightarrow> CHR ''.'' \<in> set s \<or> CHR '':'' \<in> set s"
proof -
  have "word_of_nat (of_char c) \<in> set (js s) \<longleftrightarrow> c \<in> set s" for c
    unfolding js_def by (induction s) (simp_all del: of_char_Char)
  then show ?thesis by (simp add: dotted_def del: of_char_Char)
qed

lemma proto_not_dotted: "k \<in> set proto_keys \<Longrightarrow> \<not> dotted k"
  by (auto simp: proto_keys_def dotted_js)

lemma tables_dotted:
  "list_all (\<lambda>kv. dotted (fst kv)) REQUIRES_SCOPE_TABLE" "list_all (\<lambda>kv. dotted (fst kv)) IMPLIED_SCOPES"
  by (simp_all add: REQUIRES_SCOPE_TABLE_def IMPLIED_SCOPES_def dotted_js)

lemma proto_not_table:
  assumes "k \<in> set proto_keys"
  shows "map_of REQUIRES_SCOPE_TABLE k = None" "map_of IMPLIED_SCOPES k = None"
  using proto_not_dotted [OF assms] tables_dotted by (auto simp: map_of_eq_None_iff list_all_iff)

lemma requiresScope_total: "action \<notin> set proto_keys \<Longrightarrow> \<exists>b. requiresScope action scope = Inr b"
  by (auto simp: requiresScope_def table_index_def split: option.splits)

lemma requiresScope_prototype: "requiresScope (js ''constructor'') scope = Inl TypeError"
proof -
  have "js ''constructor'' \<in> set proto_keys" by (simp add: proto_keys_def)
  with proto_not_table(1) show ?thesis by (simp add: requiresScope_def table_index_def)
qed

lemma set_add_to_set [simp]: "set (add_to_set x s) = insert x (set s)"
  by (auto simp: add_to_set_def)

lemma set_fold_add: "set (fold add_to_set xs s) = set xs \<union> set s"
  by (induction xs arbitrary: s) auto

definition implied :: "jstring \<Rightarrow> jstring set" where
  "implied g = set (case map_of IMPLIED_SCOPES g of Some ss \<Rightarrow> ss | None \<Rightarrow> [])"

lemma expand_scopes_set:
  "set gs \<inter> set proto_keys = {} \<Longrightarrow> \<exists>r. expand_scopes s gs = Inr r \<and> set r = set s \<union> set gs \<union> (\<Union>g \<in> set gs. implied g)"
proof (induction gs arbitrary: s)
  case (Cons g gs)
  then have i: "table_index IMPLIED_SCOPES g = Inr (map_of IMPLIED_SCOPES g)"
    by (auto simp: table_index_def split: option.splits)
  let ?s = "fold add_to_set (case map_of IMPLIED_SCOPES g of Some ss \<Rightarrow> ss | None \<Rightarrow> []) (add_to_set g s)"
  have "set ?s = set s \<union> {g} \<union> implied g" by (auto simp: set_fold_add implied_def)
  with Cons.IH [of ?s] Cons.prems i show ?case by auto
qed simp

end
