(* ===== verification/Dsl_Values.thy ===== *)
theory Dsl_Values
  imports Dsl_Taxonomy
begin

text \<open>
  \<^verbatim>\<open>dsl/src/values.ts\<close>: the runtime values of the constraint language, their construction from literals and from bound state, and
  structural equality.
\<close>

abbreviation parseError :: "string \<Rightarrow> 'a res" where
  "parseError reason \<equiv> Inl (Dsl (DslError PARSE_ERROR reason))"

abbreviation validationError :: "string \<Rightarrow> 'a res" where
  "validationError reason \<equiv> Inl (Dsl (DslError VALIDATION_ERROR reason))"

abbreviation runtimeError :: "string \<Rightarrow> 'a res" where
  "runtimeError reason \<equiv> Inl (Dsl (DslError ERROR reason))"

definition INT256_MIN :: int where "INT256_MIN = - (2 ^ 255)"
definition INT256_MAX :: int where "INT256_MAX = 2 ^ 255 - 1"

definition inInt256Range :: "int \<Rightarrow> bool" where
  "inInt256Range v \<longleftrightarrow> v \<ge> INT256_MIN \<and> v \<le> INT256_MAX"

datatype dsl_value =
    VInt int
  | VBool bool
  | VString jstring
  | VBytes32 jstring
  | VAddress jstring
  | VList "dsl_value list"
  | VMap "(jstring \<times> dsl_value) list"
  | VNull

definition BYTES32_RE :: "jstring \<Rightarrow> bool" where
  "BYTES32_RE s \<longleftrightarrow> take 2 s = js ''0x'' \<and> length s = 66 \<and>
     list_all (\<lambda>c. is_digit c \<or> (0x61 \<le> c \<and> c \<le> 0x66) \<or> (0x41 \<le> c \<and> c \<le> 0x46)) (drop 2 s)"

datatype string_class = ClassAddress | ClassBytes32 | ClassString

definition classifyString :: "jstring \<Rightarrow> string_class" where
  "classifyString s =
     (if isCanonicalAddress s then ClassAddress
      else if BYTES32_RE s then ClassBytes32
      else ClassString)"

definition makeString :: "host \<Rightarrow> jstring \<Rightarrow> dsl_value res" where
  "makeString H s =
     (case assertAssigned s of
        Inl _ \<Rightarrow> runtimeError ''STRING_UNASSIGNED''
      | Inr _ \<Rightarrow> Inr (VString (host_nfc H s)))"

text \<open>\<open>toLowerCase\<close> on the hexadecimal digits the guard leaves.\<close>

definition lower_hex :: "jstring \<Rightarrow> jstring" where
  "lower_hex = map (\<lambda>c. if 0x41 \<le> c \<and> c \<le> 0x46 then c + 0x20 else c)"

definition normal_bytes32 :: "jstring \<Rightarrow> jstring" where
  "normal_bytes32 s = js ''0x'' @ lower_hex (drop 2 s)"

definition makeBytes32 :: "jstring \<Rightarrow> dsl_value res" where
  "makeBytes32 s =
     (if \<not> BYTES32_RE s then validationError ''BYTES32_MALFORMED'' else Inr (VBytes32 (normal_bytes32 s)))"

definition makeAddress :: "jstring \<Rightarrow> dsl_value res" where
  "makeAddress s =
     (if \<not> isCanonicalAddress s then validationError ''ADDRESS_NONCANONICAL'' else Inr (VAddress s))"

definition makeInt256 :: "int \<Rightarrow> dsl_value res" where
  "makeInt256 v = (if \<not> inInt256Range v then validationError ''INT256_RANGE'' else Inr (VInt v))"

text \<open>\<open>constType\<close> and \<open>value\<close> of a literal in one datatype (\<^verbatim>\<open>dsl/src/ast.ts\<close>, \<open>ConstExpr\<close>).\<close>

datatype const_expr =
    CInt256 int
  | CBool bool
  | CString jstring
  | CBytes32 jstring
  | CAddress jstring
  | CNull

fun constValue :: "host \<Rightarrow> const_expr \<Rightarrow> dsl_value res" where
  "constValue H (CInt256 v) = makeInt256 v"
| "constValue H (CBool b) = Inr (VBool b)"
| "constValue H (CString s) = makeString H s"
| "constValue H (CBytes32 s) = makeBytes32 s"
| "constValue H (CAddress s) = makeAddress s"
| "constValue H CNull = Inr VNull"

fun materialize :: "host \<Rightarrow> json \<Rightarrow> dsl_value res" where
  "materialize H JNull = Inr VNull"
| "materialize H (JBool b) = Inr (VBool b)"
| "materialize H (JInt v) = makeInt256 v"
| "materialize H (JNum n) =
     (case n of
        NInt v \<Rightarrow> makeInt256 v
      | NNegZero \<Rightarrow> makeInt256 0
      | _ \<Rightarrow> runtimeError ''NON_INTEGER'')"
| "materialize H (JStr s) =
     (case classifyString s of
        ClassAddress \<Rightarrow> makeAddress s
      | ClassBytes32 \<Rightarrow> makeBytes32 s
      | ClassString \<Rightarrow> makeString H s)"
| "materialize H (JArr xs) = and_then (map_res (materialize H) xs) (\<lambda>vs. Inr (VList vs))"
| "materialize H (JObj ob) =
     and_then (map_res (\<lambda>kv. and_then (materialize H (snd kv)) (\<lambda>v. Inr (fst kv, v))) ob)
       (\<lambda>kvs. Inr (VMap kvs))"
| "materialize H JFun = runtimeError ''UNREPRESENTABLE''"

fun keyForm :: "dsl_value \<Rightarrow> jstring res" where
  "keyForm (VString s) = Inr s"
| "keyForm (VAddress a) = Inr a"
| "keyForm (VBytes32 h) = Inr h"
| "keyForm _ = validationError ''KEY_TYPE''"

abbreviation type_mismatch :: "'a res" where
  "type_mismatch \<equiv> validationError ''TYPE_MISMATCH''"

text \<open>The loops of \<open>valuesEqual\<close> over the items and the entries return at the first difference.\<close>

fun valuesEqual :: "host \<Rightarrow> dsl_value \<Rightarrow> dsl_value \<Rightarrow> bool res"
  and items_equal :: "host \<Rightarrow> dsl_value list \<Rightarrow> dsl_value list \<Rightarrow> bool res"
  and entries_equal :: "host \<Rightarrow> (jstring \<times> dsl_value) list \<Rightarrow> (jstring \<times> dsl_value) list \<Rightarrow> bool res" where
  "valuesEqual H VNull b = Inr (b = VNull)"
| "valuesEqual H (VInt i) b =
     (case b of VNull \<Rightarrow> Inr False | VInt j \<Rightarrow> Inr (i = j) | _ \<Rightarrow> type_mismatch)"
| "valuesEqual H (VBool x) b =
     (case b of VNull \<Rightarrow> Inr False | VBool y \<Rightarrow> Inr (x = y) | _ \<Rightarrow> type_mismatch)"
| "valuesEqual H (VString s) b =
     (case b of
        VNull \<Rightarrow> Inr False
      | VString t \<Rightarrow>
          and_then (utf8NfcBytes H s) (\<lambda>x. and_then (utf8NfcBytes H t) (\<lambda>y. Inr (x = y)))
      | _ \<Rightarrow> type_mismatch)"
| "valuesEqual H (VBytes32 s) b =
     (case b of VNull \<Rightarrow> Inr False | VBytes32 t \<Rightarrow> Inr (s = t) | _ \<Rightarrow> type_mismatch)"
| "valuesEqual H (VAddress s) b =
     (case b of VNull \<Rightarrow> Inr False | VAddress t \<Rightarrow> Inr (s = t) | _ \<Rightarrow> type_mismatch)"
| "valuesEqual H (VList xs) b =
     (case b of
        VNull \<Rightarrow> Inr False
      | VList ys \<Rightarrow> if length xs \<noteq> length ys then Inr False else items_equal H xs ys
      | _ \<Rightarrow> type_mismatch)"
| "valuesEqual H (VMap xs) b =
     (case b of
        VNull \<Rightarrow> Inr False
      | VMap ys \<Rightarrow> if length xs \<noteq> length ys then Inr False else entries_equal H xs ys
      | _ \<Rightarrow> type_mismatch)"
| "items_equal H (x # xs) (y # ys) =
     and_then (valuesEqual H x y) (\<lambda>e. if \<not> e then Inr False else items_equal H xs ys)"
| "items_equal H [] ys = Inr True"
| "items_equal H (x # xs) [] = Inr True"
| "entries_equal H [] ys = Inr True"
| "entries_equal H ((k, v) # xs) ys =
     (case map_of ys k of
        None \<Rightarrow> Inr False
      | Some w \<Rightarrow> and_then (valuesEqual H v w) (\<lambda>e. if \<not> e then Inr False else entries_equal H xs ys))"

fun describe :: "host \<Rightarrow> dsl_value \<Rightarrow> jstring res" where
  "describe H (VInt i) = Inr (js ''int256('' @ dec_int i @ js '')'')"
| "describe H (VBool b) = Inr (js ''bool('' @ (if b then js ''true'' else js ''false'') @ js '')'')"
| "describe H (VString s) =
     and_then (utf8NfcBytes H s) (\<lambda>b. Inr (js ''string(0x'' @ toHex b False @ js '')''))"
| "describe H (VBytes32 h) = Inr (js ''bytes32('' @ h @ js '')'')"
| "describe H (VAddress a) = Inr (js ''address('' @ a @ js '')'')"
| "describe H (VList xs) = Inr (js ''list['' @ dec_nat (length xs) @ js '']'')"
| "describe H (VMap es) = Inr (js ''map{'' @ dec_nat (length es) @ js ''}'')"
| "describe H VNull = Inr (js ''null'')"

end
