(* ===== verification/Dsl_Parse.thy ===== *)
theory Dsl_Parse
  imports Dsl_Values
begin

text \<open>
  \<^verbatim>\<open>dsl/src/ast.ts\<close> and \<^verbatim>\<open>dsl/src/parse.ts\<close>: the syntax tree and the structural validator. The mutable context of the code (node and
  cost counters) is passed and returned. \<open>buildOp\<close> takes the recursive call as an argument, as \<open>build\<close> is the only
  recursion and its depth argument bounds it.
\<close>

section \<open>Syntax\<close>

datatype cmp_op = Lt | Lte | Gt | Gte
datatype arith_op = Add | Sub | Mul | Div | Mod
datatype eq_op = Eq | Neq
datatype bool_op = And | Or

datatype expr =
    EConst const_expr
  | EVar jstring "jstring list"
  | EAction jstring
  | EEq eq_op expr expr
  | ECmp cmp_op expr expr
  | EArith arith_op expr expr
  | EBool bool_op "expr list"
  | ENot expr
  | EContainsKey expr expr
  | ESize expr
  | ERequiresScope expr expr
  | EIsOwnerRequired expr

datatype dsl_scope = Precondition | Post_condition | Invariant | Gate

datatype dsl_version = V1_1 | V1_2

definition MAX_DEPTH :: nat where "MAX_DEPTH = 10"
definition MAX_NODES :: nat where "MAX_NODES = 100"
definition MAX_PATH_SEGMENTS :: nat where "MAX_PATH_SEGMENTS = 6"
definition MAX_PATH_SEGMENTS_BRACKETED :: nat where "MAX_PATH_SEGMENTS_BRACKETED = 7"
definition MAX_EXPRESSION_COST :: nat where "MAX_EXPRESSION_COST = 1000"

section \<open>The context\<close>

record ctx =
  ctx_scope :: dsl_scope
  ctx_version :: dsl_version
  ctx_nodes :: nat
  ctx_cost :: nat

definition bumpNode :: "ctx \<Rightarrow> ctx res" where
  "bumpNode c =
     (let c1 = c\<lparr>ctx_nodes := ctx_nodes c + 1\<rparr>
      in if ctx_nodes c1 > MAX_NODES then parseError ''NODE_LIMIT'' else Inr c1)"

definition addCost :: "ctx \<Rightarrow> nat \<Rightarrow> ctx res" where
  "addCost c n =
     (let c1 = c\<lparr>ctx_cost := ctx_cost c + n\<rparr>
      in if ctx_cost c1 > MAX_EXPRESSION_COST then validationError ''COST_EXCEEDED'' else Inr c1)"

section \<open>Leaves\<close>

text \<open>The shape \<open>workchain:hex256\<close> of any number of digits.\<close>

definition address_shape :: "jstring \<Rightarrow> bool" where
  "address_shape s \<longleftrightarrow>
     (let body = (case s of c # r \<Rightarrow> if c = 0x2d then r else s | [] \<Rightarrow> []);
          ds = takeWhile is_digit body;
          tail = dropWhile is_digit body
      in ds \<noteq> [] \<and> (case tail of c # h \<Rightarrow> c = 0x3a \<and> length h = 64 \<and> list_all is_lower_hex h | [] \<Rightarrow> False))"

definition buildConst :: "json \<Rightarrow> expr res" where
  "buildConst value =
     (case value of
        JInt v \<Rightarrow> if \<not> inInt256Range v then validationError ''INT256_RANGE'' else Inr (EConst (CInt256 v))
      | JNum n \<Rightarrow>
          (case n of
             NInt v \<Rightarrow> Inr (EConst (CInt256 v))
           | NNegZero \<Rightarrow> Inr (EConst (CInt256 0))
           | _ \<Rightarrow> validationError ''INT256_RANGE'')
      | JBool b \<Rightarrow> Inr (EConst (CBool b))
      | JNull \<Rightarrow> Inr (EConst CNull)
      | JStr s \<Rightarrow>
          if BYTES32_RE s then Inr (EConst (CBytes32 (normal_bytes32 s)))
          else if address_shape s then Inr (EConst (CAddress s))
          else Inr (EConst (CString s))
      | _ \<Rightarrow> validationError ''NO_COLLECTION_LITERAL'')"

fun split_dots :: "jstring \<Rightarrow> jstring list" where
  "split_dots [] = [[]]"
| "split_dots (c # r) =
     (if c = 0x2e then [] # split_dots r
      else (case split_dots r of p # ps \<Rightarrow> (c # p) # ps | [] \<Rightarrow> [[c]]))"

fun has_double_dot :: "jstring \<Rightarrow> bool" where
  "has_double_dot (c # d # r) \<longleftrightarrow> c = 0x2e \<and> d = 0x2e \<or> has_double_dot (d # r)"
| "has_double_dot _ \<longleftrightarrow> False"

definition segment :: "jstring list \<Rightarrow> nat \<Rightarrow> jstring option" where
  "segment path i = (if i < length path then Some (path ! i) else None)"

definition is_bracketed :: "jstring list \<Rightarrow> bool" where
  "is_bracketed path \<longleftrightarrow> segment path 0 = Some (js ''state'') \<and>
     (segment path 1 = Some (js ''before'') \<or> segment path 1 = Some (js ''after''))"

text \<open>The switch on the root of a path.\<close>

definition check_root :: "ctx \<Rightarrow> jstring \<Rightarrow> bool \<Rightarrow> unit res" where
  "check_root c root bracketed =
     (if root = js ''params'' then Inr ()
      else if root = js ''state'' then
        (if bracketed then
           (if ctx_scope c \<noteq> Post_condition \<and> ctx_scope c \<noteq> Invariant
              then parseError ''BRACKETED_STATE_OUT_OF_SCOPE''
            else if ctx_version c = V1_1 then validationError ''V11_UNSUPPORTED''
            else Inr ())
         else Inr ())
      else if root = js ''capability'' \<or> root = js ''signatures'' then
        (if ctx_scope c \<noteq> Gate then parseError ''GATE_VAR_OUT_OF_SCOPE'' else Inr ())
      else parseError ''UNKNOWN_VAR_ROOT'')"

definition buildVar :: "ctx \<Rightarrow> jstring \<Rightarrow> (expr \<times> ctx) res" where
  "buildVar c raw =
     (if length raw = 0 \<or> peek raw = Some 0x2e \<or> last raw = 0x2e \<or> has_double_dot raw
      then parseError ''MALFORMED_PATH''
      else
        let path = split_dots raw;
            root = path ! 0;
            bracketed = is_bracketed path;
            limit = (if bracketed then MAX_PATH_SEGMENTS_BRACKETED else MAX_PATH_SEGMENTS)
        in if length path > limit then parseError ''PATH_TOO_DEEP''
           else and_then (check_root c root bracketed) (\<lambda>_.
             and_then (addCost c (2 * length path)) (\<lambda>c1. Inr (EVar raw path, c1))))"

definition buildAction :: "ctx \<Rightarrow> json \<Rightarrow> expr res" where
  "buildAction c action =
     (case action of
        JStr a \<Rightarrow>
          if ctx_scope c \<noteq> Gate then parseError ''ACTION_OUT_OF_SCOPE''
          else if ctx_version c = V1_1 then validationError ''V11_UNSUPPORTED''
          else if \<not> isRegisteredAction a then parseError ''UNKNOWN_ACTION''
          else Inr (EAction a)
      | _ \<Rightarrow> parseError ''MALFORMED_ACTION'')"

section \<open>Operators\<close>

definition member :: "string \<Rightarrow> obj \<Rightarrow> json" where
  "member k ob = (case js_get (js k) ob of Some v \<Rightarrow> v | None \<Rightarrow> JNull)"

definition has_key :: "string \<Rightarrow> obj \<Rightarrow> bool" where
  "has_key k ob \<longleftrightarrow> js_has (js k) ob"

definition expectArgs :: "obj \<Rightarrow> nat \<Rightarrow> json list res" where
  "expectArgs ob n =
     (case js_get (js ''args'') ob of
        Some (JArr args) \<Rightarrow> if length args \<noteq> n then validationError ''ARITY'' else Inr args
      | _ \<Rightarrow> validationError ''ARITY'')"

definition requireKeys :: "string list \<Rightarrow> obj \<Rightarrow> unit res" where
  "requireKeys allowed ob =
     (if list_all (\<lambda>kv. fst kv \<in> set (map js allowed)) ob then Inr () else validationError ''UNEXPECTED_KEY'')"

definition arith_of :: "jstring \<Rightarrow> arith_op option" where
  "arith_of op = map_of [(js ''add'', Add), (js ''sub'', Sub), (js ''mul'', Mul), (js ''div'', Div), (js ''mod'', Mod)] op"

definition cmp_of :: "jstring \<Rightarrow> cmp_op option" where
  "cmp_of op = map_of [(js ''lt'', Lt), (js ''lte'', Lte), (js ''gt'', Gt), (js ''gte'', Gte)] op"

type_synonym builder = "ctx \<Rightarrow> json \<Rightarrow> (expr \<times> ctx) res"

text \<open>The operators with \<open>lhs\<close> and \<open>rhs\<close>, and those with one \<open>arg\<close>.\<close>

definition build_two :: "builder \<Rightarrow> ctx \<Rightarrow> obj \<Rightarrow> nat \<Rightarrow> (expr \<Rightarrow> expr \<Rightarrow> expr) \<Rightarrow> (expr \<times> ctx) res" where
  "build_two rec c ob cost mk =
     and_then (requireKeys [''op'', ''lhs'', ''rhs''] ob) (\<lambda>_.
       if \<not> has_key ''lhs'' ob \<or> \<not> has_key ''rhs'' ob then validationError ''ARITY''
       else and_then (addCost c cost) (\<lambda>c1.
         and_then (rec c1 (member ''lhs'' ob)) (\<lambda>(lhs, c2).
         and_then (rec c2 (member ''rhs'' ob)) (\<lambda>(rhs, c3). Inr (mk lhs rhs, c3)))))"

definition build_one :: "builder \<Rightarrow> ctx \<Rightarrow> obj \<Rightarrow> nat \<Rightarrow> (expr \<Rightarrow> expr) \<Rightarrow> (expr \<times> ctx) res" where
  "build_one rec c ob cost mk =
     and_then (requireKeys [''op'', ''arg''] ob) (\<lambda>_.
       if \<not> has_key ''arg'' ob then validationError ''ARITY''
       else and_then (addCost c cost) (\<lambda>c1.
         and_then (rec c1 (member ''arg'' ob)) (\<lambda>(arg, c2). Inr (mk arg, c2))))"

fun build_list :: "builder \<Rightarrow> ctx \<Rightarrow> json list \<Rightarrow> (expr list \<times> ctx) res" where
  "build_list rec c [] = Inr ([], c)"
| "build_list rec c (a # as) =
     and_then (rec c a) (\<lambda>(e, c1). and_then (build_list rec c1 as) (\<lambda>(es, c2). Inr (e # es, c2)))"

definition build_bool :: "builder \<Rightarrow> ctx \<Rightarrow> obj \<Rightarrow> bool_op \<Rightarrow> (expr \<times> ctx) res" where
  "build_bool rec c ob op =
     and_then (requireKeys [''op'', ''args''] ob) (\<lambda>_.
       case js_get (js ''args'') ob of
         Some (JArr args) \<Rightarrow>
           if length args < 2 then validationError ''ARITY''
           else and_then (addCost c 1) (\<lambda>c1.
             and_then (build_list rec c1 args) (\<lambda>(es, c2). Inr (EBool op es, c2)))
       | _ \<Rightarrow> validationError ''ARITY'')"

text \<open>The gate operators: scope, version, keys, number of arguments, cost.\<close>

definition build_gate :: "builder \<Rightarrow> ctx \<Rightarrow> obj \<Rightarrow> nat \<Rightarrow> (expr list \<Rightarrow> expr) \<Rightarrow> (expr \<times> ctx) res" where
  "build_gate rec c ob n mk =
     (if ctx_scope c \<noteq> Gate then parseError ''GATE_OP_OUT_OF_SCOPE''
      else if ctx_version c = V1_1 then validationError ''V11_UNSUPPORTED''
      else and_then (requireKeys [''op'', ''args''] ob) (\<lambda>_.
        and_then (expectArgs ob n) (\<lambda>args.
        and_then (addCost c 5) (\<lambda>c1.
        and_then (build_list rec c1 args) (\<lambda>(es, c2). Inr (mk es, c2))))))"

definition buildOp :: "builder \<Rightarrow> ctx \<Rightarrow> obj \<Rightarrow> (expr \<times> ctx) res" where
  "buildOp rec c ob =
     (case js_get (js ''op'') ob of
        Some (JStr op) \<Rightarrow>
          (case arith_of op of
             Some a \<Rightarrow> build_two rec c ob 1 (EArith a)
           | None \<Rightarrow>
          (case cmp_of op of
             Some o' \<Rightarrow> build_two rec c ob 1 (ECmp o')
           | None \<Rightarrow>
             if op = js ''eq'' then build_two rec c ob 1 (EEq Eq)
             else if op = js ''neq'' then build_two rec c ob 1 (EEq Neq)
             else if op = js ''and'' then build_bool rec c ob And
             else if op = js ''or'' then build_bool rec c ob Or
             else if op = js ''not'' then build_one rec c ob 1 ENot
             else if op = js ''size'' then build_one rec c ob 20 ESize
             else if op = js ''contains_key'' then build_two rec c ob 10 EContainsKey
             else if op = js ''requires_scope'' then
               build_gate rec c ob 2 (\<lambda>es. ERequiresScope (es ! 0) (es ! 1))
             else if op = js ''is_owner_required'' then
               build_gate rec c ob 1 (\<lambda>es. EIsOwnerRequired (es ! 0))
             else validationError ''UNKNOWN_OPERATOR''))
      | _ \<Rightarrow> parseError ''MALFORMED_NODE'')"

lemma buildOp_cong [fundef_cong]:
  "c = c' \<Longrightarrow> ob = ob' \<Longrightarrow> (\<And>c j. rec c j = rec' c j) \<Longrightarrow> buildOp rec c ob = buildOp rec' c' ob'"
  by (metis ext)

section \<open>Nodes\<close>

definition discriminants :: "obj \<Rightarrow> nat" where
  "discriminants ob = length (filter (\<lambda>k. has_key k ob) [''const'', ''var'', ''action'', ''op''])"

function build :: "ctx \<Rightarrow> json \<Rightarrow> nat \<Rightarrow> (expr \<times> ctx) res" where
  "build c j depth =
     (if depth > MAX_DEPTH then parseError ''DEPTH_LIMIT''
      else and_then (bumpNode c) (\<lambda>c1.
        case j of
          JObj ob \<Rightarrow>
            if discriminants ob \<noteq> 1 then parseError ''MALFORMED_NODE''
            else if has_key ''const'' ob then
              (if length ob \<noteq> 1 then parseError ''MALFORMED_NODE''
               else and_then (buildConst (member ''const'' ob)) (\<lambda>e. Inr (e, c1)))
            else if has_key ''var'' ob then
              (if length ob \<noteq> 1 then parseError ''MALFORMED_NODE''
               else (case member ''var'' ob of
                   JStr raw \<Rightarrow> buildVar c1 raw
                 | _ \<Rightarrow> parseError ''MALFORMED_NODE''))
            else if has_key ''action'' ob then
              (if length ob \<noteq> 1 then parseError ''MALFORMED_NODE''
               else and_then (buildAction c1 (member ''action'' ob)) (\<lambda>e. Inr (e, c1)))
            else buildOp (\<lambda>c j. build c j (depth + 1)) c1 ob
        | _ \<Rightarrow> parseError ''MALFORMED_NODE''))"
  by pat_completeness auto
termination
  by (relation "measure (\<lambda>(c, j, depth). Suc MAX_DEPTH - depth)") auto

declare build.simps [simp del]

definition start_ctx :: "dsl_scope \<Rightarrow> dsl_version \<Rightarrow> ctx" where
  "start_ctx sc v = \<lparr>ctx_scope = sc, ctx_version = v, ctx_nodes = 0, ctx_cost = 0\<rparr>"

definition read_input :: "json \<Rightarrow> json res" where
  "read_input input = (case input of JStr s \<Rightarrow> parseCanonical s | _ \<Rightarrow> Inr input)"

definition parseExpression :: "json \<Rightarrow> dsl_scope \<Rightarrow> dsl_version \<Rightarrow> expr res" where
  "parseExpression input sc v =
     and_then (read_input input) (\<lambda>j. and_then (build (start_ctx sc v) j 1) (\<lambda>(e, c). Inr e))"

definition expressionCost :: "json \<Rightarrow> dsl_scope \<Rightarrow> dsl_version \<Rightarrow> nat res" where
  "expressionCost input sc v =
     and_then (read_input input) (\<lambda>j. and_then (build (start_ctx sc v) j 1) (\<lambda>(e, c). Inr (ctx_cost c)))"

end
