(* ===== verification/Dsl_Evaluate.thy ===== *)
theory Dsl_Evaluate
  imports Dsl_Parse "HOL-Library.Signed_Division"
begin

text \<open>
  \<^verbatim>\<open>dsl/src/evaluate.ts\<close>: the evaluator, and \<^verbatim>\<open>dsl/src/envelope.ts\<close>, \<^verbatim>\<open>dsl/src/emergency.ts\<close>,
  \<^verbatim>\<open>dsl/src/hash.ts\<close>. A binding that is not provided is \<open>None\<close>. A thrown \<open>DslError\<close> becomes an outcome; any other exception
  passes through \<open>evaluate\<close> and \<open>run\<close> as in the code.
\<close>

section \<open>Bindings and operands\<close>

record bindings =
  b_state :: "json option"
  b_before :: "json option"
  b_after :: "json option"
  b_params :: "json option"
  b_capability :: "json option"
  b_signatures :: "json option"

definition no_bindings :: bindings where
  "no_bindings = \<lparr>b_state = None, b_before = None, b_after = None, b_params = None, b_capability = None, b_signatures = None\<rparr>"

definition requireInt :: "dsl_value \<Rightarrow> int res" where
  "requireInt v = (case v of VInt i \<Rightarrow> Inr i | VNull \<Rightarrow> runtimeError ''NULL_MISUSE'' | _ \<Rightarrow> type_mismatch)"

definition requireBool :: "dsl_value \<Rightarrow> bool res" where
  "requireBool v = (case v of VBool b \<Rightarrow> Inr b | VNull \<Rightarrow> runtimeError ''NULL_MISUSE'' | _ \<Rightarrow> type_mismatch)"

definition requireString :: "dsl_value \<Rightarrow> jstring res" where
  "requireString v = (case v of VString s \<Rightarrow> Inr s | VNull \<Rightarrow> runtimeError ''NULL_MISUSE'' | _ \<Rightarrow> type_mismatch)"

definition checkRange :: "int \<Rightarrow> int res" where
  "checkRange v = (if v < INT256_MIN \<or> v > INT256_MAX then runtimeError ''OVERFLOW'' else Inr v)"

text \<open>\<open>/\<close> and \<open>%\<close> on \<open>bigint\<close> truncate toward zero: \<open>sdiv\<close> and \<open>smod\<close>.\<close>

definition euclideanMod :: "int \<Rightarrow> int \<Rightarrow> int" where
  "euclideanMod a b = (let m = a smod b in if m < 0 then m + (if b < 0 then - b else b) else m)"

fun arith :: "arith_op \<Rightarrow> int \<Rightarrow> int \<Rightarrow> int res" where
  "arith Add l r = checkRange (l + r)"
| "arith Sub l r = checkRange (l - r)"
| "arith Mul l r = checkRange (l * r)"
| "arith Div l r =
     (if r = 0 then runtimeError ''DIV_BY_ZERO''
      else if l = INT256_MIN \<and> r = -1 then runtimeError ''OVERFLOW''
      else Inr (l sdiv r))"
| "arith Mod l r = (if r = 0 then runtimeError ''MOD_BY_ZERO'' else Inr (euclideanMod l r))"

fun compare_ints :: "cmp_op \<Rightarrow> int \<Rightarrow> int \<Rightarrow> bool" where
  "compare_ints Lt l r = (l < r)"
| "compare_ints Lte l r = (l \<le> r)"
| "compare_ints Gt l r = (l > r)"
| "compare_ints Gte l r = (l \<ge> r)"

section \<open>Variables\<close>

definition resolve_base :: "jstring list \<Rightarrow> bindings \<Rightarrow> dsl_scope \<Rightarrow> (json option \<times> jstring list) res" where
  "resolve_base path b sc =
     (let root = path ! 0
      in if root = js ''params'' then Inr (b_params b, drop 1 path)
         else if root = js ''capability'' then Inr (b_capability b, drop 1 path)
         else if root = js ''signatures'' then Inr (b_signatures b, drop 1 path)
         else if root = js ''state'' then
           (if segment path 1 = Some (js ''before'') then Inr (b_before b, drop 2 path)
            else if segment path 1 = Some (js ''after'') then Inr (b_after b, drop 2 path)
            else if sc = Post_condition \<or> sc = Invariant then Inr (b_before b, drop 1 path)
            else Inr (b_state b, drop 1 path))
         else runtimeError ''MISSING_VAR'')"

fun walk :: "json \<Rightarrow> jstring list \<Rightarrow> json res" where
  "walk cur [] = Inr cur"
| "walk cur (seg # rest) =
     (case cur of
        JObj ob \<Rightarrow>
          (case js_get seg ob of
             Some v \<Rightarrow> walk v rest
           | None \<Rightarrow> runtimeError ''MISSING_VAR'')
      | _ \<Rightarrow> runtimeError ''MISSING_VAR'')"

definition resolvePath :: "host \<Rightarrow> jstring list \<Rightarrow> bindings \<Rightarrow> dsl_scope \<Rightarrow> dsl_value res" where
  "resolvePath H path b sc =
     and_then (resolve_base path b sc) (\<lambda>(base, rest).
       case base of
         None \<Rightarrow> runtimeError ''MISSING_VAR''
       | Some j \<Rightarrow> and_then (walk j rest) (materialize H))"

section \<open>Boolean operators\<close>

definition is_dsl :: "exn \<Rightarrow> bool" where
  "is_dsl e \<longleftrightarrow> (case e of Dsl _ \<Rightarrow> True | _ \<Rightarrow> False)"

definition has_phase :: "phase \<Rightarrow> dsl_value res \<Rightarrow> bool" where
  "has_phase p r \<longleftrightarrow> (case r of Inl (Dsl (DslError q _)) \<Rightarrow> q = p | _ \<Rightarrow> False)"

definition escapes :: "dsl_value res \<Rightarrow> bool" where
  "escapes r \<longleftrightarrow> (case r of Inl e \<Rightarrow> \<not> is_dsl e | Inr _ \<Rightarrow> False)"

definition combine :: "bool_op \<Rightarrow> bool list \<Rightarrow> bool" where
  "combine op bs = foldl (\<lambda>acc b. if op = And then acc \<and> b else acc \<or> b) (op = And) bs"

text \<open>
  The results of all arguments, in order: an exception that is no \<open>DslError\<close> ends the evaluation; then the first fault of phase
  \<open>ERROR\<close>, then the first of phase \<open>VALIDATION_ERROR\<close> is thrown. (No result can have phase \<open>PARSE_ERROR\<close>; reading its value would be
  a \<open>TypeError\<close>.)
\<close>

definition evalBoolean :: "bool_op \<Rightarrow> dsl_value res list \<Rightarrow> dsl_value res" where
  "evalBoolean op results =
     (case filter escapes results of
        r # _ \<Rightarrow> r
      | [] \<Rightarrow>
     (case filter (has_phase ERROR) results of
        r # _ \<Rightarrow> r
      | [] \<Rightarrow>
     (case filter (has_phase VALIDATION_ERROR) results of
        r # _ \<Rightarrow> r
      | [] \<Rightarrow>
        and_then (map_res (\<lambda>r. case r of Inr v \<Rightarrow> requireBool v | Inl _ \<Rightarrow> Inl TypeError) results)
          (\<lambda>bs. Inr (VBool (combine op bs))))))"

section \<open>Evaluation\<close>

fun evalNode :: "host \<Rightarrow> bindings \<Rightarrow> dsl_scope \<Rightarrow> expr \<Rightarrow> dsl_value res" where
  "evalNode H b sc (EConst c) = constValue H c"
| "evalNode H b sc (EVar raw path) = resolvePath H path b sc"
| "evalNode H b sc (EAction a) = Inr (VString a)"
| "evalNode H b sc (EEq op lhs rhs) =
     and_then (evalNode H b sc lhs) (\<lambda>l. and_then (evalNode H b sc rhs) (\<lambda>r.
     and_then (valuesEqual H l r) (\<lambda>eq. Inr (VBool (if op = Eq then eq else \<not> eq)))))"
| "evalNode H b sc (ECmp op lhs rhs) =
     and_then (and_then (evalNode H b sc lhs) requireInt) (\<lambda>l.
     and_then (and_then (evalNode H b sc rhs) requireInt) (\<lambda>r. Inr (VBool (compare_ints op l r))))"
| "evalNode H b sc (EArith op lhs rhs) =
     and_then (and_then (evalNode H b sc lhs) requireInt) (\<lambda>l.
     and_then (and_then (evalNode H b sc rhs) requireInt) (\<lambda>r.
     and_then (arith op l r) (\<lambda>i. Inr (VInt i))))"
| "evalNode H b sc (EBool op args) = evalBoolean op (map (evalNode H b sc) args)"
| "evalNode H b sc (ENot arg) =
     and_then (and_then (evalNode H b sc arg) requireBool) (\<lambda>x. Inr (VBool (\<not> x)))"
| "evalNode H b sc (EContainsKey m key) =
     and_then (evalNode H b sc m) (\<lambda>mv.
       case mv of
         VNull \<Rightarrow> runtimeError ''NULL_MISUSE''
       | VMap es \<Rightarrow>
           and_then (and_then (evalNode H b sc key) keyForm) (\<lambda>k. Inr (VBool (k \<in> fst ` set es)))
       | _ \<Rightarrow> type_mismatch)"
| "evalNode H b sc (ESize arg) =
     and_then (evalNode H b sc arg) (\<lambda>v.
       case v of
         VList xs \<Rightarrow> Inr (VInt (int (length xs)))
       | VMap es \<Rightarrow> Inr (VInt (int (length es)))
       | VNull \<Rightarrow> Inr (VInt 0)
       | _ \<Rightarrow> type_mismatch)"
| "evalNode H b sc (ERequiresScope action scope) =
     and_then (and_then (evalNode H b sc action) requireString) (\<lambda>a.
     and_then (and_then (evalNode H b sc scope) requireString) (\<lambda>s.
     and_then (requiresScope a s) (\<lambda>x. Inr (VBool x))))"
| "evalNode H b sc (EIsOwnerRequired action) =
     and_then (and_then (evalNode H b sc action) requireString) (\<lambda>a. Inr (VBool (isOwnerRequired a)))"

datatype outcome_code = EVALUATION_TRUE | EVALUATION_FALSE | Fault phase

record outcome =
  out_code :: outcome_code
  out_reason :: "string option"

definition fault_outcome :: "exn \<Rightarrow> outcome res" where
  "fault_outcome e =
     (case e of
        Dsl (DslError p r) \<Rightarrow> Inr \<lparr>out_code = Fault p, out_reason = Some r\<rparr>
      | _ \<Rightarrow> Inl e)"

definition evaluate :: "host \<Rightarrow> expr \<Rightarrow> bindings \<Rightarrow> dsl_scope \<Rightarrow> outcome res" where
  "evaluate H e b sc =
     (case evalNode H b sc e of
        Inr (VBool x) \<Rightarrow>
          Inr \<lparr>out_code = (if x then EVALUATION_TRUE else EVALUATION_FALSE), out_reason = None\<rparr>
      | Inr _ \<Rightarrow> Inr \<lparr>out_code = Fault VALIDATION_ERROR, out_reason = Some ''NON_BOOLEAN_RESULT''\<rparr>
      | Inl x \<Rightarrow> fault_outcome x)"

definition run :: "host \<Rightarrow> json \<Rightarrow> dsl_scope \<Rightarrow> dsl_version \<Rightarrow> bindings \<Rightarrow> outcome res" where
  "run H input sc v b =
     (case parseExpression input sc v of
        Inr e \<Rightarrow> evaluate H e b sc
      | Inl x \<Rightarrow> fault_outcome x)"

section \<open>Envelope, emergency invariants, hash\<close>

record envelope =
  env_version :: dsl_version
  env_expr :: json

text \<open>
  The message of the error prints the version with \<open>JSON.stringify\<close>, which raises a \<open>TypeError\<close> on a \<open>bigint\<close>.
\<close>

fun has_bigint :: "json \<Rightarrow> bool" where
  "has_bigint (JInt i) \<longleftrightarrow> True"
| "has_bigint (JArr xs) \<longleftrightarrow> (\<exists>x \<in> set xs. has_bigint x)"
| "has_bigint (JObj ob) \<longleftrightarrow> (\<exists>kv \<in> set ob. has_bigint (snd kv))"
| "has_bigint _ \<longleftrightarrow> False"

definition parseEnvelope :: "json \<Rightarrow> envelope res" where
  "parseEnvelope input =
     (case input of
        JObj ob \<Rightarrow>
          (case (if js_get (js ''dsl_version'') ob = Some (JStr (js ''1.1'')) then Some V1_1
                 else if js_get (js ''dsl_version'') ob = Some (JStr (js ''1.2'')) then Some V1_2 else None) of
             None \<Rightarrow>
               (case js_get (js ''dsl_version'') ob of
                  Some v \<Rightarrow> if has_bigint v then Inl TypeError else validationError ''UNSUPPORTED_VERSION''
                | None \<Rightarrow> validationError ''UNSUPPORTED_VERSION'')
           | Some v \<Rightarrow>
               if \<not> has_key ''expr'' ob then parseError ''MALFORMED_ENVELOPE''
               else Inr \<lparr>env_version = v, env_expr = member ''expr'' ob\<rparr>)
      | _ \<Rightarrow> parseError ''MALFORMED_ENVELOPE'')"

definition jvar :: "string \<Rightarrow> json" where
  "jvar path = JObj [(js ''var'', JStr (js path))]"

definition jop :: "string \<Rightarrow> json \<Rightarrow> json \<Rightarrow> json" where
  "jop op l r = JObj [(js ''op'', JStr (js op)), (js ''lhs'', l), (js ''rhs'', r)]"

definition EMERGENCY_INVARIANTS :: "json list" where
  "EMERGENCY_INVARIANTS =
    [jop ''gte'' (jvar ''state.after.treasury.developer_fund_balance'')
       (jvar ''state.before.treasury.developer_fund_balance''),
     jop ''gte'' (jvar ''state.after.treasury.nav'')
       (jop ''sub'' (jvar ''state.before.treasury.nav'') (JObj [(js ''const'', JInt 0)])),
     jop ''eq'' (jvar ''state.after.failure_mode.is_bounded_mode'') (JObj [(js ''const'', JBool True)])]"

definition effectiveInvariants :: "json list \<Rightarrow> bool \<Rightarrow> json list" where
  "effectiveInvariants declared isBoundedMode =
     (if isBoundedMode then declared @ EMERGENCY_INVARIANTS else declared)"

definition dslDomainTag :: "dsl_version \<Rightarrow> jstring" where
  "dslDomainTag v = (if v = V1_2 then domain_tag ''DSL_V1_2'' else domain_tag ''DSL_V1_1'')"

definition dslHash :: "host \<Rightarrow> json \<Rightarrow> dsl_version \<Rightarrow> bytes res" where
  "dslHash H e v = and_then (canonicalizeValue H e) (\<lambda>b. domainHash H (dslDomainTag v) b)"

end
