(* ===== verification/Dsl_Props.thy ===== *)
theory Dsl_Props
  imports Dsl_Evaluate
begin

text \<open>
  What the validator of the constraint language guarantees of the expressions it accepts, what their evaluation returns, and
  what the emergency invariants mean.
\<close>

section \<open>Measures of an expression\<close>

fun expr_nodes :: "expr \<Rightarrow> nat" where
  "expr_nodes (EEq _ l r) = 1 + expr_nodes l + expr_nodes r"
| "expr_nodes (ECmp _ l r) = 1 + expr_nodes l + expr_nodes r"
| "expr_nodes (EArith _ l r) = 1 + expr_nodes l + expr_nodes r"
| "expr_nodes (EContainsKey l r) = 1 + expr_nodes l + expr_nodes r"
| "expr_nodes (ERequiresScope l r) = 1 + expr_nodes l + expr_nodes r"
| "expr_nodes (EBool _ es) = 1 + sum_list (map expr_nodes es)"
| "expr_nodes (ENot e) = 1 + expr_nodes e"
| "expr_nodes (ESize e) = 1 + expr_nodes e"
| "expr_nodes (EIsOwnerRequired e) = 1 + expr_nodes e"
| "expr_nodes _ = 1"

fun expr_depth :: "expr \<Rightarrow> nat" where
  "expr_depth (EEq _ l r) = 1 + max (expr_depth l) (expr_depth r)"
| "expr_depth (ECmp _ l r) = 1 + max (expr_depth l) (expr_depth r)"
| "expr_depth (EArith _ l r) = 1 + max (expr_depth l) (expr_depth r)"
| "expr_depth (EContainsKey l r) = 1 + max (expr_depth l) (expr_depth r)"
| "expr_depth (ERequiresScope l r) = 1 + max (expr_depth l) (expr_depth r)"
| "expr_depth (EBool _ es) = 1 + foldr max (map expr_depth es) 0"
| "expr_depth (ENot e) = 1 + expr_depth e"
| "expr_depth (ESize e) = 1 + expr_depth e"
| "expr_depth (EIsOwnerRequired e) = 1 + expr_depth e"
| "expr_depth _ = 1"

text \<open>The price list of the specification: the cost does not depend on the data.\<close>

fun expr_cost :: "expr \<Rightarrow> nat" where
  "expr_cost (EEq _ l r) = 1 + expr_cost l + expr_cost r"
| "expr_cost (ECmp _ l r) = 1 + expr_cost l + expr_cost r"
| "expr_cost (EArith _ l r) = 1 + expr_cost l + expr_cost r"
| "expr_cost (EContainsKey l r) = 10 + expr_cost l + expr_cost r"
| "expr_cost (ERequiresScope l r) = 5 + expr_cost l + expr_cost r"
| "expr_cost (EBool _ es) = 1 + sum_list (map expr_cost es)"
| "expr_cost (ENot e) = 1 + expr_cost e"
| "expr_cost (ESize e) = 20 + expr_cost e"
| "expr_cost (EIsOwnerRequired e) = 5 + expr_cost e"
| "expr_cost (EVar _ path) = 2 * length path"
| "expr_cost _ = 0"

text \<open>Which variables and operators a scope and a version admit.\<close>

definition path_ok :: "dsl_scope \<Rightarrow> dsl_version \<Rightarrow> jstring list \<Rightarrow> bool" where
  "path_ok sc v path \<longleftrightarrow> path \<noteq> [] \<and>
     hd path \<in> {js ''params'', js ''state'', js ''capability'', js ''signatures''} \<and>
     (is_bracketed path \<longrightarrow> sc \<in> {Post_condition, Invariant} \<and> v = V1_2) \<and>
     (hd path \<in> {js ''capability'', js ''signatures''} \<longrightarrow> sc = Gate) \<and>
     length path \<le> (if is_bracketed path then 7 else 6)"

fun expr_ok :: "dsl_scope \<Rightarrow> dsl_version \<Rightarrow> expr \<Rightarrow> bool" where
  "expr_ok sc v (EConst c) \<longleftrightarrow> True"
| "expr_ok sc v (EVar raw path) \<longleftrightarrow> path_ok sc v path"
| "expr_ok sc v (EAction a) \<longleftrightarrow> sc = Gate \<and> v = V1_2 \<and> isRegisteredAction a"
| "expr_ok sc v (EEq _ l r) \<longleftrightarrow> expr_ok sc v l \<and> expr_ok sc v r"
| "expr_ok sc v (ECmp _ l r) \<longleftrightarrow> expr_ok sc v l \<and> expr_ok sc v r"
| "expr_ok sc v (EArith _ l r) \<longleftrightarrow> expr_ok sc v l \<and> expr_ok sc v r"
| "expr_ok sc v (EContainsKey l r) \<longleftrightarrow> expr_ok sc v l \<and> expr_ok sc v r"
| "expr_ok sc v (ERequiresScope l r) \<longleftrightarrow> sc = Gate \<and> v = V1_2 \<and> expr_ok sc v l \<and> expr_ok sc v r"
| "expr_ok sc v (EBool _ es) \<longleftrightarrow> 2 \<le> length es \<and> (\<forall>e \<in> set es. expr_ok sc v e)"
| "expr_ok sc v (ENot e) \<longleftrightarrow> expr_ok sc v e"
| "expr_ok sc v (ESize e) \<longleftrightarrow> expr_ok sc v e"
| "expr_ok sc v (EIsOwnerRequired e) \<longleftrightarrow> sc = Gate \<and> v = V1_2 \<and> expr_ok sc v e"

section \<open>What a successful build means\<close>

text \<open>\<open>n\<close> nodes and \<open>k\<close> cost were added to the context, within the limits.\<close>

definition advances :: "ctx \<Rightarrow> nat \<Rightarrow> nat \<Rightarrow> ctx \<Rightarrow> bool" where
  "advances c n k c' \<longleftrightarrow> ctx_scope c' = ctx_scope c \<and> ctx_version c' = ctx_version c \<and>
     ctx_nodes c' = ctx_nodes c + n \<and> ctx_cost c' = ctx_cost c + k \<and>
     (ctx_nodes c \<le> MAX_NODES \<longrightarrow> ctx_nodes c' \<le> MAX_NODES) \<and>
     (ctx_cost c \<le> MAX_EXPRESSION_COST \<longrightarrow> ctx_cost c' \<le> MAX_EXPRESSION_COST)"

definition built :: "nat \<Rightarrow> ctx \<Rightarrow> expr \<Rightarrow> ctx \<Rightarrow> bool" where
  "built d c e c' \<longleftrightarrow> advances c (expr_nodes e) (expr_cost e) c' \<and> d + expr_depth e \<le> Suc MAX_DEPTH \<and>
     expr_ok (ctx_scope c) (ctx_version c) e"

text \<open>An operator node, whose own node is already counted.\<close>

definition op_built :: "nat \<Rightarrow> ctx \<Rightarrow> expr \<Rightarrow> ctx \<Rightarrow> bool" where
  "op_built d c e c' \<longleftrightarrow> advances c (expr_nodes e - 1) (expr_cost e) c' \<and> d + expr_depth e \<le> Suc MAX_DEPTH \<and>
     expr_ok (ctx_scope c) (ctx_version c) e"

lemma advances_refl [simp]: "advances c 0 0 c"
  by (simp add: advances_def)

lemma advances_trans:
  "advances c n k c1 \<Longrightarrow> advances c1 m l c2 \<Longrightarrow> advances c (n + m) (k + l) c2"
  by (auto simp: advances_def)

lemma advances_scope: "advances c n k c' \<Longrightarrow> ctx_scope c' = ctx_scope c \<and> ctx_version c' = ctx_version c"
  by (simp add: advances_def)

lemma addCost_advances: "addCost c n = Inr c' \<Longrightarrow> advances c 0 n c'"
  by (auto simp: addCost_def advances_def Let_def split: if_splits)

lemma bumpNode_advances: "bumpNode c = Inr c' \<Longrightarrow> advances c 1 0 c'"
  by (auto simp: bumpNode_def advances_def Let_def split: if_splits)

lemma expr_nodes_pos: "0 < expr_nodes e"
  by (cases e) simp_all

lemma split_dots_nonempty: "split_dots s \<noteq> []"
  by (induction s) (auto split: list.splits)

lemma check_root_ok:
  assumes "check_root c root br = Inr ()"
  shows "root \<in> {js ''params'', js ''state'', js ''capability'', js ''signatures''} \<and>
    (root = js ''state'' \<and> br \<longrightarrow> ctx_scope c \<in> {Post_condition, Invariant} \<and> ctx_version c = V1_2) \<and>
    (root \<in> {js ''capability'', js ''signatures''} \<longrightarrow> ctx_scope c = Gate)"
proof -
  have v: "ctx_version c \<noteq> V1_1 \<longleftrightarrow> ctx_version c = V1_2" by (cases "ctx_version c") simp_all
  consider "root = js ''params''" | "root = js ''state''" | "root = js ''capability'' \<or> root = js ''signatures''"
    | "root \<notin> {js ''params'', js ''state'', js ''capability'', js ''signatures''}" by blast
  then show ?thesis
    by cases (use assms in \<open>auto simp: check_root_def v split: if_splits\<close>)
qed

lemma buildVar_built:
  assumes "buildVar c raw = Inr (e, c')" "d \<le> MAX_DEPTH"
  shows "op_built d c e c'"
proof -
  define p where "p = split_dots raw"
  have p: "p \<noteq> []" "p ! 0 = hd p" using split_dots_nonempty by (simp_all add: p_def hd_conv_nth)
  from assms(1) have e: "e = EVar raw p" and a: "addCost c (2 * length p) = Inr c'"
    and len: "length p \<le> (if is_bracketed p then 7 else 6)" and r: "check_root c (hd p) (is_bracketed p) = Inr ()"
    by (simp_all add: buildVar_def Let_def MAX_PATH_SEGMENTS_BRACKETED_def MAX_PATH_SEGMENTS_def p_def [symmetric] p split: if_splits)
  have "is_bracketed p \<Longrightarrow> hd p = js ''state''" using p by (auto simp: is_bracketed_def segment_def)
  with check_root_ok [OF r] len p(1) have "path_ok (ctx_scope c) (ctx_version c) p"
    unfolding path_ok_def by blast
  with addCost_advances [OF a] assms(2) show ?thesis by (simp add: op_built_def e MAX_DEPTH_def)
qed

lemma buildAction_ok:
  "buildAction c j = Inr e \<Longrightarrow> expr_ok (ctx_scope c) (ctx_version c) e \<and> expr_nodes e = 1 \<and> expr_cost e = 0 \<and> expr_depth e = 1"
  by (cases j; cases "ctx_version c") (auto simp: buildAction_def split: if_splits)

lemma buildConst_ok: "buildConst j = Inr e \<Longrightarrow> \<exists>k. e = EConst k"
  by (cases j) (auto simp: buildConst_def split: jsnum.splits if_splits)

section \<open>Operators\<close>

text \<open>The induction hypothesis of \<open>build\<close>, for the recursive calls of an operator at depth \<open>d\<close>.\<close>

definition builds :: "nat \<Rightarrow> builder \<Rightarrow> bool" where
  "builds d rec \<longleftrightarrow> (\<forall>c j e c'. rec c j = Inr (e, c') \<longrightarrow> built (Suc d) c e c')"

lemma buildsD: "builds d rec \<Longrightarrow> rec c j = Inr (e, c') \<Longrightarrow> built (Suc d) c e c'"
  by (simp add: builds_def)

lemma built_scope: "built d c e c' \<Longrightarrow> ctx_scope c' = ctx_scope c \<and> ctx_version c' = ctx_version c"
  by (simp add: built_def advances_def)

lemma add_max_le: "d + max a b \<le> m \<longleftrightarrow> d + a \<le> m \<and> d + b \<le> m" for a b d m :: nat
  by (auto simp: max_def)

lemma build_list_built:
  assumes "builds d rec" "build_list rec c jl = Inr (es, c')" "d \<le> MAX_DEPTH"
  shows "advances c (sum_list (map expr_nodes es)) (sum_list (map expr_cost es)) c' \<and>
    Suc d + foldr max (map expr_depth es) 0 \<le> Suc MAX_DEPTH \<and>
    (\<forall>e \<in> set es. expr_ok (ctx_scope c) (ctx_version c) e) \<and> length es = length jl"
  using assms(2)
proof (induction jl arbitrary: c es)
  case Nil
  with assms(3) show ?case by simp
next
  case (Cons j jl)
  then obtain e c1 fs where e: "rec c j = Inr (e, c1)" and fs: "build_list rec c1 jl = Inr (fs, c')" and es: "es = e # fs"
    by auto
  note b = buildsD [OF assms(1) e] and r = Cons.IH [OF fs]
  from b r have "advances c (expr_nodes e + sum_list (map expr_nodes fs)) (expr_cost e + sum_list (map expr_cost fs)) c'"
    unfolding built_def by (blast intro: advances_trans)
  with b r built_scope [OF b] show ?case by (simp add: es built_def add_max_le)
qed

lemma build_two_built:
  assumes "builds d rec" "build_two rec c ob k mk = Inr (e, c')"
  shows "\<exists>l r. e = mk l r \<and> advances c (expr_nodes l + expr_nodes r) (k + expr_cost l + expr_cost r) c' \<and>
    Suc d + max (expr_depth l) (expr_depth r) \<le> Suc MAX_DEPTH \<and>
    expr_ok (ctx_scope c) (ctx_version c) l \<and> expr_ok (ctx_scope c) (ctx_version c) r"
proof -
  from assms(2) obtain c1 l c2 r where a: "addCost c k = Inr c1" and l: "rec c1 (member ''lhs'' ob) = Inr (l, c2)"
    and r: "rec c2 (member ''rhs'' ob) = Inr (r, c')" and e: "e = mk l r"
    by (auto simp: build_two_def split: if_splits)
  note bl = buildsD [OF assms(1) l] and br = buildsD [OF assms(1) r]
  have "advances c (0 + expr_nodes l + expr_nodes r) (k + expr_cost l + expr_cost r) c'"
    using addCost_advances [OF a] bl br unfolding built_def by (blast intro: advances_trans)
  with e bl br built_scope [OF bl] advances_scope [OF addCost_advances [OF a]] show ?thesis
    by (intro exI [of _ l] exI [of _ r]) (simp add: built_def add_max_le)
qed

lemma build_one_built:
  assumes "builds d rec" "build_one rec c ob k mk = Inr (e, c')"
  shows "\<exists>x. e = mk x \<and> advances c (expr_nodes x) (k + expr_cost x) c' \<and>
    Suc d + expr_depth x \<le> Suc MAX_DEPTH \<and> expr_ok (ctx_scope c) (ctx_version c) x"
proof -
  from assms(2) obtain c1 x where a: "addCost c k = Inr c1" and x: "rec c1 (member ''arg'' ob) = Inr (x, c')"
    and e: "e = mk x"
    by (auto simp: build_one_def split: if_splits)
  note b = buildsD [OF assms(1) x]
  have "advances c (0 + expr_nodes x) (k + expr_cost x) c'"
    using addCost_advances [OF a] b unfolding built_def by (blast intro: advances_trans)
  with e b advances_scope [OF addCost_advances [OF a]] show ?thesis by (auto simp: built_def)
qed

lemma build_bool_built:
  assumes "builds d rec" "build_bool rec c ob op = Inr (e, c')" "d \<le> MAX_DEPTH"
  shows "op_built d c e c'"
proof -
  from assms(2) obtain args where args: "js_get (js ''args'') ob = Some (JArr args)"
    by (auto simp: build_bool_def split: option.splits json.splits)
  with assms(2) obtain c1 es where n: "2 \<le> length args" and a: "addCost c 1 = Inr c1"
    and es: "build_list rec c1 args = Inr (es, c')" and e: "e = EBool op es"
    by (auto simp: build_bool_def not_less simp del: One_nat_def split: if_splits)
  note r = build_list_built [OF assms(1) es assms(3)]
  have "advances c (0 + sum_list (map expr_nodes es)) (1 + sum_list (map expr_cost es)) c'"
    using addCost_advances [OF a] r by (blast intro: advances_trans)
  with e r n advances_scope [OF addCost_advances [OF a]] show ?thesis by (auto simp: op_built_def)
qed

lemma build_gate_built:
  assumes "builds d rec" "build_gate rec c ob n mk = Inr (e, c')" "d \<le> MAX_DEPTH"
  shows "\<exists>es. e = mk es \<and> length es = n \<and> ctx_scope c = Gate \<and> ctx_version c = V1_2 \<and>
    advances c (sum_list (map expr_nodes es)) (5 + sum_list (map expr_cost es)) c' \<and>
    Suc d + foldr max (map expr_depth es) 0 \<le> Suc MAX_DEPTH \<and>
    (\<forall>x \<in> set es. expr_ok (ctx_scope c) (ctx_version c) x)"
proof -
  from assms(2) obtain args c1 es where n: "expectArgs ob n = Inr args" and a: "addCost c 5 = Inr c1"
    and es: "build_list rec c1 args = Inr (es, c')" and e: "e = mk es" and g: "ctx_scope c = Gate" "ctx_version c \<noteq> V1_1"
    by (auto simp: build_gate_def split: if_splits)
  have "length args = n" using n by (auto simp: expectArgs_def split: option.splits json.splits if_splits)
  moreover note r = build_list_built [OF assms(1) es assms(3)]
  moreover have "advances c (0 + sum_list (map expr_nodes es)) (5 + sum_list (map expr_cost es)) c'"
    using addCost_advances [OF a] r by (blast intro: advances_trans)
  moreover have "ctx_version c = V1_2" using g(2) by (cases "ctx_version c") simp_all
  ultimately show ?thesis using e g(1) advances_scope [OF addCost_advances [OF a]] by auto
qed

lemma two_op_built:
  assumes "builds d rec" "build_two rec c ob k mk = Inr (e, c')"
    and "\<And>l r. expr_nodes (mk l r) = 1 + expr_nodes l + expr_nodes r"
    and "\<And>l r. expr_cost (mk l r) = k + expr_cost l + expr_cost r"
    and "\<And>l r. expr_depth (mk l r) = 1 + max (expr_depth l) (expr_depth r)"
    and "\<And>sc v l r. expr_ok sc v (mk l r) \<longleftrightarrow> expr_ok sc v l \<and> expr_ok sc v r"
  shows "op_built d c e c'"
  using build_two_built [OF assms(1,2)] by (auto simp: op_built_def assms(3-6))

lemma one_op_built:
  assumes "builds d rec" "build_one rec c ob k mk = Inr (e, c')"
    and "\<And>x. expr_nodes (mk x) = 1 + expr_nodes x" and "\<And>x. expr_cost (mk x) = k + expr_cost x"
    and "\<And>x. expr_depth (mk x) = 1 + expr_depth x" and "\<And>sc v x. expr_ok sc v (mk x) \<longleftrightarrow> expr_ok sc v x"
  shows "op_built d c e c'"
  using build_one_built [OF assms(1,2)] by (auto simp: op_built_def assms(3-6))

lemma scope_op_built:
  assumes "builds d rec" "build_gate rec c ob 2 (\<lambda>es. ERequiresScope (es ! 0) (es ! 1)) = Inr (e, c')" "d \<le> MAX_DEPTH"
  shows "op_built d c e c'"
proof -
  from build_gate_built [OF assms] obtain es where es: "e = ERequiresScope (es ! 0) (es ! 1)" "length es = 2"
    "ctx_scope c = Gate" "ctx_version c = V1_2"
    "advances c (sum_list (map expr_nodes es)) (5 + sum_list (map expr_cost es)) c'"
    "Suc d + foldr max (map expr_depth es) 0 \<le> Suc MAX_DEPTH" "\<forall>x \<in> set es. expr_ok (ctx_scope c) (ctx_version c) x" by blast
  obtain a s where "es = [a, s]" using es(2) by (auto simp: length_Suc_conv numeral_2_eq_2)
  with es show ?thesis by (simp add: op_built_def add.assoc)
qed

lemma owner_op_built:
  assumes "builds d rec" "build_gate rec c ob 1 (\<lambda>es. EIsOwnerRequired (es ! 0)) = Inr (e, c')" "d \<le> MAX_DEPTH"
  shows "op_built d c e c'"
proof -
  from build_gate_built [OF assms] obtain es where es: "e = EIsOwnerRequired (es ! 0)" "length es = 1"
    "ctx_scope c = Gate" "ctx_version c = V1_2"
    "advances c (sum_list (map expr_nodes es)) (5 + sum_list (map expr_cost es)) c'"
    "Suc d + foldr max (map expr_depth es) 0 \<le> Suc MAX_DEPTH" "\<forall>x \<in> set es. expr_ok (ctx_scope c) (ctx_version c) x" by blast
  obtain a where "es = [a]" using es(2) by (auto simp: length_Suc_conv)
  with es show ?thesis by (simp add: op_built_def)
qed

lemma buildOp_built:
  assumes b: "builds d rec" and o: "buildOp rec c ob = Inr (e, c')" and d: "d \<le> MAX_DEPTH"
  shows "op_built d c e c'"
proof -
  from o obtain op where op: "js_get (js ''op'') ob = Some (JStr op)"
    by (auto simp: buildOp_def split: option.splits json.splits)
  note two = two_op_built [OF b] and one = one_op_built [OF b]
  from o op consider a where "build_two rec c ob 1 (EArith a) = Inr (e, c')"
    | x where "build_two rec c ob 1 (ECmp x) = Inr (e, c')"
    | x where "build_two rec c ob 1 (EEq x) = Inr (e, c')"
    | "build_two rec c ob 10 EContainsKey = Inr (e, c')"
    | x where "build_bool rec c ob x = Inr (e, c')"
    | "build_one rec c ob 1 ENot = Inr (e, c')" | "build_one rec c ob 20 ESize = Inr (e, c')"
    | "build_gate rec c ob 2 (\<lambda>es. ERequiresScope (es ! 0) (es ! 1)) = Inr (e, c')"
    | "build_gate rec c ob 1 (\<lambda>es. EIsOwnerRequired (es ! 0)) = Inr (e, c')"
    by (auto simp: buildOp_def simp del: One_nat_def js_inject split: option.splits if_splits)
  then show ?thesis
  proof cases
    case 1 then show ?thesis by (rule two) auto
  next
    case 2 then show ?thesis by (rule two) auto
  next
    case 3 then show ?thesis by (rule two) auto
  next
    case 4 then show ?thesis by (rule two) auto
  next
    case 5 then show ?thesis by (rule build_bool_built [OF b _ d])
  next
    case 6 then show ?thesis by (rule one) auto
  next
    case 7 then show ?thesis by (rule one) auto
  next
    case 8 then show ?thesis by (rule scope_op_built [OF b _ d])
  next
    case 9 then show ?thesis by (rule owner_op_built [OF b _ d])
  qed
qed

lemma leaf_built:
  assumes "bumpNode c = Inr c1" "d \<le> MAX_DEPTH"
    "expr_ok (ctx_scope c1) (ctx_version c1) e" "expr_nodes e = 1" "expr_cost e = 0" "expr_depth e = 1"
  shows "built d c e c1"
  using assms bumpNode_advances [OF assms(1)] advances_scope [OF bumpNode_advances [OF assms(1)]] by (simp add: built_def)

lemma op_node_built:
  assumes "bumpNode c = Inr c1" "op_built d c1 e c'"
  shows "built d c e c'"
proof -
  note a = bumpNode_advances [OF assms(1)]
  have "1 + (expr_nodes e - 1) = expr_nodes e" using expr_nodes_pos [of e] by simp
  with advances_trans [OF a, of "expr_nodes e - 1" "expr_cost e" c'] assms(2) advances_scope [OF a]
  show ?thesis by (simp add: built_def op_built_def)
qed

lemma build_built: "build c j d = Inr (e, c') \<Longrightarrow> built d c e c'"
proof (induction c j d arbitrary: e c' rule: build.induct)
  case (1 c j d)
  from "1.prems" have d: "d \<le> MAX_DEPTH" by (auto simp: build.simps [of c j d] split: if_splits)
  with "1.prems" obtain c1 where c1: "bumpNode c = Inr c1" by (auto simp: build.simps [of c j d])
  with "1.prems" d obtain ob where ob: "j = JObj ob" by (auto simp: build.simps [of c j d] split: json.splits)
  have body: "(if discriminants ob \<noteq> 1 then parseError ''MALFORMED_NODE''
      else if has_key ''const'' ob then
        (if length ob \<noteq> 1 then parseError ''MALFORMED_NODE''
         else and_then (buildConst (member ''const'' ob)) (\<lambda>e. Inr (e, c1)))
      else if has_key ''var'' ob then
        (if length ob \<noteq> 1 then parseError ''MALFORMED_NODE''
         else (case member ''var'' ob of JStr raw \<Rightarrow> buildVar c1 raw | _ \<Rightarrow> parseError ''MALFORMED_NODE''))
      else if has_key ''action'' ob then
        (if length ob \<noteq> 1 then parseError ''MALFORMED_NODE''
         else and_then (buildAction c1 (member ''action'' ob)) (\<lambda>e. Inr (e, c1)))
      else buildOp (\<lambda>c j. build c j (d + 1)) c1 ob) = Inr (e, c')"
    using "1.prems" d c1 ob build.simps [of c "JObj ob" d] by simp
  have one: "discriminants ob = 1" by (rule ccontr) (use body in simp)
  consider (const) "has_key ''const'' ob" | (var) "\<not> has_key ''const'' ob" "has_key ''var'' ob"
    | (action) "\<not> has_key ''const'' ob" "\<not> has_key ''var'' ob" "has_key ''action'' ob"
    | (op) "\<not> has_key ''const'' ob" "\<not> has_key ''var'' ob" "\<not> has_key ''action'' ob" by blast
  then show ?case
  proof cases
    case const
    with body one have "buildConst (member ''const'' ob) = Inr e" "c' = c1" by (auto split: if_splits)
    moreover from this(1) obtain k where "e = EConst k" using buildConst_ok by blast
    ultimately show ?thesis using leaf_built [OF c1 d, of e] by simp
  next
    case var
    with body one obtain raw where "buildVar c1 raw = Inr (e, c')"
      by (cases "member ''var'' ob") (auto split: if_splits)
    then show ?thesis by (rule op_node_built [OF c1 buildVar_built [OF _ d]])
  next
    case action
    with body one have a: "buildAction c1 (member ''action'' ob) = Inr e" "c' = c1" by (auto split: if_splits)
    with leaf_built [OF c1 d, of e] buildAction_ok [OF a(1)] show ?thesis by simp
  next
    case op
    with body one have o: "buildOp (\<lambda>c j. build c j (d + 1)) c1 ob = Inr (e, c')" by simp
    have "builds d (\<lambda>c j. build c j (d + 1))"
      unfolding builds_def using "1.IH" [OF _ c1 ob] d op one by auto
    from op_node_built [OF c1 buildOp_built [OF this o d]] show ?thesis .
  qed
qed

lemma parseExpression_built:
  assumes "parseExpression input sc v = Inr e"
  shows "\<exists>c. built 1 (start_ctx sc v) e c \<and> expressionCost input sc v = Inr (ctx_cost c)"
proof -
  from assms obtain j c where "read_input input = Inr j" "build (start_ctx sc v) j 1 = Inr (e, c)"
    by (auto simp: parseExpression_def)
  with build_built [of "start_ctx sc v" j 1 e c] show ?thesis by (auto simp: expressionCost_def)
qed

lemma parse_bounds:
  assumes "parseExpression input sc v = Inr e"
  shows "expr_depth e \<le> 10 \<and> expr_nodes e \<le> 100 \<and> expr_cost e \<le> 1000 \<and> expressionCost input sc v = Inr (expr_cost e)"
  using parseExpression_built [OF assms]
  by (auto simp: built_def advances_def start_ctx_def MAX_DEPTH_def MAX_NODES_def MAX_EXPRESSION_COST_def)

lemma parse_scoped: "parseExpression input sc v = Inr e \<Longrightarrow> expr_ok sc v e"
  using parseExpression_built [of input sc v e] by (auto simp: built_def start_ctx_def)

definition sample_dsl :: json where
  "sample_dsl = jop ''lt'' (jvar ''params.x'') (JObj [(js ''const'', JInt 5)])"

lemma sample_dsl_parse:
  "parseExpression sample_dsl Precondition V1_1 =
     Inr (ECmp Lt (EVar (js ''params.x'') [js ''params'', js ''x'']) (EConst (CInt256 5)))"
  by code_simp

text \<open>
  C37: Every accepted expression is within the limits of the specification: depth at most 10, at most 100 nodes, static cost at most 1000; and
  the cost the parser accumulates is the price list summed over the tree, whatever the order of evaluation and the data.
\<close>

theorem dsl_parse_bounds:
  assumes "parseExpression input sc v = Inr e"
  shows "expr_depth e \<le> 10 \<and> expr_nodes e \<le> 100 \<and> expr_cost e \<le> 1000 \<and> expressionCost input sc v = Inr (expr_cost e)"
  using assms by (rule parse_bounds)

theorem dsl_parse_bounds_witness:
  "expressionCost sample_dsl Precondition V1_1 = Inr 5"
  using dsl_parse_bounds [OF sample_dsl_parse] by simp

text \<open>
  C38: Scope safety: an accepted expression reads only the roots its scope and version admit - state.before and state.after only in version 1.2
  post-conditions and invariants, capability and signatures only in gates, action literals and gate operators only in version 1.2 gates and only
  registered actions - with paths within the depth limit.
\<close>

theorem dsl_scope_safety:
  assumes "parseExpression input sc v = Inr e"
  shows "expr_ok sc v e"
  using assms by (rule parse_scoped)

theorem dsl_scope_safety_witness:
  "expr_ok Precondition V1_1 (ECmp Lt (EVar (js ''params.x'') [js ''params'', js ''x'']) (EConst (CInt256 5)))"
  using dsl_scope_safety [OF sample_dsl_parse] .

end
