(* ===== verification/Dsl_Eval_Props.thy ===== *)
theory Dsl_Eval_Props
  imports Dsl_Props
begin

text \<open>
  Evaluation: the values it can produce, its integer arithmetic against the mathematical one, the order of faults in
  \<open>and\<close> and \<open>or\<close>, and when it returns an outcome.
\<close>

section \<open>Arithmetic\<close>

text \<open>The specification: exact results, truncated quotient, remainder between 0 and the absolute value of the divisor.\<close>

definition arith_spec :: "arith_op \<Rightarrow> int \<Rightarrow> int \<Rightarrow> int \<Rightarrow> bool" where
  "arith_spec op l r i \<longleftrightarrow>
     (case op of
        Add \<Rightarrow> i = l + r
      | Sub \<Rightarrow> i = l - r
      | Mul \<Rightarrow> i = l * r
      | Div \<Rightarrow> r \<noteq> 0 \<and> i = sgn l * sgn r * (\<bar>l\<bar> div \<bar>r\<bar>)
      | Mod \<Rightarrow> r \<noteq> 0 \<and> i = l mod \<bar>r\<bar>)"

lemma euclideanMod_eq: "r \<noteq> 0 \<Longrightarrow> euclideanMod l r = l mod \<bar>r\<bar>"
proof -
  assume r: "r \<noteq> 0"
  have s: "l smod r = sgn l * (\<bar>l\<bar> mod \<bar>r\<bar>)" by (simp add: signed_modulo_int_def)
  have b: "0 \<le> \<bar>l\<bar> mod \<bar>r\<bar>" "\<bar>l\<bar> mod \<bar>r\<bar> < \<bar>r\<bar>" using r by simp_all
  show ?thesis
  proof (cases "0 \<le> l")
    case True
    then have "l smod r = l mod \<bar>r\<bar>" by (cases "l = 0") (simp_all add: s)
    moreover have "0 \<le> l mod \<bar>r\<bar>" using r by simp
    ultimately show ?thesis by (simp only: euclideanMod_def Let_def) simp
  next
    case False
    then have m: "l smod r = - ((- l) mod \<bar>r\<bar>)" by (simp add: s)
    have "l mod \<bar>r\<bar> = (if (- l) mod \<bar>r\<bar> = 0 then 0 else \<bar>r\<bar> - (- l) mod \<bar>r\<bar>)"
      using zmod_zminus1_eq_if [of "- l" "\<bar>r\<bar>"] by simp
    with m b False show ?thesis by (simp add: euclideanMod_def Let_def)
  qed
qed

lemma sdiv_range:
  assumes "inInt256Range l" "r \<noteq> 0" "\<not> (l = INT256_MIN \<and> r = -1)"
  shows "inInt256Range (l sdiv r)"
proof -
  have q: "\<bar>l sdiv r\<bar> \<le> \<bar>l\<bar> div \<bar>r\<bar>"
    using assms(2) by (simp add: signed_divide_int_def abs_mult sgn_mult abs_sgn_eq pos_imp_zdiv_nonneg_iff)
  have unit: "l sdiv 1 = l" "l sdiv -1 = - l"
    by (cases l "0 :: int" rule: linorder_cases; simp add: signed_divide_int_def)+
  consider "r = 1" | "r = -1" | "2 \<le> \<bar>r\<bar>" using assms(2) by linarith
  then show ?thesis
  proof cases
    case 3
    have "\<bar>l\<bar> div \<bar>r\<bar> \<le> \<bar>l\<bar> div 2" by (rule zdiv_mono2) (use 3 in simp_all)
    moreover have "\<bar>l\<bar> \<le> 2 ^ 255" using assms(1) by (auto simp: inInt256Range_def INT256_MIN_def INT256_MAX_def abs_le_iff)
    ultimately have "\<bar>l sdiv r\<bar> \<le> 2 ^ 254" using q by simp
    then have "l sdiv r \<le> 2 ^ 254" "- (l sdiv r) \<le> 2 ^ 254" by linarith+
    then show ?thesis by (simp add: inInt256Range_def INT256_MIN_def INT256_MAX_def)
  qed (use assms in \<open>auto simp: unit inInt256Range_def INT256_MIN_def INT256_MAX_def\<close>)
qed

lemma arith_correct:
  assumes "inInt256Range l" "inInt256Range r"
  shows "arith op l r = Inr i \<longleftrightarrow> arith_spec op l r i \<and> inInt256Range i"
proof (cases op)
  case Div
  have "sgn l * sgn r * (\<bar>l\<bar> div \<bar>r\<bar>) = l sdiv r" by (simp add: signed_divide_int_def sgn_mult)
  moreover have "\<not> inInt256Range (INT256_MIN sdiv -1)"
    by (simp add: signed_divide_int_def inInt256Range_def INT256_MIN_def INT256_MAX_def)
  ultimately show ?thesis using Div sdiv_range [OF assms(1)] by (auto simp: arith_spec_def)
next
  case Mod
  have "inInt256Range (l mod \<bar>r\<bar>)" if "r \<noteq> 0"
  proof -
    have "0 \<le> l mod \<bar>r\<bar>" "l mod \<bar>r\<bar> < \<bar>r\<bar>" "\<bar>r\<bar> \<le> 2 ^ 255" using that assms(2)
      by (auto simp: inInt256Range_def INT256_MIN_def INT256_MAX_def abs_le_iff)
    then show ?thesis by (simp add: inInt256Range_def INT256_MIN_def INT256_MAX_def)
  qed
  with Mod show ?thesis by (auto simp: arith_spec_def euclideanMod_eq)
qed (auto simp: arith_spec_def checkRange_def inInt256Range_def)

text \<open>
  C39: DSL integer arithmetic is exact: on int256 operands an operation returns a number exactly when the mathematical result (sum, difference,
  product, quotient truncated toward zero, remainder between 0 and the absolute value of the divisor) exists and lies in the int256 range, and then
  it returns that result; there is no wrap-around.
\<close>

theorem dsl_arithmetic_exact:
  assumes "inInt256Range l" and "inInt256Range r"
  shows "arith op l r = Inr i \<longleftrightarrow> arith_spec op l r i \<and> inInt256Range i"
  using assms by (rule arith_correct)

theorem dsl_arithmetic_exact_witness:
  "arith Mod (-7) 5 = Inr 3 \<and> arith Mul (2 ^ 200) (2 ^ 100) \<noteq> Inr (2 ^ 300)"
  using dsl_arithmetic_exact [of "-7" 5 Mod 3] dsl_arithmetic_exact [of "2 ^ 200" "2 ^ 100" Mul "2 ^ 300"]
  by (simp add: arith_spec_def inInt256Range_def INT256_MIN_def INT256_MAX_def)

section \<open>The values evaluation produces\<close>

text \<open>Collections of the engine have fewer than \<open>2 ^ 32\<close> elements.\<close>

fun value_ok :: "host \<Rightarrow> dsl_value \<Rightarrow> bool" where
  "value_ok H (VInt i) \<longleftrightarrow> inInt256Range i"
| "value_ok H (VString s) \<longleftrightarrow> host_nfc H s = s"
| "value_ok H (VBytes32 h) \<longleftrightarrow> BYTES32_RE h \<and> normal_bytes32 h = h"
| "value_ok H (VAddress a) \<longleftrightarrow> isCanonicalAddress a"
| "value_ok H (VList xs) \<longleftrightarrow> length xs < 2 ^ 32 \<and> (\<forall>x \<in> set xs. value_ok H x)"
| "value_ok H (VMap es) \<longleftrightarrow> length es < 2 ^ 32 \<and> distinct (map fst es) \<and> (\<forall>e \<in> set es. value_ok H (snd e))"
| "value_ok H _ \<longleftrightarrow> True"

fun sized :: "json \<Rightarrow> bool" where
  "sized (JArr xs) \<longleftrightarrow> length xs < 2 ^ 32 \<and> (\<forall>x \<in> set xs. sized x)"
| "sized (JObj ob) \<longleftrightarrow> length ob < 2 ^ 32 \<and> (\<forall>kv \<in> set ob. sized (snd kv))"
| "sized _ \<longleftrightarrow> True"

definition lower_unit :: "16 word \<Rightarrow> 16 word" where
  "lower_unit c = (if 0x41 \<le> c \<and> c \<le> 0x46 then c + 0x20 else c)"

definition hex_unit :: "16 word \<Rightarrow> bool" where
  "hex_unit c \<longleftrightarrow> is_digit c \<or> (0x61 \<le> c \<and> c \<le> 0x66) \<or> (0x41 \<le> c \<and> c \<le> 0x46)"

lemma lower_units_checked:
  "list_all (\<lambda>n. hex_unit (word_of_nat n) \<longrightarrow> hex_unit (lower_unit (word_of_nat n)) \<and>
     lower_unit (lower_unit (word_of_nat n)) = lower_unit (word_of_nat n)) [0..<0x67]"
  by code_simp

lemma lower_unit_facts:
  assumes "hex_unit c"
  shows "hex_unit (lower_unit c)" "lower_unit (lower_unit c) = lower_unit c"
proof -
  have "c \<le> 0x66" using assms unfolding hex_unit_def is_digit_def by (auto intro: order_trans)
  then have n: "unat c \<in> set [0..<0x67]" by (simp add: word_le_nat_alt)
  show "hex_unit (lower_unit c)" "lower_unit (lower_unit c) = lower_unit c"
    using lower_units_checked [unfolded list_all_iff, rule_format, OF n] assms by simp_all
qed

lemma BYTES32_RE_units: "BYTES32_RE s \<longleftrightarrow> take 2 s = js ''0x'' \<and> length s = 66 \<and> list_all hex_unit (drop 2 s)"
  by (simp add: BYTES32_RE_def hex_unit_def [abs_def])

lemma lower_hex_map: "lower_hex = map lower_unit"
  by (simp add: lower_hex_def lower_unit_def [abs_def])

lemma js_0x: "js ''0x'' = [0x30, 0x78]"
  by (simp add: js_def)

lemma normal_bytes32_ok:
  assumes "BYTES32_RE s"
  shows "BYTES32_RE (normal_bytes32 s) \<and> normal_bytes32 (normal_bytes32 s) = normal_bytes32 s"
proof -
  let ?t = "drop 2 s"
  have t: "length ?t = 64" "\<forall>c \<in> set ?t. hex_unit c"
    using assms by (simp_all add: BYTES32_RE_units list_all_iff)
  have n: "normal_bytes32 s = [0x30, 0x78] @ map lower_unit ?t" by (simp add: normal_bytes32_def lower_hex_map js_0x)
  have d: "drop 2 (normal_bytes32 s) = map lower_unit ?t" by (simp add: n)
  have "map lower_unit (map lower_unit ?t) = map lower_unit ?t" using t(2) lower_unit_facts(2) by simp
  then have "normal_bytes32 (normal_bytes32 s) = normal_bytes32 s"
    unfolding normal_bytes32_def [of "normal_bytes32 s"] d lower_hex_map by (simp add: n js_0x)
  moreover have "\<forall>c \<in> set (map lower_unit ?t). hex_unit c" using t(2) lower_unit_facts(1) by simp
  then have "BYTES32_RE (normal_bytes32 s)"
    unfolding BYTES32_RE_units d list_all_iff using t(1) by (simp add: n js_0x)
  ultimately show ?thesis by blast
qed

lemma makers_ok:
  "makeInt256 i = Inr v \<Longrightarrow> value_ok H v" "makeBytes32 s = Inr v \<Longrightarrow> value_ok H v" "makeAddress s = Inr v \<Longrightarrow> value_ok H v"
  "host_ok H \<Longrightarrow> makeString H s = Inr v \<Longrightarrow> value_ok H v"
  using normal_bytes32_ok
  by (auto simp: makeInt256_def makeBytes32_def makeAddress_def makeString_def host_ok_def split: if_splits sum.splits)

lemma constValue_ok: "host_ok H \<Longrightarrow> constValue H c = Inr v \<Longrightarrow> value_ok H v"
  by (cases c) (auto dest: makers_ok)

lemma map_res_value:
  assumes "map_res f xs = Inr ys"
  shows "length ys = length xs" "y \<in> set ys \<Longrightarrow> \<exists>x \<in> set xs. f x = Inr y"
proof -
  from assms have "list_all2 (\<lambda>x y. f x = Inr y) xs ys" by (simp add: map_res_Inr)
  then show "length ys = length xs" "y \<in> set ys \<Longrightarrow> \<exists>x \<in> set xs. f x = Inr y"
    by (auto simp: list_all2_conv_all_nth in_set_conv_nth Bex_def)
qed

lemma map_res_keys:
  "map_res (\<lambda>kv. and_then (f (snd kv)) (\<lambda>v. Inr (fst kv, v))) xs = Inr ys \<Longrightarrow> map fst ys = map fst xs"
  by (induction xs arbitrary: ys) auto

lemma materialize_ok:
  "host_ok H \<Longrightarrow> wf_json j \<Longrightarrow> sized j \<Longrightarrow> materialize H j = Inr v \<Longrightarrow> value_ok H v"
proof (induction H j arbitrary: v rule: materialize.induct)
  case (4 H n)
  then show ?case by (cases n) (auto dest: makers_ok)
next
  case (5 H s)
  then show ?case by (cases "classifyString s") (auto dest: makers_ok)
next
  case (6 H xs)
  then obtain vs where vs: "map_res (materialize H) xs = Inr vs" "v = VList vs" by auto
  have "value_ok H y" if "y \<in> set vs" for y
    using map_res_value(2) [OF vs(1) that] 6 by auto
  with map_res_value(1) [OF vs(1)] vs(2) 6 show ?case by simp
next
  case (7 H ob)
  let ?f = "\<lambda>kv. and_then (materialize H (snd kv)) (\<lambda>v. Inr (fst kv, v))"
  from 7 obtain es where es: "map_res ?f ob = Inr es" "v = VMap es" by auto
  have "value_ok H (snd y)" if "y \<in> set es" for y
    using map_res_value(2) [OF es(1) that] 7 by auto
  with map_res_value(1) [OF es(1)] map_res_keys [OF es(1)] es(2) 7 show ?case by simp
qed (auto dest: makers_ok)

lemma walk_ok: "walk j path = Inr k \<Longrightarrow> wf_json j \<Longrightarrow> sized j \<Longrightarrow> wf_json k \<and> sized k"
proof (induction j path rule: walk.induct)
  case (2 cur seg rest)
  then obtain ob v where ob: "cur = JObj ob" "js_get seg ob = Some v" "walk v rest = Inr k"
    by (auto split: json.splits option.splits)
  have "wf_json v" using wf_json_member ob 2 by simp
  moreover have "sized v"
    using ob(2) "2.prems" ob(1) by (auto simp: js_get_def dest!: map_of_SomeD split: option.splits if_splits)
  ultimately show ?case using 2 ob by blast
qed simp

definition bindings_ok :: "bindings \<Rightarrow> bool" where
  "bindings_ok b \<longleftrightarrow> (\<forall>j \<in> \<Union> (set_option ` {b_state b, b_before b, b_after b, b_params b, b_capability b, b_signatures b}).
     wf_json j \<and> sized j)"

lemma resolvePath_ok:
  assumes "host_ok H" "bindings_ok b" "resolvePath H path b sc = Inr v"
  shows "value_ok H v"
proof -
  from assms(3) obtain j rest k where j: "resolve_base path b sc = Inr (Some j, rest)" and k: "walk j rest = Inr k"
    and v: "materialize H k = Inr v"
    by (auto simp: resolvePath_def split: option.splits)
  have "j \<in> \<Union> (set_option ` {b_state b, b_before b, b_after b, b_params b, b_capability b, b_signatures b})"
    using j by (auto simp: resolve_base_def Let_def split: if_splits)
  with assms(2) have "wf_json j" "sized j" by (auto simp: bindings_ok_def)
  with walk_ok [OF k] materialize_ok [OF assms(1) _ _ v] show ?thesis by blast
qed

lemma registered_ascii_action: "isRegisteredAction a \<Longrightarrow> is_ascii a"
proof -
  have "list_all is_ascii REGISTERED_ACTIONS"
    by (simp add: REGISTERED_ACTIONS_def ACTION_TAXONOMY_def js_ascii)
  then show "isRegisteredAction a \<Longrightarrow> is_ascii a" by (auto simp: isRegisteredAction_def list_all_iff)
qed

fun bool_expr :: "expr \<Rightarrow> bool" where
  "bool_expr (EEq _ _ _) = True" | "bool_expr (ECmp _ _ _) = True" | "bool_expr (EBool _ _) = True"
| "bool_expr (ENot _) = True" | "bool_expr (EContainsKey _ _) = True" | "bool_expr (ERequiresScope _ _) = True"
| "bool_expr (EIsOwnerRequired _) = True" | "bool_expr _ = False"

fun int_expr :: "expr \<Rightarrow> bool" where
  "int_expr (EArith _ _ _) = True" | "int_expr (ESize _) = True" | "int_expr _ = False"

lemma filter_head: "filter P xs = y # ys \<Longrightarrow> P y"
  by (auto simp: filter_eq_Cons_iff)

lemma no_fault [simp]: "\<not> escapes (Inr v)" "\<not> has_phase p (Inr v)"
  by (simp_all add: escapes_def has_phase_def)

lemma evalBoolean_bool: "evalBoolean op rs = Inr v \<Longrightarrow> \<exists>x. v = VBool x"
  by (auto simp: evalBoolean_def split: list.splits dest!: filter_head)

lemma bool_expr_value: "bool_expr e \<Longrightarrow> evalNode H b sc e = Inr v \<Longrightarrow> \<exists>x. v = VBool x"
proof (cases e)
  case (EContainsKey m k)
  assume "evalNode H b sc e = Inr v"
  with EContainsKey obtain u where u: "evalNode H b sc m = Inr u" by auto
  with EContainsKey \<open>evalNode H b sc e = Inr v\<close> show "\<exists>x. v = VBool x" by (cases u) auto
qed (auto dest: evalBoolean_bool)

lemma int_expr_value: "int_expr e \<Longrightarrow> evalNode H b sc e = Inr v \<Longrightarrow> \<exists>i. v = VInt i"
proof (cases e)
  case (ESize x)
  assume e: "evalNode H b sc e = Inr v"
  with ESize obtain u where u: "evalNode H b sc x = Inr u" by auto
  with ESize e show "\<exists>i. v = VInt i" by (cases u) auto
qed auto

lemma requireInt_Inr: "requireInt v = Inr i \<longleftrightarrow> v = VInt i"
  by (cases v) (auto simp: requireInt_def)

lemma bool_node_ok: "evalNode H b sc e = Inr v \<Longrightarrow> bool_expr e \<Longrightarrow> value_ok H v"
  using bool_expr_value [of e H b sc v] by auto

lemma evalNode_ok:
  assumes "host_ok H" "bindings_ok b"
  shows "expr_ok sc w e \<Longrightarrow> evalNode H b sc e = Inr v \<Longrightarrow> value_ok H v"
proof (induction e arbitrary: v)
  case (EConst c)
  then show ?case using constValue_ok assms by auto
next
  case (EVar raw path)
  then show ?case using resolvePath_ok assms by auto
next
  case (EAction a)
  then show ?case using registered_ascii_action assms by (auto simp: host_ok_def)
next
  case (EArith op l r)
  then obtain i j k where "evalNode H b sc l = Inr (VInt i)" "evalNode H b sc r = Inr (VInt j)" "arith op i j = Inr k" "v = VInt k"
    by (auto simp: requireInt_Inr)
  with EArith arith_correct [of i j op k] show ?case by fastforce
next
  case (ESize e)
  then obtain u where u: "evalNode H b sc e = Inr u" by auto
  with ESize have "value_ok H u" by auto
  with u ESize.prems show ?case
    by (cases u) (auto simp: inInt256Range_def INT256_MIN_def INT256_MAX_def)
qed (erule bool_node_ok, simp)+

lemma sample_bindings_ok: "bindings_ok (no_bindings\<lparr>b_params := Some (JObj [(js ''x'', JInt 3)])\<rparr>)"
  by (simp add: bindings_ok_def no_bindings_def)

text \<open>
  C25: Type soundness of evaluation: every value an accepted expression evaluates to is well formed - integers in the int256 range, strings in NFC,
  canonical addresses, normalised 32-byte hex, collections without duplicate keys - and the boolean operators give booleans, the arithmetic ones integers.
\<close>

theorem dsl_type_soundness:
  assumes "host_ok H" "bindings_ok b" "expr_ok sc w e" "evalNode H b sc e = Inr v"
  shows "value_ok H v \<and> (bool_expr e \<longrightarrow> (\<exists>x. v = VBool x)) \<and> (int_expr e \<longrightarrow> (\<exists>i. v = VInt i))"
  using evalNode_ok [OF assms] bool_expr_value [OF _ assms(4)] int_expr_value [OF _ assms(4)] by blast

theorem dsl_type_soundness_witness:
  "value_ok plain_host (VInt 8)"
proof -
  let ?b = "no_bindings\<lparr>b_params := Some (JObj [(js ''x'', JInt 3)])\<rparr>"
  let ?e = "EArith Add (EVar (js ''params.x'') [js ''params'', js ''x'']) (EConst (CInt256 5))"
  have "evalNode plain_host ?b Precondition ?e = Inr (VInt 8)" by code_simp
  moreover have "expr_ok Precondition V1_1 ?e" by (simp add: path_ok_def is_bracketed_def segment_def)
  ultimately show ?thesis using dsl_type_soundness [OF plain_host_ok sample_bindings_ok] by blast
qed

section \<open>Faults in \<open>and\<close> and \<open>or\<close>\<close>

text \<open>The arguments returned booleans or threw a \<open>DslError\<close> of one of the two phases.\<close>

definition plain_result :: "dsl_value res \<Rightarrow> bool" where
  "plain_result r \<longleftrightarrow> (\<exists>x. r = Inr (VBool x)) \<or> has_phase ERROR r \<or> has_phase VALIDATION_ERROR r"

lemma plain_escapes: "plain_result r \<Longrightarrow> \<not> escapes r"
  by (auto simp: plain_result_def escapes_def has_phase_def is_dsl_def split: sum.splits exn.splits)

lemma filter_first: "x \<in> set xs \<Longrightarrow> P x \<Longrightarrow> \<exists>y ys. filter P xs = y # ys \<and> P y \<and> y \<in> set xs"
  by (induction xs) auto

lemma combine_all: "foldl (\<lambda>acc b. acc \<and> b) a bs \<longleftrightarrow> a \<and> (\<forall>b \<in> set bs. b)" "foldl (\<lambda>acc b. acc \<or> b) a bs \<longleftrightarrow> a \<or> (\<exists>b \<in> set bs. b)"
  by (induction bs arbitrary: a) auto

lemma combine_eq: "combine op bs \<longleftrightarrow> (if op = And then \<forall>b \<in> set bs. b else \<exists>b \<in> set bs. b)"
  by (cases "op = And") (simp_all add: combine_def combine_all)

definition bool_of :: "dsl_value res \<Rightarrow> bool res" where
  "bool_of r = (case r of Inr v \<Rightarrow> requireBool v | Inl _ \<Rightarrow> Inl TypeError)"

lemma evalBoolean_bool_of:
  "filter escapes rs = [] \<Longrightarrow> filter (has_phase ERROR) rs = [] \<Longrightarrow> filter (has_phase VALIDATION_ERROR) rs = [] \<Longrightarrow>
    evalBoolean op rs = and_then (map_res bool_of rs) (\<lambda>bs. Inr (VBool (combine op bs)))"
  by (simp add: evalBoolean_def bool_of_def [abs_def])

lemma map_res_bools:
  "\<forall>r \<in> set rs. \<exists>x. r = Inr (VBool x) \<Longrightarrow> \<exists>bs. map_res bool_of rs = Inr bs \<and> rs = map (\<lambda>x. Inr (VBool x)) bs"
proof (induction rs)
  case (Cons r rs)
  then obtain x bs where "r = Inr (VBool x)" "map_res bool_of rs = Inr bs" "rs = map (\<lambda>x. Inr (VBool x)) bs" by auto
  moreover have "bool_of (Inr (VBool x)) = Inr x" by (simp add: bool_of_def requireBool_def)
  ultimately show ?case by (intro exI [of _ "x # bs"]) simp
qed simp

lemma bool_faults:
  assumes "\<forall>r \<in> set rs. plain_result r"
  shows "\<exists>r \<in> set rs. has_phase ERROR r \<Longrightarrow> has_phase ERROR (evalBoolean op rs)"
    and "\<forall>r \<in> set rs. \<not> has_phase ERROR r \<Longrightarrow> \<exists>r \<in> set rs. has_phase VALIDATION_ERROR r \<Longrightarrow>
      has_phase VALIDATION_ERROR (evalBoolean op rs)"
    and "\<forall>r \<in> set rs. \<exists>x. r = Inr (VBool x) \<Longrightarrow>
      evalBoolean op rs = Inr (VBool (if op = And then \<forall>r \<in> set rs. r \<noteq> Inr (VBool False) else \<exists>r \<in> set rs. r = Inr (VBool True)))"
proof -
  have e: "filter escapes rs = []" using assms plain_escapes by (auto simp: filter_empty_conv)
  show "has_phase ERROR (evalBoolean op rs)" if x: "\<exists>r \<in> set rs. has_phase ERROR r"
  proof -
    from x filter_first [of _ rs "has_phase ERROR"] obtain y ys where "filter (has_phase ERROR) rs = y # ys" "has_phase ERROR y" by blast
    with e show ?thesis by (simp add: evalBoolean_def)
  qed
  show "has_phase VALIDATION_ERROR (evalBoolean op rs)"
    if n: "\<forall>r \<in> set rs. \<not> has_phase ERROR r" and x: "\<exists>r \<in> set rs. has_phase VALIDATION_ERROR r"
  proof -
    from x filter_first [of _ rs "has_phase VALIDATION_ERROR"] obtain y ys
      where "filter (has_phase VALIDATION_ERROR) rs = y # ys" "has_phase VALIDATION_ERROR y" by blast
    moreover have "filter (has_phase ERROR) rs = []" using n by (simp add: filter_empty_conv)
    ultimately show ?thesis using e by (simp add: evalBoolean_def)
  qed
  show "evalBoolean op rs = Inr (VBool (if op = And then \<forall>r \<in> set rs. r \<noteq> Inr (VBool False) else \<exists>r \<in> set rs. r = Inr (VBool True)))"
    if b: "\<forall>r \<in> set rs. \<exists>x. r = Inr (VBool x)"
  proof -
    have "filter (has_phase p) rs = []" for p using b by (auto simp: filter_empty_conv)
    moreover obtain bs where bs: "map_res bool_of rs = Inr bs" "rs = map (\<lambda>x. Inr (VBool x)) bs" using map_res_bools [OF b] by blast
    ultimately have "evalBoolean op rs = Inr (VBool (combine op bs))" using e by (simp add: evalBoolean_bool_of)
    moreover have "(\<forall>r \<in> set rs. r \<noteq> Inr (VBool False)) \<longleftrightarrow> (\<forall>b \<in> set bs. b)"
      "(\<exists>r \<in> set rs. r = Inr (VBool True)) \<longleftrightarrow> (\<exists>b \<in> set bs. b)" unfolding bs(2) by auto
    ultimately show ?thesis by (simp add: combine_eq)
  qed
qed

text \<open>
  and / or evaluate every argument: when each argument gives a boolean or a fault, a fault of phase ERROR anywhere makes the result an ERROR,
  otherwise a VALIDATION_ERROR anywhere makes it a VALIDATION_ERROR, otherwise the result is the conjunction or disjunction of the arguments - so
  the outcome does not depend on their order.
\<close>

theorem dsl_boolean_order_independent:
  assumes "\<forall>r \<in> set (map (evalNode H b sc) args). plain_result r"
  shows "if \<exists>e \<in> set args. has_phase ERROR (evalNode H b sc e) then has_phase ERROR (evalNode H b sc (EBool op args))
    else if \<exists>e \<in> set args. has_phase VALIDATION_ERROR (evalNode H b sc e)
      then has_phase VALIDATION_ERROR (evalNode H b sc (EBool op args))
    else evalNode H b sc (EBool op args) =
      Inr (VBool (if op = And then \<forall>e \<in> set args. evalNode H b sc e \<noteq> Inr (VBool False)
                  else \<exists>e \<in> set args. evalNode H b sc e = Inr (VBool True)))"
proof -
  let ?rs = "map (evalNode H b sc) args"
  note f = bool_faults [OF assms, of op]
  have "\<forall>r \<in> set ?rs. \<exists>x. r = Inr (VBool x)"
    if "\<not> (\<exists>e \<in> set args. has_phase ERROR (evalNode H b sc e))" "\<not> (\<exists>e \<in> set args. has_phase VALIDATION_ERROR (evalNode H b sc e))"
    using assms that by (auto simp: plain_result_def)
  then show ?thesis using f by (auto simp: image_iff intro: rev_bexI)
qed

theorem dsl_boolean_order_independent_witness:
  "has_phase ERROR (evalNode plain_host no_bindings Precondition
     (EBool And [EConst (CBool True), EArith Div (EConst (CInt256 1)) (EConst (CInt256 0)), EConst (CInt256 (2 ^ 255))]))"
proof -
  let ?args = "[EConst (CBool True), EArith Div (EConst (CInt256 1)) (EConst (CInt256 0)), EConst (CInt256 (2 ^ 255))]"
  have v: "evalNode plain_host no_bindings Precondition (EConst (CBool True)) = Inr (VBool True)"
    "has_phase ERROR (evalNode plain_host no_bindings Precondition (EArith Div (EConst (CInt256 1)) (EConst (CInt256 0))))"
    "has_phase VALIDATION_ERROR (evalNode plain_host no_bindings Precondition (EConst (CInt256 (2 ^ 255))))"
    by (simp_all add: makeInt256_def inInt256Range_def INT256_MIN_def INT256_MAX_def requireInt_def has_phase_def)
  then have "\<forall>r \<in> set (map (evalNode plain_host no_bindings Precondition) ?args). plain_result r"
    by (auto simp: plain_result_def simp del: evalNode.simps)
  from dsl_boolean_order_independent [OF this, of And] v show ?thesis by (simp del: evalNode.simps)
qed

text \<open>A value that is no boolean is only seen after the faults, so here the first argument decides, whatever its class.\<close>

lemma null_does_not_dominate:
  "evalBoolean And [Inr (VInt 1), Inr VNull] = validationError ''TYPE_MISMATCH''"
  "evalBoolean And [Inr VNull, Inr (VInt 1)] = runtimeError ''NULL_MISUSE''"
  by (simp_all add: evalBoolean_def requireBool_def)

section \<open>When evaluation returns an outcome\<close>

text \<open>
  \<open>evaluate\<close> turns a \<open>DslError\<close> into an outcome. What else could be thrown comes from comparing strings that are not canonical, and
  from the scope table.
\<close>

definition clean :: "host \<Rightarrow> jstring \<Rightarrow> bool" where
  "clean H s \<longleftrightarrow> (assertAssigned s = Inr () \<longrightarrow> (\<exists>b. utf8NfcBytes H (host_nfc H s) = Inr b))"

fun clean_json :: "host \<Rightarrow> json \<Rightarrow> bool" where
  "clean_json H (JStr s) \<longleftrightarrow> clean H s"
| "clean_json H (JArr xs) \<longleftrightarrow> (\<forall>x \<in> set xs. clean_json H x)"
| "clean_json H (JObj ob) \<longleftrightarrow> (\<forall>kv \<in> set ob. clean_json H (snd kv))"
| "clean_json H _ \<longleftrightarrow> True"

fun clean_value :: "host \<Rightarrow> dsl_value \<Rightarrow> bool" where
  "clean_value H (VString s) \<longleftrightarrow> (\<exists>b. utf8NfcBytes H s = Inr b)"
| "clean_value H (VList xs) \<longleftrightarrow> (\<forall>x \<in> set xs. clean_value H x)"
| "clean_value H (VMap es) \<longleftrightarrow> (\<forall>e \<in> set es. clean_value H (snd e))"
| "clean_value H _ \<longleftrightarrow> True"

fun clean_expr :: "host \<Rightarrow> expr \<Rightarrow> bool" where
  "clean_expr H (EConst c) \<longleftrightarrow> (case c of CString s \<Rightarrow> clean H s | _ \<Rightarrow> True)"
| "clean_expr H (EEq _ l r) \<longleftrightarrow> clean_expr H l \<and> clean_expr H r"
| "clean_expr H (ECmp _ l r) \<longleftrightarrow> clean_expr H l \<and> clean_expr H r"
| "clean_expr H (EArith _ l r) \<longleftrightarrow> clean_expr H l \<and> clean_expr H r"
| "clean_expr H (EContainsKey l r) \<longleftrightarrow> clean_expr H l \<and> clean_expr H r"
| "clean_expr H (EBool _ es) \<longleftrightarrow> (\<forall>e \<in> set es. clean_expr H e)"
| "clean_expr H (ENot e) \<longleftrightarrow> clean_expr H e"
| "clean_expr H (ESize e) \<longleftrightarrow> clean_expr H e"
| "clean_expr H _ \<longleftrightarrow> True"

definition clean_bindings :: "host \<Rightarrow> bindings \<Rightarrow> bool" where
  "clean_bindings H b \<longleftrightarrow>
    (\<forall>j \<in> \<Union> (set_option ` {b_state b, b_before b, b_after b, b_params b, b_capability b, b_signatures b}). clean_json H j)"

text \<open>The faults of evaluation.\<close>

definition eval_fault :: "exn \<Rightarrow> bool" where
  "eval_fault x \<longleftrightarrow> (\<exists>p c. x = Dsl (DslError p c) \<and> p \<noteq> PARSE_ERROR)"

lemma eval_fault_simps [simp]:
  "eval_fault (Dsl (DslError p c)) \<longleftrightarrow> p \<noteq> PARSE_ERROR" "\<not> eval_fault TypeError" "\<not> eval_fault (Canon e)"
  by (simp_all add: eval_fault_def)

lemma makers_clean:
  "makeInt256 i = Inr v \<Longrightarrow> clean_value H v" "makeBytes32 s = Inr v \<Longrightarrow> clean_value H v" "makeAddress s = Inr v \<Longrightarrow> clean_value H v"
  "clean H s \<Longrightarrow> makeString H s = Inr v \<Longrightarrow> clean_value H v"
  by (auto simp: makeInt256_def makeBytes32_def makeAddress_def makeString_def clean_def split: if_splits sum.splits)

lemma makers_dsl:
  "makeInt256 i = Inl x \<Longrightarrow> eval_fault x" "makeBytes32 s = Inl x \<Longrightarrow> eval_fault x" "makeAddress s = Inl x \<Longrightarrow> eval_fault x"
  "makeString H s = Inl x \<Longrightarrow> eval_fault x"
  by (auto simp: makeInt256_def makeBytes32_def makeAddress_def makeString_def split: if_splits sum.splits)

lemma map_res_error: "map_res f xs = Inl x \<Longrightarrow> \<exists>y \<in> set xs. f y = Inl x"
  by (induction xs) (auto simp: and_then_Inl)

lemma materialize_clean: "clean_json H j \<Longrightarrow> materialize H j = Inr v \<Longrightarrow> clean_value H v"
proof (induction H j arbitrary: v rule: materialize.induct)
  case (4 H n)
  then show ?case by (cases n) (auto dest: makers_clean)
next
  case (5 H s)
  then show ?case by (cases "classifyString s") (auto dest: makers_clean)
next
  case (6 H xs)
  then obtain vs where vs: "map_res (materialize H) xs = Inr vs" "v = VList vs" by auto
  have "clean_value H y" if "y \<in> set vs" for y
    using map_res_value(2) [OF vs(1) that] 6 by auto
  with vs(2) show ?case by simp
next
  case (7 H ob)
  let ?f = "\<lambda>kv. and_then (materialize H (snd kv)) (\<lambda>v. Inr (fst kv, v))"
  from 7 obtain es where es: "map_res ?f ob = Inr es" "v = VMap es" by auto
  have "clean_value H (snd y)" if "y \<in> set es" for y
    using map_res_value(2) [OF es(1) that] 7 by auto
  with es(2) show ?case by simp
qed (auto dest: makers_clean)

lemma materialize_dsl: "materialize H j = Inl x \<Longrightarrow> eval_fault x"
proof (induction H j arbitrary: x rule: materialize.induct)
  case (4 H n)
  then show ?case by (cases n) (auto dest: makers_dsl)
next
  case (5 H s)
  then show ?case by (cases "classifyString s") (auto dest: makers_dsl)
next
  case (6 H xs)
  then have "map_res (materialize H) xs = Inl x" by (simp add: and_then_Inl)
  from map_res_error [OF this] obtain y where "y \<in> set xs" "materialize H y = Inl x" by blast
  then show ?case by (rule "6.IH")
next
  case (7 H ob)
  then have "map_res (\<lambda>kv. and_then (materialize H (snd kv)) (\<lambda>v. Inr (fst kv, v))) ob = Inl x" by (simp add: and_then_Inl)
  from map_res_error [OF this] obtain y where "y \<in> set ob" "materialize H (snd y) = Inl x" by (auto simp: and_then_Inl)
  then show ?case by (rule "7.IH")
qed (auto dest: makers_dsl)

lemma walk_clean: "walk j path = Inr k \<Longrightarrow> clean_json H j \<Longrightarrow> clean_json H k"
proof (induction j path rule: walk.induct)
  case (2 cur seg rest)
  then obtain ob v where ob: "cur = JObj ob" "js_get seg ob = Some v" "walk v rest = Inr k"
    by (auto split: json.splits option.splits)
  have "clean_json H v"
    using ob(2) "2.prems" ob(1) by (auto simp: js_get_def dest!: map_of_SomeD split: option.splits if_splits)
  then show ?case using 2 ob by blast
qed simp

lemma walk_dsl: "walk j path = Inl x \<Longrightarrow> eval_fault x"
proof (induction j path rule: walk.induct)
  case (2 cur seg rest)
  then show ?case by (cases cur) (auto split: option.splits)
qed simp

lemma resolve_base_dsl: "resolve_base path b sc = Inl x \<Longrightarrow> eval_fault x"
  by (auto simp: resolve_base_def Let_def split: if_splits)

lemma resolvePath_clean:
  assumes "clean_bindings H b"
  shows "resolvePath H path b sc = Inl x \<Longrightarrow> eval_fault x" "resolvePath H path b sc = Inr v \<Longrightarrow> clean_value H v"
proof -
  show "resolvePath H path b sc = Inl x \<Longrightarrow> eval_fault x"
    by (auto simp: resolvePath_def and_then_Inl split: option.splits dest: resolve_base_dsl walk_dsl materialize_dsl)
  assume "resolvePath H path b sc = Inr v"
  then obtain j rest k where j: "resolve_base path b sc = Inr (Some j, rest)" and k: "walk j rest = Inr k"
    and v: "materialize H k = Inr v"
    by (auto simp: resolvePath_def split: option.splits)
  have "j \<in> \<Union> (set_option ` {b_state b, b_before b, b_after b, b_params b, b_capability b, b_signatures b})"
    using j by (auto simp: resolve_base_def Let_def split: if_splits)
  with assms have "clean_json H j" by (auto simp: clean_bindings_def)
  with walk_clean [OF k] materialize_clean [OF _ v] show "clean_value H v" by blast
qed

lemma valuesEqual_dsl:
  "clean_value H a \<Longrightarrow> clean_value H b \<Longrightarrow> valuesEqual H a b = Inl x \<Longrightarrow> eval_fault x"
  "\<forall>a \<in> set as. clean_value H a \<Longrightarrow> \<forall>b \<in> set bs. clean_value H b \<Longrightarrow> items_equal H as bs = Inl x \<Longrightarrow> eval_fault x"
  "\<forall>a \<in> set es. clean_value H (snd a) \<Longrightarrow> \<forall>b \<in> set fs. clean_value H (snd b) \<Longrightarrow> entries_equal H es fs = Inl x \<Longrightarrow> eval_fault x"
proof (induction H a b and H as bs and H es fs rule: valuesEqual_items_equal_entries_equal.induct)
  case (4 H s b)
  then show ?case by (cases b) (auto simp: and_then_Inl)
next
  case (7 H xs b)
  then show ?case by (cases b) (auto split: if_splits)
next
  case (8 H xs b)
  then show ?case by (cases b) (auto split: if_splits)
next
  case (9 H x xs y ys)
  then show ?case by (auto simp: and_then_Inl split: if_splits)
next
  case (13 H k v xs ys)
  show ?case
  proof (cases "map_of ys k")
    case None
    with 13 show ?thesis by simp
  next
    case (Some w)
    then have "clean_value H w" using "13.prems"(2) by (auto dest!: map_of_SomeD)
    with 13 Some show ?thesis by (auto simp: and_then_Inl split: if_splits)
  qed
qed (auto split: dsl_value.splits)

lemma operand_dsl: "requireInt v = Inl x \<Longrightarrow> eval_fault x" "requireBool v = Inl x \<Longrightarrow> eval_fault x" "keyForm v = Inl x \<Longrightarrow> eval_fault x"
  by (cases v; auto simp: requireInt_def requireBool_def)+

lemma arith_dsl: "arith op l r = Inl x \<Longrightarrow> eval_fault x"
  by (cases op) (auto simp: checkRange_def split: if_splits)

lemma evalBoolean_dsl:
  assumes "\<forall>r \<in> set rs. \<forall>x. r = Inl x \<longrightarrow> eval_fault x" "evalBoolean op rs = Inl x"
  shows "eval_fault x"
proof -
  have "\<not> escapes r" if "r \<in> set rs" for r
  proof (cases r)
    case (Inl y)
    then have "eval_fault y" using assms(1) that by blast
    then obtain p c where "y = Dsl (DslError p c)" by (auto simp: eval_fault_def)
    with Inl show ?thesis by (simp add: escapes_def is_dsl_def)
  qed simp
  then have e: "filter escapes rs = []" by (simp add: filter_empty_conv)
  have first: "eval_fault x" if "filter P rs = Inl x # ys" for P ys
  proof -
    have "Inl x \<in> set (filter P rs)" using that by simp
    then show ?thesis using assms(1) by auto
  qed
  show ?thesis
  proof (cases "filter (has_phase ERROR) rs")
    case (Cons r ys)
    with assms(2) e have "r = Inl x" by (simp add: evalBoolean_def)
    with Cons first show ?thesis by blast
  next
    case Nil
    note n = Nil
    show ?thesis
    proof (cases "filter (has_phase VALIDATION_ERROR) rs")
      case (Cons r ys)
      with assms(2) e n have "r = Inl x" by (simp add: evalBoolean_def)
      with Cons first show ?thesis by blast
    next
      case Nil
      with assms(2) e n have "map_res bool_of rs = Inl x" by (simp add: evalBoolean_bool_of and_then_Inl)
      from map_res_error [OF this] obtain r where r: "r \<in> set rs" "bool_of r = Inl x" by blast
      show ?thesis
      proof (cases r)
        case (Inr v)
        with r(2) operand_dsl(2) show ?thesis by (simp add: bool_of_def)
      next
        case (Inl y)
        with assms(1) r(1) have "eval_fault y" by blast
        then obtain p c where y: "y = Dsl (DslError p c)" "p \<noteq> PARSE_ERROR" by (auto simp: eval_fault_def)
        have "has_phase p r" using Inl y by (simp add: has_phase_def)
        moreover have "\<not> has_phase ERROR r" "\<not> has_phase VALIDATION_ERROR r" using r(1) n Nil by (auto simp: filter_empty_conv)
        ultimately show ?thesis using y(2) by (cases p) auto
      qed
    qed
  qed
qed

lemma evalNode_clean:
  assumes b: "clean_bindings H b" and sc: "sc \<noteq> Gate"
  shows "expr_ok sc w e \<Longrightarrow> clean_expr H e \<Longrightarrow>
    (\<forall>x. evalNode H b sc e = Inl x \<longrightarrow> eval_fault x) \<and> (\<forall>v. evalNode H b sc e = Inr v \<longrightarrow> clean_value H v)"
proof (induction e)
  case (EConst c)
  then show ?case by (cases c) (auto dest: makers_clean makers_dsl)
next
  case (EVar raw path)
  then show ?case using resolvePath_clean [OF b] by auto
next
  case (EEq op l r)
  then show ?case by (auto simp: and_then_Inl dest: valuesEqual_dsl(1))
next
  case (ECmp op l r)
  then show ?case by (auto simp: and_then_Inl dest: operand_dsl)
next
  case (EArith op l r)
  then show ?case by (auto simp: and_then_Inl dest: operand_dsl arith_dsl)
next
  case (EBool op es)
  have "\<forall>r \<in> set (map (evalNode H b sc) es). \<forall>x. r = Inl x \<longrightarrow> eval_fault x" using EBool by auto
  then show ?case using evalBoolean_dsl evalBoolean_bool by fastforce
next
  case (ENot e)
  then show ?case by (auto simp: and_then_Inl dest: operand_dsl)
next
  case (EContainsKey m k)
  show ?case
  proof (cases "evalNode H b sc m")
    case (Inr u)
    with EContainsKey show ?thesis by (cases u) (auto simp: and_then_Inl dest: operand_dsl)
  qed (use EContainsKey in simp)
next
  case (ESize e)
  show ?case
  proof (cases "evalNode H b sc e")
    case (Inr u)
    with ESize show ?thesis by (cases u) auto
  qed (use ESize in simp)
qed (use sc in simp_all)

lemma evaluate_returns:
  assumes "clean_bindings H b" "sc \<noteq> Gate" "expr_ok sc w e" "clean_expr H e"
  shows "\<exists>out. evaluate H e b sc = Inr out"
proof (cases "evalNode H b sc e")
  case (Inr v)
  then show ?thesis by (cases v) (auto simp: evaluate_def)
next
  case (Inl x)
  with evalNode_clean [OF assms] obtain p c where "x = Dsl (DslError p c)" by (auto simp: eval_fault_def)
  with Inl show ?thesis by (simp add: evaluate_def fault_outcome_def)
qed

text \<open>Parsing an expression that is not given as text throws only \<open>DslError\<close>s.\<close>

definition dsl_error_exn :: "exn \<Rightarrow> bool" where
  "dsl_error_exn x \<longleftrightarrow> (\<exists>p c. x = Dsl (DslError p c))"

lemma dsl_error_exn_simp [simp]: "dsl_error_exn (Dsl (DslError p c))"
  by (simp add: dsl_error_exn_def)

lemma guards_exn:
  "addCost c n = Inl x \<Longrightarrow> dsl_error_exn x" "bumpNode c = Inl x \<Longrightarrow> dsl_error_exn x"
  "requireKeys ks ob = Inl x \<Longrightarrow> dsl_error_exn x" "expectArgs ob k = Inl x \<Longrightarrow> dsl_error_exn x"
  "check_root c root br = Inl x \<Longrightarrow> dsl_error_exn x"
  by (auto simp: addCost_def bumpNode_def requireKeys_def expectArgs_def check_root_def Let_def
      split: if_splits option.splits json.splits)

lemma leaves_exn:
  "buildConst j = Inl x \<Longrightarrow> dsl_error_exn x" "buildAction c j = Inl x \<Longrightarrow> dsl_error_exn x" "buildVar c raw = Inl x \<Longrightarrow> dsl_error_exn x"
proof -
  show "buildConst j = Inl x \<Longrightarrow> dsl_error_exn x" by (cases j) (auto simp: buildConst_def split: if_splits jsnum.splits)
  show "buildAction c j = Inl x \<Longrightarrow> dsl_error_exn x" by (cases j) (auto simp: buildAction_def split: if_splits)
  show "buildVar c raw = Inl x \<Longrightarrow> dsl_error_exn x"
    by (auto simp: buildVar_def Let_def and_then_Inl split: if_splits dest: guards_exn)
qed

definition raises_dsl :: "builder \<Rightarrow> bool" where
  "raises_dsl rec \<longleftrightarrow> (\<forall>c j x. rec c j = Inl x \<longrightarrow> dsl_error_exn x)"

lemma raises_dslD: "rec c j = Inl x \<Longrightarrow> raises_dsl rec \<Longrightarrow> dsl_error_exn x"
  by (simp add: raises_dsl_def)

lemma build_list_exn: "build_list rec c as = Inl x \<Longrightarrow> raises_dsl rec \<Longrightarrow> dsl_error_exn x"
  by (induction rec c as rule: build_list.induct) (auto simp: and_then_Inl dest: raises_dslD)

lemma two_one_exn:
  "build_two rec c ob k mk2 = Inl x \<Longrightarrow> raises_dsl rec \<Longrightarrow> dsl_error_exn x"
  "build_one rec c ob k mk1 = Inl x \<Longrightarrow> raises_dsl rec \<Longrightarrow> dsl_error_exn x"
  "build_gate rec c ob n mkl = Inl x \<Longrightarrow> raises_dsl rec \<Longrightarrow> dsl_error_exn x"
  by (auto simp: build_two_def build_one_def build_gate_def and_then_Inl split: if_splits
      dest: guards_exn raises_dslD build_list_exn)

lemma build_bool_exn:
  assumes b: "build_bool rec c ob op = Inl x" and r: "raises_dsl rec"
  shows "dsl_error_exn x"
proof (cases "\<exists>args. js_get (js ''args'') ob = Some (JArr args)")
  case True
  with b r show ?thesis
    by (auto simp: build_bool_def and_then_Inl split: if_splits dest: guards_exn build_list_exn)
next
  case False
  with b show ?thesis
    by (auto simp: build_bool_def and_then_Inl dest: guards_exn split: option.splits json.splits)
qed

lemma buildOp_exn:
  assumes o: "buildOp rec c ob = Inl x" and r: "raises_dsl rec"
  shows "dsl_error_exn x"
proof (cases "\<exists>op. js_get (js ''op'') ob = Some (JStr op)")
  case True
  then obtain op where op: "js_get (js ''op'') ob = Some (JStr op)" by blast
  from o op consider mk k where "build_two rec c ob k mk = Inl x" | mk k where "build_one rec c ob k mk = Inl x"
    | mk n where "build_gate rec c ob n mk = Inl x" | b where "build_bool rec c ob b = Inl x" | "dsl_error_exn x"
    by (auto simp: buildOp_def simp del: One_nat_def js_inject split: option.splits if_splits)
  then show ?thesis
    by cases (erule two_one_exn [OF _ r] build_bool_exn [OF _ r] | assumption)+
next
  case False
  with o show ?thesis by (auto simp: buildOp_def split: option.splits json.splits)
qed

lemma build_exn: "build c j d = Inl x \<Longrightarrow> dsl_error_exn x"
proof (induction c j d arbitrary: x rule: build.induct)
  case (1 c j d)
  show ?case
  proof (cases "d > MAX_DEPTH \<or> (\<forall>c1. bumpNode c \<noteq> Inr c1) \<or> (\<forall>ob. j \<noteq> JObj ob)")
    case True
    then consider "d > MAX_DEPTH" | e where "bumpNode c = Inl e" | c1 where "bumpNode c = Inr c1" "\<forall>ob. j \<noteq> JObj ob"
      by (cases "bumpNode c") auto
    then show ?thesis
    proof cases
      case 3
      with "1.prems" show ?thesis by (cases j; cases "d > MAX_DEPTH") (auto simp: build.simps [of c _ d])
    qed (use "1.prems" guards_exn(2) in \<open>auto simp: build.simps [of c j d] split: if_splits\<close>)
  next
    case False
    then obtain c1 ob where c1: "bumpNode c = Inr c1" and ob: "j = JObj ob" and d: "d \<le> MAX_DEPTH" by auto
    show ?thesis
    proof (cases "discriminants ob = 1 \<and> \<not> has_key ''const'' ob \<and> \<not> has_key ''var'' ob \<and> \<not> has_key ''action'' ob")
      case True
      then have o: "buildOp (\<lambda>c j. build c j (d + 1)) c1 ob = Inl x"
        using "1.prems" c1 d unfolding ob by (simp add: build.simps [of c "JObj ob" d])
      show ?thesis
        by (rule buildOp_exn [OF o]) (use "1.IH" [OF _ c1 ob] d True in \<open>auto simp: raises_dsl_def\<close>)
    next
      case False
      with "1.prems" c1 d show ?thesis unfolding ob
        by (cases "member ''var'' ob")
          (auto simp: build.simps [of c "JObj ob" d] and_then_Inl split: if_splits dest: leaves_exn)
    qed
  qed
qed

lemma run_returns:
  assumes "clean_bindings H b" "sc \<noteq> Gate" "\<forall>s. input \<noteq> JStr s"
    "\<forall>e. parseExpression input sc w = Inr e \<longrightarrow> clean_expr H e"
  shows "\<exists>out. run H input sc w b = Inr out"
proof (cases "parseExpression input sc w")
  case (Inr e)
  then show ?thesis
    using evaluate_returns [OF assms(1,2) parse_scoped [OF Inr]] assms(4) by (simp add: run_def)
next
  case (Inl x)
  have "read_input input = Inr input" using assms(3) by (cases input) (simp_all add: read_input_def)
  with Inl have "build (start_ctx sc w) input 1 = Inl x" by (auto simp: parseExpression_def and_then_Inl)
  from build_exn [OF this] obtain p c where "x = Dsl (DslError p c)" by (auto simp: dsl_error_exn_def)
  with Inl show ?thesis by (simp add: run_def fault_outcome_def)
qed

lemma ascii_clean: "host_ok H \<Longrightarrow> is_ascii s \<Longrightarrow> clean H s"
  by (simp add: clean_def utf8NfcBytes_ascii host_ok_def)

text \<open>
  C40: run is total: for an expression given as a value (not as text), in every scope but the gate scope, over bindings and literals whose assigned
  strings are canonical (no leading byte order mark, well formed after NFC), run returns one of the five outcomes and throws nothing.
\<close>

theorem dsl_run_total:
  assumes "clean_bindings H b" "sc \<noteq> Gate" "\<forall>s. input \<noteq> JStr s"
    and "\<forall>e. parseExpression input sc w = Inr e \<longrightarrow> clean_expr H e"
  shows "\<exists>out. run H input sc w b = Inr out"
  using assms by (rule run_returns)

theorem dsl_run_total_witness:
  "\<exists>out. run plain_host sample_dsl Precondition V1_1
     (no_bindings\<lparr>b_params := Some (JObj [(js ''x'', JStr (js ''abc''))])\<rparr>) = Inr out"
proof (rule dsl_run_total)
  show "clean_bindings plain_host (no_bindings\<lparr>b_params := Some (JObj [(js ''x'', JStr (js ''abc''))])\<rparr>)"
    by (simp add: clean_bindings_def no_bindings_def ascii_clean plain_host_ok js_ascii)
qed (simp_all add: sample_dsl_parse, simp add: sample_dsl_def jop_def)

text \<open>
  Without the hypothesis on strings the doc comment of \<open>run\<close> (\<open>never throws\<close>) does not hold: comparing a string that starts with a byte
  order mark throws the canonical layer's error.
\<close>

lemma equal_boms_throw:
  "valuesEqual H (VString [0xfeff]) (VString [0xfeff]) = event_error ''UTF8_BOM_FORBIDDEN''"
  by (simp add: utf8NfcBytes_def starts_with_bom_def)

text \<open>Nor in a gate: \<open>requires_scope\<close> of an action named like a member of \<open>Object.prototype\<close> raises a \<open>TypeError\<close>.\<close>

lemma gate_type_error:
  "evalNode plain_host b Gate (ERequiresScope (EConst (CString (js ''constructor''))) (EConst (CString (js ''x'')))) = Inl TypeError"
  by (simp add: makeString_def ascii_assigned js_ascii requireString_def requiresScope_prototype plain_host_def)

end
