(* ===== verification/Dsl_Emergency.thy ===== *)
theory Dsl_Emergency
  imports Dsl_Props
begin

text \<open>
  The emergency invariants of \<^verbatim>\<open>dsl/src/emergency.ts\<close>: they parse, and over a state before and a state after they say that
  the developer fund and the NAV did not decrease and that bounded mode is still on.
\<close>

definition after_path :: "string list \<Rightarrow> jstring list" where
  "after_path p = js ''state'' # js ''after'' # map js p"

definition before_path :: "string list \<Rightarrow> jstring list" where
  "before_path p = js ''state'' # js ''before'' # map js p"

abbreviation fund_key :: "string list" where "fund_key \<equiv> [''treasury'', ''developer_fund_balance'']"
abbreviation nav_key :: "string list" where "nav_key \<equiv> [''treasury'', ''nav'']"
abbreviation mode_key :: "string list" where "mode_key \<equiv> [''failure_mode'', ''is_bounded_mode'']"

definition emergency_exprs :: "expr list" where
  "emergency_exprs =
    [ECmp Gte (EVar (js ''state.after.treasury.developer_fund_balance'') (after_path fund_key))
       (EVar (js ''state.before.treasury.developer_fund_balance'') (before_path fund_key)),
     ECmp Gte (EVar (js ''state.after.treasury.nav'') (after_path nav_key))
       (EArith Sub (EVar (js ''state.before.treasury.nav'') (before_path nav_key)) (EConst (CInt256 0))),
     EEq Eq (EVar (js ''state.after.failure_mode.is_bounded_mode'') (after_path mode_key)) (EConst (CBool True))]"

text \<open>The paths are literals: splitting them is computed on the characters.\<close>

fun split_str :: "string \<Rightarrow> string list" where
  "split_str [] = [[]]"
| "split_str (c # r) =
     (if c = CHR ''.'' then [] # split_str r
      else (case split_str r of p # ps \<Rightarrow> (c # p) # ps | [] \<Rightarrow> [[c]]))"

lemma js_Nil: "js [] = []"
  by (simp add: js_def)

lemma in_tl: "x \<in> set (tl xs) \<Longrightarrow> x \<in> set xs"
  by (cases xs) auto

lemma js_Cons: "js (c # r) = word_of_nat (of_char c) # js r"
  by (simp add: js_def)

lemma dot_unit: "word_of_nat (of_char c) = (0x2e :: 16 word) \<longleftrightarrow> c = CHR ''.''"
proof -
  have "(0x2e :: 16 word) = word_of_nat (of_char (CHR ''.''))" by simp
  then show ?thesis by (simp only: code_unit_inject)
qed

lemma split_dots_js: "split_dots (js s) = map js (split_str s)"
  by (induction s) (auto simp: js_Nil js_Cons dot_unit split: list.splits)

lemma tl_split_dots: "[] \<in> set (tl (split_dots r)) \<Longrightarrow> [] \<in> set (tl (split_dots (c # r)))"
  using split_dots_nonempty [of r] by (cases "split_dots r") auto

lemma double_dot_empty: "has_double_dot s \<Longrightarrow> [] \<in> set (tl (split_dots s))"
proof (induction s rule: has_double_dot.induct)
  case (1 c d r)
  then consider "c = 0x2e" "d = 0x2e" | "has_double_dot (d # r)" by auto
  then show ?case by cases (simp, rule tl_split_dots, rule "1.IH")
qed auto

lemma last_dot_empty: "s \<noteq> [] \<Longrightarrow> last s = 0x2e \<Longrightarrow> [] \<in> set (tl (split_dots s))"
proof (induction s)
  case (Cons c s)
  show ?case
  proof (cases "s = []")
    case False
    with Cons show ?thesis by (intro tl_split_dots) simp
  qed (use Cons in simp)
qed simp

lemma plain_path:
  assumes "[] \<notin> set (split_dots raw)"
  shows "\<not> (length raw = 0 \<or> peek raw = Some 0x2e \<or> last raw = 0x2e \<or> has_double_dot raw)"
proof -
  have "raw \<noteq> []" using assms by auto
  moreover have "peek raw \<noteq> Some 0x2e" using assms by (auto simp: peek_Some)
  ultimately show ?thesis using assms double_dot_empty last_dot_empty by (auto dest: in_tl)
qed

lemma build_jvar:
  assumes s: "split_str s = ''state'' # k # p" "[] \<notin> set (split_str s)" "k = ''before'' \<or> k = ''after''" "length p \<le> 5"
    and c: "ctx_scope c = Invariant" "ctx_version c = V1_2" "ctx_nodes c < 100" "ctx_cost c + 2 * (length p + 2) \<le> 1000"
    and d: "d \<le> MAX_DEPTH"
  shows "build c (jvar s) d = Inr (EVar (js s) (js ''state'' # js k # map js p),
    c\<lparr>ctx_nodes := ctx_nodes c + 1, ctx_cost := ctx_cost c + 2 * (length p + 2)\<rparr>)"
proof -
  have sp: "split_dots (js s) = js ''state'' # js k # map js p" using s(1) by (simp add: split_dots_js)
  have "[] \<notin> set (split_dots (js s))" using s(1,2) by (auto simp: sp)
  note plain = plain_path [OF this]
  have br: "is_bracketed (js ''state'' # js k # map js p)" using s(3) by (auto simp: is_bracketed_def segment_def)
  have "buildVar (c\<lparr>ctx_nodes := ctx_nodes c + 1\<rparr>) (js s) = Inr (EVar (js s) (js ''state'' # js k # map js p),
      c\<lparr>ctx_nodes := ctx_nodes c + 1, ctx_cost := ctx_cost c + 2 * (length p + 2)\<rparr>)"
    unfolding buildVar_def if_not_P [OF plain] sp using s(4) c
    by (simp add: Let_def br check_root_def addCost_def MAX_PATH_SEGMENTS_BRACKETED_def MAX_EXPRESSION_COST_def)
  then show ?thesis
    using c(3) d by (simp add: build.simps [of c] jvar_def bumpNode_def MAX_NODES_def discriminants_def has_key_def js_has_def
        proto_keys_def member_def js_get_def Let_def)
qed

lemma state_paths:
  "split_str ''state.after.treasury.developer_fund_balance'' = ''state'' # ''after'' # fund_key"
  "split_str ''state.before.treasury.developer_fund_balance'' = ''state'' # ''before'' # fund_key"
  "split_str ''state.after.treasury.nav'' = ''state'' # ''after'' # nav_key"
  "split_str ''state.before.treasury.nav'' = ''state'' # ''before'' # nav_key"
  "split_str ''state.after.failure_mode.is_bounded_mode'' = ''state'' # ''after'' # mode_key"
  by simp_all

lemma build_state_var:
  assumes "split_str s = ''state'' # k # p" "k = ''before'' \<or> k = ''after''" "p \<in> {fund_key, nav_key, mode_key}"
    and "ctx_scope c = Invariant" "ctx_version c = V1_2" "ctx_nodes c < 100" "ctx_cost c \<le> 100" "d \<le> 10"
  shows "build c (jvar s) d = Inr (EVar (js s) (js ''state'' # js k # map js p),
    c\<lparr>ctx_nodes := ctx_nodes c + 1, ctx_cost := ctx_cost c + 8\<rparr>)"
proof -
  have p: "length p = 2" "[] \<notin> set p" using assms(3) by auto
  then have "[] \<notin> set (split_str s)" using assms(1,2) by auto
  from build_jvar [OF assms(1) this assms(2) _ assms(4,5,6)] p assms(7,8) show ?thesis by (simp add: MAX_DEPTH_def)
qed

lemma build_jop:
  assumes "ctx_nodes c < 100" "d \<le> 10"
  shows "build c (jop op l r) d = buildOp (\<lambda>c j. build c j (d + 1)) (c\<lparr>ctx_nodes := ctx_nodes c + 1\<rparr>)
    [(js ''op'', JStr (js op)), (js ''lhs'', l), (js ''rhs'', r)]"
  using assms
  by (simp add: build.simps [of c "jop op l r"] jop_def [symmetric])
    (simp add: jop_def bumpNode_def MAX_NODES_def MAX_DEPTH_def discriminants_def has_key_def js_has_def proto_keys_def Let_def)

lemma build_two_jop:
  "build_two rec c [(js ''op'', JStr (js op)), (js ''lhs'', l), (js ''rhs'', r)] cost mk =
     and_then (addCost c cost) (\<lambda>c1. and_then (rec c1 l) (\<lambda>(lhs, c2). and_then (rec c2 r) (\<lambda>(rhs, c3). Inr (mk lhs rhs, c3))))"
  by (simp add: build_two_def requireKeys_def has_key_def js_has_def member_def js_get_def)

lemma buildOp_jop:
  "buildOp rec c [(js ''op'', JStr (js ''gte'')), (js ''lhs'', l), (js ''rhs'', r)] =
     build_two rec c [(js ''op'', JStr (js ''gte'')), (js ''lhs'', l), (js ''rhs'', r)] 1 (ECmp Gte)"
  "buildOp rec c [(js ''op'', JStr (js ''sub'')), (js ''lhs'', l), (js ''rhs'', r)] =
     build_two rec c [(js ''op'', JStr (js ''sub'')), (js ''lhs'', l), (js ''rhs'', r)] 1 (EArith Sub)"
  "buildOp rec c [(js ''op'', JStr (js ''eq'')), (js ''lhs'', l), (js ''rhs'', r)] =
     build_two rec c [(js ''op'', JStr (js ''eq'')), (js ''lhs'', l), (js ''rhs'', r)] 1 (EEq Eq)"
  by (simp_all add: buildOp_def js_get_def arith_of_def cmp_of_def)

lemma build_const:
  "ctx_nodes c < 100 \<Longrightarrow> d \<le> 10 \<Longrightarrow> build c (JObj [(js ''const'', JInt 0)]) d = Inr (EConst (CInt256 0), c\<lparr>ctx_nodes := ctx_nodes c + 1\<rparr>)"
  "ctx_nodes c < 100 \<Longrightarrow> d \<le> 10 \<Longrightarrow> build c (JObj [(js ''const'', JBool True)]) d = Inr (EConst (CBool True), c\<lparr>ctx_nodes := ctx_nodes c + 1\<rparr>)"
  by (simp_all add: build.simps [of c] bumpNode_def MAX_NODES_def MAX_DEPTH_def discriminants_def has_key_def js_has_def proto_keys_def Let_def
      member_def js_get_def buildConst_def inInt256Range_def INT256_MIN_def INT256_MAX_def)

lemma emergency_parses:
  "map (\<lambda>j. parseExpression j Invariant V1_2) EMERGENCY_INVARIANTS = map Inr emergency_exprs"
proof -
  have r: "read_input (jop op l r) = Inr (jop op l r)" for op l r by (simp add: read_input_def jop_def)
  have a: "addCost c 1 = Inr (c\<lparr>ctx_cost := ctx_cost c + 1\<rparr>)" if "ctx_cost c < 100" for c
    using that by (simp add: addCost_def MAX_EXPRESSION_COST_def Let_def)
  note vars = build_state_var [OF state_paths(1)] build_state_var [OF state_paths(2)] build_state_var [OF state_paths(3)]
    build_state_var [OF state_paths(4)] build_state_var [OF state_paths(5)]
  show ?thesis
    by (simp add: EMERGENCY_INVARIANTS_def emergency_exprs_def parseExpression_def r start_ctx_def build_jop buildOp_jop
        build_two_jop a vars build_const after_path_def before_path_def del: One_nat_def)
qed

lemma resolve_state_paths:
  "b_after b = Some a \<Longrightarrow> resolvePath H (after_path p) b sc = and_then (walk a (map js p)) (materialize H)"
  "b_before b = Some a \<Longrightarrow> resolvePath H (before_path p) b sc = and_then (walk a (map js p)) (materialize H)"
  by (simp_all add: resolvePath_def resolve_base_def after_path_def before_path_def segment_def)

lemma emergency_eval:
  assumes "b_before b = Some x" "b_after b = Some y"
    and "walk x (map js fund_key) = Inr (JInt f0)" "walk y (map js fund_key) = Inr (JInt f1)"
    and "walk x (map js nav_key) = Inr (JInt n0)" "walk y (map js nav_key) = Inr (JInt n1)"
    and "walk y (map js mode_key) = Inr (JBool m)"
    and "inInt256Range f0" "inInt256Range f1" "inInt256Range n0" "inInt256Range n1"
  shows "map (evalNode H b Invariant) emergency_exprs = map (Inr \<circ> VBool) [f0 \<le> f1, n0 \<le> n1, m]"
proof -
  have z: "makeInt256 0 = Inr (VInt 0)" by (simp add: makeInt256_def inInt256Range_def INT256_MIN_def INT256_MAX_def)
  have n: "checkRange n0 = Inr n0" using assms(10) by (auto simp: checkRange_def inInt256Range_def)
  note after = resolve_state_paths(1) [OF assms(2)] and before = resolve_state_paths(2) [OF assms(1)]
  have v: "resolvePath H (after_path fund_key) b Invariant = Inr (VInt f1)"
    "resolvePath H (before_path fund_key) b Invariant = Inr (VInt f0)"
    "resolvePath H (after_path nav_key) b Invariant = Inr (VInt n1)"
    "resolvePath H (before_path nav_key) b Invariant = Inr (VInt n0)"
    "resolvePath H (after_path mode_key) b Invariant = Inr (VBool m)"
    unfolding after before assms(3-7) by (simp_all add: makeInt256_def assms)
  show ?thesis by (simp add: emergency_exprs_def v requireInt_def z n)
qed

text \<open>
  The injected emergency invariants mean what the constitution says: over a state before and a state after that hold the three quantities, all
  three run to EVALUATION_TRUE exactly when the developer fund and the NAV did not decrease and bounded mode is still on.
\<close>

theorem emergency_invariants_meaning:
  assumes "b_before b = Some x" "b_after b = Some y"
    and "walk x (map js fund_key) = Inr (JInt f0)" "walk y (map js fund_key) = Inr (JInt f1)"
    and "walk x (map js nav_key) = Inr (JInt n0)" "walk y (map js nav_key) = Inr (JInt n1)"
    and "walk y (map js mode_key) = Inr (JBool m)"
    and "inInt256Range f0" "inInt256Range f1" "inInt256Range n0" "inInt256Range n1"
  shows "(\<forall>e \<in> set (effectiveInvariants [] True).
      run H e Invariant V1_2 b = Inr \<lparr>out_code = EVALUATION_TRUE, out_reason = None\<rparr>) \<longleftrightarrow> f0 \<le> f1 \<and> n0 \<le> n1 \<and> m"
proof -
  obtain e1 e2 e3 where e: "EMERGENCY_INVARIANTS = [e1, e2, e3]" by (simp add: EMERGENCY_INVARIANTS_def)
  obtain x1 x2 x3 where x: "emergency_exprs = [x1, x2, x3]" by (simp add: emergency_exprs_def)
  from emergency_parses emergency_eval [OF assms, of H] show ?thesis
    by (simp add: effectiveInvariants_def e x run_def evaluate_def)
qed

definition sample_state :: "int \<Rightarrow> int \<Rightarrow> json" where
  "sample_state f n = JObj [(js ''treasury'', JObj [(js ''developer_fund_balance'', JInt f), (js ''nav'', JInt n)]),
     (js ''failure_mode'', JObj [(js ''is_bounded_mode'', JBool True)])]"

theorem emergency_invariants_meaning_witness:
  "\<not> (\<forall>e \<in> set (effectiveInvariants [] True).
      run plain_host e Invariant V1_2 (no_bindings\<lparr>b_before := Some (sample_state 5 9), b_after := Some (sample_state 5 8)\<rparr>) =
        Inr \<lparr>out_code = EVALUATION_TRUE, out_reason = None\<rparr>)"
  using emergency_invariants_meaning
    [of "no_bindings\<lparr>b_before := Some (sample_state 5 9), b_after := Some (sample_state 5 8)\<rparr>"
      "sample_state 5 9" "sample_state 5 8" 5 5 9 8 True plain_host]
  by (simp add: no_bindings_def sample_state_def js_get_def inInt256Range_def INT256_MIN_def INT256_MAX_def)

end
