(* ===== verification/Cal_Schema.thy ===== *)
theory Cal_Schema
  imports Dsl_Evaluate
begin

text \<open>
  \<^verbatim>\<open>cal/src/schema.ts\<close> and \<^verbatim>\<open>cal/src/hash.ts\<close>: the structural validation of a CAL and its hashes. A \<open>CalError\<close> carries the
  code and the detail. Where a detail prints the rejected value with \<open>String\<close>, \<open>string_of\<close> writes that conversion out; the text of a
  \<open>number\<close> that is not an integer below \<open>10 ^ 21\<close> is not in the model of values and is left empty.
\<close>

section \<open>Errors and guards\<close>

definition calError :: "string \<Rightarrow> jstring option \<Rightarrow> 'a res" where
  "calError code detail = Inl (Cal (CalError code detail))"

definition CAL_VERSION :: jstring where "CAL_VERSION = js ''0.1.0''"
definition UINT64_MAX :: int where "UINT64_MAX = 2 ^ 64 - 1"
definition CAL_UINT256_MAX :: int where "CAL_UINT256_MAX = 2 ^ 256 - 1"

definition HEX_BYTES :: "jstring \<Rightarrow> bool" where
  "HEX_BYTES s \<longleftrightarrow> take 2 s = js ''0x'' \<and> even (length s) \<and>
     list_all (\<lambda>c. is_digit c \<or> (0x61 \<le> c \<and> c \<le> 0x66) \<or> (0x41 \<le> c \<and> c \<le> 0x46)) (drop 2 s)"

definition TOP_LEVEL_KEYS :: "string list" where
  "TOP_LEVEL_KEYS =
    [''cal_version'', ''action'', ''agent_id'', ''nonce'', ''expiration_tick'', ''preconditions'', ''invariants'', ''steps'',
     ''receipt_required'', ''signatures'', ''compatibility_pragma'', ''gas_limit_ptra'']"

definition REQUIRED_FIELDS :: "string list" where
  "REQUIRED_FIELDS =
    [''cal_version'', ''action'', ''agent_id'', ''nonce'', ''expiration_tick'', ''preconditions'', ''invariants'', ''steps'',
     ''receipt_required'', ''signatures'']"

definition STEP_KEYS :: "string list" where "STEP_KEYS = [''verb'', ''params'', ''post_conditions'']"
definition SIG_KEYS :: "string list" where "SIG_KEYS = [''operator_sig'', ''owner_sig'', ''sponsor_sig'']"

definition OWNER_ENVELOPE_KEYS :: "string list" where
  "OWNER_ENVELOPE_KEYS = [''signature'', ''domain'', ''timestamp'', ''workchain'', ''address_hash'']"

definition asObject :: "json option \<Rightarrow> string \<Rightarrow> obj res" where
  "asObject v code = (case v of Some (JObj ob) \<Rightarrow> Inr ob | _ \<Rightarrow> calError code None)"

definition requireUint :: "json option \<Rightarrow> int \<Rightarrow> string \<Rightarrow> int res" where
  "requireUint v limit code =
     (case v of
        Some (JInt i) \<Rightarrow> if i < 0 \<or> i > limit then calError code None else Inr i
      | _ \<Rightarrow> calError code None)"

fun checkUnexpected :: "obj \<Rightarrow> string list \<Rightarrow> string \<Rightarrow> unit res" where
  "checkUnexpected [] allowed code = Inr ()"
| "checkUnexpected ((k, v) # ob) allowed code =
     (if k \<notin> set (map js allowed) then calError code (Some k) else checkUnexpected ob allowed code)"

fun require_keys :: "string list \<Rightarrow> obj \<Rightarrow> string \<Rightarrow> unit res" where
  "require_keys [] ob pre = Inr ()"
| "require_keys (f # fs) ob pre =
     (if \<not> has_key f ob then calError ''MISSING_FIELD'' (Some (js (pre @ f))) else require_keys fs ob pre)"

text \<open>\<open>forEach\<close> with the position.\<close>

fun each :: "(nat \<Rightarrow> 'a \<Rightarrow> unit res) \<Rightarrow> nat \<Rightarrow> 'a list \<Rightarrow> unit res" where
  "each f i [] = Inr ()"
| "each f i (x # xs) = and_then (f i x) (\<lambda>_. each f (Suc i) xs)"

definition field :: "string \<Rightarrow> obj \<Rightarrow> json option" where
  "field k ob = js_get (js k) ob"

text \<open>
  \<open>String(v)\<close>. An object prints as \<open>[object Object]\<close>, unless a member of its own hides \<open>toString\<close>: no member of a JSON value is
  callable, so the conversion raises.
\<close>

fun string_of :: "json \<Rightarrow> jstring res" where
  "string_of JNull = Inr (js ''null'')"
| "string_of (JBool b) = Inr (if b then js ''true'' else js ''false'')"
| "string_of (JInt i) = Inr (dec_int i)"
| "string_of (JNum n) =
     (case n of
        NInt i \<Rightarrow> Inr (if \<bar>i\<bar> < 10 ^ 21 then dec_int i else [])
      | NNegZero \<Rightarrow> Inr (js ''0'')
      | _ \<Rightarrow> Inr [])"
| "string_of (JStr s) = Inr s"
| "string_of (JArr xs) =
     and_then (map_res (\<lambda>x. if x = JNull then Inr [] else string_of x) xs) (\<lambda>ps. Inr (commas ps))"
| "string_of (JObj ob) =
     (if js ''toString'' \<in> fst ` set ob then Inl TypeError else Inr (js ''[object Object]''))"
| "string_of JFun = Inr []"

definition calError_value :: "string \<Rightarrow> json option \<Rightarrow> 'a res" where
  "calError_value code v =
     (case v of
        Some j \<Rightarrow> and_then (string_of j) (\<lambda>d. calError code (Some d))
      | None \<Rightarrow> calError code (Some (js ''undefined'')))"

section \<open>Embedded expressions\<close>

definition unwrap_envelope :: "json \<Rightarrow> (dsl_version \<times> json) res" where
  "unwrap_envelope node =
     (case node of
        JObj ob \<Rightarrow>
          if has_key ''dsl_version'' ob then and_then (parseEnvelope node) (\<lambda>e. Inr (env_version e, env_expr e))
          else Inr (V1_2, node)
      | _ \<Rightarrow> Inr (V1_2, node))"

definition phase_name :: "phase \<Rightarrow> string" where
  "phase_name p = (case p of PARSE_ERROR \<Rightarrow> ''PARSE_ERROR'' | VALIDATION_ERROR \<Rightarrow> ''VALIDATION_ERROR'' | ERROR \<Rightarrow> ''ERROR'')"

text \<open>The envelope is read outside the \<open>try\<close>.\<close>

definition validateEmbeddedDsl :: "json \<Rightarrow> dsl_scope \<Rightarrow> jstring \<Rightarrow> unit res" where
  "validateEmbeddedDsl node sc place =
     and_then (unwrap_envelope node) (\<lambda>(version, e).
       case parseExpression e sc version of
         Inr _ \<Rightarrow> Inr ()
       | Inl (Dsl (DslError p r)) \<Rightarrow>
           calError ''DSL_INVALID'' (Some (place @ js '': '' @ js (phase_name p) @ js ''/'' @ js r))
       | Inl x \<Rightarrow> Inl x)"

section \<open>Signatures\<close>

definition check_hex_sig :: "obj \<Rightarrow> string \<Rightarrow> unit res" where
  "check_hex_sig ob k =
     (if has_key k ob then
        (case field k ob of
           Some (JStr s) \<Rightarrow>
             if HEX_BYTES s then Inr () else calError ''BAD_SIG_BYTES'' (Some (js (''signatures.'' @ k)))
         | _ \<Rightarrow> calError ''BAD_SIG_BYTES'' (Some (js (''signatures.'' @ k))))
      else Inr ())"

definition validate_owner_envelope :: "json option \<Rightarrow> unit res" where
  "validate_owner_envelope v =
     and_then (asObject v ''BAD_OWNER_ENVELOPE'') (\<lambda>env.
     and_then (checkUnexpected env OWNER_ENVELOPE_KEYS ''UNEXPECTED_OWNER_ENVELOPE_FIELD'') (\<lambda>_.
     and_then (require_keys OWNER_ENVELOPE_KEYS env ''signatures.owner_sig.'') (\<lambda>_.
     and_then (case field ''signature'' env of
                 Some (JStr s) \<Rightarrow> if HEX_BYTES s then Inr () else calError ''BAD_SIG_BYTES'' (Some (js ''signatures.owner_sig.signature''))
               | _ \<Rightarrow> calError ''BAD_SIG_BYTES'' (Some (js ''signatures.owner_sig.signature''))) (\<lambda>_.
     and_then (case field ''address_hash'' env of
                 Some (JStr s) \<Rightarrow>
                   if BYTES32_RE s then Inr ()
                   else calError ''BAD_OWNER_ENVELOPE'' (Some (js ''signatures.owner_sig.address_hash (expect 0x + 32 bytes)''))
               | _ \<Rightarrow> calError ''BAD_OWNER_ENVELOPE'' (Some (js ''signatures.owner_sig.address_hash (expect 0x + 32 bytes)''))) (\<lambda>_.
     and_then (case field ''domain'' env of
                 Some (JStr s) \<Rightarrow> if s = [] then calError ''BAD_OWNER_ENVELOPE'' (Some (js ''signatures.owner_sig.domain'')) else Inr ()
               | _ \<Rightarrow> calError ''BAD_OWNER_ENVELOPE'' (Some (js ''signatures.owner_sig.domain''))) (\<lambda>_.
     and_then (requireUint (field ''timestamp'' env) UINT64_MAX ''BAD_OWNER_ENVELOPE'') (\<lambda>_.
       case field ''workchain'' env of
         Some (JInt wc) \<Rightarrow>
           if wc < - (2 ^ 31) \<or> wc > 2 ^ 31 - 1 then calError ''BAD_OWNER_ENVELOPE'' (Some (js ''signatures.owner_sig.workchain (int32)''))
           else Inr ()
       | _ \<Rightarrow> calError ''BAD_OWNER_ENVELOPE'' (Some (js ''signatures.owner_sig.workchain (int32)'')))))))))"

definition validateSignatures :: "json option \<Rightarrow> unit res" where
  "validateSignatures sig =
     and_then (asObject sig ''BAD_SIGNATURES'') (\<lambda>ob.
     and_then (checkUnexpected ob SIG_KEYS ''UNEXPECTED_SIG_FIELD'') (\<lambda>_.
       if \<not> has_key ''operator_sig'' ob then calError ''MISSING_FIELD'' (Some (js ''signatures.operator_sig''))
       else and_then (check_hex_sig ob ''operator_sig'') (\<lambda>_.
       and_then (check_hex_sig ob ''sponsor_sig'') (\<lambda>_.
         if has_key ''owner_sig'' ob then
           (case field ''owner_sig'' ob of
              Some (JStr s) \<Rightarrow> if HEX_BYTES s then Inr () else calError ''BAD_SIG_BYTES'' (Some (js ''signatures.owner_sig''))
            | v \<Rightarrow> validate_owner_envelope v)
         else Inr ()))))"

section \<open>Steps\<close>

definition indexed :: "string \<Rightarrow> nat \<Rightarrow> jstring" where
  "indexed name i = js (name @ ''['') @ dec_nat i @ js '']''"

definition validateStep :: "json \<Rightarrow> jstring \<Rightarrow> jstring \<Rightarrow> unit res" where
  "validateStep step namespace place =
     and_then (asObject (Some step) ''BAD_STEP'') (\<lambda>ob.
     and_then (checkUnexpected ob STEP_KEYS ''UNEXPECTED_STEP_FIELD'') (\<lambda>_.
       case field ''verb'' ob of
         Some (JStr verb) \<Rightarrow>
           if \<not> isRegisteredAction verb then calError ''UNKNOWN_VERB'' (Some verb)
           else if split_dots verb ! 0 \<noteq> namespace
             then calError ''VERB_NAMESPACE_MISMATCH'' (Some (verb @ js '' not in '' @ namespace @ js ''.*''))
           else and_then (asObject (field ''params'' ob) ''BAD_PARAMS'') (\<lambda>_.
             if has_key ''post_conditions'' ob then
               (case field ''post_conditions'' ob of
                  Some (JArr pcs) \<Rightarrow>
                    each (\<lambda>i pc. validateEmbeddedDsl pc Post_condition (place @ js ''.'' @ indexed ''post_conditions'' i)) 0 pcs
                | _ \<Rightarrow> calError ''POSTCONDITIONS_NOT_LIST'' (Some place))
             else Inr ())
       | _ \<Rightarrow> calError ''BAD_STEP'' (Some (place @ js ''.verb''))))"

section \<open>The CAL\<close>

definition check_header :: "obj \<Rightarrow> unit res" where
  "check_header cal =
     (if field ''cal_version'' cal \<noteq> Some (JStr CAL_VERSION) then calError_value ''BAD_CAL_VERSION'' (field ''cal_version'' cal)
      else case field ''action'' cal of
        Some (JStr action) \<Rightarrow>
          if \<not> isRegisteredAction action then calError_value ''UNKNOWN_ACTION'' (field ''action'' cal)
          else (case field ''agent_id'' cal of
              Some (JStr a) \<Rightarrow> if isCanonicalAddress a then Inr () else calError ''BAD_AGENT_ID'' None
            | _ \<Rightarrow> calError ''BAD_AGENT_ID'' None)
      | _ \<Rightarrow> calError_value ''UNKNOWN_ACTION'' (field ''action'' cal))"

definition action_namespace :: "obj \<Rightarrow> jstring" where
  "action_namespace cal = (case field ''action'' cal of Some (JStr a) \<Rightarrow> split_dots a ! 0 | _ \<Rightarrow> [])"

definition check_invariants :: "obj \<Rightarrow> unit res" where
  "check_invariants cal =
     (case field ''invariants'' cal of
        Some (JArr invs) \<Rightarrow> each (\<lambda>i inv. validateEmbeddedDsl inv Invariant (indexed ''invariants'' i)) 0 invs
      | _ \<Rightarrow> calError ''INVARIANTS_NOT_LIST'' None)"

definition check_steps :: "obj \<Rightarrow> unit res" where
  "check_steps cal =
     (case field ''steps'' cal of
        Some (JArr steps) \<Rightarrow>
          if length steps = 0 then calError ''EMPTY_STEPS'' None
          else each (\<lambda>i s. validateStep s (action_namespace cal) (indexed ''steps'' i)) 0 steps
      | _ \<Rightarrow> calError ''STEPS_NOT_LIST'' None)"

definition check_optional :: "obj \<Rightarrow> unit res" where
  "check_optional cal =
     (if has_key ''compatibility_pragma'' cal \<and> field ''compatibility_pragma'' cal \<noteq> Some (JStr (js ''v0.9.5''))
        then calError_value ''BAD_PRAGMA'' (field ''compatibility_pragma'' cal)
      else if has_key ''gas_limit_ptra'' cal
        then and_then (requireUint (field ''gas_limit_ptra'' cal) CAL_UINT256_MAX ''BAD_GAS_LIMIT'') (\<lambda>_. Inr ())
      else Inr ())"

definition check_receipt :: "obj \<Rightarrow> unit res" where
  "check_receipt cal =
     (case field ''receipt_required'' cal of Some (JBool _) \<Rightarrow> Inr () | _ \<Rightarrow> calError ''BAD_RECEIPT_REQUIRED'' None)"

definition validateCal :: "json \<Rightarrow> obj res" where
  "validateCal input =
     and_then (read_input input) (\<lambda>j.
     and_then (asObject (Some j) ''NOT_OBJECT'') (\<lambda>cal.
     and_then (checkUnexpected cal TOP_LEVEL_KEYS ''UNEXPECTED_FIELD'') (\<lambda>_.
     and_then (require_keys REQUIRED_FIELDS cal []) (\<lambda>_.
     and_then (check_header cal) (\<lambda>_.
     and_then (requireUint (field ''nonce'' cal) UINT64_MAX ''BAD_NONCE'') (\<lambda>_.
     and_then (requireUint (field ''expiration_tick'' cal) UINT64_MAX ''BAD_EXPIRATION'') (\<lambda>_.
     and_then (validateEmbeddedDsl (member ''preconditions'' cal) Precondition (js ''preconditions'')) (\<lambda>_.
     and_then (check_invariants cal) (\<lambda>_.
     and_then (check_steps cal) (\<lambda>_.
     and_then (check_receipt cal) (\<lambda>_.
     and_then (validateSignatures (field ''signatures'' cal)) (\<lambda>_.
     and_then (check_optional cal) (\<lambda>_. Inr cal)))))))))))))"

record check_result =
  cr_valid :: bool
  cr_code :: "string option"
  cr_detail :: "jstring option"

text \<open>Only errors with a \<open>code\<close> are caught: those of this package and of the canonical layer, not a \<open>DslError\<close>.\<close>

definition checkCal :: "json \<Rightarrow> check_result res" where
  "checkCal input =
     (case validateCal input of
        Inr _ \<Rightarrow> Inr \<lparr>cr_valid = True, cr_code = None, cr_detail = None\<rparr>
      | Inl (Cal (CalError c d)) \<Rightarrow>
          Inr \<lparr>cr_valid = False, cr_code = Some c, cr_detail = (if d = Some [] then None else d)\<rparr>
      | Inl (Canon (NoncanonicalEventError c)) \<Rightarrow> Inr \<lparr>cr_valid = False, cr_code = Some c, cr_detail = None\<rparr>
      | Inl (Canon (CanonicalEncodingError c)) \<Rightarrow> Inr \<lparr>cr_valid = False, cr_code = Some c, cr_detail = None\<rparr>
      | Inl x \<Rightarrow> Inl x)"

section \<open>Hashes\<close>

definition canonicalUnsignedBytes :: "host \<Rightarrow> json \<Rightarrow> bytes res" where
  "canonicalUnsignedBytes H cal =
     (case cal of
        JObj ob \<Rightarrow>
          canonicalizeValue H (JObj (foldl (\<lambda>rest kv. if fst kv \<noteq> js ''signatures'' then js_assign (fst kv) (snd kv) rest else rest) [] ob))
      | _ \<Rightarrow> calError ''NOT_OBJECT'' None)"

definition calHash :: "host \<Rightarrow> json \<Rightarrow> bytes res" where
  "calHash H cal = and_then (canonicalUnsignedBytes H cal) (domainHash H (domain_tag ''CAL_V1''))"

definition eventHash :: "host \<Rightarrow> json \<Rightarrow> bytes res" where
  "eventHash H event = and_then (canonicalizeValue H event) (domainHash H (domain_tag ''EVENT_V1''))"

definition receiptHash :: "host \<Rightarrow> json \<Rightarrow> bytes res" where
  "receiptHash H event = and_then (canonicalizeValue H event) (domainHash H (domain_tag ''RECEIPT_V1''))"

end
