(* ===== verification/Gas.thy ===== *)
theory Gas
  imports Cal_Schema
begin

text \<open>
  \<^verbatim>\<open>cal-gas/src\<close>: gas units, prices, the escrow and the bill of each outcome. All amounts are unbounded integers, as \<open>bigint\<close> is.
\<close>

section \<open>Reading values\<close>

fun gas_getIn :: "json option \<Rightarrow> string list \<Rightarrow> json option" where
  "gas_getIn cur [] = cur"
| "gas_getIn cur (seg # rest) =
     (case cur of
        Some (JObj ob) \<Rightarrow> if has_key seg ob then gas_getIn (field seg ob) rest else None
      | _ \<Rightarrow> None)"

definition asBig :: "json option \<Rightarrow> int \<Rightarrow> int" where
  "asBig v dflt = (case v of Some (JInt i) \<Rightarrow> i | _ \<Rightarrow> dflt)"

section \<open>Units\<close>

definition MCP_READ :: int where "MCP_READ = 50"
definition MCP_WRITE :: int where "MCP_WRITE = 200"
definition INVARIANT_BASE :: int where "INVARIANT_BASE = 5"
definition STATE_RENT_PER_BYTE :: int where "STATE_RENT_PER_BYTE = 1"
definition OWNER_AUTH_BASE :: int where "OWNER_AUTH_BASE = 50"
definition ED25519_VERIFY_WEIGHT :: int where "ED25519_VERIFY_WEIGHT = 100"

definition ownerAuthUnits :: "int \<Rightarrow> int" where
  "ownerAuthUnits k = (if k \<le> 0 then 0 else OWNER_AUTH_BASE + k * ED25519_VERIFY_WEIGHT)"

text \<open>\<open>expressionCost\<close> of \<open>undefined\<close> is that of a value that is no object.\<close>

definition dslCost :: "json option \<Rightarrow> dsl_scope \<Rightarrow> int res" where
  "dslCost node sc =
     and_then (unwrap_envelope (case node of Some j \<Rightarrow> j | None \<Rightarrow> JNull)) (\<lambda>(version, e).
     and_then (expressionCost e sc version) (\<lambda>c. Inr (int c)))"

definition mcpCallUnits :: "jstring \<Rightarrow> int" where
  "mcpCallUnits verb =
     (let part = (case segment (split_dots verb) 1 of Some p \<Rightarrow> p | None \<Rightarrow> [])
      in if take 4 part = js ''get_'' then MCP_READ else MCP_WRITE)"

definition effectsBytes :: "host \<Rightarrow> json \<Rightarrow> int res" where
  "effectsBytes H effects = and_then (canonicalizeValue H effects) (\<lambda>b. Inr (int (length b)))"

text \<open>A loop that adds to the total.\<close>

fun sum_costs :: "('a \<Rightarrow> int res) \<Rightarrow> 'a list \<Rightarrow> int res" where
  "sum_costs f [] = Inr 0"
| "sum_costs f (x # xs) = and_then (f x) (\<lambda>a. and_then (sum_costs f xs) (\<lambda>b. Inr (a + b)))"

definition step_units :: "json \<Rightarrow> int res" where
  "step_units step =
     and_then (case gas_getIn (Some step) [''post_conditions''] of
                 Some (JArr pcs) \<Rightarrow> sum_costs (\<lambda>pc. dslCost (Some pc) Post_condition) pcs
               | _ \<Rightarrow> Inr 0) (\<lambda>u.
       Inr ((case gas_getIn (Some step) [''verb''] of Some (JStr verb) \<Rightarrow> mcpCallUnits verb | _ \<Rightarrow> 0) + u))"

definition staticGasUnits :: "json \<Rightarrow> int res" where
  "staticGasUnits cal =
     and_then (dslCost (gas_getIn (Some cal) [''preconditions'']) Precondition) (\<lambda>p.
     and_then (case gas_getIn (Some cal) [''steps''] of Some (JArr steps) \<Rightarrow> sum_costs step_units steps | _ \<Rightarrow> Inr 0) (\<lambda>s.
     and_then (case gas_getIn (Some cal) [''invariants''] of
                 Some (JArr invs) \<Rightarrow>
                   sum_costs (\<lambda>inv. and_then (dslCost (Some inv) Invariant) (\<lambda>c. Inr (INVARIANT_BASE + c))) invs
               | _ \<Rightarrow> Inr 0) (\<lambda>i. Inr (p + s + i))))"

definition gasUnits :: "json \<Rightarrow> int \<Rightarrow> int \<Rightarrow> int res" where
  "gasUnits cal bytesWritten ownerAuth =
     and_then (staticGasUnits cal) (\<lambda>u. Inr (u + bytesWritten * STATE_RENT_PER_BYTE + ownerAuth))"

section \<open>Prices and escrow\<close>

definition DEFAULT_GAS_PRICE :: int where "DEFAULT_GAS_PRICE = 1000"
definition DEFAULT_FLAT_VALIDATION_FEE :: int where "DEFAULT_FLAT_VALIDATION_FEE = 100000"
definition GAS_LIMIT_FEE_MULTIPLIER :: int where "GAS_LIMIT_FEE_MULTIPLIER = 100"

definition gasPrice :: "json \<Rightarrow> int" where
  "gasPrice state = asBig (gas_getIn (Some state) [''governance'', ''gas_price_nano_ptra_per_unit'']) DEFAULT_GAS_PRICE"

definition toNano :: "int \<Rightarrow> int \<Rightarrow> int" where
  "toNano units price = units * price"

definition flatValidationFee :: "json \<Rightarrow> int" where
  "flatValidationFee state =
     asBig (gas_getIn (Some state) [''governance'', ''params'', ''flat_validation_fee_nano_ptra'']) DEFAULT_FLAT_VALIDATION_FEE"

definition maxExpectedDynamicGas :: "json \<Rightarrow> int \<Rightarrow> int" where
  "maxExpectedDynamicGas cal fee = asBig (gas_getIn (Some cal) [''gas_limit_ptra'']) (fee * GAS_LIMIT_FEE_MULTIPLIER)"

definition escrowRequirement :: "json \<Rightarrow> json \<Rightarrow> int" where
  "escrowRequirement cal state =
     (let fee = flatValidationFee state in fee + maxExpectedDynamicGas cal fee)"

text \<open>The agent is a string of the CAL, not a literal.\<close>

definition balanceOf :: "json \<Rightarrow> jstring \<Rightarrow> int" where
  "balanceOf state agent =
     asBig (case gas_getIn (Some state) [''ptra'', ''balances''] of
              Some (JObj ob) \<Rightarrow> if js_has agent ob then js_get agent ob else None
            | _ \<Rightarrow> None) 0"

definition cal_agent :: "json \<Rightarrow> jstring option" where
  "cal_agent cal = (case gas_getIn (Some cal) [''agent_id''] of Some (JStr a) \<Rightarrow> Some a | _ \<Rightarrow> None)"

definition canValidate :: "json \<Rightarrow> json \<Rightarrow> bool" where
  "canValidate cal state =
     (case cal_agent cal of
        Some agent \<Rightarrow> balanceOf state agent \<ge> escrowRequirement cal state
      | None \<Rightarrow> False)"

section \<open>The bill\<close>

datatype gas_outcome = FINALIZED | FAILED_PRECOND | FAILED_NO_CHARGE | FAILED_EXEC | EXPIRED_PRE | EXPIRED_POST

record gas_bill =
  feeRetained :: int
  dynamicGasConsumed :: int
  gasRefunded :: int
  totalAgentCharge :: int

definition ZERO_BILL :: gas_bill where
  "ZERO_BILL = \<lparr>feeRetained = 0, dynamicGasConsumed = 0, gasRefunded = 0, totalAgentCharge = 0\<rparr>"

definition clampSub :: "int \<Rightarrow> int \<Rightarrow> int" where
  "clampSub a b = (if a > b then a - b else 0)"

definition settle :: "gas_outcome \<Rightarrow> json \<Rightarrow> json \<Rightarrow> int \<Rightarrow> int \<Rightarrow> gas_bill res" where
  "settle oc cal state bytesWritten ownerAuth =
     (let fee = flatValidationFee state;
          maxGas = maxExpectedDynamicGas cal fee
      in case oc of
           EXPIRED_PRE \<Rightarrow> Inr ZERO_BILL
         | FAILED_NO_CHARGE \<Rightarrow> Inr ZERO_BILL
         | FAILED_PRECOND \<Rightarrow>
             (let balance = (case cal_agent cal of Some agent \<Rightarrow> balanceOf state agent | None \<Rightarrow> 0);
                  spam = (if balance < fee then balance else fee)
              in Inr \<lparr>feeRetained = spam, dynamicGasConsumed = 0, gasRefunded = 0, totalAgentCharge = spam\<rparr>)
         | EXPIRED_POST \<Rightarrow>
             Inr \<lparr>feeRetained = fee, dynamicGasConsumed = 0, gasRefunded = maxGas, totalAgentCharge = fee\<rparr>
         | _ \<Rightarrow>
             and_then (gasUnits cal bytesWritten ownerAuth) (\<lambda>units.
               let raw = toNano units (gasPrice state);
                   consumed = (if raw > maxGas then maxGas else raw)
               in Inr \<lparr>feeRetained = fee, dynamicGasConsumed = consumed, gasRefunded = clampSub maxGas consumed,
                       totalAgentCharge = fee + consumed\<rparr>))"

end
