(* ===== verification/Cal_Gas_Props.thy ===== *)
theory Cal_Gas_Props
  imports Gas Dsl_Emergency Canon_Json_Props Reducer_Apply
begin

text \<open>
  The structural validator, the hashes and the gas layer together: a CAL the schema accepts can be priced, the bill of a closed CAL adds
  up to its escrow and the reducer books it, and CAL\_HASH covers exactly what is not a signature.
\<close>

section \<open>Accepted CALs can be priced\<close>

lemma has_key_field: "has_key k ob \<longleftrightarrow> field k ob \<noteq> None"
  by (simp add: has_key_def field_def js_has_iff)

lemma gas_getIn_field: "gas_getIn (Some (JObj ob)) [k] = field k ob"
  by (simp add: has_key_field)

lemma embedded_cost:
  assumes "validateEmbeddedDsl node sc w = Inr ()"
  shows "\<exists>c. dslCost (Some node) sc = Inr c \<and> 0 \<le> c \<and> c \<le> 1000"
proof -
  from assms obtain v e where u: "unwrap_envelope node = Inr (v, e)"
    and p: "(case parseExpression e sc v of Inr _ \<Rightarrow> Inr ()
       | Inl (Dsl (DslError p r)) \<Rightarrow> calError ''DSL_INVALID'' (Some (w @ js '': '' @ js (phase_name p) @ js ''/'' @ js r))
       | Inl x \<Rightarrow> Inl x) = Inr ()"
    by (auto simp: validateEmbeddedDsl_def)
  obtain x where "parseExpression e sc v = Inr x"
    using p by (cases "parseExpression e sc v") (auto simp: calError_def split: exn.splits dsl_error.splits)
  from parse_bounds [OF this] u show ?thesis by (auto simp: dslCost_def)
qed

lemma eachD: "each f i xs = Inr () \<Longrightarrow> x \<in> set xs \<Longrightarrow> \<exists>k. f k x = Inr ()"
  by (induction f i xs rule: each.induct) auto

lemma sum_costs_bound:
  assumes "\<And>x. x \<in> set xs \<Longrightarrow> \<exists>a. f x = Inr a \<and> 0 \<le> a \<and> a \<le> g x"
  shows "\<exists>b. sum_costs f xs = Inr b \<and> 0 \<le> b \<and> b \<le> sum_list (map g xs)"
  using assms
proof (induction xs)
  case (Cons x xs)
  then obtain a b where "f x = Inr a" "0 \<le> a" "a \<le> g x" "sum_costs f xs = Inr b" "0 \<le> b" "b \<le> sum_list (map g xs)"
    by (metis list.set_intros)
  then show ?case by simp
qed simp

lemma mcp_bound: "0 \<le> mcpCallUnits v \<and> mcpCallUnits v \<le> 200"
  by (simp add: mcpCallUnits_def MCP_READ_def MCP_WRITE_def Let_def)

definition conditions :: "json \<Rightarrow> json list" where
  "conditions step = (case gas_getIn (Some step) [''post_conditions''] of Some (JArr pcs) \<Rightarrow> pcs | _ \<Rightarrow> [])"

lemma step_cost:
  assumes "validateStep step ns w = Inr ()"
  shows "\<exists>a. step_units step = Inr a \<and> 0 \<le> a \<and> a \<le> 200 + 1000 * int (length (conditions step))"
proof -
  from assms obtain ob where ob: "step = JObj ob" by (auto simp: validateStep_def asObject_def calError_def split: json.splits)
  let ?u = "case gas_getIn (Some step) [''post_conditions''] of
      Some (JArr pcs) \<Rightarrow> sum_costs (\<lambda>pc. dslCost (Some pc) Post_condition) pcs | _ \<Rightarrow> Inr 0"
  have "\<exists>b. ?u = Inr b \<and> 0 \<le> b \<and> b \<le> 1000 * int (length (conditions step))"
  proof (cases "\<exists>pcs. field ''post_conditions'' ob = Some (JArr pcs)")
    case True
    then obtain pcs where pcs: "field ''post_conditions'' ob = Some (JArr pcs)" by blast
    then have "each (\<lambda>i pc. validateEmbeddedDsl pc Post_condition (w @ js ''.'' @ indexed ''post_conditions'' i)) 0 pcs = Inr ()"
      using assms by (auto simp: validateStep_def ob has_key_field asObject_def calError_def split: option.splits json.splits if_splits)
    from eachD [OF this] embedded_cost
    have "\<exists>a. dslCost (Some pc) Post_condition = Inr a \<and> 0 \<le> a \<and> a \<le> 1000" if "pc \<in> set pcs" for pc using that by blast
    from sum_costs_bound [of pcs "\<lambda>pc. dslCost (Some pc) Post_condition" "\<lambda>_. 1000", OF this] pcs
    show ?thesis by (simp add: ob gas_getIn_field conditions_def sum_list_triv mult.commute del: gas_getIn.simps)
  next
    case False
    then show ?thesis by (auto simp: ob gas_getIn_field simp del: gas_getIn.simps split: option.splits json.splits)
  qed
  moreover have "0 \<le> (case gas_getIn (Some step) [''verb''] of Some (JStr verb) \<Rightarrow> mcpCallUnits verb | _ \<Rightarrow> 0) \<and>
      (case gas_getIn (Some step) [''verb''] of Some (JStr verb) \<Rightarrow> mcpCallUnits verb | _ \<Rightarrow> 0) \<le> 200"
    using mcp_bound by (auto split: option.splits json.splits)
  ultimately show ?thesis unfolding step_units_def by (auto simp del: gas_getIn.simps)
qed

definition cal_steps :: "obj \<Rightarrow> json list" where
  "cal_steps cal = (case field ''steps'' cal of Some (JArr xs) \<Rightarrow> xs | _ \<Rightarrow> [])"

definition cal_invariants :: "obj \<Rightarrow> json list" where
  "cal_invariants cal = (case field ''invariants'' cal of Some (JArr xs) \<Rightarrow> xs | _ \<Rightarrow> [])"

definition gas_bound :: "obj \<Rightarrow> int" where
  "gas_bound cal = 1000 + sum_list (map (\<lambda>s. 200 + 1000 * int (length (conditions s))) (cal_steps cal)) +
     1005 * int (length (cal_invariants cal))"

lemma validateCal_parts:
  assumes "validateCal input = Inr cal"
  shows "validateEmbeddedDsl (member ''preconditions'' cal) Precondition (js ''preconditions'') = Inr ()"
    and "check_invariants cal = Inr ()" and "check_steps cal = Inr ()" and "require_keys REQUIRED_FIELDS cal [] = Inr ()"
    and "validateSignatures (field ''signatures'' cal) = Inr ()" and "check_header cal = Inr ()"
  using assms by (auto simp: validateCal_def)

lemma valid_cal_cost:
  assumes "validateCal input = Inr cal"
  shows "\<exists>u. staticGasUnits (JObj cal) = Inr u \<and> 0 \<le> u \<and> u \<le> gas_bound cal"
proof -
  note parts = validateCal_parts [OF assms]
  have pk: "field ''preconditions'' cal = Some (member ''preconditions'' cal)"
    using parts(4) by (auto simp: REQUIRED_FIELDS_def has_key_field field_def member_def calError_def split: if_splits)
  obtain p where p: "dslCost (field ''preconditions'' cal) Precondition = Inr p" "0 \<le> p" "p \<le> 1000"
    using embedded_cost [OF parts(1)] pk by auto
  from parts(3) obtain steps where steps: "field ''steps'' cal = Some (JArr steps)"
    and se: "each (\<lambda>i s. validateStep s (action_namespace cal) (indexed ''steps'' i)) 0 steps = Inr ()"
    by (auto simp: check_steps_def calError_def split: option.splits json.splits if_splits)
  from eachD [OF se] step_cost
  have "\<exists>a. step_units s = Inr a \<and> 0 \<le> a \<and> a \<le> 200 + 1000 * int (length (conditions s))" if "s \<in> set steps" for s
    using that by blast
  from sum_costs_bound [of steps step_units "\<lambda>s. 200 + 1000 * int (length (conditions s))", OF this] obtain s
    where s: "sum_costs step_units steps = Inr s" "0 \<le> s" "s \<le> sum_list (map (\<lambda>s. 200 + 1000 * int (length (conditions s))) steps)"
    by blast
  from parts(2) obtain invs where invs: "field ''invariants'' cal = Some (JArr invs)"
    and ie: "each (\<lambda>i inv. validateEmbeddedDsl inv Invariant (indexed ''invariants'' i)) 0 invs = Inr ()"
    by (auto simp: check_invariants_def calError_def split: option.splits json.splits)
  let ?f = "\<lambda>inv. and_then (dslCost (Some inv) Invariant) (\<lambda>c. Inr (INVARIANT_BASE + c))"
  have "\<exists>a. ?f inv = Inr a \<and> 0 \<le> a \<and> a \<le> 1005" if "inv \<in> set invs" for inv
    using eachD [OF ie that] embedded_cost [of inv Invariant] by (fastforce simp: INVARIANT_BASE_def)
  from sum_costs_bound [of invs ?f "\<lambda>_. 1005", OF this] obtain i
    where i: "sum_costs ?f invs = Inr i" "0 \<le> i" "i \<le> 1005 * int (length invs)"
    by (auto simp: sum_list_triv mult.commute)
  have "staticGasUnits (JObj cal) = Inr (p + s + i)"
    unfolding staticGasUnits_def gas_getIn_field steps invs by (simp add: p s i)
  moreover have "cal_steps cal = steps" "cal_invariants cal = invs" by (simp_all add: cal_steps_def cal_invariants_def steps invs)
  ultimately show ?thesis using p s i by (simp add: gas_bound_def)
qed

section \<open>A CAL for the witnesses\<close>

definition sample_cal :: obj where
  "sample_cal =
    [(js ''cal_version'', JStr (js ''0.1.0'')), (js ''action'', JStr (js ''cal.cancel'')),
     (js ''agent_id'', JStr (js ''0:'' @ zero_hash_text)), (js ''nonce'', JInt 1), (js ''expiration_tick'', JInt 9),
     (js ''preconditions'', JObj [(js ''const'', JBool True)]), (js ''invariants'', JArr []),
     (js ''steps'', JArr [JObj [(js ''verb'', JStr (js ''cal.cancel'')), (js ''params'', JObj [])]]),
     (js ''receipt_required'', JBool True), (js ''signatures'', JObj [(js ''operator_sig'', JStr (js ''0x00''))])]"

text \<open>The members one by one: the keys are literals, compared as strings.\<close>

lemmas member_reads = field_def js_get_def has_key_def js_has_def proto_keys_def member_def

lemma sample_keys: "checkUnexpected sample_cal TOP_LEVEL_KEYS c = Inr ()"
  by (simp add: sample_cal_def TOP_LEVEL_KEYS_def)

lemma sample_action: "isRegisteredAction (js ''cal.cancel'')"
  by (simp add: isRegisteredAction_def REGISTERED_ACTIONS_def ACTION_TAXONOMY_def)

lemma sample_header: "check_header sample_cal = Inr ()"
  using two_texts_one_address
  by (simp add: sample_cal_def check_header_def field_def js_get_def CAL_VERSION_def sample_action)

lemma sample_sig: "HEX_BYTES (js ''0x00'')" by code_simp

lemma embedded_true: "validateEmbeddedDsl (JObj [(js ''const'', JBool True)]) sc p = Inr ()"
  by (simp add: validateEmbeddedDsl_def unwrap_envelope_def has_key_def js_has_def proto_keys_def parseExpression_def read_input_def start_ctx_def build_const del: One_nat_def)

lemma sample_invariants: "check_invariants sample_cal = Inr ()"
  by (simp add: check_invariants_def sample_cal_def field_def js_get_def)

lemma sample_receipt: "check_receipt sample_cal = Inr ()"
  by (simp add: check_receipt_def sample_cal_def field_def js_get_def)

lemma sample_optional: "check_optional sample_cal = Inr ()"
  by (simp add: check_optional_def sample_cal_def has_key_def js_has_def proto_keys_def)

lemma sample_signatures: "validateSignatures (field ''signatures'' sample_cal) = Inr ()"
  by (simp add: validateSignatures_def sample_cal_def field_def js_get_def asObject_def has_key_def js_has_def proto_keys_def SIG_KEYS_def check_hex_sig_def sample_sig)

lemma sample_step: "validateStep (JObj [(js ''verb'', JStr (js ''cal.cancel'')), (js ''params'', JObj [])]) (js ''cal'') p = Inr ()"
  by (simp add: validateStep_def asObject_def STEP_KEYS_def field_def js_get_def has_key_def js_has_def proto_keys_def sample_action split_dots_js)

lemma sample_steps: "check_steps sample_cal = Inr ()"
  by (simp add: check_steps_def sample_cal_def field_def js_get_def action_namespace_def split_dots_js sample_step)

lemma sample_required: "require_keys REQUIRED_FIELDS sample_cal [] = Inr ()"
  by (simp add: sample_cal_def REQUIRED_FIELDS_def has_key_def js_has_def proto_keys_def)

lemma sample_cal_valid: "validateCal (JObj sample_cal) = Inr sample_cal"
proof -
  have "field ''nonce'' sample_cal = Some (JInt 1)" "field ''expiration_tick'' sample_cal = Some (JInt 9)"
    "member ''preconditions'' sample_cal = JObj [(js ''const'', JBool True)]"
    by (simp_all add: sample_cal_def member_reads)
  then show ?thesis
    by (simp add: validateCal_def read_input_def asObject_def sample_keys sample_required sample_header sample_invariants sample_steps
        sample_receipt sample_signatures sample_optional requireUint_def UINT64_MAX_def embedded_true)
qed

text \<open>
  Every CAL the schema validator accepts can be priced: the static gas units are defined (no embedded expression raises while it is
  costed), are not negative, and are at most 1000 for the precondition, 1005 for each invariant and, for each step, 200 plus 1000 for each
  of its post-conditions.
\<close>

theorem valid_cal_priced:
  assumes "validateCal input = Inr cal"
  shows "\<exists>u. staticGasUnits (JObj cal) = Inr u \<and> 0 \<le> u \<and> u \<le> gas_bound cal"
  by (rule valid_cal_cost [OF assms])

theorem valid_cal_priced_witness:
  "\<exists>u. staticGasUnits (JObj sample_cal) = Inr u \<and> 0 \<le> u \<and> u \<le> 1200"
  using valid_cal_priced [OF sample_cal_valid]
  by (simp add: gas_bound_def cal_steps_def cal_invariants_def conditions_def sample_cal_def member_reads)

section \<open>The bill and the reducer\<close>

lemma valid_cal_limit:
  assumes "validateCal input = Inr cal" "0 \<le> fee"
  shows "0 \<le> maxExpectedDynamicGas (JObj cal) fee"
proof -
  from assms(1) have o: "check_optional cal = Inr ()" by (auto simp: validateCal_def)
  show ?thesis
  proof (cases "\<exists>g. field ''gas_limit_ptra'' cal = Some (JInt g)")
    case True
    then obtain g where g: "field ''gas_limit_ptra'' cal = Some (JInt g)" by blast
    with o have "0 \<le> g" by (auto simp: check_optional_def has_key_field requireUint_def calError_def calError_value_def split: if_splits)
    with g show ?thesis unfolding maxExpectedDynamicGas_def gas_getIn_field by (simp add: asBig_def)
  next
    case False
    then have "asBig (field ''gas_limit_ptra'' cal) (fee * GAS_LIMIT_FEE_MULTIPLIER) = fee * GAS_LIMIT_FEE_MULTIPLIER"
      by (auto simp: asBig_def split: option.splits json.split)
    with assms(2) show ?thesis unfolding maxExpectedDynamicGas_def gas_getIn_field by (simp add: GAS_LIMIT_FEE_MULTIPLIER_def)
  qed
qed

lemma escrow_split: "escrowRequirement cal st = flatValidationFee st + maxExpectedDynamicGas cal (flatValidationFee st)"
  by (simp add: escrowRequirement_def Let_def)

lemma settle_bill:
  assumes "validateCal input = Inr cal" "0 \<le> gasPrice st" "0 \<le> flatValidationFee st" "0 \<le> written" "0 \<le> auth"
    and "oc \<in> {FINALIZED, FAILED_EXEC, EXPIRED_POST}"
  obtains c r where "settle oc (JObj cal) st written auth =
      Inr \<lparr>feeRetained = flatValidationFee st, dynamicGasConsumed = c, gasRefunded = r, totalAgentCharge = flatValidationFee st + c\<rparr>"
    and "0 \<le> c" "0 \<le> r" "c + r = maxExpectedDynamicGas (JObj cal) (flatValidationFee st)"
proof -
  note m = valid_cal_limit [OF assms(1,3)]
  obtain u where u: "staticGasUnits (JObj cal) = Inr u" "0 \<le> u" using valid_cal_cost [OF assms(1)] by blast
  let ?raw = "toNano (u + written * STATE_RENT_PER_BYTE + auth) (gasPrice st)"
  have "0 \<le> ?raw" using u(2) assms(2,4,5) by (simp add: toNano_def STATE_RENT_PER_BYTE_def)
  with m that show ?thesis
    using assms(6) by (cases "oc = EXPIRED_POST") (auto simp: settle_def Let_def gasUnits_def u(1) clampSub_def)
qed



section \<open>What CAL\_HASH covers\<close>

definition unsigned :: "obj \<Rightarrow> obj" where
  "unsigned ob = foldl (\<lambda>rest kv. if fst kv \<noteq> js ''signatures'' then js_assign (fst kv) (snd kv) rest else rest) [] ob"

lemma unsigned_bytes: "canonicalUnsignedBytes H (JObj ob) = canonicalizeValue H (JObj (unsigned ob))"
  by (simp add: canonicalUnsignedBytes_def unsigned_def)

lemma unsigned_fold_filter:
  "foldl (\<lambda>rest kv. if fst kv \<noteq> k then f rest kv else rest) acc ob = foldl f acc (filter (\<lambda>kv. fst kv \<noteq> k) ob)"
  by (induction ob arbitrary: acc) auto

lemma filter_update: "filter (\<lambda>kv. fst kv \<noteq> k) (AList.update k v ob) = filter (\<lambda>kv. fst kv \<noteq> k) ob"
  by (induction ob) auto

text \<open>
  CAL\_HASH is computed over everything but the signatures: replacing or adding the member \<open>signatures\<close> leaves it as it is (so signing does
  not change the hash that is signed), and the hashed bytes of two CALs agree exactly when their other members have the same normal form.
\<close>

theorem cal_hash_covers_all_but_signatures:
  assumes "coerceToJcsValue (JObj (unsigned cal)) = Inr a" "coerceToJcsValue (JObj (unsigned cal')) = Inr b"
    and "canonicalUnsignedBytes H (JObj cal) = Inr x" "canonicalUnsignedBytes H (JObj cal') = Inr y"
    and "printable (norm_json H a)" "printable (norm_json H b)"
  shows "calHash H (JObj (AList.update (js ''signatures'') v cal)) = calHash H (JObj cal) \<and> (x = y \<longleftrightarrow> norm_json H a = norm_json H b)"
proof
  have "unsigned (AList.update (js ''signatures'') v cal) = unsigned cal"
    unfolding unsigned_def unsigned_fold_filter filter_update ..
  then show "calHash H (JObj (AList.update (js ''signatures'') v cal)) = calHash H (JObj cal)"
    by (simp add: calHash_def unsigned_bytes)
  from assms(3,4) have "x = utf8_encode (render (norm_json H a))" "y = utf8_encode (render (norm_json H b))"
    by (simp_all add: unsigned_bytes canonicalizeValue_render [OF assms(1)] canonicalizeValue_render [OF assms(2)])
  then show "x = y \<longleftrightarrow> norm_json H a = norm_json H b" using render_bytes_inject [OF assms(5,6)] by simp
qed

definition unsigned_sample :: "int \<Rightarrow> obj" where
  "unsigned_sample n = [(js ''nonce'', JInt n), (js ''signatures'', JNull)]"

lemma unsigned_sample:
  "unsigned (unsigned_sample n) = [(js ''nonce'', JInt n)]"
  "coerceToJcsValue (JObj [(js ''nonce'', JInt n)]) = Inr (JObj [(js ''nonce'', JInt n)])"
  "printable (norm_json plain_host (JObj [(js ''nonce'', JInt n)]))"
  "norm_json plain_host (JObj [(js ''nonce'', JInt n)]) = JObj [(js ''nonce'', JInt n)]"
  by (simp_all add: unsigned_sample_def unsigned_def js_assign_def js_ascii ascii_well_formed sort_members_def plain_host_def)

lemma unsigned_sample_bytes:
  "\<exists>b. canonicalUnsignedBytes plain_host (JObj (unsigned_sample n)) = Inr b"
  using ascii_serialize [of "JObj [(js ''nonce'', JInt n)]"]
  by (simp add: unsigned_bytes unsigned_sample canonicalizeValue_def js_ascii del: coerceToJcsValue.simps serialize.simps)

theorem cal_hash_covers_all_but_signatures_witness:
  "\<exists>x y. canonicalUnsignedBytes plain_host (JObj (unsigned_sample 0)) = Inr x \<and>
     canonicalUnsignedBytes plain_host (JObj (unsigned_sample 1)) = Inr y \<and> x \<noteq> y"
proof -
  obtain x y where xy: "canonicalUnsignedBytes plain_host (JObj (unsigned_sample 0)) = Inr x"
    "canonicalUnsignedBytes plain_host (JObj (unsigned_sample 1)) = Inr y" using unsigned_sample_bytes by blast
  from cal_hash_covers_all_but_signatures [OF _ _ xy, unfolded unsigned_sample, OF refl refl] unsigned_sample(3,4) xy show ?thesis
    by simp
qed

section \<open>Errors that escape\<close>

text \<open>
  \<open>checkCal\<close> is documented as non-throwing, but the envelope of an embedded expression is parsed outside the \<open>try\<close>: an unsupported
  version raises a \<open>DslError\<close>, and a version that is an integer a \<open>TypeError\<close> (its message is printed with \<open>JSON.stringify\<close>).
\<close>

lemma envelope_raises:
  "unwrap_envelope (JObj [(js ''dsl_version'', JStr (js ''2'')), (js ''expr'', e)]) = validationError ''UNSUPPORTED_VERSION''"
  "unwrap_envelope (JObj [(js ''dsl_version'', JInt 1), (js ''expr'', e)]) = Inl TypeError"
  by (simp_all add: unwrap_envelope_def parseEnvelope_def member_reads)

lemma checkCal_raises:
  "checkCal (JObj (AList.update (js ''preconditions'') (JObj [(js ''dsl_version'', JInt 1), (js ''expr'', e)]) sample_cal)) = Inl TypeError"
proof -
  let ?cal = "AList.update (js ''preconditions'') (JObj [(js ''dsl_version'', JInt 1), (js ''expr'', e)]) sample_cal"
  have "check_header ?cal = Inr ()" using two_texts_one_address
    by (simp add: sample_cal_def check_header_def field_def js_get_def CAL_VERSION_def sample_action)
  moreover have "checkUnexpected ?cal TOP_LEVEL_KEYS ''UNEXPECTED_FIELD'' = Inr ()" using sample_keys
    by (simp add: sample_cal_def TOP_LEVEL_KEYS_def)
  moreover have "require_keys REQUIRED_FIELDS ?cal [] = Inr ()" by (simp add: sample_cal_def REQUIRED_FIELDS_def member_reads)
  moreover have "field ''nonce'' ?cal = Some (JInt 1)" "field ''expiration_tick'' ?cal = Some (JInt 9)"
    "member ''preconditions'' ?cal = JObj [(js ''dsl_version'', JInt 1), (js ''expr'', e)]"
    by (simp_all add: sample_cal_def member_reads)
  ultimately show ?thesis
    by (simp add: checkCal_def validateCal_def read_input_def asObject_def requireUint_def UINT64_MAX_def validateEmbeddedDsl_def
        envelope_raises)
qed

end
