(* ===== verification/Validator.thy ===== *)
theory Validator
  imports Gas Reducer_Delta
begin

text \<open>
  \<^verbatim>\<open>validator/src/trace.ts\<close> and \<^verbatim>\<open>validator/src/validate.ts\<close>: the gates that drive a SIGNED CAL to a terminal event. The factory
  \<open>makeValidator\<close> is the record \<open>vctx\<close> of what its closures share; the shared event buffer is passed along. The details of a result
  (\<open>reasonDetail\<close>, and \<open>errorDetail\<close> of a step, which only feeds it) are prose for people and left out.
\<close>

section \<open>Traces, reasons and results\<close>

record step_result =
  sr_ok :: bool
  sr_effects :: "json list"

record execution_trace =
  currentTick :: int
  tr_steps :: "step_result list"
  stateBefore :: json
  stateAfter :: json
  operatorSigFlag :: bool
  ownerSigFlag :: bool
  ownerSigners :: "jstring list option"
  pinnedMcpSchemaHash :: "jstring option"

datatype terminal_stage = Stage_FINALIZED | Stage_FAILED | Stage_EXPIRED

datatype reason_code =
    UNKNOWN_ACTION | NONCE_MISMATCH | CAPABILITY_DENIED | PRECOND_FALSE | PRECOND_ERROR | STEP_ERROR | POSTCOND_FALSE
  | INVARIANT_FALSE | BOUNDED_BLOCKED | SCHEMA_MISMATCH | INSUFFICIENT_ESCROW | OUT_OF_GAS | QUORUM_NOT_MET | INVALID_SIGNATURE_SET

text \<open>A reason is its own name in an event.\<close>

fun reason_text :: "reason_code \<Rightarrow> string" where
  "reason_text UNKNOWN_ACTION = ''UNKNOWN_ACTION''"
| "reason_text NONCE_MISMATCH = ''NONCE_MISMATCH''"
| "reason_text CAPABILITY_DENIED = ''CAPABILITY_DENIED''"
| "reason_text PRECOND_FALSE = ''PRECOND_FALSE''"
| "reason_text PRECOND_ERROR = ''PRECOND_ERROR''"
| "reason_text STEP_ERROR = ''STEP_ERROR''"
| "reason_text POSTCOND_FALSE = ''POSTCOND_FALSE''"
| "reason_text INVARIANT_FALSE = ''INVARIANT_FALSE''"
| "reason_text BOUNDED_BLOCKED = ''BOUNDED_BLOCKED''"
| "reason_text SCHEMA_MISMATCH = ''SCHEMA_MISMATCH''"
| "reason_text INSUFFICIENT_ESCROW = ''INSUFFICIENT_ESCROW''"
| "reason_text OUT_OF_GAS = ''OUT_OF_GAS''"
| "reason_text QUORUM_NOT_MET = ''QUORUM_NOT_MET''"
| "reason_text INVALID_SIGNATURE_SET = ''INVALID_SIGNATURE_SET''"

record validation_result =
  vr_events :: "obj list"
  vr_stage :: terminal_stage
  vr_reason :: "reason_code option"
  vr_bill :: gas_bill

section \<open>Reading values\<close>

text \<open>\<open>getIn\<close> of \<^verbatim>\<open>cal-gas\<close> and of \<^verbatim>\<open>cal-reducer\<close> are the same function; paths here hold the agent, so the one over strings is used.\<close>

lemma gas_getIn_getIn: "gas_getIn v p = getIn v (map js p)"
proof (induction p arbitrary: v)
  case (Cons k p)
  have "gas_getIn None p = None" by (cases p) auto
  with Cons show ?case
    by (auto simp: getIn_Cons has_key_def js_has_iff field_def split: option.splits json.splits)
qed simp

definition asStr :: "json option \<Rightarrow> jstring" where
  "asStr v = (case v of Some (JStr s) \<Rightarrow> s | _ \<Rightarrow> [])"

definition vBig :: "json option \<Rightarrow> int" where
  "vBig v = (case v of Some (JInt i) \<Rightarrow> i | _ \<Rightarrow> 0)"

definition agent_field :: "json \<Rightarrow> jstring \<Rightarrow> string \<Rightarrow> json option" where
  "agent_field snapshot agent k = getIn (Some snapshot) [js ''registry'', js ''agents'', agent, js k]"

text \<open>An absent expression evaluates as \<open>undefined\<close> does: it is no object.\<close>

definition evalExpr :: "host \<Rightarrow> json option \<Rightarrow> dsl_scope \<Rightarrow> bindings \<Rightarrow> outcome res" where
  "evalExpr H node sc b =
     and_then (unwrap_envelope (case node of Some j \<Rightarrow> j | None \<Rightarrow> JNull)) (\<lambda>(version, e). run H e sc version b)"

section \<open>Capabilities and quorum\<close>

definition strings_of :: "json list \<Rightarrow> jstring list" where
  "strings_of xs = concat (map (\<lambda>x. case x of JStr s \<Rightarrow> [s] | _ \<Rightarrow> []) xs)"

definition capabilityGrants :: "json \<Rightarrow> jstring \<Rightarrow> jstring \<Rightarrow> bool res" where
  "capabilityGrants snapshot agent action =
     and_then (table_index REQUIRES_SCOPE_TABLE action) (\<lambda>entry.
       let required = (case entry of Some ss \<Rightarrow> ss | None \<Rightarrow> [])
       in if length required = 0 then Inr True
          else
            let raw = (case agent_field snapshot agent ''granted_scopes'' of Some (JArr xs) \<Rightarrow> strings_of xs | _ \<Rightarrow> [])
            in and_then (expandGrantedScopes raw) (\<lambda>granted. Inr (list_all (\<lambda>s. s \<in> set granted) required)))"

fun signers_ascending :: "jstring list \<Rightarrow> bool" where
  "signers_ascending (a # b # rest) \<longleftrightarrow> b \<noteq> a \<and> \<not> b < a \<and> signers_ascending (b # rest)"
| "signers_ascending _ \<longleftrightarrow> True"

definition multisigQuorum :: "jstring list \<Rightarrow> int \<Rightarrow> jstring list \<Rightarrow> reason_code option" where
  "multisigQuorum owners threshold signers =
     (if length signers > length owners then Some INVALID_SIGNATURE_SET
      else if \<exists>s \<in> set signers. s = [] \<or> s \<notin> set owners then Some INVALID_SIGNATURE_SET
      else if \<not> signers_ascending signers then Some INVALID_SIGNATURE_SET
      else if int (length signers) < threshold then Some QUORUM_NOT_MET
      else None)"

section \<open>The shared context\<close>

record vctx =
  vc_cal :: json
  vc_hash :: jstring
  vc_snapshot :: json
  vc_trace :: execution_trace
  vc_agent :: jstring
  vc_action :: jstring
  vc_nonce :: int
  vc_expiration :: int
  vc_fee :: int
  vc_bounded :: bool
  vc_maxGas :: int
  vc_ownerAuth :: int

definition owner_auth :: "json \<Rightarrow> execution_trace \<Rightarrow> jstring \<Rightarrow> jstring \<Rightarrow> bool \<Rightarrow> int" where
  "owner_auth snapshot tr agent action bounded =
     (if \<not> (isOwnerRequired action \<or> bounded) then 0
      else ownerAuthUnits
        (case agent_field snapshot agent ''owners'' of
           Some (JArr _) \<Rightarrow>
             int (length (filter (\<lambda>s. s \<noteq> []) (case ownerSigners tr of Some ss \<Rightarrow> ss | None \<Rightarrow> [])))
         | _ \<Rightarrow> 1))"

definition makeValidator :: "json \<Rightarrow> jstring \<Rightarrow> json \<Rightarrow> execution_trace \<Rightarrow> vctx" where
  "makeValidator cal calHashHex snapshot tr =
     (let agent = asStr (getIn (Some cal) [js ''agent_id'']);
          action = asStr (getIn (Some cal) [js ''action'']);
          fee = flatValidationFee snapshot;
          bounded = (getIn (Some snapshot) [js ''failure_mode'', js ''is_bounded_mode''] = Some (JBool True))
      in \<lparr>vc_cal = cal, vc_hash = calHashHex, vc_snapshot = snapshot, vc_trace = tr, vc_agent = agent, vc_action = action,
          vc_nonce = vBig (getIn (Some cal) [js ''nonce'']), vc_expiration = vBig (getIn (Some cal) [js ''expiration_tick'']),
          vc_fee = fee, vc_bounded = bounded, vc_maxGas = maxExpectedDynamicGas cal fee,
          vc_ownerAuth = owner_auth snapshot tr agent action bounded\<rparr>)"

definition idBase :: "vctx \<Rightarrow> obj" where
  "idBase c = [(js ''cal_hash'', JStr (vc_hash c)), (js ''agent_id'', JStr (vc_agent c)), (js ''nonce'', JInt (vc_nonce c))]"

definition stage_event :: "string \<Rightarrow> vctx \<Rightarrow> obj \<Rightarrow> obj" where
  "stage_event ty c fs = (js ''event_type'', JStr (js ty)) # idBase c @ fs"

definition vc_tick :: "vctx \<Rightarrow> int" where
  "vc_tick c = currentTick (vc_trace c)"

definition spamFail :: "vctx \<Rightarrow> obj list \<Rightarrow> reason_code \<Rightarrow> validation_result res" where
  "spamFail c evs reason =
     and_then (settle FAILED_PRECOND (vc_cal c) (vc_snapshot c) 0 0) (\<lambda>bill.
       Inr \<lparr>vr_events = evs @ [stage_event ''cal.failed'' c
              [(js ''tick_failed'', JInt (vc_tick c)), (js ''reason_code'', JStr (js (reason_text reason))),
               (js ''fee_debited_ptra'', JInt (feeRetained bill)), (js ''gas_consumed_ptra'', JInt 0), (js ''ton_ingress_fee_paid'', JInt 0)]],
            vr_stage = Stage_FAILED, vr_reason = Some reason, vr_bill = bill\<rparr>)"

definition noChargeFail :: "vctx \<Rightarrow> obj list \<Rightarrow> reason_code \<Rightarrow> validation_result res" where
  "noChargeFail c evs reason =
     and_then (settle FAILED_NO_CHARGE (vc_cal c) (vc_snapshot c) 0 0) (\<lambda>bill.
       Inr \<lparr>vr_events = evs @ [stage_event ''cal.failed'' c
              [(js ''tick_failed'', JInt (vc_tick c)), (js ''reason_code'', JStr (js (reason_text reason))),
               (js ''fee_debited_ptra'', JInt 0), (js ''gas_consumed_ptra'', JInt 0), (js ''ton_ingress_fee_paid'', JInt 0)]],
            vr_stage = Stage_FAILED, vr_reason = Some reason, vr_bill = bill\<rparr>)"

definition expirePre :: "vctx \<Rightarrow> obj list \<Rightarrow> validation_result res" where
  "expirePre c evs =
     and_then (settle EXPIRED_PRE (vc_cal c) (vc_snapshot c) 0 0) (\<lambda>bill.
       Inr \<lparr>vr_events = evs @ [stage_event ''cal.expired'' c
              [(js ''tick_expired'', JInt (vc_tick c)), (js ''gas_consumed_ptra'', JInt 0), (js ''ton_ingress_fee_paid'', JInt 0)]],
            vr_stage = Stage_EXPIRED, vr_reason = None, vr_bill = bill\<rparr>)"

definition expirePost :: "vctx \<Rightarrow> obj list \<Rightarrow> validation_result res" where
  "expirePost c evs =
     and_then (settle EXPIRED_POST (vc_cal c) (vc_snapshot c) 0 0) (\<lambda>bill.
       Inr \<lparr>vr_events = evs @ [stage_event ''cal.expired'' c
              [(js ''tick_expired'', JInt (vc_tick c)), (js ''gas_consumed_ptra'', JInt 0),
               (js ''gas_refunded_ptra'', JInt (gasRefunded bill)), (js ''ton_ingress_fee_paid'', JInt 0)]],
            vr_stage = Stage_EXPIRED, vr_reason = None, vr_bill = bill\<rparr>)"

definition execFail :: "host \<Rightarrow> vctx \<Rightarrow> obj list \<Rightarrow> reason_code \<Rightarrow> json list \<Rightarrow> validation_result res" where
  "execFail H c evs reason committed =
     and_then (effectsBytes H (JArr committed)) (\<lambda>written.
     and_then (settle FAILED_EXEC (vc_cal c) (vc_snapshot c) written (vc_ownerAuth c)) (\<lambda>bill.
       Inr \<lparr>vr_events = evs @ [stage_event ''cal.failed'' c
              [(js ''tick_failed'', JInt (vc_tick c)), (js ''reason_code'', JStr (js (reason_text reason))),
               (js ''gas_consumed_ptra'', JInt (dynamicGasConsumed bill)), (js ''gas_refunded_ptra'', JInt (gasRefunded bill)),
               (js ''ton_ingress_fee_paid'', JInt 0)]],
            vr_stage = Stage_FAILED, vr_reason = Some reason, vr_bill = bill\<rparr>))"

section \<open>Phase A: the gates before VALIDATED\<close>

text \<open>The signature gate: the two key tiers, and for an owner set the quorum.\<close>

definition signature_gate :: "vctx \<Rightarrow> reason_code option" where
  "signature_gate c =
     (let s = vc_snapshot c; agent = vc_agent c; tr = vc_trace c in
      if \<not> operatorSigFlag tr then Some CAPABILITY_DENIED
      else if asStr (agent_field s agent ''operator_pubkey'') = [] then Some CAPABILITY_DENIED
      else if isOwnerRequired (vc_action c) \<or> vc_bounded c then
        (case agent_field s agent ''owners'' of
           Some (JArr xs) \<Rightarrow>
             let owners = strings_of xs in
             if length owners = 0 then Some CAPABILITY_DENIED
             else multisigQuorum owners (vBig (agent_field s agent ''threshold''))
               (case ownerSigners tr of Some ss \<Rightarrow> ss | None \<Rightarrow> [])
         | _ \<Rightarrow>
             if \<not> ownerSigFlag tr then Some CAPABILITY_DENIED
             else if asStr (agent_field s agent ''owner_pubkey'') = [] then Some CAPABILITY_DENIED
             else None)
      else None)"

definition schema_gate :: "vctx \<Rightarrow> bool" where
  "schema_gate c =
     (let pinned = (case pinnedMcpSchemaHash (vc_trace c) of Some p \<Rightarrow> p | None \<Rightarrow> [])
      in pinned = [] \<or> asStr (getIn (Some (vc_snapshot c)) [js ''registry'', js ''mcp_schema_hash'']) = pinned)"

definition expected_nonce :: "vctx \<Rightarrow> int" where
  "expected_nonce c = vBig (getIn (Some (vc_snapshot c)) [js ''cal'', js ''nonces'', vc_agent c]) + 1"

definition validated_event :: "vctx \<Rightarrow> obj" where
  "validated_event c = stage_event ''cal.validated'' c [(js ''escrow_ptra'', JInt (vc_fee c + vc_maxGas c))]"

text \<open>The gates in order; the result is a terminal result, or \<open>None\<close> with the buffer that ends in \<open>cal.validated\<close>.\<close>

definition terminal :: "validation_result res \<Rightarrow> (obj list \<times> validation_result option) res" where
  "terminal r = and_then r (\<lambda>v. Inr (vr_events v, Some v))"

definition phaseA :: "host \<Rightarrow> vctx \<Rightarrow> obj list \<Rightarrow> (obj list \<times> validation_result option) res" where
  "phaseA H c evs =
     (if \<not> isRegisteredAction (vc_action c) then terminal (noChargeFail c evs UNKNOWN_ACTION)
      else if \<not> schema_gate c then terminal (noChargeFail c evs SCHEMA_MISMATCH)
      else if vc_bounded c \<and> \<not> isBoundedAllowed (vc_action c) then terminal (noChargeFail c evs BOUNDED_BLOCKED)
      else if vc_tick c > vc_expiration c then terminal (expirePre c evs)
      else if vc_nonce c \<noteq> expected_nonce c then terminal (noChargeFail c evs NONCE_MISMATCH)
      else case signature_gate c of
        Some reason \<Rightarrow> terminal (spamFail c evs reason)
      | None \<Rightarrow>
          and_then (capabilityGrants (vc_snapshot c) (vc_agent c) (vc_action c)) (\<lambda>granted.
          if \<not> granted then terminal (spamFail c evs CAPABILITY_DENIED)
          else and_then (evalExpr H (getIn (Some (vc_cal c)) [js ''preconditions'']) Precondition
                           (no_bindings\<lparr>b_state := Some (vc_snapshot c)\<rparr>)) (\<lambda>pre.
            if out_code pre = EVALUATION_FALSE then terminal (spamFail c evs PRECOND_FALSE)
            else if out_code pre \<noteq> EVALUATION_TRUE then terminal (noChargeFail c evs PRECOND_ERROR)
            else if \<not> canValidate (vc_cal c) (vc_snapshot c) then terminal (noChargeFail c evs INSUFFICIENT_ESCROW)
            else Inr (evs @ [validated_event c], None))))"

section \<open>Phase B: execution to a terminal event\<close>

definition trace_bindings :: "execution_trace \<Rightarrow> json option \<Rightarrow> bindings" where
  "trace_bindings tr ps = no_bindings\<lparr>b_before := Some (stateBefore tr), b_after := Some (stateAfter tr), b_params := ps\<rparr>"

fun posts_loop :: "host \<Rightarrow> bindings \<Rightarrow> json list \<Rightarrow> reason_code option res" where
  "posts_loop H b [] = Inr None"
| "posts_loop H b (pc # pcs) =
     and_then (evalExpr H (Some pc) Post_condition b) (\<lambda>oc.
       if out_code oc = EVALUATION_TRUE then posts_loop H b pcs
       else Inr (Some (if out_code oc = EVALUATION_FALSE then POSTCOND_FALSE else STEP_ERROR)))"

definition step_posts :: "host \<Rightarrow> execution_trace \<Rightarrow> json \<Rightarrow> reason_code option res" where
  "step_posts H tr step =
     (case getIn (Some step) [js ''post_conditions''] of
        Some (JArr pcs) \<Rightarrow> posts_loop H (trace_bindings tr (getIn (Some step) [js ''params''])) pcs
      | _ \<Rightarrow> Inr None)"

text \<open>The steps against the trace: what was committed, and the reason the loop stopped early, if it did.\<close>

fun steps_loop :: "host \<Rightarrow> execution_trace \<Rightarrow> json list \<Rightarrow> step_result list \<Rightarrow> json list \<Rightarrow> (json list \<times> reason_code option) res" where
  "steps_loop H tr [] rs committed = Inr (committed, None)"
| "steps_loop H tr (step # steps) [] committed = Inr (committed, Some STEP_ERROR)"
| "steps_loop H tr (step # steps) (r # rs) committed =
     (if \<not> sr_ok r then Inr (committed, Some STEP_ERROR)
      else and_then (step_posts H tr step) (\<lambda>reason.
        case reason of
          Some _ \<Rightarrow> Inr (committed @ sr_effects r, reason)
        | None \<Rightarrow> steps_loop H tr steps rs (committed @ sr_effects r)))"

fun invariants_hold :: "host \<Rightarrow> bindings \<Rightarrow> json list \<Rightarrow> bool res" where
  "invariants_hold H b [] = Inr True"
| "invariants_hold H b (iv # ivs) =
     and_then (evalExpr H (Some iv) Invariant b) (\<lambda>oc.
       if out_code oc = EVALUATION_TRUE then invariants_hold H b ivs else Inr False)"

definition array_of :: "json option \<Rightarrow> json list" where
  "array_of v = (case v of Some (JArr xs) \<Rightarrow> xs | _ \<Rightarrow> [])"

definition cal_invariant_set :: "vctx \<Rightarrow> json list" where
  "cal_invariant_set c = effectiveInvariants (array_of (getIn (Some (vc_cal c)) [js ''invariants''])) (vc_bounded c)"

definition finish :: "vctx \<Rightarrow> obj list \<Rightarrow> int \<Rightarrow> int \<Rightarrow> validation_result res" where
  "finish c evs written consumed =
     and_then (settle FINALIZED (vc_cal c) (vc_snapshot c) written (vc_ownerAuth c)) (\<lambda>bill.
       Inr \<lparr>vr_events = evs @
              [[(js ''event_type'', JStr (js ''cal.settled'')), (js ''cal_hash'', JStr (vc_hash c))],
               stage_event ''cal.finalized'' c
                 [(js ''tick_finalized'', JInt (vc_tick c)), (js ''gas_consumed_ptra'', JInt consumed),
                  (js ''gas_refunded_ptra'', JInt (gasRefunded bill)),
                  (js ''steps_applied'', JInt (int (length (array_of (getIn (Some (vc_cal c)) [js ''steps'']))))),
                  (js ''invariants_checked'', JInt (int (length (cal_invariant_set c))))]],
            vr_stage = Stage_FINALIZED, vr_reason = None, vr_bill = bill\<rparr>)"

definition executed_event :: "vctx \<Rightarrow> json list \<Rightarrow> int \<Rightarrow> obj" where
  "executed_event c committed consumed =
     stage_event ''cal.executed'' c [(js ''effects'', JArr committed), (js ''gas_consumed_ptra'', JInt consumed)]"

definition phaseB :: "host \<Rightarrow> vctx \<Rightarrow> obj list \<Rightarrow> validation_result res" where
  "phaseB H c evs =
     (if vc_tick c > vc_expiration c then expirePost c evs
      else and_then (steps_loop H (vc_trace c) (array_of (getIn (Some (vc_cal c)) [js ''steps''])) (tr_steps (vc_trace c)) [])
        (\<lambda>(committed, stopped).
          case stopped of
            Some reason \<Rightarrow> execFail H c evs reason committed
          | None \<Rightarrow>
              and_then (effectsBytes H (JArr committed)) (\<lambda>written.
              and_then (gasUnits (vc_cal c) written (vc_ownerAuth c)) (\<lambda>units.
                let rawGas = toNano units (gasPrice (vc_snapshot c)) in
                if rawGas > vc_maxGas c then execFail H c evs OUT_OF_GAS committed
                else
                  let evs1 = evs @ [executed_event c committed rawGas] in
                  if vc_tick c > vc_expiration c then expirePost c evs1
                  else and_then (invariants_hold H (trace_bindings (vc_trace c) None) (cal_invariant_set c)) (\<lambda>ok.
                    if \<not> ok then execFail H c evs1 INVARIANT_FALSE committed
                    else finish c evs1 written rawGas)))))"

section \<open>Entry points\<close>

definition validate :: "host \<Rightarrow> json \<Rightarrow> jstring \<Rightarrow> json \<Rightarrow> execution_trace \<Rightarrow> validation_result res" where
  "validate H cal calHashHex snapshot tr =
     (let c = makeValidator cal calHashHex snapshot tr
      in and_then (phaseA H c []) (\<lambda>(evs, a). case a of Some v \<Rightarrow> Inr v | None \<Rightarrow> phaseB H c evs))"

record to_validated =
  tv_terminal :: "validation_result option"
  tv_events :: "obj list"

definition validateToValidated :: "host \<Rightarrow> json \<Rightarrow> jstring \<Rightarrow> json \<Rightarrow> execution_trace \<Rightarrow> to_validated res" where
  "validateToValidated H cal calHashHex snapshot tr =
     and_then (phaseA H (makeValidator cal calHashHex snapshot tr) []) (\<lambda>(evs, a).
       case a of
         Some v \<Rightarrow> Inr \<lparr>tv_terminal = Some v, tv_events = vr_events v\<rparr>
       | None \<Rightarrow> Inr \<lparr>tv_terminal = None, tv_events = evs\<rparr>)"

definition resumeFromValidated :: "host \<Rightarrow> json \<Rightarrow> jstring \<Rightarrow> json \<Rightarrow> execution_trace \<Rightarrow> validation_result res" where
  "resumeFromValidated H cal calHashHex snapshot tr = phaseB H (makeValidator cal calHashHex snapshot tr) []"

end
