(* ===== verification/Validator_Props.thy ===== *)
theory Validator_Props
  imports Validator Cal_Gas_Props
begin

text \<open>
  The validator: what the owner quorum means, that the staged pair is the atomic run, and the shape of what it emits.
\<close>

section \<open>Owner quorum\<close>

lemma signers_ascending_sorted: "signers_ascending ss \<longleftrightarrow> sorted_wrt (<) ss"
proof (induction ss rule: signers_ascending.induct)
  case (1 a b rest)
  have s: "sorted_wrt (<) (a # b # rest) \<longleftrightarrow> a < b \<and> sorted_wrt (<) (b # rest)"
    by (auto dest: order.strict_trans)
  have "b \<noteq> a \<and> \<not> b < a \<longleftrightarrow> a < b" by (metis less_linear less_not_sym)
  then show ?case unfolding signers_ascending.simps s 1 by blast
qed simp_all

lemma quorum_iff:
  "multisigQuorum owners threshold signers = None \<longleftrightarrow>
     sorted_wrt (<) signers \<and> set signers \<subseteq> set owners - {[]} \<and> threshold \<le> int (card (set signers)) \<and>
     length signers \<le> length owners"
proof -
  have "card (set signers) = length signers" if "sorted_wrt (<) signers"
    using that by (simp add: distinct_card strict_sorted_iff)
  then show ?thesis by (auto simp: multisigQuorum_def signers_ascending_sorted)
qed

lemma set_strings_of: "set (strings_of xs) = {s. JStr s \<in> set xs}"
  by (force simp: strings_of_def split: json.splits)

text \<open>
  C18: The owner gate is a quorum of distinct owners: an owner-gated CAL of an agent with an owner set passes the signature gate exactly when the
  operator signed, the agent has an operator key, the presented signers are owners of the registry in strictly ascending order (so none
  counts twice), and at least the threshold many distinct owners signed.
\<close>

theorem owner_gate_is_quorum:
  assumes "agent_field (vc_snapshot c) (vc_agent c) ''owners'' = Some (JArr xs)"
    and "isOwnerRequired (vc_action c) \<or> vc_bounded c"
    and "ownerSigners (vc_trace c) = Some signers"
  shows "signature_gate c = None \<longleftrightarrow>
    operatorSigFlag (vc_trace c) \<and> asStr (agent_field (vc_snapshot c) (vc_agent c) ''operator_pubkey'') \<noteq> [] \<and>
    strings_of xs \<noteq> [] \<and> sorted_wrt (<) signers \<and> (\<forall>s \<in> set signers. s \<noteq> [] \<and> JStr s \<in> set xs) \<and>
    length signers \<le> length (strings_of xs) \<and>
    vBig (agent_field (vc_snapshot c) (vc_agent c) ''threshold'') \<le> int (card (set signers))"
  using assms quorum_iff [of "strings_of xs" _ signers] by (auto simp: signature_gate_def Let_def set_strings_of)

definition quorum_state :: json where
  "quorum_state = JObj [(js ''registry'', JObj [(js ''agents'', JObj [(js ''a'', JObj
     [(js ''operator_pubkey'', JStr (js ''0xop'')), (js ''threshold'', JInt 2),
      (js ''owners'', JArr [JStr (js ''k1''), JStr (js ''k2''), JStr (js ''k3'')])])])])]"

definition sample_trace :: execution_trace where
  "sample_trace = \<lparr>currentTick = 3, tr_steps = [], stateBefore = JNull, stateAfter = JNull, operatorSigFlag = True,
     ownerSigFlag = False, ownerSigners = Some [js ''k1'', js ''k3''], pinnedMcpSchemaHash = None\<rparr>"

definition quorum_ctx :: "jstring list \<Rightarrow> vctx" where
  "quorum_ctx ss = makeValidator (JObj [(js ''agent_id'', JStr (js ''a'')), (js ''action'', JStr (js ''treasury.transfer''))])
     (js ''c1'') quorum_state (sample_trace\<lparr>ownerSigners := Some ss\<rparr>)"

lemma quorum_ctx_reads:
  "vc_snapshot (quorum_ctx ss) = quorum_state" "vc_agent (quorum_ctx ss) = js ''a''"
  "vc_action (quorum_ctx ss) = js ''treasury.transfer''" "vc_trace (quorum_ctx ss) = sample_trace\<lparr>ownerSigners := Some ss\<rparr>"
  by (simp_all add: quorum_ctx_def makeValidator_def Let_def asStr_def getIn_Cons js_get_def)

theorem owner_gate_is_quorum_witness:
  "signature_gate (quorum_ctx [js ''k1'', js ''k3'']) = None \<and> signature_gate (quorum_ctx [js ''k1'', js ''k1'']) \<noteq> None"
proof -
  have o: "agent_field quorum_state (js ''a'') ''owners'' = Some (JArr [JStr (js ''k1''), JStr (js ''k2''), JStr (js ''k3'')])"
    "asStr (agent_field quorum_state (js ''a'') ''operator_pubkey'') = js ''0xop''"
    "vBig (agent_field quorum_state (js ''a'') ''threshold'') = 2"
    by (simp_all add: agent_field_def quorum_state_def getIn_Cons js_get_def asStr_def vBig_def)
  have r: "isOwnerRequired (js ''treasury.transfer'')" by (simp add: isOwnerRequired_def OWNER_REQUIRED_ACTIONS_def)
  have "js ''k1'' < js ''k3''" by code_simp
  moreover have "js ''0xop'' \<noteq> []" "js ''k1'' \<noteq> []" "js ''k3'' \<noteq> []" by (simp_all add: js_def)
  ultimately show ?thesis
    using owner_gate_is_quorum [of "quorum_ctx [js ''k1'', js ''k3'']" _ "[js ''k1'', js ''k3'']"]
      owner_gate_is_quorum [of "quorum_ctx [js ''k1'', js ''k1'']" _ "[js ''k1'', js ''k1'']"]
    by (simp add: quorum_ctx_reads o r sample_trace_def strings_of_def)
qed

section \<open>Staged and atomic runs\<close>

text \<open>The buffer a phase starts with is a prefix of the events of its result.\<close>

definition put_before :: "obj list \<Rightarrow> validation_result \<Rightarrow> validation_result" where
  "put_before evs v = v\<lparr>vr_events := evs @ vr_events v\<rparr>"

definition lift_res :: "('a \<Rightarrow> 'b) \<Rightarrow> 'a res \<Rightarrow> 'b res" where
  "lift_res f r = and_then r (\<lambda>x. Inr (f x))"

lemma lift_res_simps [simp]: "lift_res f (Inl e) = Inl e" "lift_res f (Inr x) = Inr (f x)"
  by (simp_all add: lift_res_def)

lemma and_then_lift: "(\<And>x. f x = lift_res h (g x)) \<Longrightarrow> and_then m f = lift_res h (and_then m g)"
  by (cases m) simp_all

lemma ends_prefix:
  "expirePost c evs = lift_res (put_before evs) (expirePost c [])"
  "execFail H c evs reason committed = lift_res (put_before evs) (execFail H c [] reason committed)"
  "finish c evs written consumed = lift_res (put_before evs) (finish c [] written consumed)"
  unfolding expirePost_def execFail_def finish_def
  by (intro and_then_lift; simp add: put_before_def)+

lemma put_before_append: "put_before (evs @ evs') v = put_before evs (put_before evs' v)"
  by (simp add: put_before_def)

lemma lift_put_append: "lift_res (put_before (evs @ evs')) r = lift_res (put_before evs) (lift_res (put_before evs') r)"
  by (cases r) (simp_all add: put_before_append)

lemma phaseB_prefix: "phaseB H c evs = lift_res (put_before evs) (phaseB H c [])"
proof -
  have e: "expirePost c (evs @ l) = lift_res (put_before evs) (expirePost c l)"
    "execFail H c (evs @ l) reason committed = lift_res (put_before evs) (execFail H c l reason committed)"
    "finish c (evs @ l) written consumed = lift_res (put_before evs) (finish c l written consumed)"
    for l reason committed written consumed
    by (subst (1 2) ends_prefix, simp add: lift_put_append)+
  show ?thesis
  proof (cases "vc_tick c > vc_expiration c")
    case True
    then show ?thesis using e(1) [of "[]"] by (simp add: phaseB_def)
  next
    case False
    show ?thesis unfolding phaseB_def if_not_P [OF False]
      by (rule and_then_lift) (auto split: option.split simp: Let_def e False e(2) [of "[]", simplified] intro!: and_then_lift)
  qed
qed

text \<open>
  C30: Staging changes nothing: running stage 1 and resuming at once (same snapshot, same trace) gives exactly the result of the atomic
  \<open>validate\<close>, with the events of stage 1 in front; and if stage 1 ends the CAL, that is the result of \<open>validate\<close>.
\<close>

theorem staged_is_atomic:
  "validate H cal ch snapshot tr =
     and_then (validateToValidated H cal ch snapshot tr) (\<lambda>s1.
       case tv_terminal s1 of
         Some v \<Rightarrow> Inr v
       | None \<Rightarrow> lift_res (put_before (tv_events s1)) (resumeFromValidated H cal ch snapshot tr))"
proof (cases "phaseA H (makeValidator cal ch snapshot tr) []")
  case (Inr p)
  obtain evs a where "p = (evs, a)" by (cases p)
  with Inr show ?thesis
    using phaseB_prefix [of H "makeValidator cal ch snapshot tr" evs]
    by (cases a) (simp_all add: validate_def validateToValidated_def resumeFromValidated_def Let_def)
qed (simp add: validate_def validateToValidated_def Let_def)

end
