(* ===== verification/Validator_Reducer.thy ===== *)
theory Validator_Reducer
  imports Validator_Props Reducer_Props
begin

text \<open>
  The validator meets the reducer: the events \<open>validate\<close> emits for a SIGNED CAL are accepted one after the other, and the reducer
  charges what the bill says.
\<close>

section \<open>An in-flight CAL and the money around it\<close>

text \<open>The record of a CAL with the balance of its agent, the fee window and the nonces.\<close>

definition flight_view :: "json \<Rightarrow> jstring \<Rightarrow> string \<Rightarrow> jstring \<Rightarrow> int \<Rightarrow> json list \<Rightarrow> int \<Rightarrow> int \<Rightarrow> obj \<Rightarrow> bool" where
  "flight_view s ch st a e ds b f n \<longleftrightarrow>
     (\<exists>h. map_of (flights s) ch = Some (JObj h) \<and> at_stage h st \<and> flight_agent h = Inr a \<and> flight_escrow h = Inr e \<and>
       flight_staged h = Inr ds) \<and> bal s a = b \<and> fees s = f \<and> nonces s = n"

definition closed_view :: "json \<Rightarrow> jstring \<Rightarrow> jstring \<Rightarrow> int \<Rightarrow> int \<Rightarrow> obj \<Rightarrow> bool" where
  "closed_view s ch a b f n \<longleftrightarrow>
     map_of (flights s) ch = None \<and> bal s a = b \<and> fees s = f \<and> nonce_of s a = bigint_or (map_of n a) 0 + 1"

lemmas flight_fields_iff = at_stage_map flight_agent_Inr flight_escrow_Inr flight_staged_Inr

lemma flight_viewI:
  assumes "flights s' = AList.update ch (JObj h') (flights s)" "bal s' a = b" "fees s' = f" "nonces s' = n"
    and "at_stage h' st" "flight_agent h' = Inr a" "flight_escrow h' = Inr e" "flight_staged h' = Inr ds"
  shows "flight_view s' ch st a e ds b f n"
  using assms by (simp add: flight_view_def)

lemma validated_step:
  assumes v: "flight_view s ch ''SIGNED'' a e ds b f n" and ev: "reqStr ev ''cal_hash'' = Inr ch" "reqUint ev ''escrow_ptra'' = Inr m"
    and m: "m \<le> b"
  shows "\<exists>s'. apply_validated s ev = Inr s' \<and> flight_view s' ch ''VALIDATED'' a m ds (b - m) f n"
proof -
  obtain h where h: "map_of (flights s) ch = Some (JObj h)" "at_stage h ''SIGNED''" "flight_agent h = Inr a"
    "flight_staged h = Inr ds" and b: "bal s a = b" "fees s = f" "nonces s = n"
    using v by (auto simp: flight_view_def)
  let ?s' = "set_stage (setIn (Some (set_balance s a (b - m))) [js ''cal'', js ''in_flight'', ch, js ''escrowed_ptra''] (JInt m)) ch ''VALIDATED''"
  have "apply_validated s ev = Inr ?s'" using h b ev m by (simp add: apply_validated_def own_inFlight Let_def)
  moreover have "flight_view ?s' ch ''VALIDATED'' a m ds (b - m) f n"
    using h b by (simp add: flight_view_def reducer_views js_get_own flight_fields_iff bal_eq)
  ultimately show ?thesis by blast
qed

lemma executed_step:
  assumes v: "flight_view s ch ''VALIDATED'' a e ds b f n"
    and ev: "reqStr ev ''cal_hash'' = Inr ch" "js_get (js ''effects'') ev = Some (JArr ds')" "reqUint ev ''gas_consumed_ptra'' = Inr g"
  shows "\<exists>s'. apply_executed s ev = Inr s' \<and> flight_view s' ch ''EXECUTED'' a e ds' b f n"
proof -
  obtain h where h: "map_of (flights s) ch = Some (JObj h)" "at_stage h ''VALIDATED''" "flight_agent h = Inr a"
    "flight_escrow h = Inr e" and b: "bal s a = b" "fees s = f" "nonces s = n"
    using v by (auto simp: flight_view_def)
  let ?s' = "set_stage (setIn (Some (setIn (Some s) [js ''cal'', js ''in_flight'', ch, js ''staged''] (JArr ds')))
    [js ''cal'', js ''in_flight'', ch, js ''gas_consumed_ptra''] (JInt g)) ch ''EXECUTED''"
  have "apply_executed s ev = Inr ?s'" using h ev by (simp add: apply_executed_def own_inFlight Let_def)
  moreover have "flight_view ?s' ch ''EXECUTED'' a e ds' b f n"
    using h b by (simp add: flight_view_def reducer_views js_get_own flight_fields_iff bal_eq)
  ultimately show ?thesis by blast
qed

lemma settled_step:
  assumes v: "flight_view s ch ''EXECUTED'' a e ds b f n" and ev: "reqStr ev ''cal_hash'' = Inr ch"
  shows "\<exists>s'. apply_settled s ev = Inr s' \<and> flight_view s' ch ''SETTLED'' a e ds b f n"
proof -
  obtain h where h: "map_of (flights s) ch = Some (JObj h)" "at_stage h ''EXECUTED''" "flight_agent h = Inr a"
    "flight_escrow h = Inr e" "flight_staged h = Inr ds" and b: "bal s a = b" "fees s = f" "nonces s = n"
    using v by (auto simp: flight_view_def)
  have "flight_view (set_stage s ch ''SETTLED'') ch ''SETTLED'' a e ds b f n"
    using h b by (simp add: flight_view_def reducer_views js_get_own flight_fields_iff bal_eq)
  then show ?thesis using h ev by (simp add: apply_settled_def own_inFlight)
qed

lemma settle_escrow_step:
  assumes "bal s a = b" "fees s = f" "nonces s = n" "0 \<le> r" "r \<le> e"
  shows "\<exists>s1. settle_escrow s a e r = Inr s1 \<and> closed_view (drop_flight (bumpNonce s1 a) ch) ch a (b + r) (f + (e - r)) n"
  using assms by (auto simp: settle_escrow_def Let_def closed_view_def reducer_views delete_conv' bal_eq)

text \<open>The errors a commit of staged effects can raise.\<close>

abbreviation delta_errors :: "exn set" where
  "delta_errors \<equiv> Apply ` {BAD_DELTA, OVERFLOW, UNDERFLOW, BAD_OWNER_RECORD}"

lemma finalized_step:
  assumes v: "flight_view s ch ''SETTLED'' a e ds b f n" and conf: "list_all confined ds"
    and ev: "reqStr ev ''cal_hash'' = Inr ch" "optUint ev ''gas_refunded_ptra'' = Inr r" and r: "r \<le> e"
  shows "(\<exists>s'. apply_finalized s ev = Inr s' \<and> closed_view s' ch a (b + r) (f + (e - r)) n) \<or>
    (\<exists>x \<in> delta_errors. apply_deltas s ds = Inl x \<and> apply_finalized s ev = Inl x)"
proof -
  obtain h where h: "map_of (flights s) ch = Some (JObj h)" "at_stage h ''SETTLED''" "flight_agent h = Inr a"
    "flight_escrow h = Inr e" "flight_staged h = Inr ds" and b: "bal s a = b" "fees s = f" "nonces s = n"
    using v by (auto simp: flight_view_def)
  have f: "apply_finalized s ev = and_then (apply_deltas s ds) (\<lambda>s1. and_then (settle_escrow s1 a e r)
      (\<lambda>s2. Inr (drop_flight (bumpNonce s2 a) ch)))"
    using h ev by (simp add: apply_finalized_def own_inFlight)
  show ?thesis
  proof (cases "apply_deltas s ds")
    case (Inl x)
    then show ?thesis using apply_deltas_err [OF Inl] by (simp add: f)
  next
    case (Inr s1)
    then have "bal s1 a = b" "fees s1 = f" "nonces s1 = n"
      using b staged_deltas_views [OF Inr conf] by (simp_all add: bal_eq)
    then show ?thesis using settle_escrow_step [of s1 a b f n r e ch] optUint_nonneg [OF ev(2)] r Inr f by auto
  qed
qed

lemma failed_late_step:
  assumes v: "flight_view s ch st a e ds b f n" "st = ''VALIDATED'' \<or> st = ''EXECUTED''"
    and ev: "reqStr ev ''cal_hash'' = Inr ch" "optUint ev ''gas_refunded_ptra'' = Inr r" and r: "r \<le> e"
  shows "\<exists>s'. apply_failed s ev = Inr s' \<and> closed_view s' ch a (b + r) (f + (e - r)) n"
proof -
  obtain h where h: "map_of (flights s) ch = Some (JObj h)" "at_stage h st" "flight_agent h = Inr a"
    "flight_escrow h = Inr e" and b: "bal s a = b" "fees s = f" "nonces s = n"
    using v by (auto simp: flight_view_def)
  have "\<not> at_stage h ''CREATED''" "\<not> at_stage h ''SIGNED''" using h(2) v(2) by (auto simp: at_stage_map)
  then show ?thesis
    using h ev settle_escrow_step [of s a b f n r e ch, OF b optUint_nonneg [OF ev(2)] r]
    by (auto simp: apply_failed_def own_inFlight)
qed

lemma failed_early_step:
  assumes v: "flight_view s ch ''SIGNED'' a e ds b f n"
    and ev: "reqStr ev ''cal_hash'' = Inr ch" "optUint ev ''fee_debited_ptra'' = Inr x" and x: "x \<le> b"
  shows "\<exists>s'. apply_failed s ev = Inr s' \<and> closed_view s' ch a (b - x) (f + x) n"
proof -
  obtain h where h: "map_of (flights s) ch = Some (JObj h)" "at_stage h ''SIGNED''" "flight_agent h = Inr a"
    and b: "bal s a = b" "fees s = f" "nonces s = n"
    using v by (auto simp: flight_view_def)
  show ?thesis
    using h ev b x optUint_nonneg [OF ev(2)]
    by (auto simp: apply_failed_def own_inFlight closed_view_def reducer_views delete_conv' bal_eq)
qed

section \<open>Reading the stage events\<close>

lemma stage_event_type: "js_get (js ''event_type'') (stage_event ty c fs) = Some (JStr (js ty))"
  by (simp add: stage_event_def js_get_def)

lemma stage_event_hash: "reqStr (stage_event ty c fs) ''cal_hash'' = Inr (vc_hash c)"
  by (simp add: stage_event_def idBase_def reqStr_def js_get_def)

lemma stage_event_field:
  assumes "k \<notin> {''event_type'', ''cal_hash'', ''agent_id'', ''nonce''}"
  shows "js_get (js k) (stage_event ty c fs) = js_get (js k) fs"
  using assms by (simp add: stage_event_def idBase_def js_get_def)

lemma stage_event_uint:
  assumes "k \<notin> {''event_type'', ''cal_hash'', ''agent_id'', ''nonce''}"
  shows "reqUint (stage_event ty c fs) k = reqUint fs k" "optUint (stage_event ty c fs) k = optUint fs k"
  using stage_event_field [OF assms] by (simp_all add: reqUint_def optUint_def js_has_iff)

lemmas stage_event_reads = stage_event_type stage_event_hash stage_event_field stage_event_uint

lemma optUint_reads:
  "fits x \<Longrightarrow> js_get (js k) fs = Some (JInt x) \<Longrightarrow> optUint fs k = Inr x"
  "js_get (js k) fs = None \<Longrightarrow> optUint fs k = Inr 0"
  by (simp_all add: optUint_def reqUint_def fits_def js_has_iff del: js_get_JInt)

lemma reqUint_reads: "fits x \<Longrightarrow> js_get (js k) fs = Some (JInt x) \<Longrightarrow> reqUint fs k = Inr x"
  by (simp add: reqUint_def fits_def del: js_get_JInt)

lemma applyEvent_stage:
  "applyEvent s (stage_event ''cal.validated'' c fs) = apply_validated s (stage_event ''cal.validated'' c fs)"
  "applyEvent s (stage_event ''cal.executed'' c fs) = apply_executed s (stage_event ''cal.executed'' c fs)"
  "applyEvent s (stage_event ''cal.finalized'' c fs) = apply_finalized s (stage_event ''cal.finalized'' c fs)"
  "applyEvent s (stage_event ''cal.failed'' c fs) = apply_failed s (stage_event ''cal.failed'' c fs)"
  "applyEvent s (stage_event ''cal.expired'' c fs) = apply_failed s (stage_event ''cal.expired'' c fs)"
  by (simp_all add: applyEvent_def stage_event_type)

section \<open>What a run of the validator can be\<close>

lemma terminal_Inr: "terminal r = Inr (evs, a) \<longleftrightarrow> (\<exists>v. r = Inr v \<and> evs = vr_events v \<and> a = Some v)"
  by (auto simp: terminal_def)

lemma phaseA_cases:
  assumes "phaseA H c evs = Inr (evs', a)"
  obtains (early) reason v where "a = Some v" "noChargeFail c evs reason = Inr v \<or> spamFail c evs reason = Inr v \<or> expirePre c evs = Inr v"
  | (validated) "a = None" "evs' = evs @ [validated_event c]" "canValidate (vc_cal c) (vc_snapshot c)" "\<not> vc_tick c > vc_expiration c"
  using assms unfolding phaseA_def
  by (auto simp: terminal_Inr split: if_splits option.splits)

lemma steps_loop_committed:
  "steps_loop H tr steps rs cm = Inr (cm', r) \<Longrightarrow> list_all P cm \<Longrightarrow> list_all (list_all P \<circ> sr_effects) rs \<Longrightarrow> list_all P cm'"
  by (induction H tr steps rs cm rule: steps_loop.induct) (auto split: if_splits option.splits)

lemma phaseB_cases:
  assumes "phaseB H c evs = Inr v" and "\<not> vc_tick c > vc_expiration c"
    and "list_all (list_all P \<circ> sr_effects) (tr_steps (vc_trace c))"
  obtains (failed) reason cm where "execFail H c evs reason cm = Inr v"
  | (executed) cm written units where "list_all P cm" "effectsBytes H (JArr cm) = Inr written"
      "gasUnits (vc_cal c) written (vc_ownerAuth c) = Inr units" "toNano units (gasPrice (vc_snapshot c)) \<le> vc_maxGas c"
      "execFail H c (evs @ [executed_event c cm (toNano units (gasPrice (vc_snapshot c)))]) INVARIANT_FALSE cm = Inr v \<or>
       finish c (evs @ [executed_event c cm (toNano units (gasPrice (vc_snapshot c)))]) written (toNano units (gasPrice (vc_snapshot c))) = Inr v"
proof -
  obtain cm stopped where l: "steps_loop H (vc_trace c) (array_of (getIn (Some (vc_cal c)) [js ''steps''])) (tr_steps (vc_trace c)) [] = Inr (cm, stopped)"
    and r: "(case stopped of Some reason \<Rightarrow> execFail H c evs reason cm
      | None \<Rightarrow> and_then (effectsBytes H (JArr cm)) (\<lambda>written.
          and_then (gasUnits (vc_cal c) written (vc_ownerAuth c)) (\<lambda>units.
            if toNano units (gasPrice (vc_snapshot c)) > vc_maxGas c then execFail H c evs OUT_OF_GAS cm
            else if vc_tick c > vc_expiration c then expirePost c (evs @ [executed_event c cm (toNano units (gasPrice (vc_snapshot c)))])
            else and_then (invariants_hold H (trace_bindings (vc_trace c) None) (cal_invariant_set c)) (\<lambda>ok.
              if \<not> ok then execFail H c (evs @ [executed_event c cm (toNano units (gasPrice (vc_snapshot c)))]) INVARIANT_FALSE cm
              else finish c (evs @ [executed_event c cm (toNano units (gasPrice (vc_snapshot c)))]) written
                (toNano units (gasPrice (vc_snapshot c))))))) = Inr v"
    using assms(1,2) unfolding phaseB_def Let_def by (auto split del: if_split)
  have cm: "list_all P cm" using steps_loop_committed [OF l _ assms(3)] by simp
  show ?thesis
  proof (cases stopped)
    case (Some reason)
    with r show ?thesis by (intro failed) simp
  next
    case None
    let ?raw = "\<lambda>units. toNano units (gasPrice (vc_snapshot c))"
    from None r obtain written units where w: "effectsBytes H (JArr cm) = Inr written"
      "gasUnits (vc_cal c) written (vc_ownerAuth c) = Inr units"
      and o: "(if ?raw units > vc_maxGas c then execFail H c evs OUT_OF_GAS cm
        else if vc_tick c > vc_expiration c then expirePost c (evs @ [executed_event c cm (?raw units)])
        else and_then (invariants_hold H (trace_bindings (vc_trace c) None) (cal_invariant_set c)) (\<lambda>ok.
          if \<not> ok then execFail H c (evs @ [executed_event c cm (?raw units)]) INVARIANT_FALSE cm
          else finish c (evs @ [executed_event c cm (?raw units)]) written (?raw units))) = Inr v"
      by (auto split del: if_split)
    show ?thesis
    proof (cases "?raw units > vc_maxGas c")
      case True
      with o show ?thesis by (intro failed) simp
    next
      case False
      with o assms(2) show ?thesis by (intro executed [OF cm w]) (auto split: if_splits)
    qed
  qed
qed

section \<open>Each end of a run\<close>

lemma log_Cons: "materialize_state (ev # evs) s = and_then (applyEvent s ev) (materialize_state evs)"
  by (rule log.run_Cons)

lemma log_Nil: "materialize_state [] s = Inr s"
  by (rule log.run_Nil)

lemma getIn_one: "getIn v [a] = (case v of Some (JObj ob) \<Rightarrow> js_get a ob | _ \<Rightarrow> None)"
  by (auto simp: getIn_Cons split: option.splits json.splits)

lemma balanceOf_bal: "balanceOf s a = bal s a"
proof -
  have "getIn (Some s) [js ''ptra'', js ''balances'', a] =
      (case getIn (Some s) [js ''ptra'', js ''balances''] of Some (JObj ob) \<Rightarrow> js_get a ob | _ \<Rightarrow> None)"
    using getIn_append [of "Some s" "[js ''ptra'', js ''balances'']" "[a]"] getIn_one [of "getIn (Some s) [js ''ptra'', js ''balances'']" a]
    by simp
  then show ?thesis
    by (auto simp: balanceOf_def bal_def gas_getIn_getIn asBig_def js_has_iff simp del: js_get_JInt
        split: option.splits json.splits)
qed

lemma makeValidator_reads:
  "vc_cal (makeValidator cal ch s tr) = cal" "vc_hash (makeValidator cal ch s tr) = ch"
  "vc_snapshot (makeValidator cal ch s tr) = s" "vc_trace (makeValidator cal ch s tr) = tr"
  "vc_fee (makeValidator cal ch s tr) = flatValidationFee s"
  "vc_maxGas (makeValidator cal ch s tr) = maxExpectedDynamicGas cal (flatValidationFee s)"
  "0 \<le> vc_ownerAuth (makeValidator cal ch s tr)"
  by (simp_all add: makeValidator_def Let_def owner_auth_def ownerAuthUnits_def OWNER_AUTH_BASE_def ED25519_VERIFY_WEIGHT_def)

text \<open>The amounts of the reducer and of the bill, for the CAL of a context.\<close>

lemma early_end:
  assumes v: "flight_view s (vc_hash c) ''SIGNED'' a e ds b f n" and s: "vc_snapshot c = s" "cal_agent (vc_cal c) = Some a"
    and b: "0 \<le> flatValidationFee s" "fits b"
    and r: "noChargeFail c [] reason = Inr r \<or> spamFail c [] reason = Inr r \<or> expirePre c [] = Inr r"
  shows "\<exists>s'. materialize_state (vr_events r) s = Inr s' \<and>
    closed_view s' (vc_hash c) a (b - totalAgentCharge (vr_bill r)) (f + totalAgentCharge (vr_bill r)) n"
proof -
  obtain ev where ev: "vr_events r = [ev]" "applyEvent s ev = apply_failed s ev" "reqStr ev ''cal_hash'' = Inr (vc_hash c)"
    and x: "optUint ev ''fee_debited_ptra'' = Inr (totalAgentCharge (vr_bill r))" "totalAgentCharge (vr_bill r) \<le> b"
  proof -
    let ?spam = "if b < flatValidationFee s then b else flatValidationFee s"
    have bal: "bal s a = b" using v by (simp add: flight_view_def)
    have "fits ?spam" "fits 0" using b by (auto simp: fits_def)
    then show thesis using that r b s
      by (auto simp: noChargeFail_def spamFail_def expirePre_def settle_def Let_def applyEvent_stage stage_event_reads optUint_reads
          js_get_def ZERO_BILL_def balanceOf_bal bal fits_def simp del: js_get_JInt)
  qed
  from failed_early_step [OF v ev(3) x] ev show ?thesis by (auto simp: log_Cons log_Nil)
qed

lemma late_end:
  assumes v: "flight_view s1 (vc_hash c) st a m ds b f n" "st = ''VALIDATED'' \<or> st = ''EXECUTED''"
    and valid: "validateCal input = Inr cal" "vc_cal c = JObj cal" "vc_snapshot c = s" "0 \<le> vc_ownerAuth c"
    and price: "0 \<le> gasPrice s" "0 \<le> flatValidationFee s"
    and m: "m = flatValidationFee s + maxExpectedDynamicGas (JObj cal) (flatValidationFee s)" "fits m"
    and r: "execFail H c evs reason cm = Inr r"
  shows "\<exists>ev s'. vr_events r = evs @ [ev] \<and> applyEvent s1 ev = Inr s' \<and>
    closed_view s' (vc_hash c) a (b + m - totalAgentCharge (vr_bill r)) (f + totalAgentCharge (vr_bill r)) n"
proof -
  from r obtain written bill where w: "effectsBytes H (JArr cm) = Inr written" "settle FAILED_EXEC (JObj cal) s written (vc_ownerAuth c) = Inr bill"
    and rr: "r = \<lparr>vr_events = evs @ [stage_event ''cal.failed'' c
              [(js ''tick_failed'', JInt (vc_tick c)), (js ''reason_code'', JStr (js (reason_text reason))),
               (js ''gas_consumed_ptra'', JInt (dynamicGasConsumed bill)), (js ''gas_refunded_ptra'', JInt (gasRefunded bill)),
               (js ''ton_ingress_fee_paid'', JInt 0)]],
            vr_stage = Stage_FAILED, vr_reason = Some reason, vr_bill = bill\<rparr>"
    unfolding execFail_def valid(2,3) by auto
  have "0 \<le> written" using w(1) by (auto simp: effectsBytes_def)
  from settle_bill [OF valid(1) price this valid(4), of FAILED_EXEC] w(2) obtain g x where
    bill: "bill = \<lparr>feeRetained = flatValidationFee s, dynamicGasConsumed = g, gasRefunded = x, totalAgentCharge = flatValidationFee s + g\<rparr>"
    and gx: "0 \<le> g" "0 \<le> x" "g + x = maxExpectedDynamicGas (JObj cal) (flatValidationFee s)"
    by auto
  let ?ev = "last (vr_events r)"
  have x: "x \<le> m" "fits x" using gx m price(2) by (auto simp: fits_def)
  have ev: "vr_events r = evs @ [?ev]" "applyEvent s1 ?ev = apply_failed s1 ?ev" "reqStr ?ev ''cal_hash'' = Inr (vc_hash c)"
    "optUint ?ev ''gas_refunded_ptra'' = Inr x"
    using x(2) by (simp_all add: rr bill applyEvent_stage stage_event_reads optUint_reads js_get_def)
  have "b + x = b + m - totalAgentCharge (vr_bill r)" "f + (m - x) = f + totalAgentCharge (vr_bill r)"
    using gx(3) m(1) by (simp_all add: rr bill)
  with failed_late_step [OF v ev(3,4) x(1)] ev(1,2) show ?thesis by metis
qed

lemma finish_end:
  assumes v: "flight_view s1 (vc_hash c) ''EXECUTED'' a m ds b f n" and conf: "list_all confined ds"
    and valid: "validateCal input = Inr cal" "vc_cal c = JObj cal" "vc_snapshot c = s" "0 \<le> vc_ownerAuth c"
    and price: "0 \<le> gasPrice s" "0 \<le> flatValidationFee s" "0 \<le> written"
    and m: "m = flatValidationFee s + maxExpectedDynamicGas (JObj cal) (flatValidationFee s)" "fits m"
    and r: "finish c evs written g = Inr r"
  shows "vr_stage r = Stage_FINALIZED \<and> (\<exists>ev1 ev2 s2. vr_events r = evs @ [ev1, ev2] \<and> applyEvent s1 ev1 = Inr s2 \<and>
    ((\<exists>s'. applyEvent s2 ev2 = Inr s' \<and>
      closed_view s' (vc_hash c) a (b + m - totalAgentCharge (vr_bill r)) (f + totalAgentCharge (vr_bill r)) n) \<or>
     (\<exists>x \<in> delta_errors. apply_deltas s2 ds = Inl x \<and> applyEvent s2 ev2 = Inl x)))"
proof -
  from r obtain bill fs where w: "settle gas_outcome.FINALIZED (JObj cal) s written (vc_ownerAuth c) = Inr bill"
    and rr: "r = \<lparr>vr_events = evs @ [[(js ''event_type'', JStr (js ''cal.settled'')), (js ''cal_hash'', JStr (vc_hash c))],
       stage_event ''cal.finalized'' c ((js ''tick_finalized'', JInt (vc_tick c)) # (js ''gas_consumed_ptra'', JInt g) #
         (js ''gas_refunded_ptra'', JInt (gasRefunded bill)) # fs)],
       vr_stage = Stage_FINALIZED, vr_reason = None, vr_bill = bill\<rparr>"
    unfolding finish_def valid(2,3) by auto
  from settle_bill [OF valid(1) price(1,2,3) valid(4), of gas_outcome.FINALIZED] w obtain g' x where
    bill: "bill = \<lparr>feeRetained = flatValidationFee s, dynamicGasConsumed = g', gasRefunded = x, totalAgentCharge = flatValidationFee s + g'\<rparr>"
    and gx: "0 \<le> g'" "0 \<le> x" "g' + x = maxExpectedDynamicGas (JObj cal) (flatValidationFee s)"
    by auto
  let ?ev1 = "[(js ''event_type'', JStr (js ''cal.settled'')), (js ''cal_hash'', JStr (vc_hash c))]" and ?ev2 = "last (vr_events r)"
  have "reqStr ?ev1 ''cal_hash'' = Inr (vc_hash c)" by (simp add: reqStr_def js_get_def)
  from settled_step [OF v this] obtain s2 where s2: "applyEvent s1 ?ev1 = Inr s2" "flight_view s2 (vc_hash c) ''SETTLED'' a m ds b f n"
    by (auto simp: applyEvent_def js_get_def)
  have x: "x \<le> m" "fits x" using gx m price(2) by (auto simp: fits_def)
  have ev: "vr_events r = evs @ [?ev1, ?ev2]" "applyEvent s2 ?ev2 = apply_finalized s2 ?ev2" "reqStr ?ev2 ''cal_hash'' = Inr (vc_hash c)"
    "optUint ?ev2 ''gas_refunded_ptra'' = Inr x"
    using x(2) by (simp_all add: rr bill applyEvent_stage stage_event_reads optUint_reads js_get_def)
  have "b + x = b + m - totalAgentCharge (vr_bill r)" "f + (m - x) = f + totalAgentCharge (vr_bill r)"
    using gx(3) m(1) by (simp_all add: rr bill)
  with finalized_step [OF s2(2) conf ev(3,4) x(1)] ev(1,2) s2(1) show ?thesis by (simp add: rr)
qed

section \<open>The whole run\<close>

text \<open>The Deltas that the steps of a trace report.\<close>

definition reported :: "execution_trace \<Rightarrow> json set" where
  "reported tr = (\<Union>r \<in> set (tr_steps tr). set (sr_effects r))"

text \<open>The CAL \<open>cal\<close> of agent \<open>a\<close> is in flight at SIGNED under \<open>ch\<close>, in a sound state with prices that are not negative.\<close>

definition ready :: "json \<Rightarrow> jstring \<Rightarrow> obj \<Rightarrow> jstring \<Rightarrow> bool" where
  "ready s ch cal a \<longleftrightarrow>
     reducer_inv s \<and> funds_ok s \<and> ptra_supply s \<le> UINT256_MAX \<and> 0 \<le> gasPrice s \<and> 0 \<le> flatValidationFee s \<and>
     field ''agent_id'' cal = Some (JStr a) \<and>
     (\<exists>h. map_of (flights s) ch = Some (JObj h) \<and> at_stage h ''SIGNED'' \<and> flight_agent h = Inr a)"

lemma ready_view:
  assumes "ready s ch cal a"
  shows "\<exists>e ds. flight_view s ch ''SIGNED'' a e ds (bal s a) (fees s) (nonces s)" "fits (bal s a)" "cal_agent (JObj cal) = Some a"
proof -
  from assms obtain h where inv: "reducer_inv s" "map_of (flights s) ch = Some (JObj h)" and st: "at_stage h ''SIGNED''" "flight_agent h = Inr a"
    by (auto simp: ready_def)
  from inv obtain e ds where "map_of h (js ''escrowed_ptra'') = Some (JInt e)" "map_of h (js ''staged'') = Some (JArr ds)"
    by (rule live_flight)
  then show "\<exists>e ds. flight_view s ch ''SIGNED'' a e ds (bal s a) (fees s) (nonces s)"
    using inv st by (auto simp: flight_view_def flight_fields_iff)
  show "fits (bal s a)"
    using assms bal_le_supply [of s a] funds_ok_bal [of s a] by (auto simp: ready_def fits_def)
  show "cal_agent (JObj cal) = Some a"
    unfolding cal_agent_def gas_getIn_field using assms by (simp add: ready_def)
qed

definition settled_by :: "validation_result \<Rightarrow> json \<Rightarrow> jstring \<Rightarrow> jstring \<Rightarrow> json \<Rightarrow> bool" where
  "settled_by v s ch a s' \<longleftrightarrow>
     bal s' a = bal s a - totalAgentCharge (vr_bill v) \<and> fees s' = fees s + totalAgentCharge (vr_bill v) \<and>
     nonce_of s' a = nonce_of s a + 1 \<and> map_of (flights s') ch = None"

lemma closed_settled:
  "closed_view s' ch a (bal s a - totalAgentCharge (vr_bill v)) (fees s + totalAgentCharge (vr_bill v)) (nonces s) \<Longrightarrow> settled_by v s ch a s'"
  by (simp add: closed_view_def settled_by_def)

lemma validate_run:
  assumes valid: "validateCal input = Inr cal" and ready: "ready s ch cal a"
    and conf: "list_all (list_all confined \<circ> sr_effects) (tr_steps tr)"
    and v: "validate H (JObj cal) ch s tr = Inr v"
  shows "(\<exists>s'. materialize_log (vr_events v) s = Inr s' \<and> settled_by v s ch a s') \<or>
    (vr_stage v = Stage_FINALIZED \<and> (\<exists>x \<in> delta_errors. \<exists>s3 ds. materialize_log (take 3 (vr_events v)) s = Inr s3 \<and>
       set ds \<subseteq> reported tr \<and> apply_deltas s3 ds = Inl x \<and> materialize_log (vr_events v) s = Inl (x, 3)))"
proof -
  let ?c = "makeValidator (JObj cal) ch s tr"
  let ?m = "flatValidationFee s + maxExpectedDynamicGas (JObj cal) (flatValidationFee s)"
  have price: "0 \<le> gasPrice s" "0 \<le> flatValidationFee s" using ready by (simp_all add: ready_def)
  note reads = makeValidator_reads [of "JObj cal" ch s tr]
  obtain e ds where view: "flight_view s ch ''SIGNED'' a e ds (bal s a) (fees s) (nonces s)"
    using ready_view(1) [OF ready] by blast
  from v obtain evs r where A: "phaseA H ?c [] = Inr (evs, r)" and r: "(case r of Some v \<Rightarrow> Inr v | None \<Rightarrow> phaseB H ?c evs) = Inr v"
    by (auto simp: validate_def Let_def)
  from A show ?thesis
  proof (cases rule: phaseA_cases)
    case (early reason v')
    then have "v' = v" using r by simp
    with early early_end [of s ?c a e ds "bal s a" "fees s" "nonces s" reason v] view ready_view [OF ready] price(2)
    show ?thesis by (auto simp: reads materialize_log_Inr dest: closed_settled)
  next
    case validated
    have m: "?m \<le> bal s a" "fits ?m"
    proof -
      show "?m \<le> bal s a" using validated(3) ready_view(3) [OF ready]
        by (simp add: reads canValidate_def escrow_split balanceOf_bal)
      with price valid_cal_limit [OF valid price(2)] ready_view(2) [OF ready] show "fits ?m" by (simp add: fits_def)
    qed
    have "reqUint (validated_event ?c) ''escrow_ptra'' = Inr ?m"
      using m(2) by (simp add: validated_event_def stage_event_reads reqUint_reads reads js_get_def)
    from validated_step [OF view _ this m(1)] obtain s1 where s1: "applyEvent s (validated_event ?c) = Inr s1"
      and v1: "flight_view s1 ch ''VALIDATED'' a ?m ds (bal s a - ?m) (fees s) (nonces s)"
      by (auto simp: validated_event_def applyEvent_stage stage_event_hash reads)
    have B: "phaseB H ?c [validated_event ?c] = Inr v" using r validated(1,2) by simp
    have late: "\<exists>ev s'. vr_events v = evs @ [ev] \<and> applyEvent s2 ev = Inr s' \<and> settled_by v s ch a s'"
      if "execFail H ?c evs reason cm = Inr v" "flight_view s2 ch st a ?m ds2 (bal s a - ?m) (fees s) (nonces s)"
        "st = ''VALIDATED'' \<or> st = ''EXECUTED''" for reason cm s2 st ds2 evs
      using late_end [of s2 ?c st a ?m ds2 "bal s a - ?m" "fees s" "nonces s" input cal s H evs reason cm v] that valid price m(2)
      by (auto simp: reads dest: closed_settled)
    let ?P = "\<lambda>d. confined d \<and> d \<in> reported tr"
    have "list_all (list_all ?P \<circ> sr_effects) (tr_steps (vc_trace ?c))"
      using conf by (auto simp: reads reported_def list_all_iff)
    with B validated(4) show ?thesis
    proof (cases rule: phaseB_cases)
      case (failed reason cm)
      from late [OF this v1] s1 show ?thesis by (auto simp: materialize_log_Inr log_Cons log_Nil)
    next
      case (executed cm written units)
      let ?g = "toNano units (gasPrice s)"
      have conf_cm: "list_all confined cm" "set cm \<subseteq> reported tr" using executed(1) by (auto simp: list_all_iff)
      have w: "0 \<le> written" using executed(2) by (auto simp: effectsBytes_def)
      obtain u where "staticGasUnits (JObj cal) = Inr u" "0 \<le> u" using valid_cal_cost [OF valid] by blast
      then have "0 \<le> units" using executed(3) w reads(7) by (auto simp: gasUnits_def STATE_RENT_PER_BYTE_def reads)
      then have "fits ?g" using executed(4) price m(2) by (simp add: toNano_def fits_def reads)
      then have g: "reqUint (executed_event ?c cm ?g) ''gas_consumed_ptra'' = Inr ?g"
        by (simp add: executed_event_def stage_event_reads reqUint_reads js_get_def)
      have eff: "js_get (js ''effects'') (executed_event ?c cm ?g) = Some (JArr cm)"
        unfolding executed_event_def by (subst stage_event_field) (simp_all add: js_get_def)
      from executed_step [OF v1 _ eff g] obtain s2 where s2: "applyEvent s1 (executed_event ?c cm ?g) = Inr s2"
        and v2: "flight_view s2 ch ''EXECUTED'' a ?m cm (bal s a - ?m) (fees s) (nonces s)"
        by (auto simp: executed_event_def applyEvent_stage stage_event_hash reads)
      from executed(5) show ?thesis
      proof
        assume "execFail H ?c ([validated_event ?c] @ [executed_event ?c cm (toNano units (gasPrice (vc_snapshot ?c)))]) INVARIANT_FALSE cm = Inr v"
        from late [OF this v2] s1 s2 show ?thesis by (auto simp: materialize_log_Inr log_Cons log_Nil reads)
      next
        assume "finish ?c ([validated_event ?c] @ [executed_event ?c cm (toNano units (gasPrice (vc_snapshot ?c)))]) written (toNano units (gasPrice (vc_snapshot ?c))) = Inr v"
        then have f: "finish ?c [validated_event ?c, executed_event ?c cm ?g] written ?g = Inr v" by (simp add: reads)
        from finish_end [of s2 ?c a ?m cm "bal s a - ?m" "fees s" "nonces s" input cal s written, OF _ conf_cm(1) valid reads(1,3,7) price w refl m(2) f] conf_cm v2
        obtain ev1 ev2 s3 where fin: "vr_stage v = Stage_FINALIZED" "vr_events v = [validated_event ?c, executed_event ?c cm ?g] @ [ev1, ev2]"
          "applyEvent s2 ev1 = Inr s3"
          and last: "(\<exists>s'. applyEvent s3 ev2 = Inr s' \<and> settled_by v s ch a s') \<or>
            (\<exists>x \<in> delta_errors. apply_deltas s3 cm = Inl x \<and> applyEvent s3 ev2 = Inl x)"
          by (auto simp: reads dest: closed_settled)
        have run3: "materialize_state [validated_event ?c, executed_event ?c cm ?g, ev1] s = Inr s3"
          by (simp add: log_Cons log_Nil s1 s2 fin(3))
        from last show ?thesis
        proof
          assume "\<exists>s'. applyEvent s3 ev2 = Inr s' \<and> settled_by v s ch a s'"
          then show ?thesis using s1 s2 fin by (auto simp: materialize_log_Inr log_Cons log_Nil)
        next
          assume "\<exists>x \<in> delta_errors. apply_deltas s3 cm = Inl x \<and> applyEvent s3 ev2 = Inl x"
          then show ?thesis using log_stops_at [OF run3] run3 fin(1,2) conf_cm(2) by (fastforce simp: materialize_log_Inr)
        qed
      qed
    qed
  qed
qed
end
