(* ===== verification/Validator_Settle.thy ===== *)
theory Validator_Settle
  imports Validator_Reducer
begin

text \<open>The end-to-end property of validator and reducer, and a CAL that runs from SIGNED to FINALIZED.\<close>

text \<open>
  C17: The validator and the reducer fit together. For a schema-valid CAL that is in flight at SIGNED (sound state, confined effects:
  they leave in-flight records, nonces, balances and the fee window alone), whatever \<open>validate\<close> decides, the reducer accepts its events one after the other and closes the
  CAL: the agent pays exactly the charge of the bill, the treasury receives it, the nonce goes up by one. The only possible refusal is
  the commit at the fourth event of a FINALIZED run, by the error of a Delta that the trace reported.
\<close>

theorem validator_events_settle:
  assumes "validateCal input = Inr cal" and "ready s ch cal a"
    and "list_all (list_all confined \<circ> sr_effects) (tr_steps tr)"
    and "validate H (JObj cal) ch s tr = Inr v"
  shows "(\<exists>s'. materialize_log (vr_events v) s = Inr s' \<and> settled_by v s ch a s') \<or>
    (vr_stage v = Stage_FINALIZED \<and> (\<exists>x \<in> delta_errors. \<exists>s3 ds. materialize_log (take 3 (vr_events v)) s = Inr s3 \<and>
       set ds \<subseteq> reported tr \<and> apply_deltas s3 ds = Inl x \<and> materialize_log (vr_events v) s = Inl (x, 3)))"
  using assms by (rule validate_run)

text \<open>A CAL that runs to the end: its one step reports a Delta that sets \<open>treasury.nav\<close>.\<close>

abbreviation sample_agent :: jstring where "sample_agent \<equiv> js ''0:'' @ zero_hash_text"

abbreviation run_hash :: jstring where "run_hash \<equiv> js ''0x'' @ zero_hash_text"

definition nav_delta :: json where
  "nav_delta = JObj [(js ''op'', JStr (js ''set'')), (js ''ns'', JStr (js ''treasury'')), (js ''path'', JArr [JStr (js ''nav'')]),
     (js ''value'', JInt 5)]"

lemma nav_delta_applies:
  "applyDeltaJson s nav_delta = Inr (setIn (Some s) [js ''treasury'', js ''nav''] (JInt 5))" "confined nav_delta"
  by (simp_all add: nav_delta_def applyDeltaJson_def apply_delta_op_def js_get_def confined_def delta_path_def enforceOwnerRecord_def Let_def)

definition run_flight :: "string \<Rightarrow> int \<Rightarrow> int \<Rightarrow> json list \<Rightarrow> obj" where
  "run_flight stage escrow gas ds =
     [(js ''agent_id'', JStr sample_agent), (js ''stage'', JStr (js stage)), (js ''escrowed_ptra'', JInt escrow),
      (js ''gas_consumed_ptra'', JInt gas), (js ''staged'', JArr ds)]"

abbreviation signed_flight :: obj where
  "signed_flight \<equiv> run_flight ''SIGNED'' 0 0 []"

text \<open>The genesis with one registered agent: its tick, flights, nonces, the agent's balance, \<open>nav\<close> and the fee window.\<close>

definition run_state :: "int \<Rightarrow> obj \<Rightarrow> obj \<Rightarrow> int \<Rightarrow> int \<Rightarrow> int \<Rightarrow> json" where
  "run_state t fs ns b nav f = JObj
    [(js ''cal'', JObj [(js ''in_flight'', JObj fs), (js ''nonces'', JObj ns)]),
     (js ''failure_mode'', JObj [(js ''is_bounded_mode'', JBool False), (js ''capture_guard_counters'', JObj [])]),
     (js ''governance'', JObj [(js ''gas_price_nano_ptra_per_unit'', JInt 1000), (js ''genesis_validator_set'', JArr []),
        (js ''params'', JObj [])]),
     (js ''oracles'', JObj [(js ''feeds'', JObj [])]),
     (js ''ptra'', JObj [(js ''balances'', JObj [(sample_agent, JInt b)])]),
     (js ''registry'', JObj [(js ''agents'', JObj [(sample_agent, JObj [(js ''operator_pubkey'', JStr (js ''aa''))])]),
        (js ''mcp_schema_hash'', JStr run_hash)]),
     (js ''tick'', JObj [(js ''current'', JInt t)]),
     (js ''treasury'', JObj [(js ''nav'', JInt nav), (js ''developer_fund_balance'', JInt 0), (js ''collected_fees_window'', JInt f)])]"

abbreviation funded_state :: "int \<Rightarrow> obj \<Rightarrow> json" where
  "funded_state t fs \<equiv> run_state t fs [] 20000000 0 0"

abbreviation signed_state :: json where
  "signed_state \<equiv> funded_state 3 [(run_hash, JObj signed_flight)]"

definition run_trace :: execution_trace where
  "run_trace = sample_trace\<lparr>tr_steps := [\<lparr>sr_ok = True, sr_effects = [nav_delta]\<rparr>]\<rparr>"

lemma funded_views:
  "flights (run_state t fs ns b nav f) = fs" "balances (run_state t fs ns b nav f) = [(sample_agent, JInt b)]"
  "fees (run_state t fs ns b nav f) = f" "nonces (run_state t fs ns b nav f) = ns"
  by (simp_all add: ob2_eq val2_eq run_state_def)

lemma funded_prices: "gasPrice (run_state t fs ns b nav f) = 1000" "flatValidationFee (run_state t fs ns b nav f) = 100000"
  by (simp_all add: gasPrice_def flatValidationFee_def gas_getIn_getIn getIn_Cons run_state_def js_get_def asBig_def
      DEFAULT_GAS_PRICE_def DEFAULT_FLAT_VALIDATION_FEE_def)

lemma sample_reads:
  "getIn (Some (JObj sample_cal)) [js ''agent_id''] = Some (JStr sample_agent)"
  "getIn (Some (JObj sample_cal)) [js ''action''] = Some (JStr (js ''cal.cancel''))"
  "getIn (Some (JObj sample_cal)) [js ''nonce''] = Some (JInt 1)"
  "getIn (Some (JObj sample_cal)) [js ''expiration_tick''] = Some (JInt 9)"
  "getIn (Some (JObj sample_cal)) [js ''gas_limit_ptra''] = None"
  "getIn (Some (JObj sample_cal)) [js ''invariants''] = Some (JArr [])"
  "getIn (Some (JObj sample_cal)) [js ''preconditions''] = Some (JObj [(js ''const'', JBool True)])"
  "getIn (Some (JObj sample_cal)) [js ''steps''] =
     Some (JArr [JObj [(js ''verb'', JStr (js ''cal.cancel'')), (js ''params'', JObj [])]])"
  by (simp_all add: getIn_Cons sample_cal_def js_get_def)

lemma signed_ready: "ready signed_state run_hash sample_cal sample_agent"
proof -
  have f: "at_stage signed_flight ''SIGNED''" "flight_agent signed_flight = Inr sample_agent" "flight_ok (JObj signed_flight)"
    by (simp_all add: run_flight_def new_flight_def flight_fields_iff flight_ok_def live_stages_def)
  then have "reducer_inv signed_state" by (simp add: reducer_inv_def flights_ok_def funded_views)
  moreover have "funds_ok signed_state" by (simp add: funds_ok_def funded_views int_of_def)
  moreover have "ptra_supply signed_state \<le> UINT256_MAX"
    by (simp add: ptra_supply_def funded_views sum_members_def int_of_def escrow_of_def run_flight_def new_flight_def UINT256_MAX_def)
  moreover have "field ''agent_id'' sample_cal = Some (JStr sample_agent)" by (simp add: sample_cal_def member_reads)
  ultimately show ?thesis using f by (simp add: ready_def funded_prices funded_views)
qed

lemma sample_agent_key: "sample_agent \<notin> set proto_keys" "sample_agent \<noteq> js ''__proto__''"
  by code_simp+

lemma signed_state_reads:
  "getIn (Some signed_state) [js ''failure_mode'', js ''is_bounded_mode''] = Some (JBool False)"
  "agent_field signed_state sample_agent ''operator_pubkey'' = Some (JStr (js ''aa''))"
  "getIn (Some signed_state) [js ''cal'', js ''nonces'', sample_agent] = None"
  by (simp_all add: agent_field_def getIn_Cons run_state_def js_get_def sample_agent_key)

definition run_ctx :: vctx where
  "run_ctx = makeValidator (JObj sample_cal) run_hash signed_state run_trace"

lemma run_ctx_reads:
  "vc_action run_ctx = js ''cal.cancel''" "vc_agent run_ctx = sample_agent" "vc_bounded run_ctx = False"
  "vc_nonce run_ctx = 1" "vc_expiration run_ctx = 9" "vc_trace run_ctx = run_trace" "vc_snapshot run_ctx = signed_state"
  "vc_cal run_ctx = JObj sample_cal" "vc_maxGas run_ctx = 10000000" "vc_fee run_ctx = 100000" "vc_tick run_ctx = 3"
  by (simp_all add: run_ctx_def makeValidator_def Let_def sample_reads asStr_def vBig_def funded_prices maxExpectedDynamicGas_def
      gas_getIn_getIn asBig_def GAS_LIMIT_FEE_MULTIPLIER_def signed_state_reads vc_tick_def run_trace_def sample_trace_def)

lemma not_owner_gated: "\<not> isOwnerRequired (js ''cal.cancel'')"
  by (simp add: isOwnerRequired_def OWNER_REQUIRED_ACTIONS_def)

lemma run_ctx_auth: "vc_ownerAuth run_ctx = 0"
  using run_ctx_reads(3) by (simp add: run_ctx_def makeValidator_def Let_def owner_auth_def sample_reads asStr_def not_owner_gated)

lemma eval_true: "evalExpr H (Some (JObj [(js ''const'', JBool True)])) sc b = Inr \<lparr>out_code = EVALUATION_TRUE, out_reason = None\<rparr>"
  by (simp add: evalExpr_def unwrap_envelope_def has_key_def js_has_def proto_keys_def run_def parseExpression_def read_input_def
      start_ctx_def build_const evaluate_def del: One_nat_def)

lemma run_phaseA: "phaseA H run_ctx [] = Inr ([validated_event run_ctx], None)"
proof -
  have "signature_gate run_ctx = None"
    by (simp add: signature_gate_def Let_def run_ctx_reads not_owner_gated run_trace_def sample_trace_def signed_state_reads asStr_def
        length_0_conv [symmetric] del: length_0_conv)
  moreover have "capabilityGrants signed_state sample_agent (js ''cal.cancel'') = Inr True"
    by (simp add: capabilityGrants_def table_index_def REQUIRES_SCOPE_TABLE_def Let_def)
  moreover have "expected_nonce run_ctx = 1"
    by (simp add: expected_nonce_def run_ctx_reads signed_state_reads vBig_def)
  moreover have "canValidate (JObj sample_cal) signed_state"
    by (simp add: canValidate_def cal_agent_def gas_getIn_getIn sample_reads balanceOf_bal bal_eq funded_views escrow_split funded_prices
        maxExpectedDynamicGas_def asBig_def GAS_LIMIT_FEE_MULTIPLIER_def)
  moreover have "schema_gate run_ctx" by (simp add: schema_gate_def run_ctx_reads run_trace_def sample_trace_def)
  ultimately show ?thesis
    by (simp add: phaseA_def run_ctx_reads sample_action sample_reads eval_true)
qed

lemma sample_units: "gasUnits (JObj sample_cal) n 0 = Inr (200 + n)"
proof -
  have c: "dslCost (Some (JObj [(js ''const'', JBool True)])) Precondition = Inr 0"
    by (simp add: dslCost_def unwrap_envelope_def has_key_def js_has_def proto_keys_def expressionCost_def read_input_def start_ctx_def
        build_const del: One_nat_def)
  have v: "getIn (Some (JObj [(js ''verb'', JStr (js ''cal.cancel'')), (js ''params'', JObj [])])) [js ''verb''] = Some (JStr (js ''cal.cancel''))"
    "getIn (Some (JObj [(js ''verb'', JStr (js ''cal.cancel'')), (js ''params'', JObj [])])) [js ''post_conditions''] = None"
    by (simp_all add: getIn_Cons js_get_def)
  have "mcpCallUnits (js ''cal.cancel'') = 200"
    by (simp add: mcpCallUnits_def split_dots_js segment_def MCP_WRITE_def js_def)
  then show ?thesis
    by (simp add: gasUnits_def staticGasUnits_def gas_getIn_getIn sample_reads c step_units_def v STATE_RENT_PER_BYTE_def)
qed

text \<open>Its four events.\<close>

definition run_events :: "obj list" where
  "run_events =
     [[(js ''event_type'', JStr (js ''cal.validated'')), (js ''cal_hash'', JStr run_hash), (js ''agent_id'', JStr sample_agent),
       (js ''nonce'', JInt 1), (js ''escrow_ptra'', JInt 10100000)],
      [(js ''event_type'', JStr (js ''cal.executed'')), (js ''cal_hash'', JStr run_hash), (js ''agent_id'', JStr sample_agent),
       (js ''nonce'', JInt 1), (js ''effects'', JArr [nav_delta]), (js ''gas_consumed_ptra'', JInt 255000)],
      [(js ''event_type'', JStr (js ''cal.settled'')), (js ''cal_hash'', JStr run_hash)],
      [(js ''event_type'', JStr (js ''cal.finalized'')), (js ''cal_hash'', JStr run_hash), (js ''agent_id'', JStr sample_agent),
       (js ''nonce'', JInt 1), (js ''tick_finalized'', JInt 3), (js ''gas_consumed_ptra'', JInt 255000),
       (js ''gas_refunded_ptra'', JInt 9745000), (js ''steps_applied'', JInt 1), (js ''invariants_checked'', JInt 0)]]"

lemma nav_bytes: "effectsBytes \<lparr>host_nfc = (\<lambda>s. s), host_sha256 = f\<rparr> (JArr [nav_delta]) = Inr 55"
proof -
  let ?H = "\<lparr>host_nfc = (\<lambda>s. s), host_sha256 = f\<rparr>"
  have "ascii_json (JArr [nav_delta])" "coerceToJcsValue (JArr [nav_delta]) = Inr (JArr [nav_delta])" by code_simp+
  moreover have "length (utf8_encode (render (norm_json ?H (JArr [nav_delta])))) = 55" by code_simp
  ultimately show ?thesis using ascii_serialize [of "JArr [nav_delta]" ?H]
    by (simp add: effectsBytes_def canonicalizeValue_def del: serialize.simps coerceToJcsValue.simps norm_json.simps render.simps)
qed

lemma run_phaseB:
  assumes "effectsBytes H (JArr [nav_delta]) = Inr 55"
  shows "\<exists>v. phaseB H run_ctx [validated_event run_ctx] = Inr v \<and> vr_stage v = Stage_FINALIZED \<and> vr_events v = run_events \<and>
    totalAgentCharge (vr_bill v) = 355000"
proof -
  have l: "step_posts H run_trace (JObj [(js ''verb'', JStr (js ''cal.cancel'')), (js ''params'', JObj [])]) = Inr None"
    by (simp add: step_posts_def getIn_Cons js_get_def)
  have t: "tr_steps run_trace = [\<lparr>sr_ok = True, sr_effects = [nav_delta]\<rparr>]" "vc_hash run_ctx = run_hash"
    by (simp_all add: run_trace_def run_ctx_def makeValidator_def Let_def)
  have g: "maxExpectedDynamicGas (JObj sample_cal) 100000 = 10000000"
    by (simp add: maxExpectedDynamicGas_def gas_getIn_getIn sample_reads asBig_def GAS_LIMIT_FEE_MULTIPLIER_def)
  have "cal_invariant_set run_ctx = []"
    by (simp add: cal_invariant_set_def run_ctx_reads sample_reads array_of_def effectiveInvariants_def)
  then show ?thesis
    by (simp add: phaseB_def run_ctx_reads sample_reads array_of_def l assms sample_units run_ctx_auth toNano_def funded_prices finish_def
        settle_def Let_def t g clampSub_def run_events_def validated_event_def executed_event_def stage_event_def idBase_def)
qed

lemma run_validates:
  assumes "effectsBytes H (JArr [nav_delta]) = Inr 55"
  obtains v where "validate H (JObj sample_cal) run_hash signed_state run_trace = Inr v" "vr_stage v = Stage_FINALIZED" "vr_events v = run_events"
    "totalAgentCharge (vr_bill v) = 355000"
  using run_phaseB [OF assms] run_phaseA [of H] by (auto simp: validate_def Let_def run_ctx_def)

lemma nav_applies: "set ds \<subseteq> {nav_delta} \<Longrightarrow> \<exists>s'. apply_deltas s ds = Inr s'"
  by (induction ds arbitrary: s) (auto simp: nav_delta_applies(1))

theorem validator_events_settle_witness:
  "\<exists>s'. materialize_log run_events signed_state = Inr s' \<and> bal s' sample_agent = 19645000 \<and> fees s' = 355000 \<and> nonce_of s' sample_agent = 1"
proof -
  obtain v where v: "validate plain_host (JObj sample_cal) run_hash signed_state run_trace = Inr v" "vr_events v = run_events" "totalAgentCharge (vr_bill v) = 355000"
    using run_validates [OF nav_bytes] unfolding plain_host_def by blast
  have "list_all (list_all confined \<circ> sr_effects) (tr_steps run_trace)" by (simp add: run_trace_def nav_delta_applies)
  from validator_events_settle [OF sample_cal_valid signed_ready this v(1)]
  have "\<exists>s'. materialize_log run_events signed_state = Inr s' \<and> settled_by v signed_state run_hash sample_agent s'"
  proof
    assume "vr_stage v = Stage_FINALIZED \<and> (\<exists>x \<in> delta_errors. \<exists>s3 ds. materialize_log (take 3 (vr_events v)) signed_state = Inr s3 \<and>
       set ds \<subseteq> reported run_trace \<and> apply_deltas s3 ds = Inl x \<and> materialize_log (vr_events v) signed_state = Inl (x, 3))"
    then obtain x s3 ds where ds: "set ds \<subseteq> reported run_trace" "apply_deltas s3 ds = Inl x" by blast
    then show ?thesis using nav_applies [of ds s3] by (auto simp: reported_def run_trace_def)
  qed (simp add: v(2))
  then show ?thesis using v(3) by (auto simp: settled_by_def funded_views bal_eq)
qed

end
