(* ===== verification/State_Root.thy ===== *)
theory State_Root
  imports Canon_Merkle Canon_Jcs Reducer_Apply Cal_Schema
begin

text \<open>
  The STATE\_ROOT of \<^verbatim>\<open>cal-reducer/src/state.ts\<close> and the scan of \<^verbatim>\<open>cal-reducer/src/fold.ts\<close> that records it after every event:
  the reducer meets the canonical layer here.
\<close>

text \<open>A namespace that is absent is \<open>undefined\<close>, whose type the canonical layer refuses.\<close>

definition namespace_bytes :: "host \<Rightarrow> json \<Rightarrow> jstring \<Rightarrow> bytes res" where
  "namespace_bytes H s n =
     (case s of
        JObj ob \<Rightarrow> (case js_get n ob of Some v \<Rightarrow> canonicalizeValue H v | None \<Rightarrow> event_error ''JCS_UNSUPPORTED_TYPE'')
      | _ \<Rightarrow> event_error ''JCS_UNSUPPORTED_TYPE'')"

definition stateRootOf :: "host \<Rightarrow> json \<Rightarrow> bytes res" where
  "stateRootOf H s =
     and_then (map_res (\<lambda>n. and_then (namespace_bytes H s n) (\<lambda>b. Inr \<lparr>ns_name = js ''state.'' @ n, canonicalBytes = b\<rparr>)) NAMESPACES)
       (stateRoot H)"

text \<open>The two writers of a root as text, \<open>toHex\<close> of \<^verbatim>\<open>fold.ts\<close> and \<open>hex\<close> of the node, give the same string.\<close>

definition hex :: "bytes \<Rightarrow> jstring" where
  "hex b = js ''0x'' @ toHex b False"

text \<open>The roots before the first rejected event, with the error and its index.\<close>

record scan_result =
  sc_roots :: "jstring list"
  sc_error :: "(exn \<times> nat) option"

fun scan_from :: "host \<Rightarrow> nat \<Rightarrow> obj list \<Rightarrow> json \<Rightarrow> jstring list \<Rightarrow> scan_result res" where
  "scan_from H i [] s roots = Inr \<lparr>sc_roots = roots, sc_error = None\<rparr>"
| "scan_from H i (ev # evs) s roots =
     (case applyEvent s ev of
        Inl (Apply e) \<Rightarrow> Inr \<lparr>sc_roots = roots, sc_error = Some (Apply e, i)\<rparr>
      | Inl x \<Rightarrow> Inl x
      | Inr s' \<Rightarrow> and_then (stateRootOf H s') (\<lambda>r. scan_from H (Suc i) evs s' (roots @ [hex r])))"

definition scanStateRoots :: "host \<Rightarrow> obj list \<Rightarrow> json \<Rightarrow> scan_result res" where
  "scanStateRoots H evs start = scan_from H 0 evs start []"

end
