(* ===== verification/Node.thy ===== *)
theory Node
  imports Validator State_Root
begin

text \<open>
  \<^verbatim>\<open>orchestrator/src/node.ts\<close>: the node folds blocks of submissions through validator and reducer. \<open>live\<close> holds the local
  variables of \<open>applyTick\<close> that its closure \<open>fold\<close> updates.
\<close>

section \<open>Programs and results\<close>

datatype submission_mode = Atomic | Validate_only | Resume

record submission =
  sub_cal :: json
  sub_trace :: execution_trace
  sub_mode :: submission_mode

record tick_block =
  tb_tick :: int
  tb_submissions :: "submission list"

record submission_result =
  sr_calHash :: jstring
  sr_agentId :: jstring
  sr_stage :: "terminal_stage option"
  sr_reason :: "reason_code option"
  sr_events :: "obj list"
  sr_stateRoots :: "jstring list"
  sr_ingressError :: "apply_error_code option"

record tick_result =
  tr_tick :: int
  tr_submissions :: "submission_result list"
  tr_stateRoot :: jstring
  tr_globalMerkleRoot :: jstring

record transcript =
  ts_genesis :: json
  ts_ticks :: "tick_result list"
  ts_eventLog :: "obj list"
  ts_finalStateRoot :: jstring

record incremental =
  inc_state :: json
  inc_tick :: int
  inc_eventCount :: nat
  inc_lastEventHash :: bytes

record tick_step =
  st_next :: incremental
  st_tickResult :: tick_result
  st_events :: "obj list"

definition ZERO32 :: bytes where "ZERO32 = replicate 32 0"

definition strField :: "json \<Rightarrow> string \<Rightarrow> jstring res" where
  "strField v k =
     (case v of
        JObj ob \<Rightarrow> (case js_get (js k) ob of Some (JStr s) \<Rightarrow> Inr s | _ \<Rightarrow> Inl (Orchestrator ''BAD_CAL''))
      | _ \<Rightarrow> Inl (Orchestrator ''BAD_CAL''))"

definition currentTickOf :: "json \<Rightarrow> int" where
  "currentTickOf s = vBig (getIn (Some s) [js ''tick'', js ''current''])"

definition globalMerkleRoot :: "host \<Rightarrow> json \<Rightarrow> nat \<Rightarrow> bytes \<Rightarrow> jstring res" where
  "globalMerkleRoot H s eventCount lastHash =
     and_then (stateRootOf H s) (\<lambda>root.
     and_then (streamTreeRoot H
        [\<lparr>streamId = js ''global'', stateHash = root, lastEventHash = (if eventCount = 0 then ZERO32 else lastHash),
          lastSeqno = BigInt (int eventCount)\<rparr>]) (\<lambda>r. Inr (hex r)))"

definition initIncremental :: "json option \<Rightarrow> incremental" where
  "initIncremental genesisState =
     (let g = (case genesisState of Some s \<Rightarrow> s | None \<Rightarrow> genesis)
      in \<lparr>inc_state = g, inc_tick = currentTickOf g, inc_eventCount = 0, inc_lastEventHash = ZERO32\<rparr>)"

definition incrementalStateRoot :: "host \<Rightarrow> incremental \<Rightarrow> jstring res" where
  "incrementalStateRoot H incr = and_then (stateRootOf H (inc_state incr)) (\<lambda>r. Inr (hex r))"

definition incrementalGlobalRoot :: "host \<Rightarrow> incremental \<Rightarrow> jstring res" where
  "incrementalGlobalRoot H incr = globalMerkleRoot H (inc_state incr) (inc_eventCount incr) (inc_lastEventHash incr)"

section \<open>One event\<close>

record live =
  lv_state :: json
  lv_events :: "obj list"
  lv_count :: nat
  lv_last :: bytes

text \<open>\<open>fold\<close>: the reducer's refusal is a value, any other exception leaves \<open>applyTick\<close>.\<close>

definition fold_event :: "host \<Rightarrow> live \<Rightarrow> obj \<Rightarrow> (apply_error_code + live) res" where
  "fold_event H lv ev =
     (case applyEvent (lv_state lv) ev of
        Inl (Apply code) \<Rightarrow> Inr (Inl code)
      | Inl x \<Rightarrow> Inl x
      | Inr s \<Rightarrow>
          and_then (eventHash H (JObj ev)) (\<lambda>h.
            Inr (Inr \<lparr>lv_state = s, lv_events = lv_events lv @ [ev], lv_count = lv_count lv + 1, lv_last = h\<rparr>)))"

text \<open>\<open>fold\<close> with an \<open>onErr\<close> that throws.\<close>

definition fold_or_throw :: "host \<Rightarrow> string \<Rightarrow> live \<Rightarrow> obj \<Rightarrow> live res" where
  "fold_or_throw H code lv ev =
     and_then (fold_event H lv ev) (\<lambda>r. case r of Inl _ \<Rightarrow> Inl (Orchestrator code) | Inr lv' \<Rightarrow> Inr lv')"

text \<open>The loops over the events of the validator: fold each, record it and the root after it.\<close>

fun fold_record :: "host \<Rightarrow> live \<Rightarrow> obj list \<Rightarrow> obj list \<Rightarrow> jstring list \<Rightarrow> (live \<times> obj list \<times> jstring list) res" where
  "fold_record H lv [] subEvents roots = Inr (lv, subEvents, roots)"
| "fold_record H lv (ev # evs) subEvents roots =
     and_then (fold_or_throw H ''APPLY_FAILED'' lv ev) (\<lambda>lv'.
     and_then (stateRootOf H (lv_state lv')) (\<lambda>r.
       fold_record H lv' evs (subEvents @ [ev]) (roots @ [hex r])))"

section \<open>One submission\<close>

text \<open>The ingress events; the left value is the refusal, with what was recorded before it.\<close>

definition ingress :: "host \<Rightarrow> live \<Rightarrow> jstring \<Rightarrow> jstring \<Rightarrow>
    (live \<times> obj list \<times> jstring list \<times> apply_error_code option) res" where
  "ingress H lv calHashHex agentId =
     (let created = [(js ''event_type'', JStr (js ''cal.created'')), (js ''cal_hash'', JStr calHashHex), (js ''agent_id'', JStr agentId)];
          signed = [(js ''event_type'', JStr (js ''cal.signed'')), (js ''cal_hash'', JStr calHashHex)]
      in and_then (fold_event H lv created) (\<lambda>r1. case r1 of
           Inl code \<Rightarrow> Inr (lv, [], [], Some code)
         | Inr lv1 \<Rightarrow>
             and_then (stateRootOf H (lv_state lv1)) (\<lambda>root1.
             and_then (fold_event H lv1 signed) (\<lambda>r2. case r2 of
                 Inl code \<Rightarrow> Inr (lv1, [created], [hex root1], Some code)
               | Inr lv2 \<Rightarrow>
                   and_then (stateRootOf H (lv_state lv2)) (\<lambda>root2.
                     Inr (lv2, [created, signed], [hex root1, hex root2], None))))))"

text \<open>What the modes run after ingress: the events to fold and the terminal stage and reason, if any.\<close>

definition lifecycle :: "host \<Rightarrow> submission_mode \<Rightarrow> json \<Rightarrow> jstring \<Rightarrow> json \<Rightarrow> execution_trace \<Rightarrow>
    (obj list \<times> terminal_stage option \<times> reason_code option) res" where
  "lifecycle H mode cal calHashHex s tr =
     (case mode of
        Resume \<Rightarrow>
          and_then (resumeFromValidated H cal calHashHex s tr) (\<lambda>v. Inr (vr_events v, Some (vr_stage v), vr_reason v))
      | Validate_only \<Rightarrow>
          and_then (validateToValidated H cal calHashHex s tr) (\<lambda>s1.
            case tv_terminal s1 of
              Some v \<Rightarrow> Inr (vr_events v, Some (vr_stage v), vr_reason v)
            | None \<Rightarrow> Inr (tv_events s1, None, None))
      | Atomic \<Rightarrow>
          and_then (validate H cal calHashHex s tr) (\<lambda>v. Inr (vr_events v, Some (vr_stage v), vr_reason v)))"

text \<open>\<open>resume\<close> has no ingress events. The tick of the trace is the node's own.\<close>

definition submit :: "host \<Rightarrow> int \<Rightarrow> live \<Rightarrow> submission \<Rightarrow> (live \<times> submission_result) res" where
  "submit H tick lv sub =
     and_then (calHash H (sub_cal sub)) (\<lambda>ch.
     and_then (strField (sub_cal sub) ''agent_id'') (\<lambda>agentId.
     and_then (if sub_mode sub = Resume then Inr (lv, [], [], None) else ingress H lv (hex ch) agentId)
       (\<lambda>(lv1, subEvents, roots, refused).
         case refused of
           Some code \<Rightarrow>
             Inr (lv1, \<lparr>sr_calHash = hex ch, sr_agentId = agentId, sr_stage = None, sr_reason = None, sr_events = subEvents,
               sr_stateRoots = roots, sr_ingressError = Some code\<rparr>)
         | None \<Rightarrow>
             and_then (lifecycle H (sub_mode sub) (sub_cal sub) (hex ch) (lv_state lv1)
                         ((sub_trace sub)\<lparr>currentTick := tick\<rparr>)) (\<lambda>(evs, stage, reason).
             and_then (fold_record H lv1 evs subEvents roots) (\<lambda>(lv2, evs2, roots2).
               Inr (lv2, \<lparr>sr_calHash = hex ch, sr_agentId = agentId, sr_stage = stage, sr_reason = reason, sr_events = evs2,
                 sr_stateRoots = roots2, sr_ingressError = None\<rparr>))))))"

section \<open>One tick\<close>

fun submit_all :: "host \<Rightarrow> int \<Rightarrow> live \<Rightarrow> submission list \<Rightarrow> submission_result list \<Rightarrow> (live \<times> submission_result list) res" where
  "submit_all H tick lv [] done = Inr (lv, done)"
| "submit_all H tick lv (s # ss) done =
     and_then (submit H tick lv s) (\<lambda>(lv', r). submit_all H tick lv' ss (done @ [r]))"

definition tick_event :: "int \<Rightarrow> obj" where
  "tick_event tick = [(js ''event_type'', JStr (js ''tick.advanced'')), (js ''new_tick'', JInt tick)]"

definition start_live :: "incremental \<Rightarrow> live" where
  "start_live incr =
     \<lparr>lv_state = inc_state incr, lv_events = [], lv_count = inc_eventCount incr, lv_last = inc_lastEventHash incr\<rparr>"

definition advance :: "host \<Rightarrow> incremental \<Rightarrow> int \<Rightarrow> live res" where
  "advance H incr tick =
     (if tick < inc_tick incr then Inl (Orchestrator ''TICK_REGRESSION'')
      else if tick > inc_tick incr then fold_or_throw H ''TICK_REJECTED'' (start_live incr) (tick_event tick)
      else Inr (start_live incr))"

definition applyTick :: "host \<Rightarrow> incremental \<Rightarrow> tick_block \<Rightarrow> tick_step res" where
  "applyTick H incr block =
     (let tick = tb_tick block in
      and_then (advance H incr tick) (\<lambda>lv.
      and_then (submit_all H tick lv (tb_submissions block) []) (\<lambda>(lv', subs).
      and_then (stateRootOf H (lv_state lv')) (\<lambda>root.
      and_then (globalMerkleRoot H (lv_state lv') (lv_count lv') (lv_last lv')) (\<lambda>groot.
        Inr \<lparr>st_next = \<lparr>inc_state = lv_state lv', inc_tick = tick, inc_eventCount = lv_count lv', inc_lastEventHash = lv_last lv'\<rparr>,
             st_tickResult = \<lparr>tr_tick = tick, tr_submissions = subs, tr_stateRoot = hex root, tr_globalMerkleRoot = groot\<rparr>,
             st_events = lv_events lv'\<rparr>)))))"

section \<open>Runs and replay\<close>

type_synonym run_acc = "incremental \<times> tick_result list \<times> obj list"

definition run_step :: "host \<Rightarrow> run_acc \<Rightarrow> tick_block \<Rightarrow> run_acc res" where
  "run_step H = (\<lambda>(incr, ticks, log) block.
     and_then (applyTick H incr block) (\<lambda>st. Inr (st_next st, ticks @ [st_tickResult st], log @ st_events st)))"

fun run_ticks :: "host \<Rightarrow> tick_block list \<Rightarrow> run_acc \<Rightarrow> run_acc res" where
  "run_ticks H [] acc = Inr acc"
| "run_ticks H (b # bs) acc = and_then (run_step H acc b) (run_ticks H bs)"

definition run_node :: "host \<Rightarrow> json option \<Rightarrow> tick_block list \<Rightarrow> transcript res" where
  "run_node H genesisState blocks =
     (let g = (case genesisState of Some s \<Rightarrow> s | None \<Rightarrow> genesis) in
      and_then (run_ticks H blocks (initIncremental (Some g), [], [])) (\<lambda>(incr, ticks, log).
      and_then (stateRootOf H (inc_state incr)) (\<lambda>root.
        Inr \<lparr>ts_genesis = g, ts_ticks = ticks, ts_eventLog = log, ts_finalStateRoot = hex root\<rparr>)))"

record replay_result =
  rp_stateRoots :: "jstring list"
  rp_finalStateRoot :: jstring
  rp_error :: "(exn \<times> nat) option"

definition replay :: "host \<Rightarrow> obj list \<Rightarrow> json option \<Rightarrow> replay_result res" where
  "replay H eventLog genesisState =
     (let start = (case genesisState of Some s \<Rightarrow> s | None \<Rightarrow> genesis) in
      and_then (scanStateRoots H eventLog start) (\<lambda>scan.
      and_then (if length (sc_roots scan) > 0 then Inr (last (sc_roots scan))
                else and_then (stateRootOf H start) (\<lambda>r. Inr (hex r))) (\<lambda>final.
        Inr \<lparr>rp_stateRoots = sc_roots scan, rp_finalStateRoot = final, rp_error = sc_error scan\<rparr>)))"

text \<open>The checkpoints in the stream of roots: \<open>j\<close> moves on to the first match, and one past it.\<close>

fun checkpoints_in :: "jstring list \<Rightarrow> jstring list \<Rightarrow> bool" where
  "checkpoints_in [] roots \<longleftrightarrow> True"
| "checkpoints_in (c # cs) roots \<longleftrightarrow>
     (case dropWhile (\<lambda>r. r \<noteq> c) roots of [] \<Rightarrow> False | _ # rest \<Rightarrow> checkpoints_in cs rest)"

definition verifyReplay :: "host \<Rightarrow> transcript \<Rightarrow> bool res" where
  "verifyReplay H t =
     and_then (replay H (ts_eventLog t) (Some (ts_genesis t))) (\<lambda>r.
       if rp_error r \<noteq> None \<or> rp_finalStateRoot r \<noteq> ts_finalStateRoot t then Inr False
       else Inr (checkpoints_in (map tr_stateRoot (ts_ticks t)) (rp_stateRoots r)))"

end
