(* ===== verification/State_Root_Props.thy ===== *)
theory State_Root_Props
  imports State_Root Canon_Json_Props Reducer_Inv
begin

text \<open>When a state has a STATE\_ROOT, and a canonical value its bytes.\<close>

lemma foldl_assign_all:
  "list_all P kvs \<Longrightarrow> list_all P acc \<Longrightarrow> list_all P (foldl (\<lambda>out kv. js_assign (fst kv) (snd kv) out) acc kvs)"
proof (induction kvs arbitrary: acc)
  case (Cons kv kvs)
  have "list_all P (js_assign (fst kv) (snd kv) acc)"
    using Cons.prems by (auto simp: js_assign_def list_all_iff dest: set_update_subset)
  with Cons show ?case by simp
qed simp

lemma ascii_coerce: "ascii_json v \<Longrightarrow> \<exists>w. coerceToJcsValue v = Inr w \<and> ascii_json w"
proof (induction v rule: coerceToJcsValue.induct)
  case (6 xs)
  have "\<exists>ys. map_res coerceToJcsValue xs = Inr ys \<and> (\<forall>y \<in> set ys. ascii_json y)"
    using "6.IH" "6.prems" by (induction xs) fastforce+
  then show ?case by auto
next
  case (7 ob)
  let ?f = "\<lambda>kv. and_then (coerceToJcsValue (snd kv)) (\<lambda>v. Inr (fst kv, v))"
  have "\<exists>kvs. map_res ?f ob = Inr kvs \<and> (\<forall>kv \<in> set kvs. is_ascii (fst kv) \<and> ascii_json (snd kv))"
    using "7.IH" "7.prems" by (induction ob) fastforce+
  then obtain kvs where kvs: "map_res ?f ob = Inr kvs" "\<forall>kv \<in> set kvs. is_ascii (fst kv) \<and> ascii_json (snd kv)" by blast
  have "list_all (\<lambda>kv. is_ascii (fst kv) \<and> ascii_json (snd kv)) (foldl (\<lambda>out kv. js_assign (fst kv) (snd kv) out) [] kvs)"
    by (rule foldl_assign_all) (use kvs(2) in \<open>simp_all add: list_all_iff\<close>)
  with kvs(1) show ?case by (simp add: list_all_iff)
qed (auto simp: ascii_well_formed)

lemma ascii_canonical: "ascii_json v \<Longrightarrow> \<exists>b. canonicalizeValue H v = Inr b"
  using ascii_coerce [of v] ascii_serialize by (fastforce simp: canonicalizeValue_def)

lemma leaf_exists:
  assumes "host_ok H" "isAsciiDomainTag (domain_tag ''STATE_V1'')" "isAsciiDomainTag (domain_tag ''STATE_ROOT_V1'')"
    and "is_ascii n" "length n \<le> 0xffff"
  shows "\<exists>h. stateNamespaceLeafHash H \<lparr>ns_name = n, canonicalBytes = b\<rparr> = Inr h \<and> length h = 32"
proof -
  have len: "length (utf8_encode n) = length n" using utf8_encode_ascii [OF assms(4)] by simp
  then obtain l where "encodeUint16 (BigInt (int (length (utf8_encode n)))) = Inr l"
    using assms(5) len by (auto simp: encodeUint16_def MAX_UINT16_def)
  with assms len show ?thesis
    by (auto simp: stateNamespaceLeafHash_def domainHash_ok utf8NfcBytes_ascii host_ok_def)
qed

lemma namespace_names:
  "n \<in> set NAMESPACES \<Longrightarrow> is_ascii (js ''state.'' @ n) \<and> length (js ''state.'' @ n) \<le> 0xffff"
  "distinct (map ((@) (js ''state.'')) NAMESPACES)" "NAMESPACES \<noteq> []"
  by (auto simp: NAMESPACES_def is_ascii_def js_ascii [unfolded is_ascii_def])

lemma stateRootOf_exists:
  assumes "host_ok H"
  shows "(\<exists>r. stateRootOf H s = Inr r \<and> length r = 32) \<longleftrightarrow> (\<forall>n \<in> set NAMESPACES. \<exists>b. namespace_bytes H s n = Inr b)"
    (is "_ \<longleftrightarrow> ?ok")
proof
  let ?ns = "\<lambda>n. and_then (namespace_bytes H s n) (\<lambda>b. Inr \<lparr>ns_name = js ''state.'' @ n, canonicalBytes = b\<rparr>)"
  assume "\<exists>r. stateRootOf H s = Inr r \<and> length r = 32"
  then obtain nss where "map_res ?ns NAMESPACES = Inr nss" by (auto simp: stateRootOf_def)
  then show ?ok by (fastforce simp: map_res_Inr list_all2_conv_all_nth in_set_conv_nth)
next
  let ?ns = "\<lambda>n. and_then (namespace_bytes H s n) (\<lambda>b. Inr \<lparr>ns_name = js ''state.'' @ n, canonicalBytes = b\<rparr>)"
  assume ok: ?ok
  then obtain bs where bs: "\<And>n. n \<in> set NAMESPACES \<Longrightarrow> namespace_bytes H s n = Inr (bs n)" by metis
  let ?nss = "map (\<lambda>n. \<lparr>ns_name = js ''state.'' @ n, canonicalBytes = bs n\<rparr>) NAMESPACES"
  have m: "map_res ?ns NAMESPACES = Inr ?nss" using bs by (intro map_res_total) simp
  have tags: "domain_tag ''STATE_V1'' \<in> set ALL_DOMAIN_TAGS" "domain_tag ''STATE_ROOT_V1'' \<in> set ALL_DOMAIN_TAGS"
    by (rule domain_tag_registered, simp add: DOMAIN_TAGS_def)+
  note leaf = leaf_exists [OF assms registered_ascii [OF tags(1)] registered_ascii [OF tags(2)]]
  have names: "is_ascii (ns_name x) \<and> length (ns_name x) \<le> 0xffff" if "x \<in> set ?nss" for x
    using that namespace_names(1) by auto
  have "names_ok H ns_name ?nss"
    using names by (simp add: names_ok_def list_all_iff utf8NfcBytes_ascii [OF assms])
  note sorted = sort_by_name_eq [OF this]
  let ?sorted = "sort_key (\<lambda>x. name_bytes H (ns_name x)) ?nss"
  have "\<exists>h. stateNamespaceLeafHash H x = Inr h \<and> length h = 32" if "x \<in> set ?sorted" for x
  proof -
    from that have x: "x \<in> set ?nss" by (simp only: set_sort)
    have "x = \<lparr>ns_name = ns_name x, canonicalBytes = canonicalBytes x\<rparr>" by simp
    with leaf [of "ns_name x" "canonicalBytes x"] names [OF x] show ?thesis by metis
  qed
  then have "\<forall>x \<in> set ?sorted. \<exists>h. stateNamespaceLeafHash H x = Inr h \<and> length h = 32" ..
  from bchoice [OF this] obtain lh where lh: "\<forall>x \<in> set ?sorted. stateNamespaceLeafHash H x = Inr (lh x) \<and> length (lh x) = 32" ..
  have hs: "map_res (stateNamespaceLeafHash H) ?sorted = Inr (map lh ?sorted)"
    by (rule map_res_total) (use lh in blast)
  have "map lh ?sorted \<noteq> [] \<and> list_all (\<lambda>h. length h = 32) (map lh ?sorted)"
  proof -
    have "length ?sorted \<noteq> 0" using namespace_names(3) by simp
    then show ?thesis using lh by (auto simp: list_all_iff simp del: length_sort)
  qed
  with binaryMerkle_accepts [OF assms tags(2), of "map lh ?sorted"] obtain r
    where "binaryMerkle H (map lh ?sorted) (domain_tag ''STATE_ROOT_V1'') = Inr r" "length r = 32" by blast
  moreover have "distinct (map ns_name ?nss)" using namespace_names(2) by (simp add: comp_def)
  ultimately show "\<exists>r. stateRootOf H s = Inr r \<and> length r = 32"
    using namespace_names(3) by (simp add: stateRootOf_def m stateRoot_def sorted hs)
qed

end
