(* ===== verification/Node_Props.thy ===== *)
theory Node_Props
  imports Node State_Root_Props "HOL-Library.Sublist"
begin

text \<open>
  The node: its accumulator is a function of the event log, so a run can be cut and resumed anywhere, and replaying the log gives
  the roots the run recorded.
\<close>

section \<open>The accumulator follows the log\<close>

text \<open>What the node carries, as the log gives it.\<close>

definition log_hash :: "host \<Rightarrow> bytes \<Rightarrow> obj list \<Rightarrow> bytes res" where
  "log_hash H start evs = (if evs = [] then Inr start else eventHash H (JObj (last evs)))"

definition follows :: "host \<Rightarrow> json \<Rightarrow> nat \<Rightarrow> bytes \<Rightarrow> obj list \<Rightarrow> json \<Rightarrow> nat \<Rightarrow> bytes \<Rightarrow> bool" where
  "follows H s n h evs s' n' h' \<longleftrightarrow> materialize_state evs s = Inr s' \<and> n' = n + length evs \<and> log_hash H h evs = Inr h'"

lemma follows_Nil: "follows H s n h [] s n h"
  by (simp add: follows_def log_hash_def log.run_Nil)

lemma follows_append:
  "follows H s n h xs s1 n1 h1 \<Longrightarrow> follows H s1 n1 h1 ys s2 n2 h2 \<Longrightarrow> follows H s n h (xs @ ys) s2 n2 h2"
  by (auto simp: follows_def log_hash_def log.run_append last_append split: if_splits)

text \<open>A stretch of \<open>applyTick\<close>: from one \<open>live\<close> to another it appended \<open>evs\<close>.\<close>

definition grows :: "host \<Rightarrow> live \<Rightarrow> obj list \<Rightarrow> live \<Rightarrow> bool" where
  "grows H lv evs lv' \<longleftrightarrow> lv_events lv' = lv_events lv @ evs \<and>
     follows H (lv_state lv) (lv_count lv) (lv_last lv) evs (lv_state lv') (lv_count lv') (lv_last lv')"

lemma grows_refl: "grows H lv [] lv"
  by (simp add: grows_def follows_Nil)

lemma grows_trans: "grows H lv xs lv1 \<Longrightarrow> grows H lv1 ys lv2 \<Longrightarrow> grows H lv (xs @ ys) lv2"
  by (auto simp: grows_def intro: follows_append)

lemma fold_event_grows: "fold_event H lv ev = Inr (Inr lv') \<Longrightarrow> grows H lv [ev] lv'"
  by (auto simp: fold_event_def grows_def follows_def log_hash_def log.run_Cons log.run_Nil split: sum.splits exn.splits)

lemma fold_or_throw_Inr: "fold_or_throw H code lv ev = Inr lv' \<longleftrightarrow> fold_event H lv ev = Inr (Inr lv')"
proof -
  have "(case r of Inl _ \<Rightarrow> Inl (Orchestrator code) | Inr x \<Rightarrow> Inr x) = Inr lv' \<longleftrightarrow> r = Inr lv'" for r :: "apply_error_code + live"
    by (cases r) auto
  then show ?thesis by (simp add: fold_or_throw_def)
qed

lemma fold_or_throw_grows: "fold_or_throw H code lv ev = Inr lv' \<Longrightarrow> grows H lv [ev] lv'"
  by (simp add: fold_or_throw_Inr fold_event_grows)

lemma fold_record_grows:
  "fold_record H lv evs subEvents roots = Inr (lv', e', r') \<Longrightarrow> grows H lv evs lv' \<and> e' = subEvents @ evs"
proof (induction evs arbitrary: lv subEvents roots)
  case (Cons ev evs)
  then obtain lv1 r where "fold_or_throw H ''APPLY_FAILED'' lv ev = Inr lv1"
    "fold_record H lv1 evs (subEvents @ [ev]) (roots @ [hex r]) = Inr (lv', e', r')" by auto
  with Cons.IH fold_or_throw_grows grows_trans [of H lv "[ev]" lv1 evs lv'] show ?case by fastforce
qed (simp add: grows_refl)

lemma no_effects: "map_of fs (js ''effects'') = None \<Longrightarrow> event_confined fs"
  by (simp add: event_confined_def js_get_def)

lemma ingress_grows:
  assumes "ingress H lv ch agent = Inr (lv', evs, roots, refused)"
  shows "grows H lv evs lv' \<and> list_all event_confined evs"
proof -
  let ?created = "[(js ''event_type'', JStr (js ''cal.created'')), (js ''cal_hash'', JStr ch), (js ''agent_id'', JStr agent)]"
  let ?signed = "[(js ''event_type'', JStr (js ''cal.signed'')), (js ''cal_hash'', JStr ch)]"
  note quiet = no_effects [of ?created] no_effects [of ?signed]
  from assms obtain r1 where r1: "fold_event H lv ?created = Inr r1" by (auto simp: ingress_def Let_def)
  show ?thesis
  proof (cases r1)
    case (Inl code)
    with assms r1 show ?thesis by (simp add: ingress_def Let_def grows_refl)
  next
    case (Inr lv1)
    with assms r1 obtain r2 where r2: "fold_event H lv1 ?signed = Inr r2" by (auto simp: ingress_def Let_def)
    have g: "grows H lv [?created] lv1" using r1 Inr by (simp add: fold_event_grows)
    show ?thesis
    proof (cases r2)
      case (Inl code)
      with assms r1 r2 Inr g quiet show ?thesis by (auto simp: ingress_def Let_def)
    next
      case lv2: (Inr lv2)
      with grows_trans [OF g fold_event_grows [of H lv1 ?signed lv2]] assms r1 r2 Inr quiet show ?thesis by (auto simp: ingress_def Let_def)
    qed
  qed
qed

text \<open>A submission is refused at ingress, or its lifecycle events are folded.\<close>

lemma submit_cases:
  assumes "submit H tick lv sub = Inr (lv', r)"
  obtains (refused) "grows H lv (sr_events r) lv'" "list_all event_confined (sr_events r)"
  | (run) lv1 ch evs evs1 stage reason roots roots2 where "grows H lv evs lv1" "list_all event_confined evs"
      "lifecycle H (sub_mode sub) (sub_cal sub) ch (lv_state lv1) ((sub_trace sub)\<lparr>currentTick := tick\<rparr>) = Inr (evs1, stage, reason)"
      "fold_record H lv1 evs1 evs roots = Inr (lv', sr_events r, roots2)"
proof -
  from assms obtain ch agent lv1 evs roots code where
    i: "(if sub_mode sub = Resume then Inr (lv, [], [], None) else ingress H lv (hex ch) agent) = Inr (lv1, evs, roots, code)"
    and r: "(case code of
         Some code \<Rightarrow>
           Inr (lv1, \<lparr>sr_calHash = hex ch, sr_agentId = agent, sr_stage = None, sr_reason = None, sr_events = evs,
             sr_stateRoots = roots, sr_ingressError = Some code\<rparr>)
       | None \<Rightarrow>
           and_then (lifecycle H (sub_mode sub) (sub_cal sub) (hex ch) (lv_state lv1) ((sub_trace sub)\<lparr>currentTick := tick\<rparr>))
             (\<lambda>(evs1, stage, reason). and_then (fold_record H lv1 evs1 evs roots) (\<lambda>(lv2, evs2, roots2).
               Inr (lv2, \<lparr>sr_calHash = hex ch, sr_agentId = agent, sr_stage = stage, sr_reason = reason, sr_events = evs2,
                 sr_stateRoots = roots2, sr_ingressError = None\<rparr>)))) = Inr (lv', r)"
    unfolding submit_def by (auto split del: if_split)
  have g: "grows H lv evs lv1 \<and> list_all event_confined evs" using i by (auto simp: grows_refl dest: ingress_grows split: if_splits)
  show ?thesis
  proof (cases code)
    case None
    with r obtain evs1 stage reason roots2 where
      "lifecycle H (sub_mode sub) (sub_cal sub) (hex ch) (lv_state lv1) ((sub_trace sub)\<lparr>currentTick := tick\<rparr>) = Inr (evs1, stage, reason)"
      "fold_record H lv1 evs1 evs roots = Inr (lv', sr_events r, roots2)" by auto
    with g show ?thesis by (intro run) auto
  qed (use r g in \<open>auto intro: refused\<close>)
qed

lemma submit_grows: "submit H tick lv sub = Inr (lv', r) \<Longrightarrow> grows H lv (sr_events r) lv'"
  by (erule submit_cases) (auto dest!: fold_record_grows intro: grows_trans)

lemma submit_all_grows:
  "submit_all H tick lv subs done = Inr (lv', rs) \<Longrightarrow>
   \<exists>new. rs = done @ new \<and> grows H lv (concat (map sr_events new)) lv'"
proof (induction subs arbitrary: lv "done")
  case (Cons s subs)
  then obtain lv1 r where r: "submit H tick lv s = Inr (lv1, r)" "submit_all H tick lv1 subs (done @ [r]) = Inr (lv', rs)" by auto
  from Cons.IH [OF r(2)] obtain new where "rs = done @ r # new" "grows H lv1 (concat (map sr_events new)) lv'" by auto
  with grows_trans [OF submit_grows [OF r(1)]] show ?case by (intro exI [of _ "r # new"]) auto
qed (simp add: grows_refl)

lemma advance_grows:
  "advance H incr tick = Inr lv \<Longrightarrow>
   \<exists>evs. grows H (start_live incr) evs lv \<and> list_all event_confined evs \<and> inc_tick incr \<le> tick \<and> (evs = [] \<longleftrightarrow> tick = inc_tick incr)"
  using no_effects [of "tick_event tick"]
  by (fastforce simp: advance_def grows_refl tick_event_def dest: fold_or_throw_grows split: if_splits)

text \<open>One tick, on the accumulators.\<close>

definition tick_follows :: "host \<Rightarrow> incremental \<Rightarrow> obj list \<Rightarrow> incremental \<Rightarrow> bool" where
  "tick_follows H i evs i' \<longleftrightarrow>
     follows H (inc_state i) (inc_eventCount i) (inc_lastEventHash i) evs (inc_state i') (inc_eventCount i') (inc_lastEventHash i') \<and>
     inc_tick i \<le> inc_tick i'"

lemma applyTick_follows:
  assumes "applyTick H incr block = Inr st"
  shows "tick_follows H incr (st_events st) (st_next st)" "inc_tick (st_next st) = tb_tick block"
    "and_then (stateRootOf H (inc_state (st_next st))) (\<lambda>r. Inr (hex r)) = Inr (tr_stateRoot (st_tickResult st))"
    "incrementalGlobalRoot H (st_next st) = Inr (tr_globalMerkleRoot (st_tickResult st))"
    "inc_tick incr < tb_tick block \<Longrightarrow> st_events st \<noteq> []"
proof -
  from assms obtain lv lv' subs root groot where a: "advance H incr (tb_tick block) = Inr lv"
    and s: "submit_all H (tb_tick block) lv (tb_submissions block) [] = Inr (lv', subs)"
    and roots: "stateRootOf H (lv_state lv') = Inr root" "globalMerkleRoot H (lv_state lv') (lv_count lv') (lv_last lv') = Inr groot"
    and st: "st = \<lparr>st_next = \<lparr>inc_state = lv_state lv', inc_tick = tb_tick block, inc_eventCount = lv_count lv', inc_lastEventHash = lv_last lv'\<rparr>,
             st_tickResult = \<lparr>tr_tick = tb_tick block, tr_submissions = subs, tr_stateRoot = hex root, tr_globalMerkleRoot = groot\<rparr>,
             st_events = lv_events lv'\<rparr>"
    by (auto simp: applyTick_def Let_def)
  obtain evs where e: "grows H (start_live incr) evs lv" "inc_tick incr \<le> tb_tick block" "evs = [] \<longleftrightarrow> tb_tick block = inc_tick incr"
    using advance_grows [OF a] by blast
  obtain new :: "submission_result list" where "grows H lv (concat (map sr_events new)) lv'"
    using submit_all_grows [OF s] by blast
  from grows_trans [OF e(1) this] have g: "grows H (start_live incr) (evs @ concat (map sr_events new)) lv'" .
  then have l: "lv_events lv' = evs @ concat (map sr_events new)" by (simp add: grows_def start_live_def)
  show "tick_follows H incr (st_events st) (st_next st)" using g e(2) l by (simp add: grows_def tick_follows_def st start_live_def)
  show "inc_tick (st_next st) = tb_tick block" by (simp add: st)
  show "and_then (stateRootOf H (inc_state (st_next st))) (\<lambda>r. Inr (hex r)) = Inr (tr_stateRoot (st_tickResult st))"
    by (simp add: st roots)
  show "incrementalGlobalRoot H (st_next st) = Inr (tr_globalMerkleRoot (st_tickResult st))"
    by (simp add: st roots incrementalGlobalRoot_def)
  show "inc_tick incr < tb_tick block \<Longrightarrow> st_events st \<noteq> []" using e(3) l by (simp add: st)
qed


section \<open>A run is a fold\<close>

interpretation node: run_fold "run_step H" "run_ticks H" for H
  by unfold_locales simp_all

text \<open>What holds of the accumulator, the ticks and the log after any prefix of the program.\<close>

definition hex_root :: "host \<Rightarrow> json \<Rightarrow> jstring res" where
  "hex_root H s = and_then (stateRootOf H s) (\<lambda>r. Inr (hex r))"

text \<open>
  The roots of the ticks are the roots of the states after growing prefixes of the log; with \<open>strict\<close>, every tick appended an event.
\<close>

inductive checkpoints :: "host \<Rightarrow> json \<Rightarrow> bool \<Rightarrow> obj list \<Rightarrow> tick_result list \<Rightarrow> bool" for H g strict where
  checkpoints_Nil: "checkpoints H g strict [] []"
| checkpoints_snoc: "checkpoints H g strict log ticks \<Longrightarrow> materialize_state (log @ evs) g = Inr s \<Longrightarrow>
    hex_root H s = Inr (tr_stateRoot t) \<Longrightarrow> strict \<longrightarrow> evs \<noteq> [] \<Longrightarrow> checkpoints H g strict (log @ evs) (ticks @ [t])"

definition run_inv :: "host \<Rightarrow> json \<Rightarrow> bool \<Rightarrow> run_acc \<Rightarrow> bool" where
  "run_inv H g strict = (\<lambda>(incr, ticks, log). tick_follows H (initIncremental (Some g)) log incr \<and> checkpoints H g strict log ticks)"

lemma run_inv_init: "run_inv H g strict (initIncremental (Some g), [], [])"
  by (simp add: run_inv_def tick_follows_def initIncremental_def follows_Nil checkpoints_Nil)

lemma tick_follows_trans: "tick_follows H i xs j \<Longrightarrow> tick_follows H j ys k \<Longrightarrow> tick_follows H i (xs @ ys) k"
  by (auto simp: tick_follows_def intro: follows_append)

lemma run_step_inv:
  assumes "run_inv H g strict acc" "run_step H acc block = Inr acc'" "strict \<longrightarrow> inc_tick (fst acc) < tb_tick block"
  shows "run_inv H g strict acc' \<and> inc_tick (fst acc') = tb_tick block"
proof -
  obtain incr ticks log where acc: "acc = (incr, ticks, log)" by (cases acc)
  with assms(2) obtain st where st: "applyTick H incr block = Inr st"
    and acc': "acc' = (st_next st, ticks @ [st_tickResult st], log @ st_events st)"
    by (auto simp: run_step_def)
  from assms(1) have i: "tick_follows H (initIncremental (Some g)) log incr" "checkpoints H g strict log ticks"
    by (simp_all add: run_inv_def acc)
  from tick_follows_trans [OF i(1) applyTick_follows(1) [OF st]]
  have f: "tick_follows H (initIncremental (Some g)) (log @ st_events st) (st_next st)" .
  then have "materialize_state (log @ st_events st) g = Inr (inc_state (st_next st))"
    by (simp add: tick_follows_def follows_def initIncremental_def)
  from checkpoints_snoc [OF i(2) this] applyTick_follows(2,3,5) [OF st] f assms(3) show ?thesis
    by (simp add: run_inv_def acc acc' hex_root_def)
qed

lemma run_ticks_inv:
  assumes "run_ticks H blocks acc = Inr acc'" "run_inv H g strict acc"
    and "strict \<longrightarrow> sorted_wrt (<) (inc_tick (fst acc) # map tb_tick blocks)"
  shows "run_inv H g strict acc'"
  using assms
proof (induction blocks arbitrary: acc)
  case (Cons b bs)
  then obtain acc1 where step: "run_step H acc b = Inr acc1" and rest: "run_ticks H bs acc1 = Inr acc'" by auto
  from run_step_inv [OF Cons.prems(2) step] Cons.prems(3)
  have "run_inv H g strict acc1" "inc_tick (fst acc1) = tb_tick b" by auto
  with Cons.IH [OF rest] Cons.prems(3) show ?case by auto
qed simp

section \<open>Replay\<close>

text \<open>The roots after each event.\<close>

fun roots_after :: "host \<Rightarrow> json \<Rightarrow> obj list \<Rightarrow> jstring list res" where
  "roots_after H s [] = Inr []"
| "roots_after H s (ev # evs) =
     and_then (applyEvent s ev) (\<lambda>s'. and_then (hex_root H s') (\<lambda>r. and_then (roots_after H s' evs) (\<lambda>rs. Inr (r # rs))))"

lemma scan_roots_after:
  "roots_after H s evs = Inr rs \<Longrightarrow> scan_from H i evs s acc = Inr \<lparr>sc_roots = acc @ rs, sc_error = None\<rparr>"
  by (induction evs arbitrary: s i acc rs) (auto simp: hex_root_def)

text \<open>Every state on the way has a root.\<close>

definition rooted :: "host \<Rightarrow> json \<Rightarrow> obj list \<Rightarrow> bool" where
  "rooted H g log \<longleftrightarrow> (\<forall>pre s. prefix pre log \<longrightarrow> materialize_state pre g = Inr s \<longrightarrow> (\<exists>r. hex_root H s = Inr r))"

lemma rooted_roots:
  "materialize_state log g = Inr s \<Longrightarrow> rooted H g log \<Longrightarrow>
   \<exists>rs. roots_after H g log = Inr rs \<and> length rs = length log \<and> (log \<noteq> [] \<longrightarrow> hex_root H s = Inr (last rs))"
proof (induction log arbitrary: g)
  case (Cons ev log)
  then obtain s1 where s1: "applyEvent g ev = Inr s1" "materialize_state log s1 = Inr s" by (auto simp: log.run_Cons)
  have "rooted H s1 log"
    unfolding rooted_def
  proof (intro allI impI)
    fix pre s' assume "prefix pre log" "materialize_state pre s1 = Inr s'"
    then have "prefix (ev # pre) (ev # log)" "materialize_state (ev # pre) g = Inr s'" using s1(1) by (simp_all add: log.run_Cons)
    with Cons.prems(2) show "\<exists>r. hex_root H s' = Inr r" unfolding rooted_def by blast
  qed
  from Cons.IH [OF s1(2) this] obtain rs where rs: "roots_after H s1 log = Inr rs" "length rs = length log"
    "log \<noteq> [] \<longrightarrow> hex_root H s = Inr (last rs)" by blast
  have "materialize_state [ev] g = Inr s1" using s1(1) by (simp add: log.run_Cons log.run_Nil)
  then obtain r where "hex_root H s1 = Inr r" using Cons.prems(2) unfolding rooted_def by (metis prefix_Cons prefix_bot.bot_least)
  with s1 rs show ?case by (cases "log = []") (auto simp: log.run_Nil)
qed simp

lemma roots_after_append:
  "materialize_state xs s = Inr s1 \<Longrightarrow>
   roots_after H s (xs @ ys) = and_then (roots_after H s xs) (\<lambda>rs. and_then (roots_after H s1 ys) (\<lambda>rs'. Inr (rs @ rs')))"
proof (induction xs arbitrary: s)
  case (Cons x xs)
  then show ?case by (auto simp: log.run_Cons and_then_assoc)
next
  case Nil
  then show ?case by (cases "roots_after H s ys") (simp_all add: log.run_Nil)
qed

lemma checkpoints_in_subseq: "subseq cs roots \<Longrightarrow> checkpoints_in cs roots"
proof (induction cs arbitrary: roots)
  case (Cons c cs)
  from Cons.prems obtain us vs where split: "roots = us @ c # vs" "subseq cs vs" by (auto dest: list_emb_ConsD)
  let ?rest = "dropWhile (\<lambda>r. r \<noteq> c) us"
  show ?case
  proof (cases ?rest)
    case Nil
    then have "dropWhile (\<lambda>r. r \<noteq> c) roots = c # vs" using split(1) by (simp add: dropWhile_append)
    with Cons.IH [OF split(2)] show ?thesis by simp
  next
    case (Cons d ds)
    then have "?rest \<noteq> []" by simp
    then have mem: "c \<in> set us" by (simp only: dropWhile_eq_Nil_conv) blast
    from Cons mem have "dropWhile (\<lambda>r. r \<noteq> c) roots = d # ds @ c # vs" using split(1) by (simp add: dropWhile_append1 [of c us])
    moreover have "subseq cs (ds @ c # vs)" using split(2) by (intro list_emb_append2 list_emb_Cons)
    ultimately show ?thesis using Cons.IH by simp
  qed
qed simp

lemma rooted_append: "rooted H g (xs @ ys) \<Longrightarrow> rooted H g xs"
  unfolding rooted_def using prefix_prefix by blast

lemma materialize_prefix:
  "materialize_state (xs @ ys) g = Inr s \<Longrightarrow> \<exists>s1. materialize_state xs g = Inr s1 \<and> materialize_state ys s1 = Inr s"
  by (auto simp: log.run_append)

lemma checkpoints_subseq:
  "checkpoints H g strict log ticks \<Longrightarrow> strict \<Longrightarrow> rooted H g log \<Longrightarrow>
   \<exists>rs. roots_after H g log = Inr rs \<and> subseq (map tr_stateRoot ticks) rs"
proof (induction rule: checkpoints.induct)
  case (checkpoints_snoc log ticks evs s t)
  from materialize_prefix [OF checkpoints_snoc.hyps(2)] obtain s1
    where s1: "materialize_state log g = Inr s1" "materialize_state evs s1 = Inr s" by blast
  from checkpoints_snoc.IH [OF checkpoints_snoc.prems(1) rooted_append [OF checkpoints_snoc.prems(2)]] obtain rs
    where rs: "roots_after H g log = Inr rs" "subseq (map tr_stateRoot ticks) rs" by blast
  from rooted_roots [OF checkpoints_snoc.hyps(2) checkpoints_snoc.prems(2)] obtain all
    where all: "roots_after H g (log @ evs) = Inr all" "length all = length (log @ evs)"
      "hex_root H s = Inr (last all)" using checkpoints_snoc.hyps(4) checkpoints_snoc.prems(1) by auto
  have "and_then (roots_after H s1 evs) (\<lambda>rs'. Inr (rs @ rs')) = Inr all"
    using roots_after_append [OF s1(1), of H evs] rs(1) all(1) by simp
  then obtain rs' where rs': "all = rs @ rs'" by auto
  have len: "length rs = length log" using rooted_roots [OF s1(1) rooted_append [OF checkpoints_snoc.prems(2)]] rs(1) by auto
  with all(2) rs' checkpoints_snoc.hyps(4) checkpoints_snoc.prems(1) have "rs' \<noteq> []" by auto
  with all(3) rs' checkpoints_snoc.hyps(3) have "tr_stateRoot t = last rs'" by simp
  with \<open>rs' \<noteq> []\<close> have "subseq [tr_stateRoot t] rs'" by (simp add: subseq_singleton_left)
  with rs(2) rs' all(1) show ?case by (auto intro: list_emb_append_mono)
qed simp

section \<open>A first tick\<close>

lemma ascii_event_hash:
  assumes "host_ok H" "ascii_json (JObj ev)"
  shows "\<exists>h. eventHash H (JObj ev) = Inr h \<and> length h = 32"
proof -
  obtain b where "canonicalizeValue H (JObj ev) = Inr b" using ascii_canonical [OF assms(2), of H] by blast
  moreover have "isAsciiDomainTag (domain_tag ''EVENT_V1'')"
    by (rule registered_ascii, rule domain_tag_registered, simp add: DOMAIN_TAGS_def)
  ultimately show ?thesis using assms(1) by (simp add: eventHash_def domainHash_ok host_ok_def)
qed

definition ascii_namespaces :: "json \<Rightarrow> bool" where
  "ascii_namespaces s \<longleftrightarrow> (case s of
     JObj ob \<Rightarrow> list_all (\<lambda>n. case js_get n ob of Some v \<Rightarrow> ascii_json v | None \<Rightarrow> False) NAMESPACES
   | _ \<Rightarrow> False)"

lemma ascii_state_root:
  assumes "host_ok H" "ascii_namespaces s"
  shows "\<exists>r. stateRootOf H s = Inr r \<and> length r = 32"
proof -
  obtain ob where s: "s = JObj ob" using assms(2) by (auto simp: ascii_namespaces_def split: json.splits)
  have "\<exists>b. namespace_bytes H s n = Inr b" if "n \<in> set NAMESPACES" for n
  proof -
    from assms(2) that obtain v where "js_get n ob = Some v" "ascii_json v"
      by (fastforce simp: s ascii_namespaces_def list_all_iff split: option.splits)
    with ascii_canonical [of v H] show ?thesis by (simp add: s namespace_bytes_def)
  qed
  with stateRootOf_exists [OF assms(1), of s] show ?thesis by blast
qed

lemma leaf_hash_exists:
  assumes "host_ok H" "length (stateHash leaf) = 32" "length (lastEventHash leaf) = 32" "streamId leaf = js ''global''"
    and "lastSeqno leaf = BigInt (int n)" "int n \<le> MAX_UINT64"
  shows "\<exists>l. streamLeafHash H leaf = Inr l \<and> length l = 32"
proof -
  have "length (utf8_encode (js ''global'')) = 6" by (simp add: utf8_encode_ascii js_ascii)
  moreover have "isAsciiDomainTag (domain_tag ''MERKLE_LEAF_V1'')"
    by (rule registered_ascii, rule domain_tag_registered, simp add: DOMAIN_TAGS_def)
  moreover obtain l where "encodeUint16 (BigInt 6) = Inr l" by (auto simp: encodeUint16_def MAX_UINT16_def)
  moreover obtain q where "encodeUint64 (BigInt (int n)) = Inr q" using assms(6) by (auto simp: encodeUint64_def)
  ultimately show ?thesis
    using assms by (simp add: streamLeafHash_def utf8NfcBytes_ascii js_ascii domainHash_ok host_ok_def)
qed

lemma global_root_exists:
  assumes "host_ok H" "stateRootOf H s = Inr root" "length root = 32" "length h = 32" "int n \<le> MAX_UINT64"
  shows "\<exists>r. globalMerkleRoot H s n h = Inr r"
proof -
  let ?leaf = "\<lparr>streamId = js ''global'', stateHash = root, lastEventHash = (if n = 0 then ZERO32 else h), lastSeqno = BigInt (int n)\<rparr>"
  obtain l where leaf: "streamLeafHash H ?leaf = Inr l" "length l = 32"
    using leaf_hash_exists [of H ?leaf n] assms by (cases "n = 0") (auto simp: ZERO32_def)
  have "domain_tag ''MERKLE_NODE_V1'' \<in> set ALL_DOMAIN_TAGS" by (rule domain_tag_registered, simp add: DOMAIN_TAGS_def)
  from binaryMerkle_accepts [OF assms(1) this, of "[l]"] leaf(2)
  obtain r where "binaryMerkle H [l] (domain_tag ''MERKLE_NODE_V1'') = Inr r" by auto
  with leaf(1) assms(2) show ?thesis by (simp add: globalMerkleRoot_def streamTreeRoot_def sort_by_name_def)
qed

text \<open>A first block at tick 5 without submissions, on genesis.\<close>

definition tick_five :: json where
  "tick_five = setIn (Some genesis) [js ''tick'', js ''current''] (JInt 5)"

lemma genesis_advances: "applyEvent genesis (tick_event 5) = Inr tick_five" "currentTickOf genesis = 0"
  by code_simp+

lemma genesis_rooted: "ascii_namespaces genesis" "ascii_namespaces tick_five"
  by code_simp+

lemma first_tick:
  "\<exists>incr t. run_ticks plain_host [\<lparr>tb_tick = 5, tb_submissions = []\<rparr>] (initIncremental (Some genesis), [], []) = Inr (incr, [t], [tick_event 5]) \<and>
     inc_state incr = tick_five"
proof -
  obtain h where h: "eventHash plain_host (JObj (tick_event 5)) = Inr h" "length h = 32"
    using ascii_event_hash [OF plain_host_ok, of "tick_event 5"] by (auto simp: tick_event_def js_ascii)
  obtain r where r: "stateRootOf plain_host tick_five = Inr r" "length r = 32"
    using ascii_state_root [OF plain_host_ok genesis_rooted(2)] by blast
  from global_root_exists [OF plain_host_ok r h(2), of 1] obtain g where "globalMerkleRoot plain_host tick_five (Suc 0) h = Inr g"
    by (auto simp: MAX_UINT64_def)
  with h r show ?thesis
    by (simp add: run_step_def applyTick_def advance_def initIncremental_def genesis_advances fold_or_throw_def fold_event_def start_live_def)
qed

section \<open>The run and its replay\<close>

lemma run_node_Inr:
  assumes "run_node H (Some g) blocks = Inr t"
  obtains incr where "run_ticks H blocks (initIncremental (Some g), [], []) = Inr (incr, ts_ticks t, ts_eventLog t)"
    "hex_root H (inc_state incr) = Inr (ts_finalStateRoot t)" "ts_genesis t = g"
  using assms by (auto simp: run_node_def hex_root_def)

lemma run_ticks_log:
  assumes "run_ticks H blocks (initIncremental (Some g), [], []) = Inr (incr, ticks, log)"
    "strict \<longrightarrow> sorted_wrt (<) (currentTickOf g # map tb_tick blocks)"
  shows "materialize_state log g = Inr (inc_state incr)" "inc_eventCount incr = length log"
    "log_hash H ZERO32 log = Inr (inc_lastEventHash incr)" "checkpoints H g strict log ticks"
  using run_ticks_inv [OF assms(1) run_inv_init] assms(2)
  by (simp_all add: run_inv_def tick_follows_def follows_def initIncremental_def)

lemma replay_roots:
  assumes "materialize_state log g = Inr s" "rooted H g log" "hex_root H s = Inr final"
  shows "\<exists>rs. roots_after H g log = Inr rs \<and>
    replay H log (Some g) = Inr \<lparr>rp_stateRoots = rs, rp_finalStateRoot = final, rp_error = None\<rparr> \<and> length rs = length log"
proof -
  from rooted_roots [OF assms(1,2)] obtain rs where rs: "roots_after H g log = Inr rs" "length rs = length log"
    "log \<noteq> [] \<longrightarrow> hex_root H s = Inr (last rs)" by blast
  have scan: "scanStateRoots H log g = Inr \<lparr>sc_roots = rs, sc_error = None\<rparr>"
    using scan_roots_after [OF rs(1), of 0 "[]"] by (simp add: scanStateRoots_def)
  show ?thesis
  proof (cases "log = []")
    case True
    with rs assms scan show ?thesis by (simp add: replay_def hex_root_def log.run_Nil)
  next
    case False
    with rs have "0 < length rs" by simp
    then have "rs \<noteq> []" by simp
    with rs assms(3) scan False show ?thesis by (simp add: replay_def)
  qed
qed

text \<open>
  C2: replay is faithful. For every run that returns, and whose states have roots, folding the recorded log again from the recorded genesis
  raises no error, gives one root per event and ends in the recorded final root; and when the ticks of the program strictly increase, the
  recorded tick roots occur in order among the replayed ones, so \<open>verifyReplay\<close> accepts the transcript.
\<close>

theorem node_replay_faithful:
  assumes "run_node H (Some g) blocks = Inr t" "rooted H g (ts_eventLog t)"
  shows "(\<exists>r. replay H (ts_eventLog t) (Some (ts_genesis t)) = Inr r \<and> rp_error r = None \<and>
      rp_finalStateRoot r = ts_finalStateRoot t \<and> length (rp_stateRoots r) = length (ts_eventLog t)) \<and>
    (sorted_wrt (<) (currentTickOf g # map tb_tick blocks) \<longrightarrow> verifyReplay H t = Inr True)"
proof -
  obtain incr where run: "run_ticks H blocks (initIncremental (Some g), [], []) = Inr (incr, ts_ticks t, ts_eventLog t)"
    and root: "hex_root H (inc_state incr) = Inr (ts_finalStateRoot t)" and g: "ts_genesis t = g"
    using run_node_Inr [OF assms(1)] .
  note log = run_ticks_log [OF run]
  from replay_roots [OF log(1) assms(2) root, of False] obtain rs where rs: "roots_after H g (ts_eventLog t) = Inr rs"
    "replay H (ts_eventLog t) (Some g) = Inr \<lparr>rp_stateRoots = rs, rp_finalStateRoot = ts_finalStateRoot t, rp_error = None\<rparr>"
    "length rs = length (ts_eventLog t)" by auto
  have "verifyReplay H t = Inr True" if "sorted_wrt (<) (currentTickOf g # map tb_tick blocks)"
  proof -
    from checkpoints_subseq [OF log(4) [of True] _ assms(2)] that rs(1) have "subseq (map tr_stateRoot (ts_ticks t)) rs" by auto
    with rs(2) g show ?thesis by (simp add: verifyReplay_def checkpoints_in_subseq)
  qed
  with rs g show ?thesis by auto
qed

lemma first_log:
  assumes "prefix pre [tick_event 5]" "materialize_state pre genesis = Inr s"
  shows "s = genesis \<or> s = tick_five"
  using assms genesis_advances by (auto simp: prefix_Cons log.run_Nil log.run_Cons)

theorem node_replay_faithful_witness:
  "\<exists>t. run_node plain_host (Some genesis) [\<lparr>tb_tick = 5, tb_submissions = []\<rparr>] = Inr t \<and> length (ts_eventLog t) = 1 \<and>
     verifyReplay plain_host t = Inr True"
proof -
  obtain r where "stateRootOf plain_host tick_five = Inr r" using ascii_state_root [OF plain_host_ok genesis_rooted(2)] by blast
  with first_tick obtain t where t: "run_node plain_host (Some genesis) [\<lparr>tb_tick = 5, tb_submissions = []\<rparr>] = Inr t"
    "ts_eventLog t = [tick_event 5]" by (auto simp: run_node_def simp del: run_ticks.simps)
  have "\<exists>r. stateRootOf plain_host s = Inr r" if "s = genesis \<or> s = tick_five" for s
    using that ascii_state_root [OF plain_host_ok] genesis_rooted by blast
  then have "rooted plain_host genesis (ts_eventLog t)"
    unfolding rooted_def t(2) hex_root_def using first_log by fastforce
  from node_replay_faithful [OF t(1) this] t show ?thesis by (simp add: genesis_advances(2))
qed

lemma last_tick:
  "run_ticks H blocks (incr, ticks, log) = Inr (incr', ticks', log') \<Longrightarrow> blocks \<noteq> [] \<Longrightarrow>
   \<exists>t. ticks' \<noteq> [] \<and> last ticks' = t \<and> incrementalStateRoot H incr' = Inr (tr_stateRoot t) \<and>
     incrementalGlobalRoot H incr' = Inr (tr_globalMerkleRoot t) \<and> inc_tick incr' = tb_tick (last blocks)"
proof (induction blocks arbitrary: incr ticks log)
  case (Cons b bs)
  then obtain st where st: "applyTick H incr b = Inr st"
    and rest: "run_ticks H bs (st_next st, ticks @ [st_tickResult st], log @ st_events st) = Inr (incr', ticks', log')"
    by (auto simp: run_step_def)
  show ?case
  proof (cases "bs = []")
    case True
    with rest applyTick_follows(2,3,4) [OF st] show ?thesis by (auto simp: incrementalStateRoot_def)
  next
    case False
    with Cons.IH [OF rest] show ?thesis by simp
  qed
qed simp

text \<open>
  C19: The node's accumulator is a function of its event log, and the log is all a node needs to resume. After any run from a genesis state
  the carried state is the reducer's fold of the whole log, the carried count is the length of the log and the carried hash is that of
  its last event; the last tick recorded the STATE\_ROOT and the global root of exactly this accumulator; and running further blocks from
  it is running the longer program.
\<close>

theorem node_accumulator_is_log:
  assumes "run_ticks H blocks (initIncremental (Some g), [], []) = Inr (incr, ticks, log)"
  shows "materialize_log log g = Inr (inc_state incr) \<and> inc_eventCount incr = length log \<and>
    (if log = [] then inc_lastEventHash incr = ZERO32 else eventHash H (JObj (last log)) = Inr (inc_lastEventHash incr)) \<and>
    (blocks \<noteq> [] \<longrightarrow> ticks \<noteq> [] \<and> incrementalStateRoot H incr = Inr (tr_stateRoot (last ticks)) \<and>
       incrementalGlobalRoot H incr = Inr (tr_globalMerkleRoot (last ticks)) \<and> inc_tick incr = tb_tick (last blocks)) \<and>
    run_ticks H (blocks @ later) (initIncremental (Some g), [], []) = run_ticks H later (incr, ticks, log)"
  using run_ticks_log [OF assms, of False] last_tick [OF assms] node.run_append [of H blocks later] assms
  by (auto simp: materialize_log_Inr log_hash_def split: if_splits)

theorem node_accumulator_is_log_witness:
  "\<exists>incr t. run_ticks plain_host [\<lparr>tb_tick = 5, tb_submissions = []\<rparr>] (initIncremental (Some genesis), [], []) =
       Inr (incr, [t], [tick_event 5]) \<and>
     inc_eventCount incr = 1 \<and> incrementalStateRoot plain_host incr = Inr (tr_stateRoot t)"
proof -
  obtain incr t where r: "run_ticks plain_host [\<lparr>tb_tick = 5, tb_submissions = []\<rparr>] (initIncremental (Some genesis), [], []) =
       Inr (incr, [t], [tick_event 5])" using first_tick by blast
  from node_accumulator_is_log [OF r, of "[]"] r show ?thesis by auto
qed

text \<open>A tick that appends no event, as when a block repeats the current tick, has a root that no event of the log produces.\<close>

lemma empty_tick_not_replayed:
  assumes "ts_eventLog t = []" "ts_ticks t \<noteq> []" "stateRootOf H (ts_genesis t) = Inr r" "ts_finalStateRoot t = hex r"
  shows "verifyReplay H t = Inr False"
  using assms by (cases "ts_ticks t") (simp_all add: verifyReplay_def replay_def scanStateRoots_def)

end
