(* ===== verification/Node_Money.thy ===== *)
theory Node_Money
  imports Node_Props Validator_Settle
begin

text \<open>
  Validator, node and reducer together: whatever the node commits conserves PTRA, and its accumulator is the fold of its log.
\<close>

section \<open>The events of a submission\<close>

text \<open>The traces of the executors claim only confined Deltas: none writes in-flight records, nonces, balances or the fee window.\<close>

definition trace_confined :: "execution_trace \<Rightarrow> bool" where
  "trace_confined tr \<longleftrightarrow> list_all (list_all confined \<circ> sr_effects) (tr_steps tr)"

lemma event_confined_stage: "event_confined (stage_event ty c fs) = event_confined fs"
  by (simp add: event_confined_def stage_event_field)

lemma executed_confined: "list_all confined cm \<Longrightarrow> event_confined (executed_event c cm consumed)"
  unfolding executed_event_def event_confined_stage by (simp add: event_confined_def js_get_def)

lemma ends_confined:
  "spamFail c evs reason = Inr v \<Longrightarrow> list_all event_confined evs \<Longrightarrow> list_all event_confined (vr_events v)"
  "noChargeFail c evs reason = Inr v \<Longrightarrow> list_all event_confined evs \<Longrightarrow> list_all event_confined (vr_events v)"
  "expirePre c evs = Inr v \<Longrightarrow> list_all event_confined evs \<Longrightarrow> list_all event_confined (vr_events v)"
  "expirePost c evs = Inr v \<Longrightarrow> list_all event_confined evs \<Longrightarrow> list_all event_confined (vr_events v)"
  "execFail H c evs reason cm = Inr v \<Longrightarrow> list_all event_confined evs \<Longrightarrow> list_all event_confined (vr_events v)"
  "finish c evs written consumed = Inr v \<Longrightarrow> list_all event_confined evs \<Longrightarrow> list_all event_confined (vr_events v)"
  by (auto simp: spamFail_def noChargeFail_def expirePre_def expirePost_def execFail_def finish_def event_confined_stage no_effects)

lemma phaseA_confined:
  assumes "phaseA H c evs = Inr (evs', a)" "list_all event_confined evs"
  shows "list_all event_confined (case a of None \<Rightarrow> evs' | Some v \<Rightarrow> vr_events v)"
  using assms(1)
proof (cases rule: phaseA_cases)
  case early
  with assms(2) show ?thesis by (auto dest: ends_confined)
next
  case validated
  with assms(2) show ?thesis by (simp add: validated_event_def event_confined_stage no_effects)
qed

lemma phaseB_confined:
  assumes "phaseB H c evs = Inr v" "list_all event_confined evs" "trace_confined (vc_trace c)"
  shows "list_all event_confined (vr_events v)"
proof (cases "vc_tick c > vc_expiration c")
  case True
  with assms show ?thesis by (auto simp: phaseB_def dest: ends_confined)
next
  case False
  show ?thesis
    using assms(1) False assms(3) [unfolded trace_confined_def]
  proof (cases rule: phaseB_cases)
    case failed
    with assms(2) show ?thesis by (blast dest: ends_confined)
  next
    case executed
    with assms(2) show ?thesis by (auto dest!: ends_confined simp: executed_confined)
  qed
qed

lemma makeValidator_trace: "vc_trace (makeValidator cal ch s tr) = tr"
  by (simp add: makeValidator_def Let_def)

lemma validate_confined:
  assumes "validate H cal ch s tr = Inr v" "trace_confined tr"
  shows "list_all event_confined (vr_events v)"
proof -
  obtain evs a where A: "phaseA H (makeValidator cal ch s tr) [] = Inr (evs, a)"
    and B: "(case a of Some v \<Rightarrow> Inr v | None \<Rightarrow> phaseB H (makeValidator cal ch s tr) evs) = Inr v"
    using assms(1) by (auto simp: validate_def Let_def)
  from phaseA_confined [OF A] have "list_all event_confined (case a of None \<Rightarrow> evs | Some v \<Rightarrow> vr_events v)" by simp
  with B phaseB_confined [of H "makeValidator cal ch s tr" evs v] assms(2) show ?thesis
    by (cases a) (auto simp: makeValidator_trace)
qed

lemma lifecycle_confined:
  assumes "lifecycle H mode cal ch s tr = Inr (evs, stage, reason)" "trace_confined tr"
  shows "list_all event_confined evs"
proof (cases mode)
  case Atomic
  with assms show ?thesis by (auto simp: lifecycle_def dest: validate_confined)
next
  case Resume
  with assms show ?thesis
    by (auto simp: lifecycle_def resumeFromValidated_def makeValidator_trace dest!: phaseB_confined)
next
  case Validate_only
  let ?c = "makeValidator cal ch s tr"
  obtain evs' a where A: "phaseA H ?c [] = Inr (evs', a)"
    using assms(1) Validate_only by (cases "phaseA H ?c []") (auto simp: lifecycle_def validateToValidated_def)
  from phaseA_confined [OF A] have "list_all event_confined (case a of None \<Rightarrow> evs' | Some v \<Rightarrow> vr_events v)" by simp
  moreover have "evs = (case a of None \<Rightarrow> evs' | Some v \<Rightarrow> vr_events v)"
    using assms(1) Validate_only A by (cases a) (simp_all add: lifecycle_def validateToValidated_def)
  ultimately show ?thesis by simp
qed

lemma trace_confined_tick [simp]: "trace_confined (tr\<lparr>currentTick := t\<rparr>) = trace_confined tr"
  by (simp add: trace_confined_def)

lemma submit_confined:
  "submit H tick lv sub = Inr (lv', r) \<Longrightarrow> trace_confined (sub_trace sub) \<Longrightarrow> list_all event_confined (sr_events r)"
  by (erule submit_cases) (auto dest!: fold_record_grows lifecycle_confined)

lemma submit_all_confined:
  "submit_all H tick lv subs acc = Inr (lv', rs) \<Longrightarrow> list_all (trace_confined \<circ> sub_trace) subs \<Longrightarrow>
   list_all (list_all event_confined \<circ> sr_events) acc \<Longrightarrow> list_all (list_all event_confined \<circ> sr_events) rs"
  by (induction subs arbitrary: lv acc) (auto dest: submit_confined)

definition program_confined :: "tick_block list \<Rightarrow> bool" where
  "program_confined blocks \<longleftrightarrow> list_all (list_all (trace_confined \<circ> sub_trace) \<circ> tb_submissions) blocks"

lemma applyTick_confined:
  assumes "applyTick H incr block = Inr st" "list_all (trace_confined \<circ> sub_trace) (tb_submissions block)"
  shows "list_all event_confined (st_events st)"
proof -
  from assms(1) obtain lv lv' subs where a: "advance H incr (tb_tick block) = Inr lv"
    and s: "submit_all H (tb_tick block) lv (tb_submissions block) [] = Inr (lv', subs)" and st: "st_events st = lv_events lv'"
    by (auto simp: applyTick_def Let_def)
  obtain evs where e: "grows H (start_live incr) evs lv" "list_all event_confined evs"
    using advance_grows [OF a] by blast
  have subs: "grows H lv (concat (map sr_events subs)) lv'" using submit_all_grows [OF s] by simp
  have "list_all event_confined (concat (map sr_events subs))"
    using submit_all_confined [OF s assms(2)] by (auto simp: list_all_iff)
  with grows_trans [OF e(1) subs] e(2) show ?thesis by (simp add: st grows_def start_live_def)
qed

lemma run_ticks_confined:
  "run_ticks H blocks (incr, ticks, log) = Inr (incr', ticks', log') \<Longrightarrow> program_confined blocks \<Longrightarrow> list_all event_confined log \<Longrightarrow>
   list_all event_confined log'"
  by (induction blocks arbitrary: incr ticks log) (auto simp: run_step_def program_confined_def dest: applyTick_confined)

section \<open>A run with a CAL from ingress to finality\<close>

text \<open>A hash is 32 bytes; which ones does not matter for a run that is to return.\<close>

definition zero_host :: host where
  "zero_host = \<lparr>host_nfc = (\<lambda>s. s), host_sha256 = (\<lambda>bs. replicate 32 0)\<rparr>"

lemma zero_host_ok: "host_ok zero_host"
  by (auto simp: host_ok_def zero_host_def)

text \<open>A fold along which every event and every state is plain ASCII, so that hashes and roots exist.\<close>

inductive ascii_run :: "json \<Rightarrow> obj list \<Rightarrow> json \<Rightarrow> bool" where
  ascii_run_Nil: "ascii_run s [] s"
| ascii_run_Cons: "ascii_json (JObj ev) \<Longrightarrow> applyEvent s ev = Inr s1 \<Longrightarrow> ascii_namespaces s1 \<Longrightarrow> ascii_run s1 evs s' \<Longrightarrow>
    ascii_run s (ev # evs) s'"

inductive_cases ascii_run_ConsE: "ascii_run s (ev # evs) s'"
inductive_cases ascii_run_NilE: "ascii_run s [] s'"

text \<open>The state, count and hash length of a \<open>live\<close> after a fold.\<close>

definition live_at :: "json \<Rightarrow> obj list \<Rightarrow> live \<Rightarrow> bool" where
  "live_at s evs lv \<longleftrightarrow> lv_state lv = s \<and> lv_events lv = evs \<and> lv_count lv = length evs \<and> length (lv_last lv) = 32"

lemma ascii_fold:
  assumes "host_ok H" "live_at s evs lv" "ascii_json (JObj ev)" "applyEvent s ev = Inr s1"
  obtains lv1 where "fold_event H lv ev = Inr (Inr lv1)" "live_at s1 (evs @ [ev]) lv1"
  using assms ascii_event_hash [of H ev] by (auto simp: fold_event_def live_at_def)

lemma ascii_fold_record:
  assumes "ascii_run s evs s'" "host_ok H" "live_at s done lv"
  shows "\<exists>lv' roots'. fold_record H lv evs sub roots = Inr (lv', sub @ evs, roots') \<and> live_at s' (done @ evs) lv'"
  using assms(1,3)
proof (induction arbitrary: lv "done" sub roots rule: ascii_run.induct)
  case (ascii_run_Cons ev s s1 evs s')
  obtain lv1 where lv1: "fold_event H lv ev = Inr (Inr lv1)" "live_at s1 (done @ [ev]) lv1"
    using ascii_fold [OF assms(2) ascii_run_Cons.prems ascii_run_Cons.hyps(1,2)] .
  obtain r where "stateRootOf H s1 = Inr r" using ascii_state_root [OF assms(2) ascii_run_Cons.hyps(3)] by blast
  with ascii_run_Cons.IH [OF lv1(2), of "sub @ [ev]" "roots @ [hex r]"] lv1 show ?case
    by (simp add: fold_or_throw_def live_at_def)
qed simp

definition cancel_block :: tick_block where
  "cancel_block = \<lparr>tb_tick = 3, tb_submissions = [\<lparr>sub_cal = JObj sample_cal, sub_trace = run_trace, sub_mode = Atomic\<rparr>]\<rparr>"

definition ingress_events :: "obj list" where
  "ingress_events =
     [[(js ''event_type'', JStr (js ''cal.created'')), (js ''cal_hash'', JStr run_hash), (js ''agent_id'', JStr sample_agent)],
      [(js ''event_type'', JStr (js ''cal.signed'')), (js ''cal_hash'', JStr run_hash)]]"

abbreviation run_log :: "obj list" where
  "run_log \<equiv> tick_event 3 # ingress_events @ run_events"

definition run_final :: json where
  "run_final = run_state 3 [] [(sample_agent, JInt 1)] 19645000 5 355000"

lemma run_ascii [simp]: "is_ascii sample_agent" "is_ascii run_hash" "ascii_json nav_delta"
  by code_simp+

lemma run_hash_key [simp]: "run_hash \<notin> set proto_keys" "run_hash \<noteq> js ''__proto__''" "sample_agent \<notin> set proto_keys"
  by code_simp+

lemma run_state_ascii:
  "ascii_namespaces (run_state t fs ns b nav f) \<longleftrightarrow> ascii_json (JObj fs) \<and> ascii_json (JObj ns)"
  by (simp add: ascii_namespaces_def run_state_def NAMESPACES_def js_get_def js_ascii proto_keys_def)

lemmas run_reads = reqStr_def js_get_def inFlight_def requireFlight_def getIn_Cons setIn.simps(2) run_state_def Let_def run_flight_def at_stage_def
  set_stage_def flight_agent_def

lemma cancel_created: "applyEvent (funded_state 3 []) (hd ingress_events) = Inr (funded_state 3 [(run_hash, JObj (run_flight ''CREATED'' 0 0 []))])"
  by (simp add: ingress_events_def applyEvent_def apply_created_def run_reads agent_busy_def new_flight_def)

lemma cancel_signed: "applyEvent (funded_state 3 [(run_hash, JObj (run_flight ''CREATED'' 0 0 []))]) (ingress_events ! 1) = Inr signed_state"
  by (simp add: ingress_events_def applyEvent_def apply_signed_def run_reads)

lemma cancel_validated: "applyEvent signed_state (run_events ! 0) =
    Inr (run_state 3 [(run_hash, JObj (run_flight ''VALIDATED'' 10100000 0 []))] [] 9900000 0 0)"
  by (simp add: run_events_def applyEvent_def apply_validated_def run_reads bal_def set_balance_def reqUint_def UINT256_MAX_def)

lemma cancel_executed: "applyEvent (run_state 3 [(run_hash, JObj (run_flight ''VALIDATED'' 10100000 0 []))] [] 9900000 0 0) (run_events ! 1) =
    Inr (run_state 3 [(run_hash, JObj (run_flight ''EXECUTED'' 10100000 255000 [nav_delta]))] [] 9900000 0 0)"
  by (simp add: run_events_def applyEvent_def apply_executed_def run_reads reqUint_def UINT256_MAX_def)

lemma cancel_settled: "applyEvent (run_state 3 [(run_hash, JObj (run_flight ''EXECUTED'' 10100000 255000 [nav_delta]))] [] 9900000 0 0) (run_events ! 2) =
    Inr (run_state 3 [(run_hash, JObj (run_flight ''SETTLED'' 10100000 255000 [nav_delta]))] [] 9900000 0 0)"
  by (simp add: run_events_def applyEvent_def apply_settled_def run_reads)

lemma cancel_finalized: "applyEvent (run_state 3 [(run_hash, JObj (run_flight ''SETTLED'' 10100000 255000 [nav_delta]))] [] 9900000 0 0) (run_events ! 3) =
    Inr run_final"
  by (simp add: run_events_def applyEvent_def apply_finalized_def run_reads reqUint_def UINT256_MAX_def optUint_def js_has_def flight_escrow_def
      flight_staged_def nav_delta_applies settle_escrow_def bal_def set_balance_def addFees_def drop_flight_def bumpNonce_def run_final_def)

lemma run_events_split: "ingress_events = [hd ingress_events, ingress_events ! 1]"
  "run_events = [run_events ! 0, run_events ! 1, run_events ! 2, run_events ! 3]"
  by (simp_all add: ingress_events_def run_events_def)

lemma run_events_ascii: "list_all (\<lambda>ev. ascii_json (JObj ev)) (ingress_events @ run_events)" "ascii_json (JObj (tick_event 3))"
  by (simp_all add: ingress_events_def run_events_def tick_event_def js_ascii)

lemma ingress_runs: "ascii_run (funded_state 3 []) ingress_events signed_state"
proof -
  have e: "ascii_json (JObj (hd ingress_events))" "ascii_json (JObj (ingress_events ! 1))"
    using run_events_ascii(1) by (simp_all add: ingress_events_def)
  show ?thesis
    by (subst run_events_split(1), rule ascii_run_Cons [OF e(1) cancel_created _ ascii_run_Cons [OF e(2) cancel_signed _ ascii_run_Nil]])
       (simp_all add: run_state_ascii run_flight_def js_ascii)
qed

lemma events_run: "ascii_run signed_state run_events run_final"
proof -
  have e: "ascii_json (JObj (run_events ! 0))" "ascii_json (JObj (run_events ! 1))" "ascii_json (JObj (run_events ! 2))"
    "ascii_json (JObj (run_events ! 3))"
    using run_events_ascii(1) by (simp_all add: run_events_def)
  show ?thesis
    by (subst run_events_split(2), rule ascii_run_Cons [OF e(1) cancel_validated _ ascii_run_Cons [OF e(2) cancel_executed _
        ascii_run_Cons [OF e(3) cancel_settled _ ascii_run_Cons [OF e(4) cancel_finalized _ ascii_run_Nil]]]])
       (simp_all add: run_state_ascii run_flight_def js_ascii run_final_def)
qed

lemma first_event: "applyEvent (funded_state 0 []) (tick_event 3) = Inr (funded_state 3 [])" "currentTickOf (funded_state t fs) = t"
  by (simp_all add: tick_event_def applyEvent_def apply_tick_advanced_def recomputeBounded_def reqUint_def UINT256_MAX_def currentTickOf_def
      vBig_def run_reads)

lemma sample_cal_hash: "calHash zero_host (JObj sample_cal) = Inr (replicate 32 0)" "hex (replicate 32 0) = run_hash"
  "strField (JObj sample_cal) ''agent_id'' = Inr sample_agent"
proof -
  let ?keep = "\<lambda>rest kv. if fst kv \<noteq> js ''signatures'' then js_assign (fst kv) (snd kv) rest else rest"
  have "ascii_json (JObj (foldl ?keep [] sample_cal))" by (simp add: sample_cal_def js_assign_def js_ascii)
  then obtain b where "canonicalizeValue zero_host (JObj (foldl ?keep [] sample_cal)) = Inr b" using ascii_canonical by blast
  moreover have "isAsciiDomainTag (domain_tag ''CAL_V1'')"
    by (rule registered_ascii, rule domain_tag_registered, simp add: DOMAIN_TAGS_def)
  ultimately show "calHash zero_host (JObj sample_cal) = Inr (replicate 32 0)"
    by (simp add: calHash_def canonicalUnsignedBytes_def domainHash_def zero_host_def sha256_def)
  show "hex (replicate 32 0) = run_hash" by code_simp
  show "strField (JObj sample_cal) ''agent_id'' = Inr sample_agent" by (simp add: strField_def sample_cal_def js_get_def)
qed

text \<open>The block returns, with the seven events of its log and the final state.\<close>

lemma cancel_ingress:
  assumes "live_at (funded_state 3 []) evs lv"
  shows "\<exists>lv' roots. ingress zero_host lv run_hash sample_agent = Inr (lv', ingress_events, roots, None) \<and>
    live_at signed_state (evs @ ingress_events) lv'"
proof -
  have "ascii_run (funded_state 3 []) [hd ingress_events, ingress_events ! 1] signed_state"
    by (simp only: run_events_split(1) [symmetric] ingress_runs)
  then obtain s1 where s1: "ascii_json (JObj (hd ingress_events))" "applyEvent (funded_state 3 []) (hd ingress_events) = Inr s1"
    "ascii_namespaces s1" and s2: "ascii_run s1 [ingress_events ! 1] signed_state"
    by (rule ascii_run_ConsE) simp
  from s2 have s2: "ascii_json (JObj (ingress_events ! 1))" "applyEvent s1 (ingress_events ! 1) = Inr signed_state" "ascii_namespaces signed_state"
    by (auto elim!: ascii_run_ConsE ascii_run_NilE)
  obtain lv1 where lv1: "fold_event zero_host lv (hd ingress_events) = Inr (Inr lv1)" "live_at s1 (evs @ [hd ingress_events]) lv1"
    using ascii_fold [OF zero_host_ok assms s1(1,2)] .
  obtain lv2 where lv2: "fold_event zero_host lv1 (ingress_events ! 1) = Inr (Inr lv2)"
    "live_at signed_state ((evs @ [hd ingress_events]) @ [ingress_events ! 1]) lv2"
    using ascii_fold [OF zero_host_ok lv1(2) s2(1,2)] .
  obtain r1 r2 where "stateRootOf zero_host s1 = Inr r1" "stateRootOf zero_host signed_state = Inr r2"
    using ascii_state_root [OF zero_host_ok] s1(3) s2(3) by metis
  with lv1 lv2 show ?thesis by (simp add: ingress_def Let_def live_at_def ingress_events_def)
qed

lemma cancel_submit:
  assumes "live_at (funded_state 3 []) evs lv"
  shows "\<exists>lv' r. submit zero_host 3 lv \<lparr>sub_cal = JObj sample_cal, sub_trace = run_trace, sub_mode = Atomic\<rparr> = Inr (lv', r) \<and>
    live_at run_final (evs @ ingress_events @ run_events) lv'"
proof -
  obtain lv1 roots where i: "ingress zero_host lv run_hash sample_agent = Inr (lv1, ingress_events, roots, None)"
    "live_at signed_state (evs @ ingress_events) lv1" using cancel_ingress [OF assms] by blast
  obtain v where v: "validate zero_host (JObj sample_cal) run_hash signed_state run_trace = Inr v" "vr_events v = run_events"
    using run_validates [OF nav_bytes] unfolding zero_host_def by blast
  have t: "run_trace\<lparr>currentTick := 3\<rparr> = run_trace" by (simp add: run_trace_def sample_trace_def)
  obtain lv2 roots2 where "fold_record zero_host lv1 run_events ingress_events roots = Inr (lv2, ingress_events @ run_events, roots2)"
    "live_at run_final ((evs @ ingress_events) @ run_events) lv2"
    using ascii_fold_record [OF events_run zero_host_ok i(2)] by blast
  with i v t show ?thesis
    by (simp add: submit_def sample_cal_hash lifecycle_def live_at_def)
qed

lemma cancel_run:
  "\<exists>incr t. run_ticks zero_host [cancel_block] (initIncremental (Some (funded_state 0 [])), [], []) = Inr (incr, [t], run_log) \<and>
     inc_state incr = run_final"
proof -
  have "live_at (funded_state 0 []) [] (start_live (initIncremental (Some (funded_state 0 []))))"
    by (simp add: live_at_def start_live_def initIncremental_def ZERO32_def Let_def)
  from ascii_fold [OF zero_host_ok this run_events_ascii(2) first_event(1)]
  obtain lv where lv: "fold_event zero_host (start_live (initIncremental (Some (funded_state 0 [])))) (tick_event 3) = Inr (Inr lv)"
    "live_at (funded_state 3 []) [tick_event 3] lv" by auto
  obtain lv' r where lv': "submit zero_host 3 lv \<lparr>sub_cal = JObj sample_cal, sub_trace = run_trace, sub_mode = Atomic\<rparr> = Inr (lv', r)"
    "live_at run_final run_log lv'" using cancel_submit [OF lv(2)] by auto
  have "ascii_namespaces run_final" by (simp add: run_final_def run_state_ascii)
  then obtain root where root: "stateRootOf zero_host run_final = Inr root" "length root = 32"
    using ascii_state_root [OF zero_host_ok] by blast
  have len: "length run_log = 7" by (simp add: ingress_events_def run_events_def)
  from lv'(2) have l: "lv_state lv' = run_final" "lv_events lv' = run_log" "lv_count lv' = 7" "length (lv_last lv') = 32"
    unfolding live_at_def len by simp_all
  from global_root_exists [OF zero_host_ok root l(4), of 7] obtain g where "globalMerkleRoot zero_host run_final 7 (lv_last lv') = Inr g"
    by (auto simp: MAX_UINT64_def)
  with lv(1) lv'(1) l root show ?thesis
    by (simp add: run_step_def applyTick_def advance_def cancel_block_def fold_or_throw_def initIncremental_def first_event(2) Let_def)
qed

lemma run_final_money: "bal run_final sample_agent = 19645000 \<and> fees run_final = 355000"
  by (simp add: run_final_def bal_eq funded_views)

section \<open>What a run commits\<close>

text \<open>
  C1: End to end, the node neither creates nor destroys PTRA as long as no Delta does. Hypotheses: the genesis is sound (\<open>reducer_inv\<close>:
  well-formed in-flight records; \<open>funds_ok\<close>: balances, escrows and fees that are not negative), and no trace of the program reports a Delta
  that writes in-flight records, nonces, balances or the fee window (\<open>program_confined\<close>; the reducer would accept such a Delta, and it could
  mint). Then the run ends in a state with the same total of balances, escrows and fees, sound again, with every balance between zero
  and that total: what the validator bills as gas, escrow, refund and fee is moved, never minted, whatever the submissions, their modes
  and their order.
\<close>

theorem node_conserves_supply:
  assumes "run_ticks H blocks (initIncremental (Some g), [], []) = Inr (incr, ticks, log)"
    and "reducer_inv g" "funds_ok g" "program_confined blocks"
  shows "ptra_supply (inc_state incr) = ptra_supply g \<and> reducer_inv (inc_state incr) \<and> funds_ok (inc_state incr) \<and>
    0 \<le> bal (inc_state incr) a \<and> bal (inc_state incr) a \<le> ptra_supply g"
proof -
  have "materialize_log log g = Inr (inc_state incr)"
    using run_ticks_log(1) [OF assms(1), of False] by (simp add: materialize_log_Inr)
  from log_sound [OF assms(2,3) run_ticks_confined [OF assms(1,4)] this]
  have s: "ptra_supply (inc_state incr) = ptra_supply g" "reducer_inv (inc_state incr)" "funds_ok (inc_state incr)" by simp_all
  then show ?thesis using funds_ok_bal [of "inc_state incr" a] bal_le_supply [of "inc_state incr" a] by simp
qed

theorem node_conserves_supply_witness:
  "\<exists>incr t. run_ticks zero_host [cancel_block] (initIncremental (Some (funded_state 0 [])), [], []) = Inr (incr, [t], run_log) \<and>
     inc_state incr = run_final \<and> bal run_final sample_agent = 19645000 \<and> fees run_final = 355000 \<and> ptra_supply run_final = 20000000"
proof -
  obtain incr t where r: "run_ticks zero_host [cancel_block] (initIncremental (Some (funded_state 0 [])), [], []) = Inr (incr, [t], run_log)"
    "inc_state incr = run_final" using cancel_run by blast
  have "reducer_inv (funded_state 0 [])" "funds_ok (funded_state 0 [])" "ptra_supply (funded_state 0 []) = 20000000"
    by (simp_all add: reducer_inv_def flights_ok_def funds_ok_def ptra_supply_def funded_views sum_members_def int_of_def)
  moreover have "program_confined [cancel_block]"
    by (simp add: program_confined_def trace_confined_def cancel_block_def run_trace_def nav_delta_applies)
  ultimately show ?thesis using node_conserves_supply [OF r(1)] r run_final_money by auto
qed

end
