(* ===== verification/Json_Text.thy ===== *)
theory Json_Text
  imports Canon_Jcs
begin

text \<open>
  The JSON of the language itself, as \<^verbatim>\<open>orchestrator/src/node\<close> uses it for its files: \<open>JSON.stringify\<close> and \<open>JSON.parse\<close>
  with the replacer and the reviver that carry \<open>bigint\<close> values, and UTF-8 decoding with replacement characters. \<open>JSON.parse\<close> is
  a machine that reads one code unit at a time and keeps the unfinished arrays and objects on a stack.
\<close>

section \<open>Writing\<close>

definition unicode_escape :: "16 word \<Rightarrow> jstring" where
  "unicode_escape c = [0x5c, 0x75] @ byte_hex (word_of_int (uint c div 256)) @ byte_hex (word_of_int (uint c mod 256))"

text \<open>A lone surrogate is escaped, so the text is well-formed UTF-16.\<close>

fun quote_units :: "jstring \<Rightarrow> jstring" where
  "quote_units (c # d # r) =
     (if high_surrogate c \<and> low_surrogate d then c # d # quote_units r
      else if high_surrogate c \<or> low_surrogate c then unicode_escape c @ quote_units (d # r)
      else escape_unit c @ quote_units (d # r))"
| "quote_units [c] = (if high_surrogate c \<or> low_surrogate c then unicode_escape c else escape_unit c)"
| "quote_units [] = []"

definition json_quote :: "jstring \<Rightarrow> jstring" where
  "json_quote s = 0x22 # quote_units s @ [0x22]"

text \<open>
  \<open>None\<close> for what the value model has no text of: a fraction, an integer that is written with an exponent, a function. The type
  \<open>Json\<close> of the repository has no numbers.
\<close>

fun stringify :: "json \<Rightarrow> jstring option" where
  "stringify JNull = Some (js ''null'')"
| "stringify (JBool b) = Some (if b then js ''true'' else js ''false'')"
| "stringify (JInt v) = None"
| "stringify (JNum n) =
     (case n of
        NInt v \<Rightarrow> if \<bar>v\<bar> < 10 ^ 21 then Some (dec_int v) else None
      | NNegZero \<Rightarrow> Some (js ''0'')
      | NFractional \<Rightarrow> None
      | NNonFinite \<Rightarrow> Some (js ''null''))"
| "stringify (JStr s) = Some (json_quote s)"
| "stringify (JArr xs) = map_option (\<lambda>ps. 0x5b # commas ps @ [0x5d]) (those (map stringify xs))"
| "stringify (JObj ob) =
     map_option (\<lambda>ps. 0x7b # commas ps @ [0x7d])
       (those (map (\<lambda>kv. map_option (\<lambda>t. json_quote (fst kv) @ 0x3a # t) (stringify (snd kv))) ob))"
| "stringify JFun = None"

text \<open>The replacer: a \<open>bigint\<close> becomes an object with one member. \<open>JSON.stringify\<close> of a \<open>bigint\<close> itself would throw.\<close>

definition bigint_tag :: jstring where "bigint_tag = js ''$bigint''"

fun tag_bigints :: "json \<Rightarrow> json" where
  "tag_bigints (JInt v) = JObj [(bigint_tag, JStr (dec_int v))]"
| "tag_bigints (JArr xs) = JArr (map tag_bigints xs)"
| "tag_bigints (JObj ob) = JObj (map (\<lambda>kv. (fst kv, tag_bigints (snd kv))) ob)"
| "tag_bigints v = v"

definition enc :: "json \<Rightarrow> jstring option" where
  "enc v = stringify (tag_bigints v)"

section \<open>Numbers\<close>

text \<open>The double nearest to a rational \<open>n / d\<close> with \<open>0 < d\<close>, ties to even, as far as the value model tells numbers apart.\<close>

fun binary_exponent :: "nat \<Rightarrow> nat" where
  "binary_exponent n = (if n < 2 then 0 else Suc (binary_exponent (n div 2)))"

declare binary_exponent.simps [simp del]

definition round_ratio :: "nat \<Rightarrow> nat \<Rightarrow> nat" where
  "round_ratio n d =
     (let q = n div d; r = n mod d in if 2 * r < d \<or> 2 * r = d \<and> even q then q else q + 1)"

definition signed_num :: "bool \<Rightarrow> nat \<Rightarrow> jsnum" where
  "signed_num neg n = (if n = 0 then (if neg then NNegZero else NInt 0) else NInt (if neg then - int n else int n))"

definition nearest_double :: "bool \<Rightarrow> nat \<Rightarrow> nat \<Rightarrow> jsnum" where
  "nearest_double neg n d =
     (if n div d \<ge> 2 ^ 52 then
        (let ulp = 2 ^ (binary_exponent (n div d) - 52); v = round_ratio n (d * ulp) * ulp
         in if v \<ge> 2 ^ 1024 then NNonFinite else signed_num neg v)
      else if 2 * n \<ge> d then
        (let scale = (if n \<ge> d then 2 ^ (52 - binary_exponent (n div d)) else 2 ^ 53); v = round_ratio (n * scale) d
         in if scale dvd v then signed_num neg (v div scale) else NFractional)
      else if n * 2 ^ 1075 \<le> d then signed_num neg 0
      else NFractional)"

text \<open>A number token, \<open>None\<close> if the grammar of JSON does not have it.\<close>

definition split_at :: "(16 word \<Rightarrow> bool) \<Rightarrow> jstring \<Rightarrow> jstring \<times> jstring" where
  "split_at P s = (takeWhile P s, dropWhile P s)"

definition number_value :: "jstring \<Rightarrow> jsnum option" where
  "number_value s =
     (let neg = (peek s = Some 0x2d);
          (whole, r) = split_at is_digit (if neg then tl s else s);
          (frac, r1) = (if peek r = Some 0x2e then split_at is_digit (tl r) else ([], r));
          has_exp = (peek r1 = Some 0x65 \<or> peek r1 = Some 0x45);
          e = (if has_exp then tl r1 else []);
          eneg = (peek e = Some 0x2d);
          (edigits, r2) = split_at is_digit (if eneg \<or> peek e = Some 0x2b then tl e else e);
          m = read_nat (whole @ frac)
      in if whole = [] \<or> peek whole = Some 0x30 \<and> length whole > 1 then None
         else if peek r = Some 0x2e \<and> frac = [] then None
         else if has_exp \<and> edigits = [] then None
         else if (if has_exp then r2 else r1) \<noteq> [] then None
         else
           let up = (if eneg then 0 else read_nat edigits); down = length frac + (if eneg then read_nat edigits else 0)
           in Some (nearest_double neg (m * 10 ^ up) (10 ^ down)))"

section \<open>Reading\<close>

text \<open>What is read: a value, the start of an array or object, a key, a token; or a value is complete.\<close>

datatype frame = ArrF "json list" | ObjF obj jstring

datatype role = Value | Key obj

datatype mode =
    MValue | MElem | MFirstKey | MKey obj | MColon obj jstring
  | MStr role jstring | MEsc role jstring | MHex role jstring nat int
  | MNum jstring | MLit jstring json | MAfter | MDone json

type_synonym machine = "mode \<times> frame list"

text \<open>A value is complete: it goes into the frame on top. A repeated key keeps its place and takes the new value.\<close>

fun complete :: "json \<Rightarrow> frame list \<Rightarrow> machine" where
  "complete v [] = (MDone v, [])"
| "complete v (ArrF xs # k) = (MAfter, ArrF (xs @ [v]) # k)"
| "complete v (ObjF ms key # k) = (MAfter, ObjF (AList.update key v ms) key # k)"

abbreviation syntax_error :: "'a res" where
  "syntax_error \<equiv> Inl TypeError"

fun after_value :: "16 word \<Rightarrow> machine \<Rightarrow> machine res" where
  "after_value c (MDone v, k) = (if is_ws c then Inr (MDone v, k) else syntax_error)"
| "after_value c (m, ArrF xs # k) =
     (if is_ws c then Inr (m, ArrF xs # k) else if c = 0x2c then Inr (MValue, ArrF xs # k)
      else if c = 0x5d then Inr (complete (JArr xs) k) else syntax_error)"
| "after_value c (m, ObjF ms key # k) =
     (if is_ws c then Inr (m, ObjF ms key # k) else if c = 0x2c then Inr (MKey ms, k)
      else if c = 0x7d then Inr (complete (JObj ms) k) else syntax_error)"
| "after_value c (m, []) = syntax_error"

definition start_value :: "16 word \<Rightarrow> frame list \<Rightarrow> machine res" where
  "start_value c k =
     (if is_ws c then Inr (MValue, k)
      else if c = 0x22 then Inr (MStr Value [], k)
      else if c = 0x7b then Inr (MFirstKey, k)
      else if c = 0x5b then Inr (MElem, ArrF [] # k)
      else if c = 0x2d \<or> is_digit c then Inr (MNum [c], k)
      else if c = 0x74 then Inr (MLit (js ''rue'') (JBool True), k)
      else if c = 0x66 then Inr (MLit (js ''alse'') (JBool False), k)
      else if c = 0x6e then Inr (MLit (js ''ull'') JNull, k)
      else syntax_error)"

definition is_number_char :: "16 word \<Rightarrow> bool" where
  "is_number_char c \<longleftrightarrow> is_digit c \<or> c = 0x2b \<or> c = 0x2d \<or> c = 0x2e \<or> c = 0x65 \<or> c = 0x45"

fun end_string :: "role \<Rightarrow> jstring \<Rightarrow> frame list \<Rightarrow> machine" where
  "end_string Value s k = complete (JStr s) k"
| "end_string (Key ms) s k = (MColon ms s, k)"

fun read_unit :: "machine \<Rightarrow> 16 word \<Rightarrow> machine res" where
  "read_unit (MValue, k) c = start_value c k"
| "read_unit (MElem, k) c =
     (if is_ws c then Inr (MElem, k) else if c = 0x5d then Inr (complete (JArr []) (tl k)) else start_value c k)"
| "read_unit (MFirstKey, k) c =
     (if is_ws c then Inr (MFirstKey, k) else if c = 0x7d then Inr (complete (JObj []) k)
      else if c = 0x22 then Inr (MStr (Key []) [], k) else syntax_error)"
| "read_unit (MKey ms, k) c =
     (if is_ws c then Inr (MKey ms, k) else if c = 0x22 then Inr (MStr (Key ms) [], k) else syntax_error)"
| "read_unit (MColon ms key, k) c =
     (if is_ws c then Inr (MColon ms key, k) else if c = 0x3a then Inr (MValue, ObjF ms key # k) else syntax_error)"
| "read_unit (MStr r acc, k) c =
     (if c = 0x22 then Inr (end_string r acc k) else if c = 0x5c then Inr (MEsc r acc, k)
      else if uint c < 0x20 then syntax_error else Inr (MStr r (acc @ [c]), k))"
| "read_unit (MEsc r acc, k) c =
     (case simple_escape c of
        Some u \<Rightarrow> Inr (MStr r (acc @ [u]), k)
      | None \<Rightarrow> if c = 0x75 then Inr (MHex r acc 0 0, k) else syntax_error)"
| "read_unit (MHex r acc n v, k) c =
     (if \<not> is_hex_char c then syntax_error
      else let w = v * 16 + parseHexDigit c
           in if n < 3 then Inr (MHex r acc (Suc n) w, k) else Inr (MStr r (acc @ [word_of_int w]), k))"
| "read_unit (MNum t, k) c =
     (if is_number_char c then Inr (MNum (t @ [c]), k)
      else case number_value t of Some n \<Rightarrow> after_value c (complete (JNum n) k) | None \<Rightarrow> syntax_error)"
| "read_unit (MLit todo v, k) c =
     (case todo of
        x # xs \<Rightarrow> if c \<noteq> x then syntax_error else if xs = [] then Inr (complete v k) else Inr (MLit xs v, k)
      | [] \<Rightarrow> syntax_error)"
| "read_unit (MAfter, k) c = after_value c (MAfter, k)"
| "read_unit (MDone v, k) c = after_value c (MDone v, k)"

fun read_units :: "jstring \<Rightarrow> machine \<Rightarrow> machine res" where
  "read_units [] m = Inr m"
| "read_units (c # cs) m = and_then (read_unit m c) (read_units cs)"

fun at_end :: "machine \<Rightarrow> json res" where
  "at_end (MDone v, k) = Inr v"
| "at_end (MNum t, []) = (case number_value t of Some n \<Rightarrow> Inr (JNum n) | None \<Rightarrow> syntax_error)"
| "at_end m = syntax_error"

definition json_parse :: "jstring \<Rightarrow> json res" where
  "json_parse s = and_then (read_units s (MValue, [])) at_end"

section \<open>The reviver\<close>

definition js_space :: "16 word \<Rightarrow> bool" where
  "js_space c \<longleftrightarrow> uint c \<in> {9, 10, 11, 12, 13, 32, 0xa0, 0x1680, 0x2028, 0x2029, 0x202f, 0x205f, 0x3000, 0xfeff} \<or>
     0x2000 \<le> uint c \<and> uint c \<le> 0x200a"

definition trim :: "jstring \<Rightarrow> jstring" where
  "trim s = rev (dropWhile js_space (rev (dropWhile js_space s)))"

text \<open>\<open>BigInt\<close> of a string: the empty text is 0; a sign only before decimal digits.\<close>

definition radix_value :: "int \<Rightarrow> jstring \<Rightarrow> int res" where
  "radix_value radix ds =
     (if ds = [] \<or> \<not> list_all (\<lambda>c. is_hex_char c \<and> parseHexDigit c < radix) ds then syntax_error
      else Inr (foldl (\<lambda>v c. v * radix + parseHexDigit c) 0 ds))"

definition bigint_of :: "jstring \<Rightarrow> int res" where
  "bigint_of text =
     (let s = trim text; prefix = take 2 s
      in if s = [] then Inr 0
         else if prefix = js ''0x'' \<or> prefix = js ''0X'' then radix_value 16 (drop 2 s)
         else if prefix = js ''0o'' \<or> prefix = js ''0O'' then radix_value 8 (drop 2 s)
         else if prefix = js ''0b'' \<or> prefix = js ''0B'' then radix_value 2 (drop 2 s)
         else if peek s = Some 0x2d then and_then (radix_value 10 (tl s)) (\<lambda>v. Inr (- v))
         else if peek s = Some 0x2b then radix_value 10 (tl s)
         else radix_value 10 s)"

text \<open>Bottom up: the members of an object are revived before the object.\<close>

fun revive :: "json \<Rightarrow> json res" where
  "revive (JArr xs) = and_then (map_res revive xs) (\<lambda>ys. Inr (JArr ys))"
| "revive (JObj ob) =
     and_then (map_res (\<lambda>kv. and_then (revive (snd kv)) (\<lambda>v. Inr (fst kv, v))) ob) (\<lambda>ms.
       case ms of
         [(key, JStr s)] \<Rightarrow> if key = bigint_tag then and_then (bigint_of s) (\<lambda>v. Inr (JInt v)) else Inr (JObj ms)
       | _ \<Rightarrow> Inr (JObj ms))"
| "revive v = Inr v"

definition dec :: "jstring \<Rightarrow> json res" where
  "dec text = and_then (json_parse text) revive"

section \<open>Bytes\<close>

text \<open>\<open>toString('utf8')\<close>: an ill-formed sequence is one U+FFFD per maximal part that could have begun a character.\<close>

definition second_ok :: "8 word \<Rightarrow> 8 word \<Rightarrow> bool" where
  "second_ok a b \<longleftrightarrow>
     is_cont b \<and> (uint a = 0xe0 \<longrightarrow> uint b \<ge> 0xa0) \<and> (uint a = 0xed \<longrightarrow> uint b \<le> 0x9f) \<and>
     (uint a = 0xf0 \<longrightarrow> uint b \<ge> 0x90) \<and> (uint a = 0xf4 \<longrightarrow> uint b \<le> 0x8f)"

fun utf8_lossy :: "bytes \<Rightarrow> int list" where
  "utf8_lossy [] = []"
| "utf8_lossy (a # r) =
     (if uint a < 0x80 then uint a # utf8_lossy r
      else if uint a < 0xc2 \<or> uint a \<ge> 0xf5 then 0xfffd # utf8_lossy r
      else case r of
        [] \<Rightarrow> [0xfffd]
      | b # r1 \<Rightarrow>
          if \<not> second_ok a b then 0xfffd # utf8_lossy r
          else if uint a < 0xe0 then ((uint a - 0xc0) * 64 + (uint b - 0x80)) # utf8_lossy r1
          else case r1 of
            [] \<Rightarrow> [0xfffd]
          | c # r2 \<Rightarrow>
              if \<not> is_cont c then 0xfffd # utf8_lossy r1
              else if uint a < 0xf0 then
                ((uint a - 0xe0) * 4096 + (uint b - 0x80) * 64 + (uint c - 0x80)) # utf8_lossy r2
              else case r2 of
                [] \<Rightarrow> [0xfffd]
              | d # r3 \<Rightarrow>
                  if \<not> is_cont d then 0xfffd # utf8_lossy r2
                  else ((uint a - 0xf0) * 262144 + (uint b - 0x80) * 4096 + (uint c - 0x80) * 64 + (uint d - 0x80)) # utf8_lossy r3)"

declare utf8_lossy.simps(2) [simp del]

definition to_text :: "bytes \<Rightarrow> jstring" where
  "to_text bs = concat (map utf16_cp (utf8_lossy bs))"

end
