(* ===== verification/Owner_Sig.thy ===== *)
theory Owner_Sig
  imports Json_Text Cal_Schema
begin

text \<open>
  \<^verbatim>\<open>validator/src/owner-sig.ts\<close> and \<^verbatim>\<open>orchestrator/src/ingress.ts\<close>: the messages that a wallet and an agent sign, and the
  flags of the trace that are derived from them. The curve is \<^verbatim>\<open>node:crypto\<close>: a \<open>verifier\<close> takes the DER key, the data and the
  signature, and may throw on the key. \<open>Buffer\<close> is lenient: hex stops at the first pair that is none, base64 skips what is not of
  its alphabet and stops at the padding.
\<close>

type_synonym verifier = "bytes \<Rightarrow> bytes \<Rightarrow> bytes \<Rightarrow> bool res"

section \<open>Buffers\<close>

fun buffer_hex :: "jstring \<Rightarrow> bytes" where
  "buffer_hex (a # b # r) =
     (let hi = parseHexDigit a; lo = parseHexDigit b
      in if hi < 0 \<or> lo < 0 then [] else word_of_int (hi * 16 + lo) # buffer_hex r)"
| "buffer_hex _ = []"

definition base64_char :: "int \<Rightarrow> 16 word" where
  "base64_char v =
     word_of_int (if v < 26 then 0x41 + v else if v < 52 then 0x61 + (v - 26) else if v < 62 then 0x30 + (v - 52)
                  else if v = 62 then 0x2b else 0x2f)"

text \<open>Both alphabets are read.\<close>

definition base64_value :: "16 word \<Rightarrow> int option" where
  "base64_value c =
     (let u = uint c in
      if 0x41 \<le> u \<and> u \<le> 0x5a then Some (u - 0x41)
      else if 0x61 \<le> u \<and> u \<le> 0x7a then Some (u - 0x61 + 26)
      else if 0x30 \<le> u \<and> u \<le> 0x39 then Some (u - 0x30 + 52)
      else if u = 0x2b \<or> u = 0x2d then Some 62
      else if u = 0x2f \<or> u = 0x5f then Some 63
      else None)"

fun toBase64 :: "bytes \<Rightarrow> jstring" where
  "toBase64 (a # b # c # r) =
     base64_char (uint a div 4) # base64_char (uint a mod 4 * 16 + uint b div 16) #
     base64_char (uint b mod 16 * 4 + uint c div 64) # base64_char (uint c mod 64) # toBase64 r"
| "toBase64 [a, b] =
     [base64_char (uint a div 4), base64_char (uint a mod 4 * 16 + uint b div 16), base64_char (uint b mod 16 * 4), 0x3d]"
| "toBase64 [a] = [base64_char (uint a div 4), base64_char (uint a mod 4 * 16), 0x3d, 0x3d]"
| "toBase64 [] = []"

fun sextets :: "jstring \<Rightarrow> int list" where
  "sextets [] = []"
| "sextets (c # r) = (if c = 0x3d then [] else case base64_value c of Some v \<Rightarrow> v # sextets r | None \<Rightarrow> sextets r)"

fun sextet_bytes :: "int list \<Rightarrow> bytes" where
  "sextet_bytes (p # q # r # s # rest) =
     word_of_int (p * 4 + q div 16) # word_of_int (q mod 16 * 16 + r div 4) # word_of_int (r mod 4 * 64 + s) # sextet_bytes rest"
| "sextet_bytes [p, q, r] = [word_of_int (p * 4 + q div 16), word_of_int (q mod 16 * 16 + r div 4)]"
| "sextet_bytes [p, q] = [word_of_int (p * 4 + q div 16)]"
| "sextet_bytes _ = []"

definition fromBase64 :: "jstring \<Rightarrow> bytes" where
  "fromBase64 s = sextet_bytes (sextets s)"

text \<open>
  A number as \<open>writeInt32BE\<close> sees it: a rational \<open>n / d\<close>, truncated after the test of the range; \<open>NaN\<close> passes the test and is
  written as 0.
\<close>

datatype double = NaN | Infinite | Rational int nat

fun writeInt32BE :: "double \<Rightarrow> bytes res" where
  "writeInt32BE NaN = Inr [0, 0, 0, 0]"
| "writeInt32BE Infinite = Inl TypeError"
| "writeInt32BE (Rational n d) =
     (if n > 2147483647 * int d \<or> n < - 2147483648 * int d then Inl TypeError
      else let t = sgn n * (\<bar>n\<bar> div int d) in Inr (encodeUnsignedBe (t mod 2 ^ 32) 4))"

definition writeUInt32BE :: "nat \<Rightarrow> bytes" where
  "writeUInt32BE n = encodeUnsignedBe (int n mod 2 ^ 32) 4"

definition writeBigUInt64BE :: "int \<Rightarrow> bytes res" where
  "writeBigUInt64BE v = (if v < 0 \<or> v > MAX_UINT64 then Inl TypeError else Inr (encodeUnsignedBe v 8))"

section \<open>Conversions of the language\<close>

text \<open>
  \<open>String(v)\<close>. An object with a member \<open>toString\<close> of its own, which is no function, has no primitive value. The type \<open>Json\<close> has
  no numbers and no functions.
\<close>

fun js_String :: "json \<Rightarrow> jstring res" where
  "js_String JNull = Inr (js ''null'')"
| "js_String (JBool b) = Inr (if b then js ''true'' else js ''false'')"
| "js_String (JInt v) = Inr (dec_int v)"
| "js_String (JStr s) = Inr s"
| "js_String (JArr xs) =
     and_then (map_res (\<lambda>x. if x = JNull then Inr [] else js_String x) xs) (\<lambda>ss. Inr (commas ss))"
| "js_String (JObj ob) = (if map_of ob (js ''toString'') \<noteq> None then Inl TypeError else Inr (js ''[object Object]''))"
| "js_String _ = Inl TypeError"

definition String_of :: "json option \<Rightarrow> jstring res" where
  "String_of v = (case v of Some j \<Rightarrow> js_String j | None \<Rightarrow> Inr (js ''undefined''))"

definition rounded :: "bool \<Rightarrow> nat \<Rightarrow> nat \<Rightarrow> double" where
  "rounded neg n d =
     (case nearest_double neg n d of
        NInt v \<Rightarrow> Rational v 1
      | NNegZero \<Rightarrow> Rational 0 1
      | NFractional \<Rightarrow> Rational (if neg then - int n else int n) d
      | NNonFinite \<Rightarrow> Infinite)"

text \<open>\<open>Number\<close> of a string; a fraction that is not rounded to an integer is truncated as the exact one.\<close>

definition decimal_number :: "bool \<Rightarrow> jstring \<Rightarrow> double" where
  "decimal_number neg s =
     (let (whole, r) = split_at is_digit s;
          (frac, r1) = (if peek r = Some 0x2e then split_at is_digit (tl r) else ([], r));
          has_exp = (peek r1 = Some 0x65 \<or> peek r1 = Some 0x45);
          e = (if has_exp then tl r1 else []);
          eneg = (peek e = Some 0x2d);
          (edigits, r2) = split_at is_digit (if eneg \<or> peek e = Some 0x2b then tl e else e);
          m = read_nat (whole @ frac)
      in if s = js ''Infinity'' then Infinite
         else if whole = [] \<and> frac = [] \<or> has_exp \<and> edigits = [] \<or> (if has_exp then r2 else r1) \<noteq> [] then NaN
         else rounded neg (m * 10 ^ (if eneg then 0 else read_nat edigits)) (10 ^ (length frac + (if eneg then read_nat edigits else 0))))"

definition string_number :: "jstring \<Rightarrow> double" where
  "string_number text =
     (let s = trim text; prefix = take 2 s;
          radix = (if prefix = js ''0x'' \<or> prefix = js ''0X'' then 16 else if prefix = js ''0o'' \<or> prefix = js ''0O'' then 8
                   else if prefix = js ''0b'' \<or> prefix = js ''0B'' then 2 else 10)
      in if s = [] then Rational 0 1
         else if radix \<noteq> 10 then (case radix_value radix (drop 2 s) of Inr v \<Rightarrow> rounded False (nat v) 1 | Inl e \<Rightarrow> NaN)
         else if peek s = Some 0x2d then decimal_number True (tl s)
         else if peek s = Some 0x2b then decimal_number False (tl s)
         else decimal_number False s)"

fun js_Number :: "json \<Rightarrow> double res" where
  "js_Number JNull = Inr (Rational 0 1)"
| "js_Number (JBool b) = Inr (Rational (of_bool b) 1)"
| "js_Number (JInt v) = Inr (rounded (v < 0) (nat \<bar>v\<bar>) 1)"
| "js_Number (JStr s) = Inr (string_number s)"
| "js_Number v = and_then (js_String v) (\<lambda>s. Inr (string_number s))"

definition Number_of :: "json option \<Rightarrow> double res" where
  "Number_of v = (case v of Some j \<Rightarrow> js_Number j | None \<Rightarrow> Inr NaN)"

fun js_BigInt :: "json \<Rightarrow> int res" where
  "js_BigInt JNull = Inl TypeError"
| "js_BigInt (JBool b) = Inr (of_bool b)"
| "js_BigInt (JInt v) = Inr v"
| "js_BigInt (JNum n) = to_bigint (Number n)"
| "js_BigInt (JStr s) = bigint_of s"
| "js_BigInt v = and_then (js_String v) bigint_of"

definition BigInt_of :: "json option \<Rightarrow> int res" where
  "BigInt_of v = (case v of Some j \<Rightarrow> js_BigInt j | None \<Rightarrow> Inl TypeError)"

section \<open>Verification\<close>

definition SPKI_ED25519_PREFIX :: bytes where
  "SPKI_ED25519_PREFIX = [0x30, 0x2a, 0x30, 0x05, 0x06, 0x03, 0x2b, 0x65, 0x70, 0x03, 0x21, 0x00]"

definition ed25519PublicKey :: "jstring \<Rightarrow> bytes" where
  "ed25519PublicKey pubkeyHex = SPKI_ED25519_PREFIX @ buffer_hex pubkeyHex"

definition ed25519Verify :: "verifier \<Rightarrow> bytes \<Rightarrow> jstring \<Rightarrow> jstring \<Rightarrow> bool res" where
  "ed25519Verify V digest signatureB64 pubkeyHex = V (ed25519PublicKey pubkeyHex) digest (fromBase64 signatureB64)"

section \<open>Contract A: \<open>signData\<close>\<close>

datatype payload = Text jstring | Binary jstring

text \<open>The time stamp is the value as it arrives: \<open>BigInt\<close> is applied to it.\<close>

record sign_data_input =
  sd_workchain :: double
  sd_addressHash :: jstring
  sd_domain :: jstring
  sd_timestamp :: "json option"
  sd_payload :: payload

fun payload_tag :: "payload \<Rightarrow> jstring" where
  "payload_tag (Text t) = js ''txt''"
| "payload_tag (Binary b) = js ''bin''"

fun payload_bytes :: "payload \<Rightarrow> bytes" where
  "payload_bytes (Text t) = utf8_encode t"
| "payload_bytes (Binary b) = fromBase64 b"

definition sign_data_message :: "sign_data_input \<Rightarrow> bytes res" where
  "sign_data_message i =
     (let p = payload_bytes (sd_payload i); d = utf8_encode (sd_domain i) in
      and_then (writeInt32BE (sd_workchain i)) (\<lambda>wc.
      and_then (BigInt_of (sd_timestamp i)) (\<lambda>t.
      and_then (writeBigUInt64BE t) (\<lambda>ts.
        Inr ([0xff, 0xff] @ utf8_encode (js ''ton-connect/sign-data/'') @ wc @ buffer_hex (sd_addressHash i) @
             writeUInt32BE (length d) @ d @ ts @ utf8_encode (payload_tag (sd_payload i)) @ writeUInt32BE (length p) @ p)))))"

definition signDataDigest :: "host \<Rightarrow> sign_data_input \<Rightarrow> bytes res" where
  "signDataDigest H i = and_then (sign_data_message i) (\<lambda>m. Inr (sha256 H m))"

definition verifySignData :: "verifier \<Rightarrow> host \<Rightarrow> sign_data_input \<Rightarrow> jstring \<Rightarrow> jstring \<Rightarrow> bool res" where
  "verifySignData V H i signatureB64 pubkeyHex = and_then (signDataDigest H i) (\<lambda>d. ed25519Verify V d signatureB64 pubkeyHex)"

section \<open>Contract B: \<open>ton_proof\<close>\<close>

record ton_proof_input =
  tp_workchain :: double
  tp_addressHash :: jstring
  tp_domain :: jstring
  tp_timestamp :: "json option"
  tp_proofPayload :: jstring

text \<open>Length and time are little-endian here.\<close>

definition ton_proof_message :: "host \<Rightarrow> ton_proof_input \<Rightarrow> bytes res" where
  "ton_proof_message H i =
     (let d = utf8_encode (tp_domain i) in
      and_then (writeInt32BE (tp_workchain i)) (\<lambda>wc.
      and_then (BigInt_of (tp_timestamp i)) (\<lambda>t.
      and_then (writeBigUInt64BE t) (\<lambda>ts.
        let inner = utf8_encode (js ''ton-proof-item-v2/'') @ wc @ buffer_hex (tp_addressHash i) @ rev (writeUInt32BE (length d)) @ d @
                    rev ts @ utf8_encode (tp_proofPayload i)
        in Inr ([0xff, 0xff] @ utf8_encode (js ''ton-connect'') @ sha256 H inner)))))"

definition tonProofDigest :: "host \<Rightarrow> ton_proof_input \<Rightarrow> bytes res" where
  "tonProofDigest H i = and_then (ton_proof_message H i) (\<lambda>m. Inr (sha256 H m))"

definition verifyTonProof :: "verifier \<Rightarrow> host \<Rightarrow> ton_proof_input \<Rightarrow> jstring \<Rightarrow> jstring \<Rightarrow> bool res" where
  "verifyTonProof V H i signatureB64 pubkeyHex = and_then (tonProofDigest H i) (\<lambda>d. ed25519Verify V d signatureB64 pubkeyHex)"

section \<open>The flags of the trace\<close>

definition operatorSigPresent :: "verifier \<Rightarrow> bytes \<Rightarrow> jstring \<Rightarrow> jstring \<Rightarrow> bool res" where
  "operatorSigPresent V canonicalBytes sigB64 pubkeyHex =
     (if pubkeyHex = [] then Inr False else V (ed25519PublicKey pubkeyHex) canonicalBytes (fromBase64 sigB64))"

record owner_co_signature =
  os_bytesB64 :: jstring
  os_workchain :: double
  os_addressHash :: jstring
  os_domain :: jstring
  os_timestamp :: "json option"
  os_signatureB64 :: jstring

definition envelope_input :: "owner_co_signature \<Rightarrow> sign_data_input" where
  "envelope_input env =
     \<lparr>sd_workchain = os_workchain env, sd_addressHash = os_addressHash env, sd_domain = os_domain env, sd_timestamp = os_timestamp env,
      sd_payload = Binary (os_bytesB64 env)\<rparr>"

definition ownerSigPresent :: "verifier \<Rightarrow> host \<Rightarrow> owner_co_signature \<Rightarrow> jstring \<Rightarrow> bool res" where
  "ownerSigPresent V H env pubkeyHex =
     (if pubkeyHex = [] then Inr False else verifySignData V H (envelope_input env) (os_signatureB64 env) pubkeyHex)"

text \<open>\<open>owners.find\<close> with its default.\<close>

fun find_owner :: "verifier \<Rightarrow> host \<Rightarrow> owner_co_signature \<Rightarrow> jstring list \<Rightarrow> jstring res" where
  "find_owner V H env [] = Inr []"
| "find_owner V H env (pk # pks) =
     and_then (ownerSigPresent V H env pk) (\<lambda>okay. if okay then Inr pk else find_owner V H env pks)"

definition computeOwnerSigners :: "verifier \<Rightarrow> host \<Rightarrow> owner_co_signature list \<Rightarrow> jstring list \<Rightarrow> jstring list res" where
  "computeOwnerSigners V H envelopes owners = map_res (\<lambda>env. find_owner V H env owners) envelopes"

section \<open>Ingress\<close>

definition strip0x :: "jstring \<Rightarrow> jstring" where
  "strip0x h = (if take 2 h = js ''0x'' then drop 2 h else h)"

definition hexToB64 :: "jstring \<Rightarrow> jstring" where
  "hexToB64 h = toBase64 (buffer_hex (strip0x h))"

record agent_keys =
  ak_operator :: "jstring option"
  ak_owner :: "jstring option"

record ingress_verdict =
  iv_operator :: bool
  iv_owner :: bool

definition own_member :: "json \<Rightarrow> string \<Rightarrow> json option" where
  "own_member v k = (case v of JObj ob \<Rightarrow> map_of ob (js k) | _ \<Rightarrow> None)"

definition key_text :: "jstring option \<Rightarrow> jstring" where
  "key_text k = strip0x (case k of Some s \<Rightarrow> s | None \<Rightarrow> [])"

definition signatures_of :: "json \<Rightarrow> json" where
  "signatures_of cal = (case own_member cal ''signatures'' of Some v \<Rightarrow> v | None \<Rightarrow> JObj [])"

definition owner_envelope :: "bytes \<Rightarrow> json \<Rightarrow> owner_co_signature res" where
  "owner_envelope canonicalBytes ow =
     and_then (Number_of (own_member ow ''workchain'')) (\<lambda>wc.
     and_then (String_of (own_member ow ''address_hash'')) (\<lambda>addr.
     and_then (String_of (own_member ow ''domain'')) (\<lambda>domain.
     and_then (String_of (own_member ow ''signature'')) (\<lambda>sig.
       Inr \<lparr>os_bytesB64 = toBase64 canonicalBytes, os_workchain = wc, os_addressHash = strip0x addr, os_domain = domain,
            os_timestamp = own_member ow ''timestamp'', os_signatureB64 = hexToB64 sig\<rparr>))))"

definition is_object :: "json option \<Rightarrow> bool" where
  "is_object v = (case v of Some (JObj _) \<Rightarrow> True | Some (JArr _) \<Rightarrow> True | _ \<Rightarrow> False)"

definition verifyIngress :: "verifier \<Rightarrow> host \<Rightarrow> json \<Rightarrow> agent_keys \<Rightarrow> ingress_verdict res" where
  "verifyIngress V H cal agent =
     and_then (canonicalUnsignedBytes H cal) (\<lambda>canonicalBytes.
       let sigs = signatures_of cal; opPub = key_text (ak_operator agent); ownerPub = key_text (ak_owner agent);
           ownerSig = own_member sigs ''owner_sig''
       in and_then (case own_member sigs ''operator_sig'' of
                Some (JStr s) \<Rightarrow> if opPub \<noteq> [] then operatorSigPresent V canonicalBytes (hexToB64 s) opPub else Inr False
              | _ \<Rightarrow> Inr False) (\<lambda>operator.
          and_then (if ownerPub \<noteq> [] \<and> is_object ownerSig then
                and_then (owner_envelope canonicalBytes (the ownerSig)) (\<lambda>env. ownerSigPresent V H env ownerPub)
              else Inr False) (\<lambda>owner.
            Inr \<lparr>iv_operator = operator, iv_owner = owner\<rparr>)))"

end
