(* ===== verification/Owner_Sig_Props.thy ===== *)
theory Owner_Sig_Props
  imports Owner_Sig Validator_Props Cal_Gas_Props
begin

text \<open>
  What a signature binds: the signed messages determine their fields, the two contracts never sign the same message, and the flags
  derived at ingress stand for signatures over the canonical bytes of the CAL.
\<close>

section \<open>Base64\<close>

lemma base64_chars_checked: "list_all (\<lambda>v. base64_value (base64_char v) = Some v \<and> base64_char v \<noteq> 0x3d) (map int [0..<64])"
  by code_simp

lemma base64_char: "0 \<le> v \<Longrightarrow> v < 64 \<Longrightarrow> base64_value (base64_char v) = Some v \<and> base64_char v \<noteq> 0x3d"
proof -
  assume "0 \<le> v" "v < 64"
  then have "int (nat v) = v" "nat v \<in> set [0..<64]" by simp_all
  then have "v \<in> set (map int [0..<64])" by (metis image_eqI set_map)
  with base64_chars_checked show ?thesis unfolding list_all_iff by blast
qed

lemma sextets_char [simp]: "0 \<le> v \<Longrightarrow> v < 64 \<Longrightarrow> sextets (base64_char v # r) = v # sextets r"
  using base64_char [of v] by simp

lemma byte_bounds: "0 \<le> uint b" "uint b < 256" for b :: "8 word"
  using uint_lt2p [of b] by simp_all

lemma packed: "0 \<le> y \<Longrightarrow> y < k \<Longrightarrow> (x * k + y) div k = x \<and> (x * k + y) mod k = y" for x y k :: int
  by (cases "k = 0") simp_all

lemma sextet_ranges:
  fixes a b c :: int
  assumes "0 \<le> a" "a < 256" "0 \<le> b" "b < 256" "0 \<le> c" "c < 256"
  shows "0 \<le> a div 4" "0 \<le> a mod 4 * 16 + b div 16" "0 \<le> b mod 16 * 4 + c div 64" "a div 4 < 64" "a mod 4 * 16 + b div 16 < 64" "b mod 16 * 4 + c div 64 < 64"
    "a div 4 * 4 + (a mod 4 * 16 + b div 16) div 16 = a"
    "(a mod 4 * 16 + b div 16) mod 16 * 16 + (b mod 16 * 4 + c div 64) div 4 = b"
    "(b mod 16 * 4 + c div 64) mod 4 * 64 + c mod 64 = c"
proof -
  have d: "a div 4 < 64" "0 \<le> b div 16" "b div 16 < 16" "0 \<le> c div 64" "c div 64 < 4" using assms by presburger+
  note p = packed [OF d(2,3), of "a mod 4"] packed [OF d(4,5), of "b mod 16"]
  show "0 \<le> a div 4" using assms(1) by presburger
  show "0 \<le> a mod 4 * 16 + b div 16" "0 \<le> b mod 16 * 4 + c div 64" using d by simp_all
  show "a div 4 < 64" by (rule d(1))
  show "a mod 4 * 16 + b div 16 < 64" using d(3) pos_mod_bound [of 4 a] by linarith
  show "b mod 16 * 4 + c div 64 < 64" using d(5) pos_mod_bound [of 16 b] by linarith
  show "a div 4 * 4 + (a mod 4 * 16 + b div 16) div 16 = a" using p(1) by simp
  show "(a mod 4 * 16 + b div 16) mod 16 * 16 + (b mod 16 * 4 + c div 64) div 4 = b" using p by simp
  show "(b mod 16 * 4 + c div 64) mod 4 * 64 + c mod 64 = c" using p(2) by simp
qed

lemma base64_round_trip: "fromBase64 (toBase64 bs) = bs"
proof -
  have "sextet_bytes (sextets (toBase64 bs)) = bs"
  proof (induction bs rule: toBase64.induct)
    case (1 a b c r)
    note s = sextet_ranges [OF byte_bounds [of a] byte_bounds [of b] byte_bounds [of c]]
    have "0 \<le> uint c mod 64" "uint c mod 64 < 64" by simp_all
    with s 1 show ?case by (simp only: toBase64.simps sextets_char sextet_bytes.simps word_of_int_uint)
  next
      case (2 a b)
    note s = sextet_ranges [OF byte_bounds [of a] byte_bounds [of b], of 0]
    have e: "toBase64 [a, b] = [base64_char (uint a div 4), base64_char (uint a mod 4 * 16 + uint b div 16),
        base64_char (uint b mod 16 * 4 + 0 div 64), 0x3d]" "sextets [0x3d] = []" by simp_all
    have "(0 :: int) \<le> 0" "(0 :: int) < 256" by simp_all
    with s show ?case by (simp only: e sextets_char sextet_bytes.simps word_of_int_uint)
  next
    case (3 a)
    note s = sextet_ranges [OF byte_bounds [of a], of 0 0]
    have e: "toBase64 [a] = [base64_char (uint a div 4), base64_char (uint a mod 4 * 16 + 0 div 16), 0x3d, 0x3d]"
      "sextets [0x3d, 0x3d] = []" by simp_all
    have "(0 :: int) \<le> 0" "(0 :: int) < 256" by simp_all
    with s show ?case by (simp only: e sextets_char sextet_bytes.simps word_of_int_uint)
  qed simp
  then show ?thesis by (simp add: fromBase64_def)
qed

lemma hexToB64_bytes: "fromBase64 (hexToB64 h) = buffer_hex (strip0x h)"
  by (simp add: hexToB64_def base64_round_trip)

section \<open>Fields of the messages\<close>

lemma append_same_length: "length a = length b \<Longrightarrow> a @ c = b @ d \<longleftrightarrow> a = b \<and> c = d"
  by auto

lemma writeInt32BE_length: "writeInt32BE w = Inr b \<Longrightarrow> length b = 4"
  by (cases w) (auto simp: Let_def split: if_splits)

lemma writeBigUInt64BE_Inr: "writeBigUInt64BE v = Inr b \<Longrightarrow> length b = 8 \<and> decodeUnsignedBe b = v"
  using decode_encode [of v 8] length_encodeUnsignedBe [of v 8]
  by (auto simp: writeBigUInt64BE_def MAX_UINT64_def simp del: length_encodeUnsignedBe split: if_splits)

lemma writeUInt32BE_length [simp]: "length (writeUInt32BE n) = 4"
  by (simp add: writeUInt32BE_def)

lemma writeUInt32BE_inj: "int m < 2 ^ 32 \<Longrightarrow> int n < 2 ^ 32 \<Longrightarrow> writeUInt32BE m = writeUInt32BE n \<Longrightarrow> m = n"
proof -
  assume mn: "int m < 2 ^ 32" "int n < 2 ^ 32" and e: "writeUInt32BE m = writeUInt32BE n"
  have "decodeUnsignedBe (writeUInt32BE k) = int k" if "int k < 2 ^ 32" for k
  proof -
    have "int k mod 2 ^ 32 = int k" using that by (intro mod_pos_pos_trivial) simp_all
    moreover have "(256 :: int) ^ 4 = 2 ^ 32" by simp
    ultimately show ?thesis using decode_encode [of "int k" 4] that by (simp only: writeUInt32BE_def of_nat_0_le_iff)
  qed
  from this [OF mn(1)] this [OF mn(2)] e have "int m = int n" by (simp only:)
  then show ?thesis by simp
qed

definition fields_short :: "sign_data_input \<Rightarrow> bool" where
  "fields_short i \<longleftrightarrow> int (length (utf8_encode (sd_domain i))) < 2 ^ 32 \<and> int (length (payload_bytes (sd_payload i))) < 2 ^ 32"

lemma tag_bytes: "utf8_encode (js ''txt'') = [0x74, 0x78, 0x74]" "utf8_encode (js ''bin'') = [0x62, 0x69, 0x6e]"
  by (simp_all add: utf8_js ascii_bytes_def)

lemma payload_tag_bytes: "utf8_encode (payload_tag p) = (case p of Text t \<Rightarrow> [0x74, 0x78, 0x74] | Binary b \<Rightarrow> [0x62, 0x69, 0x6e])"
  by (cases p) (simp_all only: payload_tag.simps tag_bytes payload.case)

section \<open>What the messages bind\<close>

lemma sign_data_message_Inr:
  assumes "sign_data_message i = Inr m"
  obtains wc t ts where "writeInt32BE (sd_workchain i) = Inr wc" "BigInt_of (sd_timestamp i) = Inr t" "writeBigUInt64BE t = Inr ts"
    "m = [0xff, 0xff] @ utf8_encode (js ''ton-connect/sign-data/'') @ wc @ buffer_hex (sd_addressHash i) @
         writeUInt32BE (length (utf8_encode (sd_domain i))) @ utf8_encode (sd_domain i) @ ts @
         utf8_encode (payload_tag (sd_payload i)) @ writeUInt32BE (length (payload_bytes (sd_payload i))) @ payload_bytes (sd_payload i)"
  using assms by (auto simp: sign_data_message_def Let_def)

text \<open>What a signed message of contract A says.\<close>

definition same_request :: "sign_data_input \<Rightarrow> sign_data_input \<Rightarrow> bool" where
  "same_request i j \<longleftrightarrow>
     writeInt32BE (sd_workchain i) = writeInt32BE (sd_workchain j) \<and>
     buffer_hex (sd_addressHash i) = buffer_hex (sd_addressHash j) \<and>
     utf8_encode (sd_domain i) = utf8_encode (sd_domain j) \<and>
     BigInt_of (sd_timestamp i) = BigInt_of (sd_timestamp j) \<and>
     payload_tag (sd_payload i) = payload_tag (sd_payload j) \<and>
     payload_bytes (sd_payload i) = payload_bytes (sd_payload j)"

lemma message_binds:
  assumes "sign_data_message i = Inr m" "sign_data_message j = Inr m" "fields_short i" "fields_short j"
    "length (buffer_hex (sd_addressHash i)) = length (buffer_hex (sd_addressHash j))"
  shows "same_request i j"
proof -
  obtain wc t ts where i: "writeInt32BE (sd_workchain i) = Inr wc" "BigInt_of (sd_timestamp i) = Inr t" "writeBigUInt64BE t = Inr ts"
    "m = [0xff, 0xff] @ utf8_encode (js ''ton-connect/sign-data/'') @ wc @ buffer_hex (sd_addressHash i) @
         writeUInt32BE (length (utf8_encode (sd_domain i))) @ utf8_encode (sd_domain i) @ ts @
         utf8_encode (payload_tag (sd_payload i)) @ writeUInt32BE (length (payload_bytes (sd_payload i))) @ payload_bytes (sd_payload i)"
    using assms(1) by (rule sign_data_message_Inr)
  obtain wc' t' ts' where j: "writeInt32BE (sd_workchain j) = Inr wc'" "BigInt_of (sd_timestamp j) = Inr t'" "writeBigUInt64BE t' = Inr ts'"
    "m = [0xff, 0xff] @ utf8_encode (js ''ton-connect/sign-data/'') @ wc' @ buffer_hex (sd_addressHash j) @
         writeUInt32BE (length (utf8_encode (sd_domain j))) @ utf8_encode (sd_domain j) @ ts' @
         utf8_encode (payload_tag (sd_payload j)) @ writeUInt32BE (length (payload_bytes (sd_payload j))) @ payload_bytes (sd_payload j)"
    using assms(2) by (rule sign_data_message_Inr)
  have len: "length wc = length wc'" "length ts = length ts'"
    using writeInt32BE_length i(1) j(1) writeBigUInt64BE_Inr i(3) j(3) by (metis, metis)
  from i(4) j(4) len(1) assms(5) have e: "wc = wc'" "buffer_hex (sd_addressHash i) = buffer_hex (sd_addressHash j)"
    "writeUInt32BE (length (utf8_encode (sd_domain i))) = writeUInt32BE (length (utf8_encode (sd_domain j)))"
    and r: "utf8_encode (sd_domain i) @ ts @ utf8_encode (payload_tag (sd_payload i)) @
        writeUInt32BE (length (payload_bytes (sd_payload i))) @ payload_bytes (sd_payload i) =
      utf8_encode (sd_domain j) @ ts' @ utf8_encode (payload_tag (sd_payload j)) @
        writeUInt32BE (length (payload_bytes (sd_payload j))) @ payload_bytes (sd_payload j)"
    by (simp_all add: append_same_length)
  have "length (utf8_encode (sd_domain i)) = length (utf8_encode (sd_domain j))"
    using writeUInt32BE_inj e(3) assms(3,4) unfolding fields_short_def by blast
  moreover have "length (utf8_encode (payload_tag (sd_payload i))) = length (utf8_encode (payload_tag (sd_payload j)))"
    by (simp add: payload_tag_bytes split: payload.split)
  ultimately have f: "utf8_encode (sd_domain i) = utf8_encode (sd_domain j)" "ts = ts'"
    "utf8_encode (payload_tag (sd_payload i)) = utf8_encode (payload_tag (sd_payload j))"
    "payload_bytes (sd_payload i) = payload_bytes (sd_payload j)"
    using r len(2) by (simp_all add: append_same_length)
  have "payload_tag (sd_payload i) = payload_tag (sd_payload j)"
    using f(3) by (simp add: payload_tag_bytes split: payload.splits)
  moreover have "t = t'" using writeBigUInt64BE_Inr [OF i(3)] writeBigUInt64BE_Inr [OF j(3)] f(2) by simp
  ultimately show ?thesis using e f i(1,2) j(1,2) unfolding same_request_def by simp
qed

text \<open>Two inputs of the hash with one digest.\<close>

definition collision :: "host \<Rightarrow> bytes res \<Rightarrow> bytes res \<Rightarrow> bool" where
  "collision H a b \<longleftrightarrow> (\<exists>m n. a = Inr m \<and> b = Inr n \<and> m \<noteq> n \<and> sha256 H m = sha256 H n)"

lemma sign_data_length: "sign_data_message i = Inr m \<Longrightarrow> length m \<ge> 47"
proof (erule sign_data_message_Inr)
  fix wc t ts
  have "length (utf8_encode (js ''ton-connect/sign-data/'')) = 22" by (simp add: utf8_js ascii_bytes_def)
  moreover have "length (utf8_encode (payload_tag p)) = 3" for p by (simp add: payload_tag_bytes split: payload.split)
  moreover assume "writeInt32BE (sd_workchain i) = Inr wc" "writeBigUInt64BE t = Inr ts"
  then have "length wc = 4" "length ts = 8" by (simp_all add: writeInt32BE_length writeBigUInt64BE_Inr)
  moreover assume "m = [0xff, 0xff] @ utf8_encode (js ''ton-connect/sign-data/'') @ wc @ buffer_hex (sd_addressHash i) @
         writeUInt32BE (length (utf8_encode (sd_domain i))) @ utf8_encode (sd_domain i) @ ts @
         utf8_encode (payload_tag (sd_payload i)) @ writeUInt32BE (length (payload_bytes (sd_payload i))) @ payload_bytes (sd_payload i)"
  ultimately show ?thesis by simp
qed

lemma ton_proof_length: "host_ok H \<Longrightarrow> ton_proof_message H i = Inr m \<Longrightarrow> length m = 45"
proof -
  assume h: "host_ok H" and m: "ton_proof_message H i = Inr m"
  have "length (utf8_encode (js ''ton-connect'')) = 11" by (simp add: utf8_js ascii_bytes_def)
  moreover from m obtain inner where "m = [0xff, 0xff] @ utf8_encode (js ''ton-connect'') @ sha256 H inner"
    by (auto simp: ton_proof_message_def Let_def)
  ultimately show ?thesis using h by (simp add: host_ok_def sha256_def)
qed

text \<open>
  C12: What a wallet signs. A digest of contract A (\<open>signData\<close>) of a request with a 32-byte address determines workchain, address,
  domain, time, kind and bytes of the payload, and no digest of contract B (\<open>ton_proof\<close>) equals it, unless SHA-256 collides on the two
  messages.
\<close>

theorem wallet_digest_binds:
  assumes "host_ok H" "signDataDigest H i = Inr d" "fields_short i" "length (buffer_hex (sd_addressHash i)) = 32"
  shows "(\<forall>j. signDataDigest H j = Inr d \<longrightarrow> fields_short j \<longrightarrow> length (buffer_hex (sd_addressHash j)) = 32 \<longrightarrow>
            same_request i j \<or> collision H (sign_data_message i) (sign_data_message j)) \<and>
         (\<forall>j. tonProofDigest H j = Inr d \<longrightarrow> collision H (sign_data_message i) (ton_proof_message H j))"
proof (intro conjI allI impI)
  obtain m where m: "sign_data_message i = Inr m" "d = sha256 H m" using assms(2) by (auto simp: signDataDigest_def)
  fix j assume j: "signDataDigest H j = Inr d" "fields_short j" "length (buffer_hex (sd_addressHash j)) = 32"
  then obtain n where n: "sign_data_message j = Inr n" "d = sha256 H n" by (auto simp: signDataDigest_def)
  show "same_request i j \<or> collision H (sign_data_message i) (sign_data_message j)"
  proof (cases "m = n")
    case True
    with m(1) n(1) message_binds [of i m j] assms(3,4) j(2,3) show ?thesis by simp
  next
    case False
    with m n show ?thesis unfolding collision_def by auto
  qed
next
  obtain m where m: "sign_data_message i = Inr m" "d = sha256 H m" using assms(2) by (auto simp: signDataDigest_def)
  fix j assume "tonProofDigest H j = Inr d"
  then obtain n where n: "ton_proof_message H j = Inr n" "d = sha256 H n" by (auto simp: tonProofDigest_def)
  have "m \<noteq> n" using sign_data_length [OF m(1)] ton_proof_length [OF assms(1) n(1)] by auto
  with m n show "collision H (sign_data_message i) (ton_proof_message H j)" unfolding collision_def by auto
qed

definition sample_request :: "int \<Rightarrow> sign_data_input" where
  "sample_request t =
     \<lparr>sd_workchain = Rational 0 1, sd_addressHash = concat (map byte_hex (replicate 32 7)), sd_domain = js ''app.example'',
      sd_timestamp = Some (JInt t), sd_payload = Binary (toBase64 [1, 2, 3, 4])\<rparr>"

lemma sample_request_reads:
  "fields_short (sample_request 5)" "length (buffer_hex (sd_addressHash (sample_request 5))) = 32"
  "map_sum (\<lambda>e. e) length (sign_data_message (sample_request 5)) = Inr 94"
  by code_simp+

theorem wallet_digest_binds_witness:
  "\<exists>d. signDataDigest plain_host (sample_request 5) = Inr d \<and>
     (\<forall>j. tonProofDigest plain_host j = Inr d \<longrightarrow>
        collision plain_host (sign_data_message (sample_request 5)) (ton_proof_message plain_host j))"
proof -
  obtain d where "signDataDigest plain_host (sample_request 5) = Inr d"
    using sample_request_reads(3) by (cases "sign_data_message (sample_request 5)") (auto simp: signDataDigest_def)
  with wallet_digest_binds [OF plain_host_ok this sample_request_reads(1,2)] show ?thesis by blast
qed

text \<open>Without the length of the address two requests share a message: the code does not check it.\<close>

definition shifted_request :: "sign_data_input \<times> sign_data_input" where
  "shifted_request =
     (\<lparr>sd_workchain = Rational 0 1, sd_addressHash = [], sd_domain = replicate 11 0 @ [5] @ js ''bin'' @ [0, 0, 0, 15],
       sd_timestamp = Some (JInt 7), sd_payload = Binary []\<rparr>,
      \<lparr>sd_workchain = Rational 0 1, sd_addressHash = js ''00000013'', sd_domain = [], sd_timestamp = Some (JInt 5),
       sd_payload = Binary (toBase64 [0, 0, 0, 0, 0, 0, 0, 7, 0x62, 0x69, 0x6e, 0, 0, 0, 0])\<rparr>)"

lemma short_address_ambiguous:
  "sign_data_message (fst shifted_request) = sign_data_message (snd shifted_request) \<and>
   map_sum (\<lambda>e. ()) (\<lambda>m. ()) (sign_data_message (fst shifted_request)) = Inr () \<and>
   payload_bytes (sd_payload (fst shifted_request)) \<noteq> payload_bytes (sd_payload (snd shifted_request))"
  by code_simp

section \<open>Owners that signed\<close>

lemma find_owner_Inr:
  "find_owner V H env owners = Inr s \<Longrightarrow> s \<noteq> [] \<Longrightarrow> s \<in> set owners \<and> ownerSigPresent V H env s = Inr True"
  by (induction owners) (auto split: if_splits)

text \<open>
  C13: The quorum of the validator stands for signatures. If the signers that \<open>computeOwnerSigners\<close> derives from the presented
  envelopes satisfy \<open>multisigQuorum\<close>, then at least threshold many distinct owners each have a presented envelope whose contract A
  digest verifies under their key.
\<close>

theorem quorum_means_signatures:
  assumes "computeOwnerSigners V H envelopes owners = Inr signers" "multisigQuorum owners threshold signers = None"
  shows "\<exists>S \<subseteq> set owners. threshold \<le> int (card S) \<and>
    (\<forall>pk \<in> S. \<exists>env \<in> set envelopes. \<exists>d. signDataDigest H (envelope_input env) = Inr d \<and>
       ed25519Verify V d (os_signatureB64 env) pk = Inr True)"
proof -
  have q: "set signers \<subseteq> set owners - {[]}" "threshold \<le> int (card (set signers))"
    using quorum_iff [of owners threshold signers] assms(2) by auto
  have "\<exists>env \<in> set envelopes. \<exists>d. signDataDigest H (envelope_input env) = Inr d \<and> ed25519Verify V d (os_signatureB64 env) pk = Inr True"
    if pk: "pk \<in> set signers" for pk
  proof -
    from assms(1) have "list_all2 (\<lambda>env s. find_owner V H env owners = Inr s) envelopes signers"
      by (simp add: computeOwnerSigners_def map_res_Inr)
    moreover obtain n where "n < length signers" "pk = signers ! n" using pk by (auto simp: in_set_conv_nth)
    ultimately have "n < length envelopes" "find_owner V H (envelopes ! n) owners = Inr pk"
      by (auto dest: list_all2_lengthD list_all2_nthD2)
    then obtain env where env: "env \<in> set envelopes" "find_owner V H env owners = Inr pk" using nth_mem by blast
    have "pk \<noteq> []" using pk q(1) by auto
    with find_owner_Inr [OF env(2)] have "ownerSigPresent V H env pk = Inr True" by simp
    then show ?thesis using env(1) \<open>pk \<noteq> []\<close> by (auto simp: ownerSigPresent_def verifySignData_def)
  qed
  with q show ?thesis by (intro exI [of _ "set signers"]) auto
qed

text \<open>A verifier for the witnesses: the signature is the key itself.\<close>

definition toy_verifier :: verifier where
  "toy_verifier key data sig = Inr (drop 12 key = sig)"

definition toy_envelope :: "jstring \<Rightarrow> owner_co_signature" where
  "toy_envelope k =
     \<lparr>os_bytesB64 = [], os_workchain = Rational 0 1, os_addressHash = [], os_domain = [], os_timestamp = Some (JInt 1),
      os_signatureB64 = hexToB64 k\<rparr>"

lemma toy_signers:
  "computeOwnerSigners toy_verifier plain_host [toy_envelope (js ''01''), toy_envelope (js ''03'')] [js ''01'', js ''02'', js ''03''] =
     Inr [js ''01'', js ''03'']"
  "multisigQuorum [js ''01'', js ''02'', js ''03''] 2 [js ''01'', js ''03''] = None"
  by code_simp+

theorem quorum_means_signatures_witness:
  "\<exists>S \<subseteq> {js ''01'', js ''02'', js ''03''}. 2 \<le> int (card S)"
proof -
  from quorum_means_signatures [OF toy_signers] show ?thesis by auto
qed

section \<open>Ingress\<close>

text \<open>
  C11: The flags that \<open>verifyIngress\<close> derives. The operator flag is set only for an Ed25519 signature under the registered key over the
  canonical bytes of the CAL without its signatures; the owner flag only for one over a contract A digest whose payload is exactly these
  bytes, taken from an object \<open>owner\_sig\<close>: a string, \<open>null\<close> or a missing member never sets it.
\<close>

theorem ingress_flags_sound:
  assumes "verifyIngress V H cal agent = Inr verdict"
  shows "\<exists>cb. canonicalUnsignedBytes H cal = Inr cb \<and>
    (iv_operator verdict \<longrightarrow>
       (\<exists>s. own_member (signatures_of cal) ''operator_sig'' = Some (JStr s) \<and>
          V (ed25519PublicKey (key_text (ak_operator agent))) cb (buffer_hex (strip0x s)) = Inr True)) \<and>
    (iv_owner verdict \<longrightarrow>
       is_object (own_member (signatures_of cal) ''owner_sig'') \<and>
       (\<exists>i d sig. payload_tag (sd_payload i) = js ''bin'' \<and> payload_bytes (sd_payload i) = cb \<and> signDataDigest H i = Inr d \<and>
          V (ed25519PublicKey (key_text (ak_owner agent))) d sig = Inr True))"
proof -
  let ?sigs = "signatures_of cal"
  let ?opPub = "key_text (ak_operator agent)" and ?ownerPub = "key_text (ak_owner agent)"
  from assms obtain cb operator owner where cb: "canonicalUnsignedBytes H cal = Inr cb"
    and op: "(case own_member ?sigs ''operator_sig'' of
        Some (JStr s) \<Rightarrow> if ?opPub \<noteq> [] then operatorSigPresent V cb (hexToB64 s) ?opPub else Inr False | _ \<Rightarrow> Inr False) = Inr operator"
    and ow: "(if ?ownerPub \<noteq> [] \<and> is_object (own_member ?sigs ''owner_sig'') then
        and_then (owner_envelope cb (the (own_member ?sigs ''owner_sig''))) (\<lambda>env. ownerSigPresent V H env ?ownerPub) else Inr False) = Inr owner"
    and v: "verdict = \<lparr>iv_operator = operator, iv_owner = owner\<rparr>"
    unfolding verifyIngress_def Let_def and_then_Inr by blast
  have "\<exists>s. own_member ?sigs ''operator_sig'' = Some (JStr s) \<and> V (ed25519PublicKey ?opPub) cb (buffer_hex (strip0x s)) = Inr True"
    if "operator"
    using op that by (auto simp: operatorSigPresent_def hexToB64_bytes split: option.splits json.splits if_splits)
  moreover have "is_object (own_member ?sigs ''owner_sig'') \<and>
      (\<exists>i d sig. payload_tag (sd_payload i) = js ''bin'' \<and> payload_bytes (sd_payload i) = cb \<and> signDataDigest H i = Inr d \<and>
         V (ed25519PublicKey ?ownerPub) d sig = Inr True)" if "owner"
  proof -
    from ow that obtain env where o: "is_object (own_member ?sigs ''owner_sig'')"
      and e: "owner_envelope cb (the (own_member ?sigs ''owner_sig'')) = Inr env" "ownerSigPresent V H env ?ownerPub = Inr True"
      by (auto split: if_splits)
    have "os_bytesB64 env = toBase64 cb" using e(1) by (auto simp: owner_envelope_def)
    then have "payload_tag (sd_payload (envelope_input env)) = js ''bin''" "payload_bytes (sd_payload (envelope_input env)) = cb"
      by (simp_all add: envelope_input_def base64_round_trip)
    moreover from e(2) obtain d where "signDataDigest H (envelope_input env) = Inr d"
      "V (ed25519PublicKey ?ownerPub) d (fromBase64 (os_signatureB64 env)) = Inr True"
      by (auto simp: ownerSigPresent_def verifySignData_def ed25519Verify_def split: if_splits)
    ultimately show ?thesis using o by blast
  qed
  ultimately show ?thesis using cb v by auto
qed

text \<open>A CAL whose two signatures are accepted.\<close>

definition signed_cal :: json where
  "signed_cal = JObj [(js ''nonce'', JInt 0), (js ''signatures'', JObj
     [(js ''operator_sig'', JStr (js ''0x0a'')),
      (js ''owner_sig'', JObj [(js ''workchain'', JInt 0), (js ''address_hash'', JStr (js ''00'')), (js ''domain'', JStr (js ''d'')),
         (js ''timestamp'', JInt 1), (js ''signature'', JStr (js ''0x0b''))])])]"

definition sample_keys :: agent_keys where
  "sample_keys = \<lparr>ak_operator = Some (js ''0x0a''), ak_owner = Some (js ''0b'')\<rparr>"

lemma signed_cal_bytes: "\<exists>b. canonicalUnsignedBytes plain_host signed_cal = Inr b"
proof -
  have "canonicalUnsignedBytes plain_host signed_cal = canonicalUnsignedBytes plain_host (JObj (unsigned_sample 0))"
    by (simp add: signed_cal_def unsigned_sample_def unsigned_bytes unsigned_def)
  then show ?thesis using unsigned_sample_bytes [of 0] by simp
qed

definition signed_owner :: json where
  "signed_owner = JObj [(js ''workchain'', JInt 0), (js ''address_hash'', JStr (js ''00'')), (js ''domain'', JStr (js ''d'')),
         (js ''timestamp'', JInt 1), (js ''signature'', JStr (js ''0x0b''))]"

lemma signed_cal_members:
  "own_member (signatures_of signed_cal) ''operator_sig'' = Some (JStr (js ''0x0a''))"
  "own_member (signatures_of signed_cal) ''owner_sig'' = Some signed_owner" "is_object (Some signed_owner)"
  by (simp_all add: own_member_def signatures_of_def signed_cal_def signed_owner_def is_object_def)

lemma sample_keys_texts:
  "key_text (ak_operator sample_keys) = js ''0a''" "key_text (ak_owner sample_keys) = js ''0b''"
  "toy_verifier (ed25519PublicKey (js ''0a'')) data (fromBase64 (hexToB64 (js ''0x0a''))) = Inr True"
  "toy_verifier (ed25519PublicKey (js ''0b'')) data (fromBase64 (hexToB64 (js ''0x0b''))) = Inr True"
proof -
  have "drop 12 (ed25519PublicKey (js ''0a'')) = fromBase64 (hexToB64 (js ''0x0a''))"
    "drop 12 (ed25519PublicKey (js ''0b'')) = fromBase64 (hexToB64 (js ''0x0b''))" by code_simp+
  then show "toy_verifier (ed25519PublicKey (js ''0a'')) data (fromBase64 (hexToB64 (js ''0x0a''))) = Inr True"
    "toy_verifier (ed25519PublicKey (js ''0b'')) data (fromBase64 (hexToB64 (js ''0x0b''))) = Inr True"
    by (simp_all add: toy_verifier_def)
  show "key_text (ak_operator sample_keys) = js ''0a''" "key_text (ak_owner sample_keys) = js ''0b''" by code_simp+
qed

lemma signed_envelope:
  "\<exists>env. owner_envelope cb signed_owner = Inr env \<and> ownerSigPresent toy_verifier plain_host env (js ''0b'') = Inr True"
proof -
  have w: "writeInt32BE (Rational 0 1) = Inr [0, 0, 0, 0]" by code_simp
  have "js_Number (JInt 0) = Inr (Rational 0 1)" by (simp add: rounded_def nearest_double_def signed_num_def)
  note n = this w w [unfolded One_nat_def]
  have "\<exists>ts. writeBigUInt64BE 1 = Inr ts" by (simp add: writeBigUInt64BE_def MAX_UINT64_def)
  then obtain ts where ts: "writeBigUInt64BE 1 = Inr ts" by blast
  have "owner_envelope cb signed_owner = Inr \<lparr>os_bytesB64 = toBase64 cb, os_workchain = Rational 0 1, os_addressHash = strip0x (js ''00''),
      os_domain = js ''d'', os_timestamp = Some (JInt 1), os_signatureB64 = hexToB64 (js ''0x0b'')\<rparr>"
    by (simp add: owner_envelope_def signed_owner_def own_member_def Number_of_def String_of_def n del: js_Number.simps)
  moreover have "js ''0b'' \<noteq> []" by simp
  ultimately show ?thesis
    by (simp add: ownerSigPresent_def verifySignData_def ed25519Verify_def signDataDigest_def sign_data_message_def envelope_input_def
      BigInt_of_def Let_def n ts sample_keys_texts(4) del: writeInt32BE.simps)
qed

lemma signed_cal_accepted: "verifyIngress toy_verifier plain_host signed_cal sample_keys = Inr \<lparr>iv_operator = True, iv_owner = True\<rparr>"
proof -
  obtain cb where cb: "canonicalUnsignedBytes plain_host signed_cal = Inr cb" using signed_cal_bytes by blast
  obtain env where e: "owner_envelope cb signed_owner = Inr env" "ownerSigPresent toy_verifier plain_host env (js ''0b'') = Inr True"
    using signed_envelope by blast
  show ?thesis
    by (simp add: verifyIngress_def cb e Let_def signed_cal_members sample_keys_texts operatorSigPresent_def)
qed

theorem ingress_flags_sound_witness:
  "\<exists>cb i d sig. canonicalUnsignedBytes plain_host signed_cal = Inr cb \<and> payload_bytes (sd_payload i) = cb \<and>
     signDataDigest plain_host i = Inr d \<and> toy_verifier (ed25519PublicKey (js ''0b'')) d sig = Inr True"
proof -
  have "key_text (ak_owner sample_keys) = js ''0b''" by code_simp
  with ingress_flags_sound [OF signed_cal_accepted] show ?thesis by auto
qed

text \<open>An envelope without a time makes \<open>verifyIngress\<close> throw; one without a workchain is taken for workchain 0.\<close>

lemma envelope_without_time_throws:
  "pk \<noteq> [] \<Longrightarrow> os_timestamp env = None \<Longrightarrow> writeInt32BE (os_workchain env) = Inr wc \<Longrightarrow> ownerSigPresent V H env pk = Inl TypeError"
  by (simp add: ownerSigPresent_def verifySignData_def signDataDigest_def sign_data_message_def envelope_input_def BigInt_of_def Let_def)

lemma missing_workchain_is_zero:
  "Number_of None = Inr NaN"
  "sign_data_message (i\<lparr>sd_workchain := NaN\<rparr>) = sign_data_message (i\<lparr>sd_workchain := Rational 0 1\<rparr>)"
proof -
  have "writeInt32BE (Rational 0 1) = Inr [0, 0, 0, 0]" by code_simp
  then show "sign_data_message (i\<lparr>sd_workchain := NaN\<rparr>) = sign_data_message (i\<lparr>sd_workchain := Rational 0 1\<rparr>)"
    by (simp add: sign_data_message_def del: writeInt32BE.simps(3))
qed (simp add: Number_of_def)

end
