(* ===== verification/W5_Codec.thy ===== *)
theory W5_Codec
  imports Prelude
begin

text \<open>
  \<^verbatim>\<open>orchestrator/src/w5/canonical-to-inner.ts\<close>: the steps of a CAL as the output actions of a wallet of version 5; and
  \<^verbatim>\<open>m2-registry/src/reconcile.ts\<close>, which compares what was authorised with what was observed on the chain. The sentences of the
  errors are left out, as is the constant \<open>type\<close> of an action.
\<close>

datatype w5_error = W5CodecError string

type_synonym 'a w5 = "w5_error + 'a"

section \<open>Actions\<close>

definition SEND_MODE_EXACT :: int where "SEND_MODE_EXACT = 1"

definition CARRY_REMAINING :: int where "CARRY_REMAINING = 64"

definition CARRY_ALL :: int where "CARRY_ALL = 128"

definition JETTON_TRANSFER_OP :: int where "JETTON_TRANSFER_OP = 0x0f8a7ea5"

definition JETTON_TRANSFER_TON :: int where "JETTON_TRANSFER_TON = 50000000"

definition NFT_TRANSFER_OP :: int where "NFT_TRANSFER_OP = 0x5fcc3d14"

definition NFT_TRANSFER_TON :: int where "NFT_TRANSFER_TON = 50000000"

record out_message =
  om_dest :: jstring
  om_valueNano :: int
  om_body :: json
  om_jettonMaster :: "jstring option"

record send_action =
  sa_mode :: int
  sa_msg :: out_message

record inner_request =
  ir_outActions :: "send_action list"
  ir_extended :: "unit list"

section \<open>Verbs\<close>

datatype verb_class = Send | Config | Offchain | Unknown

definition SEND_VERBS :: "jstring list" where
  "SEND_VERBS = map js
     [''wallet.send_ton'', ''wallet.send_jetton'', ''wallet.send_nft'', ''treasury.transfer'', ''treasury.distribute_rewards'',
      ''treasury.buyback_burn'', ''governance.propose_amendment'', ''governance.vote'', ''governance.vote_as_agent'',
      ''governance.finalize_amendment'', ''oracles.submit_feed'', ''oracles.slash'', ''oracles.force_update'', ''ptra.stake'',
      ''ptra.unstake'', ''ptra.claim_rewards'', ''agent.register'', ''agent.migrate'', ''agent.freeze'', ''agent.unfreeze'',
      ''capability.update'', ''capability.temporal_boost_request'', ''capability.temporal_boost_release'',
      ''failure_mode.emergency_withdraw'']"

definition CONFIG_VERBS :: "jstring list" where
  "CONFIG_VERBS = map js [''failure_mode.enter_bounded'', ''failure_mode.exit_bounded'']"

definition OFFCHAIN_VERBS :: "jstring list" where
  "OFFCHAIN_VERBS = map js [''cal.cancel'']"

definition V0_1_0_ENCODABLE :: "jstring list" where
  "V0_1_0_ENCODABLE = map js [''wallet.send_ton'', ''wallet.send_jetton'', ''wallet.send_nft'']"

text \<open>\<open>verb.split(".")[1] ?? ""\<close>\<close>

definition second_part :: "jstring \<Rightarrow> jstring" where
  "second_part verb = takeWhile (\<lambda>c. c \<noteq> 0x2e) (drop 1 (dropWhile (\<lambda>c. c \<noteq> 0x2e) verb))"

definition classifyVerb :: "jstring \<Rightarrow> verb_class" where
  "classifyVerb verb =
     (if take 4 (second_part verb) = js ''get_'' then Offchain
      else if verb \<in> set OFFCHAIN_VERBS then Offchain
      else if verb \<in> set CONFIG_VERBS then Config
      else if verb \<in> set SEND_VERBS then Send
      else Unknown)"

section \<open>Encoders\<close>

definition asObj :: "json option \<Rightarrow> obj" where
  "asObj v = (case v of Some (JObj ob) \<Rightarrow> ob | _ \<Rightarrow> [])"

definition malformed :: "'a w5" where
  "malformed = Inl (W5CodecError ''W5_MALFORMED_PARAMS'')"

definition string_param :: "string \<Rightarrow> obj \<Rightarrow> jstring w5" where
  "string_param k p = (case map_of p (js k) of Some (JStr s) \<Rightarrow> if s = [] then malformed else Inr s | _ \<Rightarrow> malformed)"

definition int_param :: "string \<Rightarrow> obj \<Rightarrow> int w5" where
  "int_param k p = (case map_of p (js k) of Some (JInt v) \<Rightarrow> Inr v | _ \<Rightarrow> malformed)"

text \<open>\<open>p[k] ?? null\<close>, and the defaults.\<close>

definition or_null :: "string \<Rightarrow> obj \<Rightarrow> json" where
  "or_null k p = (case map_of p (js k) of Some v \<Rightarrow> v | None \<Rightarrow> JNull)"

definition string_or :: "jstring \<Rightarrow> string \<Rightarrow> obj \<Rightarrow> jstring" where
  "string_or fallback k p = (case map_of p (js k) of Some (JStr s) \<Rightarrow> if s = [] then fallback else s | _ \<Rightarrow> fallback)"

definition int_or_zero :: "string \<Rightarrow> obj \<Rightarrow> int" where
  "int_or_zero k p = (case map_of p (js k) of Some (JInt v) \<Rightarrow> v | _ \<Rightarrow> 0)"

definition U64_MAX :: int where "U64_MAX = push_bit 64 1 - 1"

definition encodeSendTon :: "json option \<Rightarrow> send_action w5" where
  "encodeSendTon params =
     (let p = asObj params in
      and_then (string_param ''to'' p) (\<lambda>dest.
      and_then (int_param ''amount_nano'' p) (\<lambda>amount.
        if amount < 0 then malformed
        else Inr \<lparr>sa_mode = SEND_MODE_EXACT,
                  sa_msg = \<lparr>om_dest = dest, om_valueNano = amount, om_body = or_null ''body'' p, om_jettonMaster = None\<rparr>\<rparr>)))"

definition encodeSendJetton :: "json option \<Rightarrow> jstring \<Rightarrow> send_action w5" where
  "encodeSendJetton params agent =
     (let p = asObj params in
      and_then (string_param ''jetton_master'' p) (\<lambda>jettonMaster.
      and_then (string_param ''recipient'' p) (\<lambda>recipient.
      and_then (int_param ''amount'' p) (\<lambda>amount.
      if amount \<le> 0 then malformed else
      and_then (int_param ''query_id'' p) (\<lambda>queryId.
      if queryId < 0 \<or> queryId > U64_MAX then malformed else
        let responseDestination = string_or agent ''response_destination'' p;
            forwardTonAmount = int_or_zero ''forward_ton_amount'' p
        in if forwardTonAmount < 0 then malformed
           else
             let forwardPayload = or_null ''forward_payload'' p; valueNano = forwardTonAmount + JETTON_TRANSFER_TON
             in if forwardTonAmount \<ge> valueNano then malformed
                else
                  let body = JObj
                    [(js ''kind'', JStr (js ''jetton_transfer'')), (js ''op'', JInt JETTON_TRANSFER_OP), (js ''query_id'', JInt queryId),
                     (js ''amount'', JInt amount), (js ''destination'', JStr recipient),
                     (js ''response_destination'', JStr responseDestination), (js ''custom_payload'', JNull),
                     (js ''forward_ton_amount'', JInt forwardTonAmount), (js ''forward_payload'', forwardPayload)]
                  in Inr \<lparr>sa_mode = SEND_MODE_EXACT,
                          sa_msg = \<lparr>om_dest = [], om_valueNano = valueNano, om_body = body, om_jettonMaster = Some jettonMaster\<rparr>\<rparr>)))))"

definition encodeSendNft :: "json option \<Rightarrow> jstring \<Rightarrow> send_action w5" where
  "encodeSendNft params agent =
     (let p = asObj params in
      and_then (string_param ''nft_item'' p) (\<lambda>nftItem.
      and_then (string_param ''new_owner'' p) (\<lambda>newOwner.
      and_then (int_param ''query_id'' p) (\<lambda>queryId.
      if queryId < 0 \<or> queryId > U64_MAX then malformed else
        let responseDestination = string_or agent ''response_destination'' p;
            forwardAmount = int_or_zero ''forward_amount'' p
        in if forwardAmount < 0 then malformed
           else
             let forwardPayload = or_null ''forward_payload'' p; valueNano = forwardAmount + NFT_TRANSFER_TON
             in if forwardAmount \<ge> valueNano then malformed
                else
                  let body = JObj
                    [(js ''kind'', JStr (js ''nft_transfer'')), (js ''op'', JInt NFT_TRANSFER_OP), (js ''query_id'', JInt queryId),
                     (js ''new_owner'', JStr newOwner), (js ''response_destination'', JStr responseDestination),
                     (js ''custom_payload'', JNull), (js ''forward_amount'', JInt forwardAmount),
                     (js ''forward_payload'', forwardPayload)]
                  in Inr \<lparr>sa_mode = SEND_MODE_EXACT,
                          sa_msg = \<lparr>om_dest = nftItem, om_valueNano = valueNano, om_body = body, om_jettonMaster = None\<rparr>\<rparr>))))"

section \<open>The projection\<close>

definition verb_of :: "json \<Rightarrow> jstring" where
  "verb_of step = (case map_of (asObj (Some step)) (js ''verb'') of Some (JStr v) \<Rightarrow> v | _ \<Rightarrow> [])"

definition params_of :: "json \<Rightarrow> json option" where
  "params_of step = map_of (asObj (Some step)) (js ''params'')"

definition encode_step :: "jstring \<Rightarrow> json \<Rightarrow> send_action option w5" where
  "encode_step agent step =
     (let verb = verb_of step in
      case classifyVerb verb of
        Offchain \<Rightarrow> Inr None
      | Config \<Rightarrow> Inl (W5CodecError ''W5_EXTENDED_NOT_IN_V0_1_0'')
      | Unknown \<Rightarrow> Inl (W5CodecError ''W5_UNKNOWN_VERB'')
      | Send \<Rightarrow>
          if verb \<notin> set V0_1_0_ENCODABLE then Inl (W5CodecError ''W5_UNIMPLEMENTED_VERB'')
          else and_then (if verb = js ''wallet.send_jetton'' then encodeSendJetton (params_of step) agent
                         else if verb = js ''wallet.send_nft'' then encodeSendNft (params_of step) agent
                         else encodeSendTon (params_of step)) (\<lambda>a. Inr (Some a)))"

fun encode_steps :: "jstring \<Rightarrow> json list \<Rightarrow> send_action list \<Rightarrow> send_action list w5" where
  "encode_steps agent [] outActions = Inr outActions"
| "encode_steps agent (s # ss) outActions =
     and_then (encode_step agent s) (\<lambda>a. encode_steps agent ss (case a of Some x \<Rightarrow> outActions @ [x] | None \<Rightarrow> outActions))"

definition agent_of :: "json \<Rightarrow> jstring" where
  "agent_of cal = (case map_of (asObj (Some cal)) (js ''agent_id'') of Some (JStr s) \<Rightarrow> s | _ \<Rightarrow> [])"

definition steps_of :: "json \<Rightarrow> json list" where
  "steps_of cal = (case map_of (asObj (Some cal)) (js ''steps'') of Some (JArr xs) \<Rightarrow> xs | _ \<Rightarrow> [])"

definition canonicalToInner :: "json \<Rightarrow> inner_request w5" where
  "canonicalToInner cal =
     and_then (encode_steps (agent_of cal) (steps_of cal) []) (\<lambda>outActions.
       if length outActions > 255 then Inl (W5CodecError ''W5_TOO_MANY_ACTIONS'')
       else Inr \<lparr>ir_outActions = outActions, ir_extended = []\<rparr>)"

section \<open>Reconciliation\<close>

datatype settlement_status = StUnknown | StSettled | StMissing | StDelayed | StMismatch

record expected_settlement =
  ex_messageHash :: int
  ex_calHash :: int
  ex_nonce :: int
  ex_dest :: int
  ex_value :: int
  ex_deadlineUnix :: int

record observed_settlement =
  os_txHash :: int
  os_effectDest :: int
  os_effectValue :: int
  os_observedAtUnix :: int

record reconciliation =
  rc_status :: settlement_status
  rc_terminal :: bool

definition classify :: "expected_settlement \<Rightarrow> observed_settlement option \<Rightarrow> int \<Rightarrow> reconciliation" where
  "classify expected observed nowUnix =
     (case observed of
        None \<Rightarrow>
          if nowUnix > ex_deadlineUnix expected then \<lparr>rc_status = StMissing, rc_terminal = True\<rparr>
          else \<lparr>rc_status = StUnknown, rc_terminal = False\<rparr>
      | Some ob \<Rightarrow>
          if os_effectDest ob \<noteq> ex_dest expected \<or> os_effectValue ob \<noteq> ex_value expected
          then \<lparr>rc_status = StMismatch, rc_terminal = True\<rparr>
          else if os_observedAtUnix ob \<le> ex_deadlineUnix expected then \<lparr>rc_status = StSettled, rc_terminal = True\<rparr>
          else \<lparr>rc_status = StDelayed, rc_terminal = True\<rparr>)"

section \<open>What the wallet is told to do\<close>

text \<open>
  The specification, without the functions of the encoders: an optional parameter \<open>k\<close> has the value \<open>v\<close> if it is given as a non-empty
  string (an integer, anything), or \<open>v\<close> is the default and it is not.
\<close>

definition opt_string :: "obj \<Rightarrow> string \<Rightarrow> jstring \<Rightarrow> jstring \<Rightarrow> bool" where
  "opt_string p k dflt v \<longleftrightarrow>
     (map_of p (js k) = Some (JStr v) \<and> v \<noteq> []) \<or> ((\<forall>s. s \<noteq> [] \<longrightarrow> map_of p (js k) \<noteq> Some (JStr s)) \<and> v = dflt)"

definition opt_int :: "obj \<Rightarrow> string \<Rightarrow> int \<Rightarrow> bool" where
  "opt_int p k v \<longleftrightarrow> map_of p (js k) = Some (JInt v) \<or> ((\<forall>i. map_of p (js k) \<noteq> Some (JInt i)) \<and> v = 0)"

definition opt_value :: "obj \<Rightarrow> string \<Rightarrow> json \<Rightarrow> bool" where
  "opt_value p k v \<longleftrightarrow> map_of p (js k) = Some v \<or> (map_of p (js k) = None \<and> v = JNull)"

text \<open>The messages that a step of \<open>agent\<close> with parameters \<open>p\<close> authorises, one relation per verb; every field of the message is given.\<close>

definition ton_message :: "obj \<Rightarrow> out_message \<Rightarrow> bool" where
  "ton_message p m \<longleftrightarrow> (\<exists>to amount body.
     map_of p (js ''to'') = Some (JStr to) \<and> to \<noteq> [] \<and> map_of p (js ''amount_nano'') = Some (JInt amount) \<and> 0 \<le> amount \<and>
     opt_value p ''body'' body \<and>
     m = \<lparr>om_dest = to, om_valueNano = amount, om_body = body, om_jettonMaster = None\<rparr>)"

definition jetton_message :: "jstring \<Rightarrow> obj \<Rightarrow> out_message \<Rightarrow> bool" where
  "jetton_message agent p m \<longleftrightarrow> (\<exists>master to amount q resp fwd payload.
     map_of p (js ''jetton_master'') = Some (JStr master) \<and> master \<noteq> [] \<and> map_of p (js ''recipient'') = Some (JStr to) \<and> to \<noteq> [] \<and>
     map_of p (js ''amount'') = Some (JInt amount) \<and> 0 < amount \<and> map_of p (js ''query_id'') = Some (JInt q) \<and> 0 \<le> q \<and> q < 2 ^ 64 \<and>
     opt_string p ''response_destination'' agent resp \<and> opt_int p ''forward_ton_amount'' fwd \<and> 0 \<le> fwd \<and>
     opt_value p ''forward_payload'' payload \<and>
     m = \<lparr>om_dest = [], om_valueNano = fwd + 50000000, om_body = JObj
            [(js ''kind'', JStr (js ''jetton_transfer'')), (js ''op'', JInt 0x0f8a7ea5), (js ''query_id'', JInt q),
             (js ''amount'', JInt amount), (js ''destination'', JStr to), (js ''response_destination'', JStr resp),
             (js ''custom_payload'', JNull), (js ''forward_ton_amount'', JInt fwd), (js ''forward_payload'', payload)],
          om_jettonMaster = Some master\<rparr>)"

definition nft_message :: "jstring \<Rightarrow> obj \<Rightarrow> out_message \<Rightarrow> bool" where
  "nft_message agent p m \<longleftrightarrow> (\<exists>item owner q resp fwd payload.
     map_of p (js ''nft_item'') = Some (JStr item) \<and> item \<noteq> [] \<and> map_of p (js ''new_owner'') = Some (JStr owner) \<and> owner \<noteq> [] \<and>
     map_of p (js ''query_id'') = Some (JInt q) \<and> 0 \<le> q \<and> q < 2 ^ 64 \<and>
     opt_string p ''response_destination'' agent resp \<and> opt_int p ''forward_amount'' fwd \<and> 0 \<le> fwd \<and>
     opt_value p ''forward_payload'' payload \<and>
     m = \<lparr>om_dest = item, om_valueNano = fwd + 50000000, om_body = JObj
            [(js ''kind'', JStr (js ''nft_transfer'')), (js ''op'', JInt 0x5fcc3d14), (js ''query_id'', JInt q),
             (js ''new_owner'', JStr owner), (js ''response_destination'', JStr resp), (js ''custom_payload'', JNull),
             (js ''forward_amount'', JInt fwd), (js ''forward_payload'', payload)],
          om_jettonMaster = None\<rparr>)"

definition authorised :: "jstring \<Rightarrow> json \<Rightarrow> send_action \<Rightarrow> bool" where
  "authorised agent step act \<longleftrightarrow> sa_mode act = 1 \<and>
     (let p = asObj (params_of step); m = sa_msg act in
      verb_of step = js ''wallet.send_ton'' \<and> ton_message p m \<or>
      verb_of step = js ''wallet.send_jetton'' \<and> jetton_message agent p m \<or>
      verb_of step = js ''wallet.send_nft'' \<and> nft_message agent p m)"

lemma opt_readings:
  "opt_value p k (or_null k p)" "opt_string p k dflt (string_or dflt k p)" "opt_int p k (int_or_zero k p)"
  by (auto simp: opt_value_def or_null_def opt_string_def string_or_def opt_int_def int_or_zero_def split: option.splits json.splits)

lemma string_param_Inr: "string_param k p = Inr s \<longleftrightarrow> map_of p (js k) = Some (JStr s) \<and> s \<noteq> []"
  by (auto simp: string_param_def malformed_def split: option.splits json.splits)

lemma int_param_Inr: "int_param k p = Inr v \<longleftrightarrow> map_of p (js k) = Some (JInt v)"
  by (auto simp: int_param_def malformed_def split: option.splits json.splits)

lemma not_malformed [simp]: "malformed \<noteq> Inr x"
  by (simp add: malformed_def)

lemmas encoder_simps = string_param_Inr int_param_Inr Let_def SEND_MODE_EXACT_def JETTON_TRANSFER_OP_def JETTON_TRANSFER_TON_def
  NFT_TRANSFER_OP_def NFT_TRANSFER_TON_def U64_MAX_def

lemma ton_authorised:
  "verb_of step = js ''wallet.send_ton'' \<Longrightarrow> encodeSendTon (params_of step) = Inr a \<Longrightarrow> authorised agent step a"
  using opt_readings(1) by (auto simp: encodeSendTon_def authorised_def ton_message_def encoder_simps split: if_splits)

lemma jetton_authorised:
  "verb_of step = js ''wallet.send_jetton'' \<Longrightarrow> encodeSendJetton (params_of step) agent = Inr a \<Longrightarrow> authorised agent step a"
  using opt_readings [of "asObj (params_of step)"]
  by (auto simp: encodeSendJetton_def authorised_def jetton_message_def encoder_simps split: if_splits)

lemma nft_authorised:
  "verb_of step = js ''wallet.send_nft'' \<Longrightarrow> encodeSendNft (params_of step) agent = Inr a \<Longrightarrow> authorised agent step a"
  using opt_readings [of "asObj (params_of step)"]
  by (auto simp: encodeSendNft_def authorised_def nft_message_def encoder_simps split: if_splits)

lemma encode_step_cases:
  assumes "encode_step agent step = Inr r"
  shows "classifyVerb (verb_of step) = Offchain \<and> r = None \<or>
    classifyVerb (verb_of step) = Send \<and> (\<exists>a. r = Some a \<and> authorised agent step a)"
proof (cases "classifyVerb (verb_of step)")
  case Send
  with assms have v: "verb_of step \<in> {js ''wallet.send_ton'', js ''wallet.send_jetton'', js ''wallet.send_nft''}"
    by (auto simp: encode_step_def V0_1_0_ENCODABLE_def Let_def split: if_splits)
  with assms Send ton_authorised jetton_authorised nft_authorised show ?thesis
    by (auto simp: encode_step_def V0_1_0_ENCODABLE_def Let_def)
qed (use assms in \<open>auto simp: encode_step_def Let_def\<close>)

lemma encode_steps_authorised:
  "encode_steps agent ss acc = Inr out \<Longrightarrow>
   (\<forall>s \<in> set ss. classifyVerb (verb_of s) \<in> {Offchain, Send}) \<and>
   (\<exists>new. out = acc @ new \<and> list_all2 (authorised agent) (filter (\<lambda>s. classifyVerb (verb_of s) = Send) ss) new)"
proof (induction ss arbitrary: acc)
  case (Cons s ss)
  then obtain r where r: "encode_step agent s = Inr r"
    and rest: "encode_steps agent ss (case r of Some x \<Rightarrow> acc @ [x] | None \<Rightarrow> acc) = Inr out" by auto
  from encode_step_cases [OF r] Cons.IH [OF rest] show ?case by auto
qed simp

text \<open>
  C14: Publication never extends the authorisation. If a CAL is projected, every step is a message or has no effect on the chain, and the
  actions are one for one, in order, the messages that the message steps authorise, field by field: destination, amount, query and payload
  are the parameters of the step, the response goes where the step says or to the agent of the CAL, the attached TON is the amount or the
  forwarded amount plus the fixed allowance. There are at most 255, and none has a bit of its mode set that would carry more value.
\<close>

theorem publication_never_extends:
  assumes "canonicalToInner cal = Inr req"
  shows "(\<forall>s \<in> set (steps_of cal). classifyVerb (verb_of s) \<in> {Offchain, Send}) \<and>
    list_all2 (authorised (agent_of cal)) (filter (\<lambda>s. classifyVerb (verb_of s) = Send) (steps_of cal)) (ir_outActions req) \<and>
    length (ir_outActions req) \<le> 255 \<and> ir_extended req = [] \<and>
    (\<forall>a \<in> set (ir_outActions req). and (sa_mode a) (or CARRY_REMAINING CARRY_ALL) = 0)"
proof -
  from assms obtain out where out: "encode_steps (agent_of cal) (steps_of cal) [] = Inr out" "length out \<le> 255"
    and req: "req = \<lparr>ir_outActions = out, ir_extended = []\<rparr>"
    by (auto simp: canonicalToInner_def split: if_splits)
  from encode_steps_authorised [OF out(1)]
  have a: "\<forall>s \<in> set (steps_of cal). classifyVerb (verb_of s) \<in> {Offchain, Send}"
    "list_all2 (authorised (agent_of cal)) (filter (\<lambda>s. classifyVerb (verb_of s) = Send) (steps_of cal)) out" by auto
  have "sa_mode x = 1" if "x \<in> set out" for x
    using a(2) that by (auto simp: list_all2_conv_all_nth in_set_conv_nth authorised_def Let_def)
  moreover have "and 1 (or CARRY_REMAINING CARRY_ALL) = (0 :: int)" by code_simp
  ultimately show ?thesis using a out(2) req by simp
qed

definition sample_publication :: json where
  "sample_publication = JObj [(js ''agent_id'', JStr (js ''0:aa'')), (js ''steps'', JArr
     [JObj [(js ''verb'', JStr (js ''wallet.get_balance''))],
      JObj [(js ''verb'', JStr (js ''wallet.send_nft'')),
            (js ''params'', JObj [(js ''nft_item'', JStr (js ''0:bb'')), (js ''new_owner'', JStr (js ''0:cc'')), (js ''query_id'', JInt 7)])]])]"

text \<open>One message, whose response goes to the agent.\<close>

theorem publication_never_extends_witness:
  "\<exists>req act. canonicalToInner sample_publication = Inr req \<and> ir_outActions req = [act] \<and>
     om_dest (sa_msg act) = js ''0:bb'' \<and> om_valueNano (sa_msg act) = 50000000 \<and>
     map_of (asObj (Some (om_body (sa_msg act)))) (js ''response_destination'') = Some (JStr (js ''0:aa''))"
proof -
  have e: "map_sum (\<lambda>e. ()) (\<lambda>r. length (ir_outActions r)) (canonicalToInner sample_publication) = Inr 1" by code_simp
  then obtain req where req: "canonicalToInner sample_publication = Inr req" "length (ir_outActions req) = 1"
    by (cases "canonicalToInner sample_publication") auto
  then obtain act where act: "ir_outActions req = [act]" by (auto simp: length_Suc_conv)
  let ?nft = "JObj [(js ''verb'', JStr (js ''wallet.send_nft'')),
            (js ''params'', JObj [(js ''nft_item'', JStr (js ''0:bb'')), (js ''new_owner'', JStr (js ''0:cc'')), (js ''query_id'', JInt 7)])]"
  have s: "steps_of sample_publication = [JObj [(js ''verb'', JStr (js ''wallet.get_balance''))], ?nft]"
    "agent_of sample_publication = js ''0:aa''" by (simp_all add: steps_of_def agent_of_def asObj_def sample_publication_def)
  have v: "verb_of ?nft = js ''wallet.send_nft''" "verb_of (JObj [(js ''verb'', JStr (js ''wallet.get_balance''))]) = js ''wallet.get_balance''"
    by (simp_all add: verb_of_def asObj_def)
  have c: "classifyVerb (js ''wallet.send_nft'') = Send" "classifyVerb (js ''wallet.get_balance'') = Offchain" by code_simp+
  from publication_never_extends [OF req(1)] have "authorised (js ''0:aa'') ?nft act" by (simp add: s v c act)
  then have "nft_message (js ''0:aa'') (asObj (params_of ?nft)) (sa_msg act)" by (simp add: authorised_def Let_def v)
  then have "om_dest (sa_msg act) = js ''0:bb'' \<and> om_valueNano (sa_msg act) = 50000000 \<and>
     map_of (asObj (Some (om_body (sa_msg act)))) (js ''response_destination'') = Some (JStr (js ''0:aa''))"
    by (auto simp: nft_message_def opt_string_def opt_int_def opt_value_def params_of_def asObj_def)
  with req(1) act show ?thesis by blast
qed

text \<open>
  Reconciliation. A settlement is settled or delayed exactly when an effect with the authorised destination and value was seen, on
  time or late; any deviation, also a smaller value, is a mismatch whatever the time; and only an open window is not terminal.
\<close>

theorem reconciliation_classes:
  "rc_status (classify ex ob now) =
     (if \<exists>x. ob = Some x \<and> (os_effectDest x, os_effectValue x) = (ex_dest ex, ex_value ex) \<and> os_observedAtUnix x \<le> ex_deadlineUnix ex
      then StSettled
      else if \<exists>x. ob = Some x \<and> (os_effectDest x, os_effectValue x) = (ex_dest ex, ex_value ex) then StDelayed
      else if ob \<noteq> None then StMismatch
      else if now > ex_deadlineUnix ex then StMissing else StUnknown) \<and>
   (rc_terminal (classify ex ob now) \<longleftrightarrow> rc_status (classify ex ob now) \<noteq> StUnknown)"
  by (auto simp: classify_def split: option.splits)

end
