(* ===== verification/Wal.thy ===== *)
theory Wal
  imports Node Json_Text
begin

text \<open>
  The node as a process (\<^verbatim>\<open>orchestrator/src/node\<close>): \<^verbatim>\<open>snapshot.ts\<close>, \<^verbatim>\<open>snapshot-store.ts\<close> and \<^verbatim>\<open>persistent-node.ts\<close>. A
  node directory is the list of its files with their bytes; every operation takes it and gives the directory it leaves. A block of
  submissions is a JavaScript object: it is written with its members in the order of the interface, and read back by the casts of the
  code, which fail here where an object of another shape would make \<open>applyTick\<close> fail.
\<close>

section \<open>Directories\<close>

type_synonym dir = "(jstring \<times> bytes) list"

datatype persist_error = SnapshotCorruption | BackupFailed string | NoFile | Thrown exn

type_synonym 'a pres = "persist_error + 'a"

definition raised :: "'a res \<Rightarrow> 'a pres" where
  "raised r = map_sum Thrown (\<lambda>x. x) r"

definition genesis_file :: jstring where "genesis_file = js ''genesis.json''"

definition wal_file :: jstring where "wal_file = js ''wal.ndjson''"

definition head_file :: jstring where "head_file = js ''head.json''"

definition file_bytes :: "jstring \<Rightarrow> dir \<Rightarrow> bytes" where
  "file_bytes n d = (case map_of d n of Some b \<Rightarrow> b | None \<Rightarrow> [])"

definition enc_bytes :: "json \<Rightarrow> bytes res" where
  "enc_bytes v = (case enc v of Some t \<Rightarrow> Inr (utf8_encode t) | None \<Rightarrow> Inl TypeError)"

text \<open>The line and its newline go out in one write.\<close>

definition appendLineDurable :: "bytes \<Rightarrow> dir \<Rightarrow> dir" where
  "appendLineDurable line d = AList.update wal_file (file_bytes wal_file d @ line @ [0x0a]) d"

section \<open>Blocks as JSON\<close>

definition step_json :: "step_result \<Rightarrow> json" where
  "step_json r = JObj [(js ''ok'', JBool (sr_ok r)), (js ''effects'', JArr (sr_effects r))]"

definition trace_json :: "execution_trace \<Rightarrow> json" where
  "trace_json tr = JObj
     ([(js ''currentTick'', JInt (currentTick tr)), (js ''steps'', JArr (map step_json (tr_steps tr))),
       (js ''stateBefore'', stateBefore tr), (js ''stateAfter'', stateAfter tr),
       (js ''operatorSigPresent'', JBool (operatorSigFlag tr)), (js ''ownerSigPresent'', JBool (ownerSigFlag tr))] @
      (case ownerSigners tr of Some ss \<Rightarrow> [(js ''ownerSigners'', JArr (map JStr ss))] | None \<Rightarrow> []) @
      (case pinnedMcpSchemaHash tr of Some p \<Rightarrow> [(js ''pinnedMcpSchemaHash'', JStr p)] | None \<Rightarrow> []))"

definition submission_json :: "submission \<Rightarrow> json" where
  "submission_json s = JObj
     ([(js ''cal'', sub_cal s), (js ''trace'', trace_json (sub_trace s))] @
      (case sub_mode s of
         Atomic \<Rightarrow> []
       | Validate_only \<Rightarrow> [(js ''mode'', JStr (js ''validate-only''))]
       | Resume \<Rightarrow> [(js ''mode'', JStr (js ''resume''))]))"

definition block_json :: "tick_block \<Rightarrow> json" where
  "block_json b = JObj [(js ''tick'', JInt (tb_tick b)), (js ''submissions'', JArr (map submission_json (tb_submissions b)))]"

text \<open>Reading members of a parsed object.\<close>

definition member :: "string \<Rightarrow> json \<Rightarrow> json option" where
  "member k v = (case v of JObj ob \<Rightarrow> map_of ob (js k) | _ \<Rightarrow> None)"

definition as_bool :: "json option \<Rightarrow> bool res" where
  "as_bool v = (case v of Some (JBool b) \<Rightarrow> Inr b | _ \<Rightarrow> Inl TypeError)"

definition as_int :: "json option \<Rightarrow> int res" where
  "as_int v = (case v of Some (JInt i) \<Rightarrow> Inr i | _ \<Rightarrow> Inl TypeError)"

definition as_list :: "json option \<Rightarrow> json list res" where
  "as_list v = (case v of Some (JArr xs) \<Rightarrow> Inr xs | _ \<Rightarrow> Inl TypeError)"

definition as_json :: "json option \<Rightarrow> json res" where
  "as_json v = (case v of Some j \<Rightarrow> Inr j | None \<Rightarrow> Inl TypeError)"

definition step_of :: "json \<Rightarrow> step_result res" where
  "step_of v = and_then (as_bool (member ''ok'' v)) (\<lambda>okay. and_then (as_list (member ''effects'' v)) (\<lambda>es.
     Inr \<lparr>sr_ok = okay, sr_effects = es\<rparr>))"

definition trace_of :: "json \<Rightarrow> execution_trace res" where
  "trace_of v =
     and_then (as_int (member ''currentTick'' v)) (\<lambda>tick.
     and_then (as_list (member ''steps'' v)) (\<lambda>ss.
     and_then (map_res step_of ss) (\<lambda>steps.
     and_then (as_json (member ''stateBefore'' v)) (\<lambda>before.
     and_then (as_json (member ''stateAfter'' v)) (\<lambda>after.
     and_then (as_bool (member ''operatorSigPresent'' v)) (\<lambda>op.
     and_then (as_bool (member ''ownerSigPresent'' v)) (\<lambda>own.
       Inr \<lparr>currentTick = tick, tr_steps = steps, stateBefore = before, stateAfter = after, operatorSigFlag = op, ownerSigFlag = own,
            ownerSigners = (case member ''ownerSigners'' v of Some (JArr xs) \<Rightarrow> Some (strings_of xs) | _ \<Rightarrow> None),
            pinnedMcpSchemaHash = (case member ''pinnedMcpSchemaHash'' v of Some (JStr p) \<Rightarrow> Some p | _ \<Rightarrow> None)\<rparr>)))))))"

definition submission_of :: "json \<Rightarrow> submission res" where
  "submission_of v =
     and_then (as_json (member ''cal'' v)) (\<lambda>cal.
     and_then (as_json (member ''trace'' v)) (\<lambda>t.
     and_then (trace_of t) (\<lambda>tr.
       Inr \<lparr>sub_cal = cal, sub_trace = tr,
            sub_mode = (if member ''mode'' v = Some (JStr (js ''resume'')) then Resume
                        else if member ''mode'' v = Some (JStr (js ''validate-only'')) then Validate_only else Atomic)\<rparr>)))"

definition block_of :: "json \<Rightarrow> tick_block res" where
  "block_of v =
     and_then (as_int (member ''tick'' v)) (\<lambda>tick.
     and_then (as_list (member ''submissions'' v)) (\<lambda>ss.
     and_then (map_res submission_of ss) (\<lambda>subs. Inr \<lparr>tb_tick = tick, tb_submissions = subs\<rparr>)))"

section \<open>The log of blocks\<close>

fun split_lines :: "jstring \<Rightarrow> jstring list" where
  "split_lines [] = [[]]"
| "split_lines (c # cs) =
     (if c = 0x0a then [] # split_lines cs else case split_lines cs of l # ls \<Rightarrow> (c # l) # ls | [] \<Rightarrow> [[c]])"

text \<open>A line that does not parse ends the log.\<close>

fun committed_lines :: "jstring list \<Rightarrow> json list" where
  "committed_lines [] = []"
| "committed_lines (line # ls) =
     (let t = trim line
      in if t = [] then committed_lines ls
         else case dec t of Inr v \<Rightarrow> v # committed_lines ls | Inl e \<Rightarrow> [])"

definition parseWalLines :: "jstring \<Rightarrow> json list" where
  "parseWalLines raw = committed_lines (split_lines raw)"

definition readWalRange :: "bytes \<Rightarrow> nat \<Rightarrow> nat \<Rightarrow> jstring" where
  "readWalRange wal offset walSize = to_text (take (walSize - offset) (drop offset wal))"

definition offsetOnBoundary :: "bytes \<Rightarrow> int \<Rightarrow> bool" where
  "offsetOnBoundary wal offset \<longleftrightarrow>
     offset = 0 \<or> 0 < offset \<and> nat offset \<le> length wal \<and> wal ! (nat offset - 1) = 0x0a"

fun foldBlocks :: "host \<Rightarrow> json list \<Rightarrow> run_acc \<Rightarrow> run_acc res" where
  "foldBlocks H [] acc = Inr acc"
| "foldBlocks H (b # bs) acc = and_then (block_of b) (\<lambda>blk. and_then (run_step H acc blk) (foldBlocks H bs))"

definition foldFromGenesis :: "host \<Rightarrow> json \<Rightarrow> json list \<Rightarrow> run_acc res" where
  "foldFromGenesis H g blocks = foldBlocks H blocks (initIncremental (Some g), [], [])"

section \<open>Snapshots\<close>

definition SNAPSHOT_VERSION :: int where "SNAPSHOT_VERSION = 2"

record snapshot_body =
  sb_version :: int
  sb_covered :: int
  sb_offset :: int
  sb_stateRoot :: jstring
  sb_eventLogRoot :: jstring
  sb_incr :: incremental

definition makeSnapshotBody :: "host \<Rightarrow> incremental \<Rightarrow> int \<Rightarrow> int \<Rightarrow> snapshot_body res" where
  "makeSnapshotBody H incr covered offset =
     and_then (incrementalStateRoot H incr) (\<lambda>root.
     and_then (incrementalGlobalRoot H incr) (\<lambda>groot.
       Inr \<lparr>sb_version = SNAPSHOT_VERSION, sb_covered = covered, sb_offset = offset, sb_stateRoot = root, sb_eventLogRoot = groot,
            sb_incr = incr\<rparr>))"

text \<open>The second tag of \<^verbatim>\<open>snapshot.ts\<close>: a byte array in hex. A revived array is kept in this form.\<close>

definition bytes_tag :: jstring where "bytes_tag = js ''$bytes''"

definition bytes_json :: "bytes \<Rightarrow> json" where
  "bytes_json b = JObj [(bytes_tag, JStr (toHex b False))]"

fun revive_bytes :: "json \<Rightarrow> json res" where
  "revive_bytes (JArr xs) = and_then (map_res revive_bytes xs) (\<lambda>ys. Inr (JArr ys))"
| "revive_bytes (JObj ob) =
     and_then (map_res (\<lambda>kv. and_then (revive_bytes (snd kv)) (\<lambda>v. Inr (fst kv, v))) ob) (\<lambda>ms.
       case ms of
         [(key, JStr s)] \<Rightarrow>
           if key = bigint_tag then and_then (bigint_of s) (\<lambda>v. Inr (JInt v))
           else if key = bytes_tag then and_then (fromHex s) (\<lambda>b. Inr (bytes_json b))
           else Inr (JObj ms)
       | _ \<Rightarrow> Inr (JObj ms))"
| "revive_bytes v = Inr v"

definition body_json :: "snapshot_body \<Rightarrow> json" where
  "body_json b = JObj
     [(js ''snapshot_version'', JNum (NInt (sb_version b))), (js ''covered_tick'', JInt (sb_covered b)),
      (js ''wal_offset'', JInt (sb_offset b)), (js ''state_root'', JStr (sb_stateRoot b)),
      (js ''event_log_root'', JStr (sb_eventLogRoot b)),
      (js ''incr'', JObj
        [(js ''state'', inc_state (sb_incr b)), (js ''currentTick'', JInt (inc_tick (sb_incr b))),
         (js ''eventCount'', JNum (NInt (int (inc_eventCount (sb_incr b))))),
         (js ''lastEventHash'', bytes_json (inc_lastEventHash (sb_incr b)))])]"

definition as_count :: "json option \<Rightarrow> nat res" where
  "as_count v = (case v of Some (JNum (NInt i)) \<Rightarrow> if 0 \<le> i then Inr (nat i) else Inl TypeError | _ \<Rightarrow> Inl TypeError)"

definition as_string :: "json option \<Rightarrow> jstring res" where
  "as_string v = (case v of Some (JStr s) \<Rightarrow> Inr s | _ \<Rightarrow> Inl TypeError)"

definition as_bytes :: "json option \<Rightarrow> bytes res" where
  "as_bytes v =
     (case v of Some (JObj ms) \<Rightarrow> (case ms of [(key, JStr s)] \<Rightarrow> if key = bytes_tag then fromHex s else Inl TypeError | _ \<Rightarrow> Inl TypeError)
      | _ \<Rightarrow> Inl TypeError)"

definition incr_of :: "json \<Rightarrow> incremental res" where
  "incr_of v =
     and_then (as_json (member ''state'' v)) (\<lambda>s.
     and_then (as_int (member ''currentTick'' v)) (\<lambda>tick.
     and_then (as_count (member ''eventCount'' v)) (\<lambda>n.
     and_then (as_bytes (member ''lastEventHash'' v)) (\<lambda>h.
       Inr \<lparr>inc_state = s, inc_tick = tick, inc_eventCount = n, inc_lastEventHash = h\<rparr>))))"

definition body_of :: "json \<Rightarrow> snapshot_body res" where
  "body_of v =
     and_then (as_int (member ''covered_tick'' v)) (\<lambda>covered.
     and_then (as_int (member ''wal_offset'' v)) (\<lambda>offset.
     and_then (as_string (member ''state_root'' v)) (\<lambda>root.
     and_then (as_string (member ''event_log_root'' v)) (\<lambda>groot.
     and_then (as_json (member ''incr'' v)) (\<lambda>i.
     and_then (incr_of i) (\<lambda>incr.
       Inr \<lparr>sb_version = SNAPSHOT_VERSION, sb_covered = covered, sb_offset = offset, sb_stateRoot = root, sb_eventLogRoot = groot,
            sb_incr = incr\<rparr>))))))"

definition encodeSnapshot :: "host \<Rightarrow> snapshot_body \<Rightarrow> jstring res" where
  "encodeSnapshot H body =
     (case enc (body_json body) of
        None \<Rightarrow> Inl TypeError
      | Some t \<Rightarrow>
          (let checksum = toHex (sha256 H (utf8_encode t)) True
           in case stringify (JObj [(js ''checksum'', JStr checksum), (js ''body'', JStr t)]) of
                Some s \<Rightarrow> Inr s
              | None \<Rightarrow> Inl TypeError))"

text \<open>A member of the parsed value; reading one of \<open>null\<close> throws.\<close>

definition read_member :: "string \<Rightarrow> json \<Rightarrow> json option res" where
  "read_member k v = (if v = JNull then Inl TypeError else Inr (member k v))"

definition decodeSnapshot :: "host \<Rightarrow> jstring \<Rightarrow> snapshot_body pres" where
  "decodeSnapshot H t =
     (case json_parse t of
        Inl e \<Rightarrow> Inl SnapshotCorruption
      | Inr outer \<Rightarrow>
          and_then (raised (read_member ''body'' outer)) (\<lambda>b.
          case (b, member ''checksum'' outer) of
            (Some (JStr body), Some (JStr checksum)) \<Rightarrow>
              if toHex (sha256 H (utf8_encode body)) True \<noteq> checksum then Inl SnapshotCorruption
              else (case and_then (json_parse body) revive_bytes of
                  Inl e \<Rightarrow> Inl SnapshotCorruption
                | Inr v \<Rightarrow>
                    and_then (raised (read_member ''snapshot_version'' v)) (\<lambda>version.
                      if version \<noteq> Some (JNum (NInt SNAPSHOT_VERSION)) then Inl SnapshotCorruption
                      else raised (body_of v)))
          | _ \<Rightarrow> Inl SnapshotCorruption))"

section \<open>The snapshot store\<close>

definition snapshot_name :: "int \<Rightarrow> jstring" where
  "snapshot_name covered = js ''snapshot-'' @ dec_int covered @ js ''.json''"

text \<open>\<open>SNAP_RE\<close>: the digits of the name of a published snapshot.\<close>

definition snapshot_tick :: "jstring \<Rightarrow> int option" where
  "snapshot_tick n =
     (let digits = takeWhile is_digit (drop 9 n)
      in if take 9 n = js ''snapshot-'' \<and> digits \<noteq> [] \<and> drop (9 + length digits) n = js ''.json''
         then Some (int (read_nat digits)) else None)"

definition listSnapshots :: "dir \<Rightarrow> (int \<times> jstring) list" where
  "listSnapshots d =
     sort_key (\<lambda>e. - fst e)
       (concat (map (\<lambda>f. case snapshot_tick (fst f) of Some t \<Rightarrow> [(t, fst f)] | None \<Rightarrow> []) d))"

definition tmp_name :: "jstring \<Rightarrow> jstring" where
  "tmp_name n = n @ js ''.tmp''"

text \<open>Publishing: a crash between the two steps leaves the temporary file.\<close>

definition write_tmp :: "jstring \<Rightarrow> bytes \<Rightarrow> dir \<Rightarrow> dir" where
  "write_tmp n b d = AList.update (tmp_name n) b d"

definition rename_tmp :: "jstring \<Rightarrow> dir \<Rightarrow> dir" where
  "rename_tmp n d = AList.update n (file_bytes (tmp_name n) d) (AList.delete (tmp_name n) d)"

definition writeSnapshotFile :: "host \<Rightarrow> snapshot_body \<Rightarrow> dir \<Rightarrow> dir res" where
  "writeSnapshotFile H body d =
     and_then (encodeSnapshot H body) (\<lambda>t.
       let n = snapshot_name (sb_covered body) in Inr (rename_tmp n (write_tmp n (utf8_encode t) d)))"

fun first_valid :: "host \<Rightarrow> dir \<Rightarrow> nat \<Rightarrow> (int \<times> jstring) list \<Rightarrow> snapshot_body option pres" where
  "first_valid H d walSize [] = Inr None"
| "first_valid H d walSize (e # es) =
     (case decodeSnapshot H (to_text (file_bytes (snd e) d)) of
        Inl SnapshotCorruption \<Rightarrow> first_valid H d walSize es
      | Inl x \<Rightarrow> Inl x
      | Inr body \<Rightarrow> if sb_offset body > int walSize then Inl SnapshotCorruption else Inr (Some body))"

definition loadLatestValidSnapshot :: "host \<Rightarrow> dir \<Rightarrow> nat \<Rightarrow> snapshot_body option pres" where
  "loadLatestValidSnapshot H d walSize = first_valid H d walSize (listSnapshots d)"

definition is_tmp :: "jstring \<Rightarrow> bool" where
  "is_tmp n \<longleftrightarrow> length n \<ge> 9 \<and> drop (length n - 9) n = js ''.json.tmp''"

definition pruneSnapshots :: "nat \<Rightarrow> dir \<Rightarrow> dir" where
  "pruneSnapshots keep d =
     (let old = map snd (drop keep (listSnapshots d))
      in filter (\<lambda>f. fst f \<notin> set old \<and> \<not> is_tmp (fst f)) d)"

end
