(* ===== verification/Persistent.thy ===== *)
theory Persistent
  imports Wal
begin

text \<open>
  \<^verbatim>\<open>orchestrator/src/node/persistent-node.ts\<close>, class \<open>OvtNode\<close>, and the cadence of \<^verbatim>\<open>recovery-sla.ts\<close>. A method takes the object
  and its directory; where it throws after it has changed them, the pair it leaves is part of the result.
\<close>

section \<open>The node object\<close>

datatype recovery_mode = FRESH | FULL_REPLAY | SNAPSHOT_TAIL

record ovt_node =
  on_genesis :: json
  on_committed :: int
  on_live :: incremental
  on_ticks :: "tick_result list"
  on_log :: "obj list"
  on_via :: recovery_mode
  on_tail :: nat

definition new_node :: "json \<Rightarrow> int \<Rightarrow> run_acc \<Rightarrow> recovery_mode \<Rightarrow> nat \<Rightarrow> ovt_node" where
  "new_node g committed acc via tail =
     (let (incr, ticks, log) = acc
      in \<lparr>on_genesis = g, on_committed = committed, on_live = incr, on_ticks = ticks, on_log = log, on_via = via, on_tail = tail\<rparr>)"

definition node_stateRoot :: "host \<Rightarrow> ovt_node \<Rightarrow> jstring res" where
  "node_stateRoot H node = incrementalStateRoot H (on_live node)"

definition eventLogRoot :: "host \<Rightarrow> ovt_node \<Rightarrow> jstring res" where
  "eventLogRoot H node = (if inc_eventCount (on_live node) = 0 then Inr [] else incrementalGlobalRoot H (on_live node))"

text \<open>\<open>JSON.stringify\<close> with an indent of two.\<close>

definition head_text :: "int \<Rightarrow> jstring \<Rightarrow> jstring \<Rightarrow> jstring" where
  "head_text committed root groot =
     js ''{'' @ [0x0a] @ js ''  '' @ json_quote (js ''tickCount'') @ js '': '' @ dec_int committed @ js '','' @ [0x0a] @
     js ''  '' @ json_quote (js ''finalStateRoot'') @ js '': '' @ json_quote root @ js '','' @ [0x0a] @
     js ''  '' @ json_quote (js ''eventLogRoot'') @ js '': '' @ json_quote groot @ [0x0a] @ js ''}''"

definition writeHead :: "host \<Rightarrow> ovt_node \<Rightarrow> dir \<Rightarrow> dir res" where
  "writeHead H node d =
     and_then (node_stateRoot H node) (\<lambda>root.
     and_then (eventLogRoot H node) (\<lambda>groot.
       Inr (AList.update head_file (utf8_encode (head_text (on_committed node) root groot)) d)))"

section \<open>Creating\<close>

definition create :: "host \<Rightarrow> json \<Rightarrow> dir \<Rightarrow> (ovt_node \<times> dir) res" where
  "create H g d =
     and_then (enc_bytes g) (\<lambda>gb.
       let d1 = AList.update wal_file [] (AList.update genesis_file gb d) in
       and_then (foldFromGenesis H g []) (\<lambda>acc.
         let node = new_node g 0 acc FRESH 0 in
         and_then (writeHead H node d1) (\<lambda>d2. Inr (node, d2))))"

definition bulkCreate :: "host \<Rightarrow> json \<Rightarrow> tick_block list \<Rightarrow> dir \<Rightarrow> (ovt_node \<times> dir) res" where
  "bulkCreate H g blocks d =
     and_then (enc_bytes g) (\<lambda>gb.
     and_then (map_res (\<lambda>b. enc_bytes (block_json b)) blocks) (\<lambda>lines.
       let d1 = AList.update wal_file (concat (map (\<lambda>l. l @ [0x0a]) lines)) (AList.update genesis_file gb d) in
       and_then (run_ticks H blocks (initIncremental (Some g), [], [])) (\<lambda>acc.
         let node = new_node g (int (length blocks)) acc FRESH (length blocks) in
         and_then (writeHead H node d1) (\<lambda>d2. Inr (node, d2)))))"

section \<open>Recovering\<close>

definition full_replay :: "host \<Rightarrow> json \<Rightarrow> bytes \<Rightarrow> ovt_node res" where
  "full_replay H g wal =
     (let blocks = parseWalLines (to_text wal) in
      and_then (foldFromGenesis H g blocks) (\<lambda>acc.
        Inr (new_node g (int (length blocks)) acc FULL_REPLAY (length blocks))))"

definition tail_replay :: "host \<Rightarrow> json \<Rightarrow> bytes \<Rightarrow> snapshot_body \<Rightarrow> ovt_node res" where
  "tail_replay H g wal snap =
     (let tail = parseWalLines (readWalRange wal (nat (sb_offset snap)) (length wal)) in
      and_then (foldBlocks H tail (sb_incr snap, [], [])) (\<lambda>acc.
        Inr (new_node g (sb_covered snap + int (length tail)) acc SNAPSHOT_TAIL (length tail))))"

definition read_genesis :: "dir \<Rightarrow> json pres" where
  "read_genesis d = (case map_of d genesis_file of Some b \<Rightarrow> raised (dec (to_text b)) | None \<Rightarrow> Inl NoFile)"

definition open_node :: "host \<Rightarrow> bool \<Rightarrow> dir \<Rightarrow> ovt_node pres" where
  "open_node H ignoreSnapshots d =
     and_then (read_genesis d) (\<lambda>g.
       let wal = file_bytes wal_file d in
       and_then (if ignoreSnapshots then Inr None else loadLatestValidSnapshot H d (length wal)) (\<lambda>snap.
         case snap of
           Some body \<Rightarrow>
             if offsetOnBoundary wal (sb_offset body) then raised (tail_replay H g wal body) else raised (full_replay H g wal)
         | None \<Rightarrow> raised (full_replay H g wal)))"

text \<open>The read-only view of the durable inputs.\<close>

definition readProgram :: "dir \<Rightarrow> (json \<times> json list) pres" where
  "readProgram d = and_then (read_genesis d) (\<lambda>g. Inr (g, parseWalLines (to_text (file_bytes wal_file d))))"

section \<open>Running\<close>

text \<open>Write-ahead: the block is in the log and counted before it is applied.\<close>

definition submit_block :: "host \<Rightarrow> submission list \<Rightarrow> ovt_node \<times> dir \<Rightarrow> (ovt_node \<times> dir) \<times> tick_result res" where
  "submit_block H subs = (\<lambda>(node, d).
     let block = \<lparr>tb_tick = on_committed node, tb_submissions = subs\<rparr> in
     case enc_bytes (block_json block) of
       Inl e \<Rightarrow> ((node, d), Inl e)
     | Inr line \<Rightarrow>
         let d1 = appendLineDurable line d; node1 = node\<lparr>on_committed := on_committed node + 1\<rparr> in
         case applyTick H (on_live node) block of
           Inl e \<Rightarrow> ((node1, d1), Inl e)
         | Inr step \<Rightarrow>
             let node2 = node1\<lparr>on_live := st_next step, on_ticks := on_ticks node @ [st_tickResult step],
                               on_log := on_log node @ st_events step\<rparr> in
             (case writeHead H node2 d1 of
                Inl e \<Rightarrow> ((node2, d1), Inl e)
              | Inr d2 \<Rightarrow> ((node2, d2), Inr (st_tickResult step))))"

definition take_snapshot :: "host \<Rightarrow> nat \<Rightarrow> ovt_node \<Rightarrow> dir \<Rightarrow> dir res" where
  "take_snapshot H keep node d =
     and_then (makeSnapshotBody H (on_live node) (on_committed node) (int (length (file_bytes wal_file d)))) (\<lambda>body.
     and_then (writeSnapshotFile H body d) (\<lambda>d1. Inr (pruneSnapshots keep d1)))"

definition snapshotDue :: "int \<Rightarrow> int \<Rightarrow> bool" where
  "snapshotDue committed everyNTicks \<longleftrightarrow> committed > 0 \<and> committed mod everyNTicks = 0"

definition maybeSnapshot :: "host \<Rightarrow> int \<Rightarrow> nat \<Rightarrow> ovt_node \<Rightarrow> dir \<Rightarrow> dir res" where
  "maybeSnapshot H everyNTicks keep node d =
     (if snapshotDue (on_committed node) everyNTicks then take_snapshot H keep node d else Inr d)"

definition getTranscript :: "host \<Rightarrow> ovt_node \<Rightarrow> transcript res" where
  "getTranscript H node =
     and_then (incrementalStateRoot H (on_live node)) (\<lambda>root.
       Inr \<lparr>ts_genesis = on_genesis node, ts_ticks = on_ticks node, ts_eventLog = on_log node, ts_finalStateRoot = root\<rparr>)"

section \<open>Observing\<close>

record node_observation =
  ob_stateRoot :: jstring
  ob_globalRoot :: jstring
  ob_eventCount :: nat
  ob_lastEventHash :: jstring
  ob_currentTick :: int
  ob_recoveryMode :: recovery_mode
  ob_recoveredTailTicks :: nat
  ob_committedTicks :: int
  ob_stateAgentCount :: nat
  ob_walSizeBytes :: nat
  ob_snapshotCount :: nat
  ob_tailTicksSinceSnapshot :: int

definition observe :: "host \<Rightarrow> ovt_node \<Rightarrow> dir \<Rightarrow> node_observation res" where
  "observe H node d =
     (let live = on_live node; snaps = listSnapshots d;
          newestCovered = (case snaps of e # _ \<Rightarrow> fst e | [] \<Rightarrow> 0);
          agents = (case getIn (Some (inc_state live)) [js ''registry'', js ''agents''] of Some (JObj ob) \<Rightarrow> length ob | _ \<Rightarrow> 0)
      in and_then (incrementalStateRoot H live) (\<lambda>root.
         and_then (incrementalGlobalRoot H live) (\<lambda>groot.
           Inr \<lparr>ob_stateRoot = root, ob_globalRoot = groot, ob_eventCount = inc_eventCount live,
                ob_lastEventHash = js ''0x'' @ toHex (inc_lastEventHash live) False, ob_currentTick = inc_tick live,
                ob_recoveryMode = on_via node, ob_recoveredTailTicks = on_tail node, ob_committedTicks = on_committed node,
                ob_stateAgentCount = agents, ob_walSizeBytes = length (file_bytes wal_file d), ob_snapshotCount = length snaps,
                ob_tailTicksSinceSnapshot = on_committed node - newestCovered\<rparr>)))"

section \<open>The cadence\<close>

definition maxTailForSla :: "int \<Rightarrow> int \<Rightarrow> int \<Rightarrow> int \<Rightarrow> int" where
  "maxTailForSla slaMs snapshotLoadMs perTickMs marginMs = max 0 ((slaMs - snapshotLoadMs - marginMs) div perTickMs)"

definition operationalCadence :: "int \<Rightarrow> int \<Rightarrow> int \<Rightarrow> int \<Rightarrow> int" where
  "operationalCadence slaMs snapshotLoadMs perTickMs marginMs =
     max 1 (maxTailForSla slaMs snapshotLoadMs perTickMs marginMs div 2)"

definition predictedRecoveryMs :: "int \<Rightarrow> int \<Rightarrow> int \<Rightarrow> int \<Rightarrow> int" where
  "predictedRecoveryMs tailTicks snapshotLoadMs perTickMs marginMs = snapshotLoadMs + tailTicks * perTickMs + marginMs"

definition OPERATIONAL_CADENCE_TICKS :: int where
  "OPERATIONAL_CADENCE_TICKS = operationalCadence 60000 10 18 5000"

end
