(* ===== verification/Observers.thy ===== *)
theory Observers
  imports Persistent
begin

text \<open>
  The layers that watch a node: \<^verbatim>\<open>metrics.ts\<close>, \<^verbatim>\<open>monitoring.ts\<close>, \<^verbatim>\<open>alerting.ts\<close>, \<^verbatim>\<open>live-observer.ts\<close> and
  \<^verbatim>\<open>observer-fleet.ts\<close> of \<^verbatim>\<open>orchestrator/src/node\<close>. Times are whole milliseconds. Averages and rates, which are floating-point
  quotients, and the sentences of reasons and alerts are left out.
\<close>

section \<open>Metrics\<close>

text \<open>A ring of samples: it grows to its capacity, then the oldest one is overwritten.\<close>

record window =
  wn_buf :: "int list"
  wn_head :: nat
  wn_last :: int
  wn_count :: nat
  wn_cap :: nat

record stat =
  st_last :: int
  st_max :: int
  st_n :: nat

definition new_window :: "nat \<Rightarrow> window" where
  "new_window cap = \<lparr>wn_buf = [], wn_head = 0, wn_last = 0, wn_count = 0, wn_cap = cap\<rparr>"

definition window_add :: "int \<Rightarrow> window \<Rightarrow> window" where
  "window_add x w =
     (let w1 = w\<lparr>wn_last := x, wn_count := wn_count w + 1\<rparr>
      in if length (wn_buf w) < wn_cap w then w1\<lparr>wn_buf := wn_buf w @ [x]\<rparr>
         else w1\<lparr>wn_buf := (wn_buf w)[wn_head w := x], wn_head := (wn_head w + 1) mod wn_cap w\<rparr>)"

definition window_stat :: "window \<Rightarrow> stat" where
  "window_stat w =
     (case wn_buf w of
        [] \<Rightarrow> \<lparr>st_last = 0, st_max = 0, st_n = 0\<rparr>
      | v # vs \<Rightarrow> \<lparr>st_last = wn_last w, st_max = foldl (\<lambda>m x. if x > m then x else m) v vs, st_n = wn_count w\<rparr>)"

record performance =
  pf_tickDuration :: stat
  pf_tickDrift :: stat
  pf_submitLatency :: stat
  pf_snapshotDuration :: stat
  pf_recoveryDuration :: int

record metrics_report =
  mr_observation :: node_observation
  mr_performance :: performance
  mr_budgetMs :: int

definition estimatedRecoveryBudgetMs :: "int \<Rightarrow> int" where
  "estimatedRecoveryBudgetMs tailTicks = predictedRecoveryMs tailTicks 10 18 5000"

section \<open>Monitoring\<close>

datatype sla_status = SLA_OK | SLA_AT_RISK | SLA_VIOLATED

text \<open>\<open>atRiskMs\<close> is the product of \<open>slaMs\<close> and \<open>atRiskFraction\<close>.\<close>

definition slaWatch :: "int \<Rightarrow> int \<Rightarrow> metrics_report \<Rightarrow> sla_status" where
  "slaWatch slaMs atRiskMs report =
     (let budgetMs = mr_budgetMs report
      in if budgetMs \<ge> slaMs then SLA_VIOLATED else if budgetMs \<ge> atRiskMs then SLA_AT_RISK else SLA_OK)"

definition default_slaWatch :: "metrics_report \<Rightarrow> sla_status" where
  "default_slaWatch = slaWatch 60000 48000"

datatype health_status = HEALTHY | DEGRADED | UNHEALTHY

record health_thresholds =
  driftWarnMs :: int
  driftCritMs :: int

definition DEFAULT_HEALTH :: health_thresholds where
  "DEFAULT_HEALTH = \<lparr>driftWarnMs = 500, driftCritMs = 2000\<rparr>"

fun RANK :: "health_status \<Rightarrow> nat" where
  "RANK HEALTHY = 0"
| "RANK DEGRADED = 1"
| "RANK UNHEALTHY = 2"

definition worse :: "health_status \<Rightarrow> health_status \<Rightarrow> health_status" where
  "worse s status = (if RANK s > RANK status then s else status)"

text \<open>The status with the number of reasons.\<close>

definition nodeHealth :: "metrics_report \<Rightarrow> health_thresholds \<Rightarrow> health_status \<times> nat" where
  "nodeHealth report th =
     (let (s1, n1) = (case default_slaWatch report of
              SLA_VIOLATED \<Rightarrow> (worse UNHEALTHY HEALTHY, 1) | SLA_AT_RISK \<Rightarrow> (worse DEGRADED HEALTHY, 1) | SLA_OK \<Rightarrow> (HEALTHY, 0));
          drift = st_max (pf_tickDrift (mr_performance report))
      in if drift \<ge> driftCritMs th then (worse UNHEALTHY s1, n1 + 1)
         else if drift \<ge> driftWarnMs th then (worse DEGRADED s1, n1 + 1)
         else (s1, n1))"

record growth_sample =
  gs_tMs :: int
  gs_walBytes :: nat
  gs_agents :: nat
  gs_events :: nat
  gs_heapBytes :: nat

definition growth_add :: "nat \<Rightarrow> metrics_report \<Rightarrow> nat \<Rightarrow> int \<Rightarrow> growth_sample list \<Rightarrow> growth_sample list" where
  "growth_add cap report heapBytes tMs buf =
     (let ob = mr_observation report;
          buf1 = buf @ [\<lparr>gs_tMs = tMs, gs_walBytes = ob_walSizeBytes ob, gs_agents = ob_stateAgentCount ob,
                         gs_events = ob_eventCount ob, gs_heapBytes = heapBytes\<rparr>]
      in if length buf1 > cap then tl buf1 else buf1)"

record checkpoint =
  cp_tick :: int
  cp_stateRoot :: jstring
  cp_globalRoot :: jstring

datatype drift_field = FStateRoot | FGlobalRoot | FLength

record drift_result =
  dr_detected :: bool
  dr_checked :: nat
  dr_divergence :: "(int \<times> drift_field) option"

fun drift_from :: "nat \<Rightarrow> checkpoint list \<Rightarrow> checkpoint list \<Rightarrow> drift_result" where
  "drift_from i (a # as) (b # bs) =
     (if cp_stateRoot a \<noteq> cp_stateRoot b then \<lparr>dr_detected = True, dr_checked = i + 1, dr_divergence = Some (cp_tick a, FStateRoot)\<rparr>
      else if cp_globalRoot a \<noteq> cp_globalRoot b then
        \<lparr>dr_detected = True, dr_checked = i + 1, dr_divergence = Some (cp_tick a, FGlobalRoot)\<rparr>
      else drift_from (i + 1) as bs)"
| "drift_from i [] [] = \<lparr>dr_detected = False, dr_checked = i, dr_divergence = None\<rparr>"
| "drift_from i _ _ = \<lparr>dr_detected = True, dr_checked = i, dr_divergence = Some (int i, FLength)\<rparr>"

definition detectDrift :: "checkpoint list \<Rightarrow> checkpoint list \<Rightarrow> drift_result" where
  "detectDrift ts oracle = drift_from 0 ts oracle"

section \<open>Alerting\<close>

datatype severity = WARNING | CRITICAL

datatype alert_state = FIRING | RESOLVED

fun SEV_RANK :: "severity \<Rightarrow> int" where
  "SEV_RANK WARNING = 0"
| "SEV_RANK CRITICAL = 1"

record alert_event =
  al_key :: jstring
  al_state :: alert_state
  al_severity :: severity
  al_atMs :: int

record alert_input =
  ai_report :: metrics_report
  ai_drift :: "drift_result option"
  ai_nowMs :: int

text \<open>A verdict: the severity if the rule fires.\<close>

record alert_rule =
  ar_key :: jstring
  ar_evaluate :: "alert_input \<Rightarrow> severity option"

definition defaultAlertRules :: "health_thresholds \<Rightarrow> alert_rule list" where
  "defaultAlertRules th =
     [\<lparr>ar_key = js ''recovery-sla'',
       ar_evaluate = (\<lambda>input. case default_slaWatch (ai_report input) of
         SLA_VIOLATED \<Rightarrow> Some CRITICAL | SLA_AT_RISK \<Rightarrow> Some WARNING | SLA_OK \<Rightarrow> None)\<rparr>,
      \<lparr>ar_key = js ''scheduler-drift'',
       ar_evaluate = (\<lambda>input. let d = st_max (pf_tickDrift (mr_performance (ai_report input)))
         in if d \<ge> driftCritMs th then Some CRITICAL else if d \<ge> driftWarnMs th then Some WARNING else None)\<rparr>,
      \<lparr>ar_key = js ''ts-go-drift'',
       ar_evaluate = (\<lambda>input. case ai_drift input of Some d \<Rightarrow> if dr_detected d then Some CRITICAL else None | None \<Rightarrow> None)\<rparr>]"

type_synonym firing = "(jstring \<times> severity) list"

definition evaluate_rule :: "alert_input \<Rightarrow> alert_rule \<Rightarrow> firing \<Rightarrow> firing \<times> alert_event list" where
  "evaluate_rule input rule fs =
     (let key = ar_key rule; active = map_of fs key;
          event = (\<lambda>st sev. \<lparr>al_key = key, al_state = st, al_severity = sev, al_atMs = ai_nowMs input\<rparr>)
      in case ar_evaluate rule input of
           Some sev \<Rightarrow> if active = Some sev then (fs, []) else (AList.update key sev fs, [event FIRING sev])
         | None \<Rightarrow> (case active of Some sev \<Rightarrow> (AList.delete key fs, [event RESOLVED sev]) | None \<Rightarrow> (fs, [])))"

fun evaluate_alerts :: "alert_input \<Rightarrow> alert_rule list \<Rightarrow> firing \<Rightarrow> firing \<times> alert_event list" where
  "evaluate_alerts input [] fs = (fs, [])"
| "evaluate_alerts input (r # rs) fs =
     (let (fs1, e1) = evaluate_rule input r fs; (fs2, e2) = evaluate_alerts input rs fs1 in (fs2, e1 @ e2))"

definition active_alerts :: "firing \<Rightarrow> firing" where
  "active_alerts fs = sort_key (\<lambda>a. - SEV_RANK (snd a)) fs"

section \<open>The live observer\<close>

datatype observer_status = OBSERVED_OK | OBSERVED_DRIFT | OBSERVED_EMPTY

record observer_verdict =
  ov_status :: observer_status
  ov_observedTicks :: nat
  ov_claimedStateRoot :: jstring
  ov_derivedStateRoot :: jstring
  ov_claimedGlobalRoot :: jstring
  ov_derivedGlobalRoot :: jstring

record head_claim =
  hd_tickCount :: nat
  hd_finalStateRoot :: jstring
  hd_eventLogRoot :: jstring

definition read_head :: "dir \<Rightarrow> head_claim pres" where
  "read_head d =
     (case map_of d head_file of
        None \<Rightarrow> Inl NoFile
      | Some b \<Rightarrow> raised (and_then (json_parse (to_text b)) (\<lambda>v.
          and_then (as_count (member ''tickCount'' v)) (\<lambda>n.
          and_then (as_string (member ''finalStateRoot'' v)) (\<lambda>r.
          and_then (as_string (member ''eventLogRoot'' v)) (\<lambda>g.
            Inr \<lparr>hd_tickCount = n, hd_finalStateRoot = r, hd_eventLogRoot = g\<rparr>))))))"

definition live_observe :: "host \<Rightarrow> dir \<Rightarrow> observer_verdict pres" where
  "live_observe H d =
     and_then (read_head d) (\<lambda>head.
     and_then (readProgram d) (\<lambda>(g, blocks).
       let claimedN = hd_tickCount head in
       if claimedN = 0 then
         Inr \<lparr>ov_status = OBSERVED_EMPTY, ov_observedTicks = 0, ov_claimedStateRoot = hd_finalStateRoot head, ov_derivedStateRoot = [],
              ov_claimedGlobalRoot = hd_eventLogRoot head, ov_derivedGlobalRoot = []\<rparr>
       else raised (
         and_then (map_res block_of (take claimedN blocks)) (\<lambda>ticks.
         and_then (run_node H (Some g) ticks) (\<lambda>t.
           let sroot = ts_finalStateRoot t;
               groot = (if ts_ticks t = [] then [] else tr_globalMerkleRoot (last (ts_ticks t)));
               okay = (length ticks = claimedN \<and> sroot = hd_finalStateRoot head \<and> groot = hd_eventLogRoot head)
           in Inr \<lparr>ov_status = (if okay then OBSERVED_OK else OBSERVED_DRIFT), ov_observedTicks = length ticks,
                   ov_claimedStateRoot = hd_finalStateRoot head, ov_derivedStateRoot = sroot,
                   ov_claimedGlobalRoot = hd_eventLogRoot head, ov_derivedGlobalRoot = groot\<rparr>)))))"

section \<open>The fleet\<close>

datatype fleet_status = CONSENSUS_OK | NODE_DRIFT | OBSERVER_SPLIT | FLEET_EMPTY

record fleet_verdict =
  fv_status :: fleet_status
  fv_members :: nat
  fv_quorum :: nat
  fv_agree :: nat
  fv_observedTicks :: nat
  fv_quorumStateRoot :: jstring
  fv_quorumGlobalRoot :: jstring
  fv_claimedStateRoot :: jstring
  fv_claimedGlobalRoot :: jstring
  fv_dissenters :: "nat list"

definition fleet_quorum :: "nat \<Rightarrow> nat option \<Rightarrow> nat pres" where
  "fleet_quorum members q =
     (let quorum = (case q of Some n \<Rightarrow> n | None \<Rightarrow> members div 2 + 1)
      in if quorum < 1 \<or> quorum > members then Inl (Thrown TypeError) else Inr quorum)"

text \<open>\<open>|\<close> between the two roots.\<close>

definition group_key :: "observer_verdict \<Rightarrow> jstring" where
  "group_key v = ov_derivedStateRoot v @ [0x7c] @ ov_derivedGlobalRoot v"

definition groups :: "observer_verdict list \<Rightarrow> (jstring \<times> nat list) list" where
  "groups vs =
     foldl (\<lambda>gs (i, v). AList.update (group_key v) ((case map_of gs (group_key v) of Some xs \<Rightarrow> xs | None \<Rightarrow> []) @ [i]) gs) []
       (enumerate 0 vs)"

definition winner :: "observer_verdict list \<Rightarrow> nat list" where
  "winner vs = foldl (\<lambda>w g. if length (snd g) > length w then snd g else w) [] (groups vs)"

definition fleet_observe :: "nat \<Rightarrow> observer_verdict list \<Rightarrow> fleet_verdict" where
  "fleet_observe quorum vs =
     (let first = vs ! 0;
          base = \<lparr>fv_status = FLEET_EMPTY, fv_members = length vs, fv_quorum = quorum, fv_agree = length vs,
                  fv_observedTicks = ov_observedTicks first, fv_quorumStateRoot = [], fv_quorumGlobalRoot = [],
                  fv_claimedStateRoot = ov_claimedStateRoot first, fv_claimedGlobalRoot = ov_claimedGlobalRoot first,
                  fv_dissenters = []\<rparr>
      in if list_all (\<lambda>v. ov_status v = OBSERVED_EMPTY) vs then base
         else
           let w = winner vs; lead = vs ! (w ! 0); agree = length w;
               dissenters = filter (\<lambda>i. i \<notin> set w) [0..<length vs];
               full = base\<lparr>fv_agree := agree, fv_quorumStateRoot := ov_derivedStateRoot lead,
                           fv_quorumGlobalRoot := ov_derivedGlobalRoot lead, fv_dissenters := dissenters\<rparr>
           in if agree < quorum then full\<lparr>fv_status := OBSERVER_SPLIT\<rparr>
              else if \<not> (ov_derivedStateRoot lead = ov_claimedStateRoot first \<and> ov_derivedGlobalRoot lead = ov_claimedGlobalRoot first)
              then full\<lparr>fv_status := NODE_DRIFT\<rparr>
              else full\<lparr>fv_status := (if dissenters = [] then CONSENSUS_OK else OBSERVER_SPLIT)\<rparr>)"

end
