(* ===== verification/Observers_Props.thy ===== *)
theory Observers_Props
  imports Observers
begin

text \<open>
  What the observing layers promise: the ring of a metrics window holds the latest samples, the drift detector compares streams, the
  events of the alert manager are enough to know what is firing, and a fleet with an honest majority tells a wrong node from a wrong
  observer.
\<close>

section \<open>Windows\<close>

text \<open>The ring, read from its oldest sample.\<close>

definition ring :: "window \<Rightarrow> int list" where
  "ring w = drop (wn_head w) (wn_buf w) @ take (wn_head w) (wn_buf w)"

definition window_of :: "nat \<Rightarrow> int list \<Rightarrow> window \<Rightarrow> bool" where
  "window_of cap xs w \<longleftrightarrow>
     wn_cap w = cap \<and> wn_count w = length xs \<and> (xs \<noteq> [] \<longrightarrow> wn_last w = last xs) \<and> length (wn_buf w) \<le> cap \<and>
     wn_head w < cap \<and> (length (wn_buf w) < cap \<longrightarrow> wn_head w = 0) \<and> length (wn_buf w) = min cap (length xs) \<and>
     ring w = drop (length xs - cap) xs"

lemma ring_overwrite:
  assumes "h < length b"
  shows "drop (Suc h mod length b) (b[h := x]) @ take (Suc h mod length b) (b[h := x]) = tl (drop h b @ take h b) @ [x]"
proof (cases "Suc h = length b")
  case True
  then have "drop h b = [b ! h]" by (simp add: Cons_nth_drop_Suc [symmetric])
  moreover from True have "b[h := x] = take h b @ [x]" by (simp add: upd_conv_take_nth_drop)
  ultimately show ?thesis using True by simp
next
  case False
  with assms have "Suc h < length b" by simp
  then show ?thesis using assms
    by (simp add: take_Suc_conv_app_nth Cons_nth_drop_Suc [symmetric] drop_update_cancel)
qed

lemma window_add_of:
  assumes "window_of cap xs w"
  shows "window_of cap (xs @ [x]) (window_add x w)"
proof (cases "length (wn_buf w) < cap")
  case True
  with assms have n: "length xs < cap" "wn_head w = 0" "wn_cap w = cap" "wn_count w = length xs"
    by (auto simp: window_of_def min_def split: if_splits)
  with assms have "wn_buf w = xs" by (simp add: window_of_def ring_def)
  with n show ?thesis by (simp add: window_of_def window_add_def ring_def Let_def)
next
  case False
  with assms have n: "length (wn_buf w) = cap" "cap \<le> length xs" "wn_head w < length (wn_buf w)"
    by (auto simp: window_of_def)
  have "tl (drop (length xs - cap) xs) = drop (Suc (length xs - cap)) xs" by (simp add: drop_Suc tl_drop)
  moreover have "Suc (length xs) - cap = Suc (length xs - cap)" "Suc (length xs - cap) \<le> length xs" using n by auto
  ultimately have "tl (drop (length xs - cap) xs) @ [x] = drop (Suc (length xs) - cap) (xs @ [x])" by simp
  with assms n ring_overwrite [OF n(3), of x] show ?thesis
    by (auto simp: window_of_def window_add_def ring_def Let_def)
qed

lemma window_of_run: "0 < cap \<Longrightarrow> window_of cap xs (foldl (\<lambda>w x. window_add x w) (new_window cap) xs)"
proof (induction xs rule: rev_induct)
  case Nil
  then show ?case by (simp add: window_of_def new_window_def ring_def)
qed (simp add: window_add_of)

lemma fold_max: "foldl (\<lambda>m x. if x > m then x else m) v vs = Max (insert v (set vs))" for v :: int
proof (induction vs arbitrary: v)
  case (Cons a vs)
  have "Max (insert (if a > v then a else v) (set vs)) = Max (insert v (insert a (set vs)))"
    by (cases "set vs = {}") (auto simp: max_def)
  with Cons show ?case by simp
qed simp

text \<open>
  A metrics window with a capacity reports, after any stream of samples, their number, the last one, and the maximum of the latest
  ones that fit: the ring overwrites exactly the oldest sample.
\<close>

theorem window_reports_latest:
  assumes "0 < cap" "xs \<noteq> []"
  shows "window_stat (foldl (\<lambda>w x. window_add x w) (new_window cap) xs) =
    \<lparr>st_last = last xs, st_max = Max (set (drop (length xs - cap) xs)), st_n = length xs\<rparr>"
proof -
  let ?w = "foldl (\<lambda>w x. window_add x w) (new_window cap) xs"
  have w: "window_of cap xs ?w" using assms by (intro window_of_run)
  then have s: "set (wn_buf ?w) = set (drop (length xs - cap) xs)"
    unfolding window_of_def ring_def by (metis append_take_drop_id set_append Un_commute)
  have "length (wn_buf ?w) = min cap (length xs)" using w by (simp add: window_of_def)
  then have "wn_buf ?w \<noteq> []" using assms by (auto simp: min_def split: if_splits)
  then obtain v vs where b: "wn_buf ?w = v # vs" by (cases "wn_buf ?w") auto
  with s have "insert v (set vs) = set (drop (length xs - cap) xs)" by simp
  with w b assms show ?thesis by (simp add: window_stat_def fold_max window_of_def)
qed

theorem window_reports_latest_witness:
  "window_stat (foldl (\<lambda>w x. window_add x w) (new_window 2) [9, 3, 5]) = \<lparr>st_last = 5, st_max = Max {3, 5}, st_n = 3\<rparr>"
  using window_reports_latest [of 2 "[9, 3, 5]"] by simp

section \<open>Drift\<close>

definition roots_of :: "checkpoint \<Rightarrow> jstring \<times> jstring" where
  "roots_of c = (cp_stateRoot c, cp_globalRoot c)"

lemma drift_from_iff: "dr_detected (drift_from i ts ref) \<longleftrightarrow> map roots_of ts \<noteq> map roots_of ref"
  by (induction i ts ref rule: drift_from.induct) (auto simp: roots_of_def)

section \<open>Alerts\<close>

text \<open>A subscriber that only hears the events.\<close>

definition heard :: "(jstring \<Rightarrow> severity option) \<Rightarrow> alert_event \<Rightarrow> jstring \<Rightarrow> severity option" where
  "heard m e = m(al_key e := (case al_state e of FIRING \<Rightarrow> Some (al_severity e) | RESOLVED \<Rightarrow> None))"

lemma evaluate_rule_effect:
  assumes "evaluate_rule input r fs = (fs1, e1)" "distinct (map fst fs)"
  shows "map_of fs1 = (map_of fs)(ar_key r := ar_evaluate r input)" "distinct (map fst fs1)"
    "foldl heard (map_of fs) e1 = map_of fs1" "map al_key e1 = (if map_of fs (ar_key r) = ar_evaluate r input then [] else [ar_key r])"
  using assms
  by (auto simp: evaluate_rule_def Let_def heard_def update_conv' delete_conv' distinct_update distinct_delete fun_eq_iff
      split: option.splits if_splits)

lemma evaluate_alerts_effect:
  assumes "evaluate_alerts input rules fs = (fs', ev)" "distinct (map ar_key rules)" "distinct (map fst fs)"
  shows "(\<forall>r \<in> set rules. map_of fs' (ar_key r) = ar_evaluate r input) \<and>
    (\<forall>k. k \<notin> ar_key ` set rules \<longrightarrow> map_of fs' k = map_of fs k) \<and> distinct (map fst fs') \<and>
    foldl heard (map_of fs) ev = map_of fs' \<and> distinct (map al_key ev) \<and> al_key ` set ev = {k. map_of fs' k \<noteq> map_of fs k}"
  using assms
proof (induction rules arbitrary: fs ev)
  case (Cons r rules)
  obtain fs1 e1 where 1: "evaluate_rule input r fs = (fs1, e1)" by fastforce
  obtain e2 where 2: "evaluate_alerts input rules fs1 = (fs', e2)" and ev: "ev = e1 @ e2"
    using Cons.prems(1) 1 by (auto split: prod.splits)
  note e = evaluate_rule_effect [OF 1 Cons.prems(3)]
  have k: "ar_key r \<notin> ar_key ` set rules" and d: "distinct (map ar_key rules)" using Cons.prems(2) by auto
  note IH = Cons.IH [OF 2 d e(2)]
  have s1: "al_key ` set e1 = (if map_of fs (ar_key r) = ar_evaluate r input then {} else {ar_key r})"
    using arg_cong [OF e(4), of set] by (simp split: if_splits)
  have s2: "al_key ` set e2 = {k. map_of fs' k \<noteq> map_of fs1 k}" using IH by blast
  have r: "map_of fs' (ar_key r) = ar_evaluate r input" using IH k e(1) by simp
  have "al_key ` set ev = al_key ` set e1 \<union> al_key ` set e2" by (simp add: ev image_Un)
  also have "\<dots> = {k. map_of fs' k \<noteq> map_of fs k}" unfolding s1 s2 e(1) using r by auto
  finally have "al_key ` set ev = {k. map_of fs' k \<noteq> map_of fs k}" .
  moreover have "distinct (map al_key ev)"
    using IH e(4) s1 s2 e(1) r unfolding ev by (auto split: if_splits)
  moreover have "foldl heard (map_of fs) ev = map_of fs'" using IH e(3) ev by simp
  moreover have "\<forall>k. k \<notin> ar_key ` set (r # rules) \<longrightarrow> map_of fs' k = map_of fs k" using IH e(1) by simp
  ultimately show ?case using IH r by simp
qed simp

lemma evaluate_alerts_quiet: "\<forall>r \<in> set rules. map_of fs (ar_key r) = ar_evaluate r input \<Longrightarrow> evaluate_alerts input rules fs = (fs, [])"
  by (induction rules) (auto simp: evaluate_rule_def Let_def split: option.splits)

text \<open>
  C16: Alerts. After an evaluation exactly the rules whose condition holds are firing, at their severity, and other keys are untouched;
  there is one event for every key whose alert changed and none for others, so that a subscriber that only hears the events knows
  what is firing; and evaluating again while the conditions hold emits nothing.
\<close>

theorem alerts_track_rules:
  assumes "evaluate_alerts input rules fs = (fs', ev)" "distinct (map ar_key rules)" "distinct (map fst fs)"
  shows "(\<forall>r \<in> set rules. map_of fs' (ar_key r) = ar_evaluate r input) \<and>
    (\<forall>k. k \<notin> ar_key ` set rules \<longrightarrow> map_of fs' k = map_of fs k) \<and>
    foldl heard (map_of fs) ev = map_of fs' \<and> distinct (map al_key ev) \<and> al_key ` set ev = {k. map_of fs' k \<noteq> map_of fs k} \<and>
    (\<forall>later. (\<forall>r \<in> set rules. ar_evaluate r later = ar_evaluate r input) \<longrightarrow> evaluate_alerts later rules fs' = (fs', []))"
  using evaluate_alerts_effect [OF assms] by (auto intro!: evaluate_alerts_quiet)

definition quiet_stat :: stat where
  "quiet_stat = \<lparr>st_last = 0, st_max = 0, st_n = 0\<rparr>"

definition late_report :: "node_observation \<Rightarrow> metrics_report" where
  "late_report ob = \<lparr>mr_observation = ob,
     mr_performance = \<lparr>pf_tickDuration = quiet_stat, pf_tickDrift = \<lparr>st_last = 0, st_max = 700, st_n = 4\<rparr>,
       pf_submitLatency = quiet_stat, pf_snapshotDuration = quiet_stat, pf_recoveryDuration = 0\<rparr>,
     mr_budgetMs = 61000\<rparr>"

definition quiet_observation :: node_observation where
  "quiet_observation = \<lparr>ob_stateRoot = [], ob_globalRoot = [], ob_eventCount = 0, ob_lastEventHash = [], ob_currentTick = 0,
     ob_recoveryMode = FRESH, ob_recoveredTailTicks = 0, ob_committedTicks = 0, ob_stateAgentCount = 0, ob_walSizeBytes = 0,
     ob_snapshotCount = 0, ob_tailTicksSinceSnapshot = 0\<rparr>"

definition late_input :: alert_input where
  "late_input = \<lparr>ai_report = late_report quiet_observation, ai_drift = None, ai_nowMs = 5\<rparr>"

text \<open>A drift that was critical falls to a warning while the recovery budget is exceeded: both are reported.\<close>

theorem alerts_track_rules_witness:
  "\<exists>fs' ev. evaluate_alerts late_input (defaultAlertRules DEFAULT_HEALTH) [(js ''scheduler-drift'', CRITICAL)] = (fs', ev) \<and>
     map al_severity ev = [CRITICAL, WARNING] \<and> foldl heard (map_of [(js ''scheduler-drift'', CRITICAL)]) ev = map_of fs'"
proof -
  let ?fs = "[(js ''scheduler-drift'', CRITICAL)]" and ?rules = "defaultAlertRules DEFAULT_HEALTH"
  obtain fs' ev where e: "evaluate_alerts late_input ?rules ?fs = (fs', ev)" by fastforce
  have "map al_severity (snd (evaluate_alerts late_input ?rules ?fs)) = [CRITICAL, WARNING]" by code_simp
  moreover have "distinct (map ar_key ?rules)" "distinct (map fst ?fs)" by code_simp+
  ultimately show ?thesis using alerts_track_rules [OF e] e by auto
qed

section \<open>Fleets\<close>

definition derived :: "observer_verdict \<Rightarrow> jstring \<times> jstring" where
  "derived v = (ov_derivedStateRoot v, ov_derivedGlobalRoot v)"

definition claimed :: "observer_verdict \<Rightarrow> jstring \<times> jstring" where
  "claimed v = (ov_claimedStateRoot v, ov_claimedGlobalRoot v)"

definition positions :: "(observer_verdict \<Rightarrow> bool) \<Rightarrow> observer_verdict list \<Rightarrow> nat list" where
  "positions P vs = filter (\<lambda>i. P (vs ! i)) [0..<length vs]"

lemma positions_snoc: "positions P (vs @ [v]) = positions P vs @ (if P v then [length vs] else [])"
  by (auto simp: positions_def nth_append intro!: filter_cong)

lemma length_positions: "length (positions P vs) = length (filter P vs)"
  by (induction vs rule: rev_induct) (simp_all add: positions_snoc, simp add: positions_def)

lemma distinct_positions: "distinct (positions P vs)"
  by (simp add: positions_def)

lemma in_positions: "i \<in> set (positions P vs) \<longleftrightarrow> i < length vs \<and> P (vs ! i)"
  by (auto simp: positions_def)

lemma groups_snoc:
  "groups (vs @ [v]) =
     AList.update (group_key v) ((case map_of (groups vs) (group_key v) of Some xs \<Rightarrow> xs | None \<Rightarrow> []) @ [length vs]) (groups vs)"
  by (simp add: groups_def enumerate_append_eq)

text \<open>A group holds the positions of its key, in order.\<close>

lemma groups_of:
  "map_of (groups vs) k = (let p = positions (\<lambda>v. group_key v = k) vs in if p = [] then None else Some p) \<and>
   distinct (map fst (groups vs))"
proof (induction vs rule: rev_induct)
  case Nil
  then show ?case by (simp add: groups_def positions_def)
next
  case (snoc v vs)
  then show ?case by (auto simp: groups_snoc positions_snoc update_conv' distinct_update Let_def)
qed

lemma longest_of:
  fixes gs :: "('a \<times> nat list) list" and w0 :: "nat list"
  defines "r \<equiv> foldl (\<lambda>w g. if length (snd g) > length w then snd g else w) w0 gs"
  shows "r \<in> insert w0 (snd ` set gs) \<and> (\<forall>x \<in> insert w0 (snd ` set gs). length x \<le> length r)"
  unfolding r_def
proof (induction gs rule: rev_induct)
  case (snoc g gs)
  let ?r = "foldl (\<lambda>w g. if length (snd g) > length w then snd g else w) w0 gs"
  show ?case
  proof (cases "length (snd g) > length ?r")
    case True
    with snoc show ?thesis by (auto intro: order_trans less_imp_le)
  next
    case False
    with snoc show ?thesis by auto
  qed
qed simp

lemma winner_majority:
  assumes "length vs < 2 * length (filter (\<lambda>v. group_key v = k) vs)"
  shows "winner vs = positions (\<lambda>v. group_key v = k) vs"
proof -
  let ?p = "\<lambda>k. positions (\<lambda>v. group_key v = k) vs"
  have k: "length vs < 2 * length (?p k)" using assms by (simp add: length_positions)
  then have "map_of (groups vs) k = Some (?p k)" using groups_of [of vs k] by (auto simp: Let_def)
  then have "?p k \<in> snd ` set (groups vs)" by (force dest: map_of_SomeD)
  with longest_of [of "[]" "groups vs"] have w: "winner vs \<in> insert [] (snd ` set (groups vs))" "length (?p k) \<le> length (winner vs)"
    by (auto simp: winner_def)
  with k have "winner vs \<in> snd ` set (groups vs)" by auto
  then obtain j where "(j, winner vs) \<in> set (groups vs)" by auto
  then have "map_of (groups vs) j = Some (winner vs)" by (rule map_of_is_SomeI [OF conjunct2 [OF groups_of]])
  then have j: "winner vs = ?p j" using groups_of [of vs j] by (auto simp: Let_def split: if_splits)
  have "j = k"
  proof (rule ccontr)
    assume "j \<noteq> k"
    then have "set (?p j) \<inter> set (?p k) = {}" by (auto simp: in_positions)
    then have "card (set (?p j) \<union> set (?p k)) = length (?p j) + length (?p k)"
      by (subst card_Un_disjoint) (simp_all add: distinct_card [OF distinct_positions])
    moreover have "card (set (?p j) \<union> set (?p k)) \<le> card {..<length vs}" by (rule card_mono) (auto simp: in_positions)
    ultimately show False using k w(2) j by simp
  qed
  with j show ?thesis by simp
qed

lemma group_key_iff:
  assumes "0x7c \<notin> set (ov_derivedStateRoot u)" "0x7c \<notin> set (ov_derivedStateRoot v)"
  shows "group_key u = group_key v \<longleftrightarrow> derived u = derived v"
proof
  have cut: "takeWhile (\<lambda>c. c \<noteq> 0x7c) (group_key w) = ov_derivedStateRoot w" if "0x7c \<notin> set (ov_derivedStateRoot w)" for w
    unfolding group_key_def using that by (subst takeWhile_append2) auto
  assume k: "group_key u = group_key v"
  with cut [OF assms(1)] cut [OF assms(2)] have "ov_derivedStateRoot u = ov_derivedStateRoot v" by simp
  with k show "derived u = derived v" by (simp add: group_key_def derived_def)
qed (simp add: group_key_def derived_def)

text \<open>
  C15: With more than half of the members, and at least the quorum, deriving the same pair of roots, the fleet reports that pair, isolates
  exactly the members that derived another one, and blames the node if and only if the claim of the first member is another pair: a
  minority of faulty members can neither hide a wrong node nor change the roots, as long as the first member reads the claim right.
\<close>

theorem fleet_isolates_minority:
  assumes "length vs < 2 * length (filter (\<lambda>v. derived v = r) vs)" "quorum \<le> length (filter (\<lambda>v. derived v = r) vs)"
    "\<exists>v \<in> set vs. ov_status v \<noteq> OBSERVED_EMPTY" "\<forall>v \<in> set vs. 0x7c \<notin> set (ov_derivedStateRoot v)"
  shows "(fv_quorumStateRoot (fleet_observe quorum vs), fv_quorumGlobalRoot (fleet_observe quorum vs)) = r \<and>
    fv_dissenters (fleet_observe quorum vs) = positions (\<lambda>v. derived v \<noteq> r) vs \<and>
    fv_agree (fleet_observe quorum vs) = length (filter (\<lambda>v. derived v = r) vs) \<and>
    fv_status (fleet_observe quorum vs) =
      (if claimed (hd vs) \<noteq> r then NODE_DRIFT else if \<forall>v \<in> set vs. derived v = r then CONSENSUS_OK else OBSERVER_SPLIT)"
proof -
  let ?good = "filter (\<lambda>v. derived v = r) vs" and ?w = "positions (\<lambda>v. derived v = r) vs"
  have "?good \<noteq> []" using assms(1) by (cases ?good) auto
  then obtain u where u: "u \<in> set vs" "derived u = r" by (auto simp: filter_empty_conv)
  have same: "group_key v = group_key u \<longleftrightarrow> derived v = r" if "v \<in> set vs" for v
    using group_key_iff [of v u] assms(4) that u by simp
  then have f: "filter (\<lambda>v. group_key v = group_key u) vs = ?good" by (auto intro!: filter_cong)
  have p: "positions (\<lambda>v. group_key v = group_key u) vs = ?w"
    unfolding positions_def using same by (auto intro!: filter_cong)
  with winner_majority [of vs "group_key u"] f assms(1) have w: "winner vs = ?w" by simp
  have n: "length ?w = length ?good" by (rule length_positions)
  with assms(1) have "?w \<noteq> []" by auto
  then have "?w ! 0 \<in> set ?w" by simp
  then have lead: "derived (vs ! (?w ! 0)) = r" by (simp add: in_positions del: nth_mem)
  have d: "filter (\<lambda>i. i \<notin> set ?w) [0..<length vs] = positions (\<lambda>v. derived v \<noteq> r) vs"
    unfolding positions_def by (auto intro!: filter_cong)
  have all: "positions (\<lambda>v. derived v \<noteq> r) vs = [] \<longleftrightarrow> (\<forall>v \<in> set vs. derived v = r)"
    using length_positions [of "\<lambda>v. derived v \<noteq> r" vs] by (metis (mono_tags, lifting) filter_False filter_empty_conv length_0_conv)
  have ne: "\<not> list_all (\<lambda>v. ov_status v = OBSERVED_EMPTY) vs" using assms(3) by (auto simp: list_all_iff)
  have "vs ! 0 = hd vs" using u by (cases vs) auto
  with ne lead assms(2) w n d all show ?thesis
    by (auto simp: fleet_observe_def Let_def claimed_def derived_def)
qed

definition honest_verdict :: observer_verdict where
  "honest_verdict = \<lparr>ov_status = OBSERVED_OK, ov_observedTicks = 2, ov_claimedStateRoot = js ''0xaa'', ov_derivedStateRoot = js ''0xaa'',
     ov_claimedGlobalRoot = js ''0xbb'', ov_derivedGlobalRoot = js ''0xbb''\<rparr>"

definition faulty_verdict :: observer_verdict where
  "faulty_verdict = honest_verdict\<lparr>ov_status := OBSERVED_DRIFT, ov_derivedStateRoot := js ''0xcc''\<rparr>"

theorem fleet_isolates_minority_witness:
  "fv_status (fleet_observe 2 [honest_verdict, faulty_verdict, honest_verdict]) = OBSERVER_SPLIT \<and>
   fv_dissenters (fleet_observe 2 [honest_verdict, faulty_verdict, honest_verdict]) = [1]"
proof -
  let ?vs = "[honest_verdict, faulty_verdict, honest_verdict]" and ?r = "(js ''0xaa'', js ''0xbb'')"
  have d: "derived honest_verdict = ?r" "derived faulty_verdict \<noteq> ?r" "claimed honest_verdict = ?r" by code_simp+
  then have f: "filter (\<lambda>v. derived v = ?r) ?vs = [honest_verdict, honest_verdict]" by simp
  have c: "\<forall>v \<in> set ?vs. 0x7c \<notin> set (ov_derivedStateRoot v)" by code_simp
  have e: "\<exists>v \<in> set ?vs. ov_status v \<noteq> OBSERVED_EMPTY" by (simp add: honest_verdict_def)
  have p: "positions (\<lambda>v. derived v \<noteq> ?r) ?vs = [1]" by code_simp
  from fleet_isolates_minority [of ?vs ?r 2] f c e p d show ?thesis by simp
qed

text \<open>The claim is taken from the first member alone: if it misreports it, two honest members are read as proof of a wrong node.\<close>

lemma lying_member_blames_node:
  "fv_status (fleet_observe 2 [honest_verdict\<lparr>ov_claimedStateRoot := js ''0xdd''\<rparr>, honest_verdict, honest_verdict]) = NODE_DRIFT"
  by code_simp

text \<open>
  A node with an empty checkpoint: the honest members say so, deriving no roots, and one faulty member makes their majority a proof of a
  wrong node, since the empty roots are compared with the claimed ones.
\<close>

definition empty_verdict :: observer_verdict where
  "empty_verdict = \<lparr>ov_status = OBSERVED_EMPTY, ov_observedTicks = 0, ov_claimedStateRoot = js ''0xaa'', ov_derivedStateRoot = [],
     ov_claimedGlobalRoot = [], ov_derivedGlobalRoot = []\<rparr>"

lemma faulty_member_on_empty_node:
  "fv_status (fleet_observe 2 [empty_verdict, empty_verdict, empty_verdict]) = FLEET_EMPTY \<and>
   fv_status (fleet_observe 2 [empty_verdict, empty_verdict, faulty_verdict]) = NODE_DRIFT"
  by code_simp

end
