(* ===== verification/Json_Text_Props.thy ===== *)
theory Json_Text_Props
  imports Json_Text
begin

text \<open>
  What the files of the node rest on: a value that is written is read back, a text that is cut short is not read at all, and the
  bytes of a cut text decode to the text before the cut.
\<close>

interpretation json_machine: run_fold read_unit read_units
  by unfold_locales simp_all

section \<open>Strings\<close>

lemma plain_unit:
  assumes "uint c \<ge> 0x20" "c \<noteq> 0x22" "c \<noteq> 0x5c"
  shows "escape_unit c = [c]"
proof -
  have "c \<noteq> 0x08" "c \<noteq> 0x09" "c \<noteq> 0x0a" "c \<noteq> 0x0c" "c \<noteq> 0x0d" using assms(1) by auto
  with assms show ?thesis by (simp add: escape_unit_def)
qed

lemma surrogate_large: "high_surrogate c \<or> low_surrogate c \<Longrightarrow> uint c \<ge> 0x20 \<and> c \<noteq> 0x22 \<and> c \<noteq> 0x5c"
  by (auto simp: high_surrogate_def low_surrogate_def)

lemma hex_chars:
  assumes "0 \<le> d" "d < 16"
  shows "is_hex_char (hex_digit d)" "parseHexDigit (hex_digit d) = d"
  using hex_digit_range [OF assms] assms by (simp_all add: is_hex_char_def)

lemma read_hex:
  assumes "0 \<le> v" "v < 65536"
  shows "read_units (byte_hex (word_of_int (v div 256)) @ byte_hex (word_of_int (v mod 256))) (MHex r acc 0 0, k) =
    Inr (MStr r (acc @ [word_of_int v]), k)"
proof -
  have b: "uint (word_of_int (v div 256) :: 8 word) = v div 256" "uint (word_of_int (v mod 256) :: 8 word) = v mod 256"
    using assms by (simp_all add: uint_byte)
  have d: "0 \<le> v div 256 div 16" "v div 256 div 16 < 16" "0 \<le> v div 256 mod 16" "v div 256 mod 16 < 16"
    "0 \<le> v mod 256 div 16" "v mod 256 div 16 < 16" "0 \<le> v mod 256 mod 16" "v mod 256 mod 16 < 16"
    using assms by (simp_all add: zdiv_zmult2_eq [symmetric])
  have "((v div 256 div 16 * 16 + v div 256 mod 16) * 16 + v mod 256 div 16) * 16 + v mod 256 mod 16 = v"
    by presburger
  then show ?thesis
    unfolding byte_hex_def b by (simp add: hex_chars d eval_nat_numeral)
qed

lemma read_unicode_escape:
  "read_units (unicode_escape c) (MStr r acc, k) = Inr (MStr r (acc @ [c]), k)"
proof -
  have s: "simple_escape 0x75 = None" by (simp add: simple_escape_def)
  have "read_units (byte_hex (word_of_int (uint c div 256)) @ byte_hex (word_of_int (uint c mod 256))) (MHex r acc 0 0, k) =
      Inr (MStr r (acc @ [c]), k)"
    using read_hex [of "uint c" r acc k] uint16_bounds [of c] by simp
  then show ?thesis by (simp add: unicode_escape_def s)
qed

lemma read_escape_unit: "read_units (escape_unit c) (MStr r acc, k) = Inr (MStr r (acc @ [c]), k)"
proof (cases "uint c < 0x20 \<and> c \<notin> {0x08, 0x09, 0x0a, 0x0c, 0x0d}")
  case True
  then have "c \<noteq> 0x22" "c \<noteq> 0x5c" by auto
  moreover have "byte_hex (word_of_int (uint c div 256)) = [0x30, 0x30]" using True by (simp add: byte_hex_def hex_digit_def)
  moreover have "word_of_int (uint c mod 256) = (ucast c :: 8 word)" using True by simp
  ultimately have "escape_unit c = unicode_escape c" using True by (simp add: escape_unit_def unicode_escape_def)
  then show ?thesis by (simp only: read_unicode_escape)
next
  case False
  then show ?thesis
    by (cases "c = 0x22 \<or> c = 0x5c \<or> uint c < 0x20") (auto simp: escape_unit_def simple_escape_def)
qed

lemma read_quote_units: "read_units (quote_units s) (MStr r acc, k) = Inr (MStr r (acc @ s), k)"
proof (induction s arbitrary: acc rule: quote_units.induct)
  case (1 c d s)
  consider "high_surrogate c" "low_surrogate d" | "\<not> (high_surrogate c \<and> low_surrogate d)" "high_surrogate c \<or> low_surrogate c"
    | "\<not> high_surrogate c" "\<not> low_surrogate c" by blast
  then show ?case
  proof cases
    case 1
    with surrogate_large [of c] surrogate_large [of d] "1.IH" show ?thesis by simp
  next
    case 2
    then have "quote_units (c # d # s) = unicode_escape c @ quote_units (d # s)" by auto
    then show ?thesis using "1.IH"(2) 2 by (simp only: json_machine.run_append read_unicode_escape and_then.simps) simp
  next
    case 3
    then have "quote_units (c # d # s) = escape_unit c @ quote_units (d # s)" by auto
    then show ?thesis using "1.IH"(3) 3 by (simp only: json_machine.run_append read_escape_unit and_then.simps) simp
  qed
qed (simp_all add: read_unicode_escape read_escape_unit)

lemma read_json_quote: "read_units (json_quote s) (MValue, k) = Inr (complete (JStr s) k)"
  by (simp add: json_quote_def start_value_def is_ws_def json_machine.run_append read_quote_units)

section \<open>Numbers\<close>

lemma binary_exponent_bounds: "0 < n \<Longrightarrow> 2 ^ binary_exponent n \<le> n \<and> n < 2 ^ Suc (binary_exponent n)"
proof (induction n rule: binary_exponent.induct)
  case (1 n)
  show ?case
  proof (cases "n < 2")
    case True
    with 1 show ?thesis by (simp add: binary_exponent.simps [of n])
  next
    case False
    with 1 have "2 ^ binary_exponent (n div 2) \<le> n div 2 \<and> n div 2 < 2 ^ Suc (binary_exponent (n div 2))" by simp
    with False show ?thesis by (simp add: binary_exponent.simps [of n]) linarith
  qed
qed

lemma nearest_double_int:
  assumes "n < 2 ^ 53"
  shows "nearest_double neg n 1 = signed_num neg n"
proof -
  have r: "round_ratio m (Suc 0) = m" for m by (simp add: round_ratio_def)
  consider (zero) "n = 0" | (small) "0 < n" "n < 2 ^ 52" | (large) "2 ^ 52 \<le> n" by linarith
  then show ?thesis
  proof cases
    case zero
    then show ?thesis by (simp add: nearest_double_def)
  next
    case small
    then show ?thesis by (simp add: nearest_double_def r Let_def)
  next
    case large
    then have "0 < n" by (rule less_le_trans [rotated]) simp
    then have p: "2 ^ binary_exponent n < (2 :: nat) ^ 53" "(2 :: nat) ^ 52 < 2 ^ Suc (binary_exponent n)"
      using binary_exponent_bounds [of n] assms large by linarith+
    have one: "1 < (2 :: nat)" by simp
    have "binary_exponent n < 53" "52 < Suc (binary_exponent n)"
      by (rule power_less_imp_less_exp [OF one p(1)], rule power_less_imp_less_exp [OF one p(2)])
    then have "binary_exponent n = 52" by simp
    moreover have "\<not> (2 :: nat) ^ 1024 \<le> n"
    proof -
      have "(2 :: nat) ^ 53 \<le> 2 ^ 1024" by (rule power_increasing) simp_all
      with assms show ?thesis by linarith
    qed
    ultimately show ?thesis using large by (simp add: nearest_double_def r Let_def)
  qed
qed

lemma digits_span: "list_all is_digit s \<Longrightarrow> split_at is_digit s = (s, [])"
  by (auto simp: split_at_def list_all_iff takeWhile_eq_all_conv)

lemma number_value_dec:
  assumes "\<bar>v\<bar> < 2 ^ 53"
  shows "number_value (dec_int v) = Some (NInt v)"
proof -
  define n where "n = nat \<bar>v\<bar>"
  have n: "n < 2 ^ 53" using assms by (simp add: n_def nat_less_iff)
  obtain c ds where d: "dec_nat n = c # ds" "is_digit c" "list_all is_digit ds" using dec_nat_digits [of n] by (cases "dec_nat n") auto
  then have "c \<noteq> 0x2d" by (auto simp: is_digit_def word_le_def)
  moreover have "\<not> (peek (dec_nat n) = Some 0x30 \<and> 1 < length (dec_nat n))" using dec_nat_leading [of n] by blast
  moreover have "split_at is_digit (dec_nat n) = (dec_nat n, [])" using dec_nat_digits [of n] by (simp add: digits_span)
  moreover have "nearest_double (v < 0) n 1 = NInt v"
    using nearest_double_int [OF n, of "v < 0"] by (auto simp: signed_num_def n_def)
  moreover have "dec_int v = (if v < 0 then [0x2d] else []) @ dec_nat n" by (simp add: dec_int_def n_def)
  moreover have "read_nat (c # ds) = n" using read_dec_nat [of n] d(1) by simp
  moreover have "split_at is_digit [] = ([], [])" "read_nat [] = 0" by (simp_all add: split_at_def read_nat_def)
  ultimately show ?thesis
    using d(1) by (auto simp: number_value_def Let_def peek_def)
qed


lemma read_digits:
  "list_all is_number_char ds \<Longrightarrow> read_units ds (MNum t, k) = Inr (MNum (t @ ds), k)"
  by (induction ds arbitrary: t) simp_all

lemma number_chars: "c = 0x2d \<or> is_digit c \<Longrightarrow> is_number_char c"
  by (auto simp: is_number_char_def)

lemma read_number: "read_units (dec_int v) (MValue, k) = Inr (MNum (dec_int v), k)"
proof -
  obtain c ds where d: "dec_int v = c # ds" "c = 0x2d \<or> is_digit c" "list_all is_digit ds"
    using dec_nat_digits [of "nat v"] dec_nat_digits [of "nat (- v)"]
    by (cases "v < 0"; cases "dec_nat (nat v)") (auto simp: dec_int_def)
  from number_head [OF d(2)] have "read_unit (MValue, k) c = Inr (MNum [c], k)"
    using d(2) by (auto simp: start_value_def)
  moreover have "list_all is_number_char ds" using d(3) by (auto simp: list_all_iff number_chars)
  ultimately show ?thesis by (simp add: d(1) read_digits)
qed

section \<open>Values\<close>

text \<open>What is read back as it was: integers that a double holds, one member per key, no \<open>bigint\<close>.\<close>

fun textual :: "json \<Rightarrow> bool" where
  "textual (JArr xs) \<longleftrightarrow> (\<forall>x \<in> set xs. textual x)"
| "textual (JObj ob) \<longleftrightarrow> distinct (map fst ob) \<and> (\<forall>kv \<in> set ob. textual (snd kv))"
| "textual (JNum n) \<longleftrightarrow> (\<exists>v. n = NInt v \<and> \<bar>v\<bar> < 2 ^ 53)"
| "textual (JInt v) \<longleftrightarrow> False"
| "textual JFun \<longleftrightarrow> False"
| "textual v \<longleftrightarrow> True"

text \<open>The machine at the end of the text of a value: only a number still waits for its end.\<close>

definition at_value :: "json \<Rightarrow> frame list \<Rightarrow> machine" where
  "at_value v k = (case v of JNum (NInt i) \<Rightarrow> (MNum (dec_int i), k) | _ \<Rightarrow> complete v k)"

definition closer :: "16 word \<Rightarrow> bool" where
  "closer c \<longleftrightarrow> c = 0x2c \<or> c = 0x5d \<or> c = 0x7d"

definition reads :: "jstring \<Rightarrow> json \<Rightarrow> bool" where
  "reads t v \<longleftrightarrow> (\<forall>k. read_units t (MValue, k) = Inr (at_value v k)) \<and>
     (\<forall>k. read_units t (MElem, k) = Inr (at_value v k))"

lemma complete_next: "read_unit (complete v k) c = after_value c (complete v k)"
proof (cases k)
  case (Cons f k')
  then show ?thesis by (cases f) simp_all
qed simp

lemma number_next:
  assumes "\<bar>i\<bar> < 2 ^ 53" "closer c"
  shows "read_unit (MNum (dec_int i), k) c = after_value c (complete (JNum (NInt i)) k)"
  using assms by (auto simp: closer_def is_number_char_def is_digit_def number_value_dec word_le_def)

lemma at_value_next:
  assumes "textual v" "closer c"
  shows "read_unit (at_value v k) c = after_value c (complete v k)"
proof (cases v)
  case (JNum n)
  with assms(1) obtain i where i: "v = JNum (NInt i)" "\<bar>i\<bar> < 2 ^ 53" by auto
  from number_next [OF i(2) assms(2)] i(1) show ?thesis by (simp only: at_value_def json.case jsnum.case)
qed (simp_all add: at_value_def complete_next)

lemma read_elements:
  assumes "list_all2 (\<lambda>p v. reads p v \<and> textual v) ps vs" "ps \<noteq> []"
  shows "read_units (commas ps @ [0x5d]) (MValue, ArrF xs # k) = Inr (complete (JArr (xs @ vs)) k)"
  using assms
proof (induction ps arbitrary: vs xs rule: commas.induct)
  case (2 p)
  then obtain v where v: "vs = [v]" "reads p v" "textual v" by (auto simp: list_all2_Cons1)
  with at_value_next [of v "0x5d"] show ?case
    by (simp add: json_machine.run_append reads_def closer_def is_ws_def)
next
  case (3 p q ps)
  then obtain v vs' where v: "vs = v # vs'" "reads p v" "textual v" "list_all2 (\<lambda>p v. reads p v \<and> textual v) (q # ps) vs'"
    by (auto simp: list_all2_Cons1)
  with at_value_next [of v "0x2c" "ArrF xs # k"] "3.IH" [OF v(4), of "xs @ [v]"] show ?case
    by (simp add: json_machine.run_append reads_def closer_def is_ws_def)
qed simp

lemma read_members:
  assumes "list_all2 (\<lambda>p kv. reads p (snd kv) \<and> textual (snd kv)) ps kvs" "ps \<noteq> []"
    "distinct (map fst (ms @ kvs))"
  shows "read_units (commas (map2 (\<lambda>p kv. json_quote (fst kv) @ 0x3a # p) ps kvs) @ [0x7d]) (MKey ms, k) =
    Inr (complete (JObj (ms @ kvs)) k)"
  using assms
proof (induction ps arbitrary: kvs ms)
  case (Cons p ps)
  then obtain key v kvs' where kvs: "kvs = (key, v) # kvs'" and v: "reads p v" "textual v"
    and rest: "list_all2 (\<lambda>p kv. reads p (snd kv) \<and> textual (snd kv)) ps kvs'"
    by (cases kvs) auto
  have key: "key \<notin> fst ` set ms" using Cons.prems(3) kvs by auto
  have quoted: "read_units (json_quote key @ 0x3a # p) (MKey ms, k) = Inr (at_value v (ObjF ms key # k))"
    using v(1) by (simp add: json_quote_def is_ws_def json_machine.run_append read_quote_units reads_def)
  have go: "read_units (json_quote key @ 0x3a # p @ r) (MKey ms, k) = read_units r (at_value v (ObjF ms key # k))" for r
    using json_machine.run_append [of "json_quote key @ 0x3a # p" r] quoted by simp
  have update: "AList.update key v ms = ms @ [(key, v)]"
    using key by (induction ms) auto
  show ?case
  proof (cases ps)
    case Nil
    with rest have "kvs' = []" by simp
    with Nil update at_value_next [OF v(2), of "0x7d" "ObjF ms key # k"] kvs show ?thesis
      by (simp add: go closer_def is_ws_def)
  next
    case (Cons q qs)
    then obtain kv kvs'' where kvs': "kvs' = kv # kvs''" using rest by (cases kvs') auto
    have "distinct (map fst ((ms @ [(key, v)]) @ kvs'))" using Cons.prems(3) kvs by auto
    from Cons.IH [OF rest _ this] Cons kvs' update at_value_next [OF v(2), of "0x2c" "ObjF ms key # k"] kvs show ?thesis
      by (simp add: go closer_def is_ws_def)
  qed
qed simp

lemma reads_values:
  "reads (js ''null'') JNull" "reads (js ''true'') (JBool True)" "reads (js ''false'') (JBool False)"
  by (simp_all add: reads_def at_value_def js_def start_value_def is_ws_def is_digit_def word_le_def)

lemma reads_string: "reads (json_quote s) (JStr s)"
proof -
  have "read_units (json_quote s) (MElem, k) = read_units (json_quote s) (MValue, k)" for k
    by (simp add: json_quote_def is_ws_def)
  then show ?thesis by (simp add: reads_def read_json_quote at_value_def)
qed

lemma reads_number: "reads (dec_int v) (JNum (NInt v))"
proof -
  obtain c t where "dec_int v = c # t" "c = 0x2d \<or> is_digit c" using dec_int_head by blast
  with number_head [of c] have "read_units (dec_int v) (MElem, k) = read_units (dec_int v) (MValue, k)" for k by simp
  then show ?thesis by (simp add: reads_def read_number at_value_def)
qed

lemma those_list_all2: "those xs = Some ys \<longleftrightarrow> list_all2 (\<lambda>x y. x = Some y) xs ys"
  by (induction xs arbitrary: ys) (auto simp: list_all2_Cons1 split: option.splits)

lemma reads_array:
  assumes "list_all2 (\<lambda>p v. reads p v \<and> textual v) ps vs"
  shows "reads (0x5b # commas ps @ [0x5d]) (JArr vs)"
proof (cases ps)
  case Nil
  with assms show ?thesis by (simp add: reads_def at_value_def start_value_def is_ws_def)
next
  case (Cons p ps')
  from assms Cons obtain v where v: "reads p v" by (auto simp: list_all2_Cons1)
  obtain q where q: "commas ps = p @ q" using Cons by (cases ps') auto
  have "read_units (commas ps @ [0x5d]) (MElem, ArrF [] # k) = read_units (commas ps @ [0x5d]) (MValue, ArrF [] # k)" for k
    using v by (simp add: q json_machine.run_append reads_def)
  with read_elements [OF assms, of "[]"] Cons show ?thesis
    by (simp add: reads_def at_value_def start_value_def is_ws_def)
qed

lemma reads_object:
  assumes "list_all2 (\<lambda>p kv. reads p (snd kv) \<and> textual (snd kv)) ps kvs" "distinct (map fst kvs)"
  shows "reads (0x7b # commas (map2 (\<lambda>p kv. json_quote (fst kv) @ 0x3a # p) ps kvs) @ [0x7d]) (JObj kvs)"
proof (cases ps)
  case Nil
  with assms show ?thesis by (simp add: reads_def at_value_def start_value_def is_ws_def)
next
  case (Cons p ps')
  with assms obtain kv kvs' where kvs: "kvs = kv # kvs'" by (cases kvs) auto
  let ?t = "commas (map2 (\<lambda>p kv. json_quote (fst kv) @ 0x3a # p) ps kvs)"
  obtain q where q: "?t = 0x22 # q" using Cons kvs
    by (cases "map2 (\<lambda>p kv. json_quote (fst kv) @ 0x3a # p) ps' kvs'") (auto simp: json_quote_def)
  have "read_units (?t @ [0x7d]) (MFirstKey, k) = read_units (?t @ [0x7d]) (MKey [], k)" for k
    by (simp add: q is_ws_def)
  with read_members [OF assms(1), of "[]"] assms(2) Cons show ?thesis
    by (simp add: reads_def at_value_def start_value_def is_ws_def)
qed

lemma stringify_reads: "textual v \<Longrightarrow> \<exists>t. stringify v = Some t \<and> reads t v"
proof (induction v rule: stringify.induct)
  case (4 n)
  then obtain v where v: "n = NInt v" "\<bar>v\<bar> < 2 ^ 53" by auto
  then have "\<bar>v\<bar> < 10 ^ 21" by simp
  with v(1) reads_number [of v] show ?case by simp
next
  case (6 xs)
  then have "\<forall>x \<in> set xs. \<exists>t. stringify x = Some t \<and> reads t x" by simp
  from bchoice [OF this] obtain f where f: "\<forall>x \<in> set xs. stringify x = Some (f x) \<and> reads (f x) x" ..
  then have "those (map stringify xs) = Some (map f xs)" by (simp add: those_list_all2 list_all2_conv_all_nth)
  moreover have "list_all2 (\<lambda>p v. reads p v \<and> textual v) (map f xs) xs"
    using f "6.prems" by (simp add: list_all2_conv_all_nth)
  ultimately show ?case using reads_array by auto
next
  case (7 ob)
  then have "\<forall>kv \<in> set ob. \<exists>t. stringify (snd kv) = Some t \<and> reads t (snd kv)" by simp
  from bchoice [OF this] obtain f where f: "\<forall>kv \<in> set ob. stringify (snd kv) = Some (f kv) \<and> reads (f kv) (snd kv)" ..
  let ?m = "\<lambda>kv. json_quote (fst kv) @ 0x3a # f kv"
  have "those (map (\<lambda>kv. map_option (\<lambda>t. json_quote (fst kv) @ 0x3a # t) (stringify (snd kv))) ob) = Some (map ?m ob)"
    using f by (simp add: those_list_all2 list_all2_conv_all_nth)
  moreover have "map ?m ob = map2 (\<lambda>p kv. json_quote (fst kv) @ 0x3a # p) (map f ob) ob"
    by (simp add: zip_map1 zip_same_conv_map)
  moreover have "list_all2 (\<lambda>p kv. reads p (snd kv) \<and> textual (snd kv)) (map f ob) ob"
    using f "7.prems" by (simp add: list_all2_conv_all_nth)
  ultimately show ?case using reads_object "7.prems" by fastforce
qed (use reads_values reads_string in auto)

lemma parse_stringify:
  assumes "textual v"
  shows "\<exists>t. stringify v = Some t \<and> json_parse t = Inr v"
proof -
  obtain t where t: "stringify v = Some t" "reads t v" using stringify_reads [OF assms] by blast
  then have "json_parse t = at_end (at_value v [])" by (simp add: json_parse_def reads_def)
  also have "at_end (at_value v []) = Inr v"
    using assms by (cases v) (auto simp: at_value_def number_value_dec simp del: abs_less_iff)
  finally show ?thesis using t(1) by blast
qed

section \<open>The tags of \<open>bigint\<close>\<close>

text \<open>
  What the reviver gives back: no object that looks like the tag of a \<open>bigint\<close>, no number beyond the doubles, no function.
\<close>

fun storable :: "json \<Rightarrow> bool" where
  "storable (JArr xs) \<longleftrightarrow> (\<forall>x \<in> set xs. storable x)"
| "storable (JObj ob) \<longleftrightarrow> distinct (map fst ob) \<and> (\<forall>kv \<in> set ob. storable (snd kv)) \<and>
     (\<nexists>s. ob = [(bigint_tag, JStr s)])"
| "storable (JNum n) \<longleftrightarrow> (\<exists>v. n = NInt v \<and> \<bar>v\<bar> < 2 ^ 53)"
| "storable JFun \<longleftrightarrow> False"
| "storable v \<longleftrightarrow> True"

lemma tag_textual: "storable v \<Longrightarrow> textual (tag_bigints v)"
  by (induction v rule: tag_bigints.induct) (auto simp: comp_def)

lemma digit_values:
  "list_all is_digit ds \<Longrightarrow> foldl (\<lambda>v c. v * 10 + parseHexDigit c) (int n) ds = int (foldl (\<lambda>n c. 10 * n + (unat c - 0x30)) n ds)"
proof (induction ds arbitrary: n)
  case (Cons c ds)
  have "parseHexDigit c = int (unat c - 0x30)"
    using Cons.prems by (simp add: parseHexDigit_def is_digit_def word_le_nat_alt of_nat_diff)
  with Cons.IH [of "10 * n + (unat c - 0x30)"] Cons.prems show ?case by (simp add: mult.commute [of _ 10])
qed simp

lemma radix_digits:
  assumes "list_all is_digit ds" "ds \<noteq> []"
  shows "radix_value 10 ds = Inr (int (read_nat ds))"
proof -
  have "is_hex_char c \<and> parseHexDigit c < 10" if "c \<in> set ds" for c
  proof -
    from assms(1) that have "0x30 \<le> uint c" "uint c \<le> 0x39" by (auto simp: list_all_iff is_digit_def word_le_def)
    moreover from this have "parseHexDigit c = uint c - 0x30" by (simp add: parseHexDigit_def word_le_def)
    ultimately show ?thesis by (simp add: is_hex_char_def)
  qed
  with digit_values [OF assms(1), of 0] assms(2) show ?thesis by (auto simp: radix_value_def read_nat_def list_all_iff)
qed

lemma dropWhile_none: "(\<And>c. c \<in> set s \<Longrightarrow> \<not> P c) \<Longrightarrow> dropWhile P s = s"
  by (cases s) auto

lemma trim_id: "(\<And>c. c \<in> set s \<Longrightarrow> \<not> js_space c) \<Longrightarrow> trim s = s"
proof -
  assume s: "\<And>c. c \<in> set s \<Longrightarrow> \<not> js_space c"
  have "dropWhile js_space s = s" "dropWhile js_space (rev s) = rev s" by (rule dropWhile_none, use s in simp)+
  then show ?thesis by (simp add: trim_def)
qed

lemma digit_range: "is_digit c \<longleftrightarrow> 0x30 \<le> uint c \<and> uint c \<le> 0x39"
  by (simp add: is_digit_def word_le_def)

lemma bigint_of_dec: "bigint_of (dec_int v) = Inr v"
proof -
  define n where "n = nat \<bar>v\<bar>"
  obtain c ds where d: "dec_nat n = c # ds" "is_digit c" "list_all is_digit ds" using dec_nat_digits [of n] by (cases "dec_nat n") auto
  have v: "dec_int v = (if v < 0 then [0x2d] else []) @ dec_nat n" by (simp add: dec_int_def n_def)
  have t: "trim (dec_int v) = dec_int v"
    by (rule trim_id) (use dec_nat_digits [of n] in \<open>auto simp: v list_all_iff digit_range js_space_def split: if_splits\<close>)
  have r: "radix_value 10 (dec_nat n) = Inr (int n)" using radix_digits dec_nat_digits [of n] by simp
  have "take 2 (dec_int v) \<notin> {js ''0x'', js ''0X'', js ''0o'', js ''0O'', js ''0b'', js ''0B''}"
    using d by (cases ds) (auto simp: v js_def digit_range)
  moreover have "peek (dec_nat n) \<noteq> Some 0x2d" "peek (dec_nat n) \<noteq> Some 0x2b" using d by (auto simp: peek_def digit_range)
  ultimately show ?thesis
    using r d(1) unfolding bigint_of_def t by (cases "v < 0") (simp_all add: v Let_def peek_def n_def)
qed

lemma revive_tag: "storable v \<Longrightarrow> revive (tag_bigints v) = Inr v"
proof (induction v rule: storable.induct)
  case (1 xs)
  then have "map_res revive (map tag_bigints xs) = Inr xs"
    by (simp add: map_res_Inr list_all2_conv_all_nth)
  then show ?case by simp
next
  case (2 ob)
  then have "map_res (\<lambda>kv. and_then (revive (snd kv)) (\<lambda>v. Inr (fst kv, v))) (map (\<lambda>kv. (fst kv, tag_bigints (snd kv))) ob) = Inr ob"
    by (auto simp: map_res_Inr list_all2_conv_all_nth)
  with "2.prems" show ?case by (auto split: list.splits prod.splits json.splits)
qed (auto simp: bigint_of_dec)

text \<open>Round trip of the codec of the files.\<close>

lemma enc_dec:
  assumes "storable v"
  shows "\<exists>t. enc v = Some t \<and> dec t = Inr v"
proof -
  obtain t where "enc v = Some t" "json_parse t = Inr (tag_bigints v)"
    using parse_stringify [OF tag_textual [OF assms]] by (auto simp: enc_def)
  then show ?thesis using revive_tag [OF assms] by (simp add: dec_def)
qed

section \<open>Texts that are cut short\<close>

lemma done_stays: "read_units q (MDone v, k) = Inr m \<Longrightarrow> \<forall>c \<in> set q. is_ws c"
  by (induction q) (auto split: if_splits)

text \<open>After a complete text the machine accepts white space only; a number may go on.\<close>

lemma done_or_number:
  assumes "read_units q m = Inr m'" "(\<exists>t. fst m = MNum t \<and> snd m = []) \<or> (\<exists>v. fst m = MDone v)"
  shows "(\<exists>t. fst m' = MNum t \<and> snd m' = []) \<or> (\<exists>v. fst m' = MDone v)"
  using assms
proof (induction q arbitrary: m)
  case (Cons c q)
  then obtain m1 where m1: "read_unit m c = Inr m1" "read_units q m1 = Inr m'" by auto
  obtain md k where m: "m = (md, k)" by (cases m)
  from Cons.prems(2) m m1(1) have "(\<exists>t. fst m1 = MNum t \<and> snd m1 = []) \<or> (\<exists>v. fst m1 = MDone v)"
    by (auto split: if_splits option.splits)
  with Cons.IH [OF m1(2)] show ?case by blast
qed auto

lemma brace_ends_nothing:
  assumes "(\<exists>t. fst m = MNum t \<and> snd m = []) \<or> (\<exists>v. fst m = MDone v)"
  shows "\<exists>e. read_unit m 0x7d = Inl e"
  using assms by (cases m) (auto simp: is_number_char_def is_digit_def is_ws_def word_le_def split: option.splits)

lemma cut_text:
  assumes "json_parse (p @ q @ [0x7d]) = Inr v"
  shows "\<exists>e. json_parse p = Inl e"
proof (rule ccontr)
  assume "\<not> ?thesis"
  then obtain w where "json_parse p = Inr w" by (cases "json_parse p") auto
  then obtain m where m: "read_units p (MValue, []) = Inr m" "at_end m = Inr w" by (auto simp: json_parse_def)
  from assms m(1) obtain m' m'' where m': "read_units q m = Inr m'" "read_unit m' 0x7d = Inr m''"
    by (auto simp: json_parse_def json_machine.run_append)
  have "(\<exists>t. fst m = MNum t \<and> snd m = []) \<or> (\<exists>v. fst m = MDone v)" using m(2) by (cases m rule: at_end.cases) auto
  from brace_ends_nothing [OF done_or_number [OF m'(1) this]] m'(2) show False by simp
qed

text \<open>A replacement character can only stand inside a string.\<close>

fun plain_literal :: "mode \<Rightarrow> bool" where
  "plain_literal (MLit todo v) \<longleftrightarrow> 0xfffd \<notin> set todo"
| "plain_literal m \<longleftrightarrow> True"

lemma complete_plain: "plain_literal (fst (complete v k))"
  by (cases "(v, k)" rule: complete.cases) simp_all

lemma after_plain: "after_value c m = Inr m' \<Longrightarrow> plain_literal (fst m) \<Longrightarrow> plain_literal (fst m')"
  by (cases "(c, m)" rule: after_value.cases) (auto simp: complete_plain split: if_splits)

lemma start_plain: "start_value c k = Inr m' \<Longrightarrow> plain_literal (fst m')"
  by (auto simp: start_value_def js_def split: if_splits)

lemma read_plain:
  assumes "read_unit m c = Inr m'" "plain_literal (fst m)"
  shows "plain_literal (fst m')"
proof -
  have "plain_literal (fst (end_string r acc k))" for r acc k by (cases r) (simp_all add: complete_plain)
  with assms start_plain [of c "snd m" m'] after_plain [of c _ m'] complete_plain show ?thesis
    by (cases "(m, c)" rule: read_unit.cases) (auto simp: Let_def split: if_splits option.splits list.splits)
qed

lemma reads_plain: "read_units s m = Inr m' \<Longrightarrow> plain_literal (fst m) \<Longrightarrow> plain_literal (fst m')"
  by (induction s arbitrary: m) (auto dest: read_plain)

lemma replacement_unfinished:
  assumes "read_unit m 0xfffd = Inr m'" "plain_literal (fst m)"
  shows "\<exists>e. at_end m' = Inl e"
proof -
  have c: "\<not> is_ws 0xfffd" "\<not> is_digit 0xfffd" "\<not> is_number_char 0xfffd" "\<not> is_hex_char 0xfffd" "simple_escape 0xfffd = None"
    by code_simp+
  have after: "\<exists>e. after_value 0xfffd n = Inl e" for n
    by (cases "(0xfffd :: 16 word, n)" rule: after_value.cases) (auto simp: c)
  obtain md k where m: "m = (md, k)" by (cases m)
  show ?thesis
  proof (cases md)
    case (MNum t)
    with assms m after [of "complete (JNum (the (number_value t))) k"] show ?thesis by (auto simp: c split: option.splits)
  next
    case MAfter
    with assms m after [of m] show ?thesis by auto
  next
    case (MDone v)
    with assms m after [of m] show ?thesis by auto
  next
    case (MLit todo v)
    with assms m show ?thesis by (auto split: list.splits if_splits)
  qed (use assms m in \<open>auto simp: c start_value_def split: if_splits\<close>)
qed

lemma cut_text_replacement: "\<exists>e. json_parse (p @ [0xfffd]) = Inl e"
proof (cases "read_units p (MValue, [])")
  case (Inr m)
  then have "plain_literal (fst m)" using reads_plain by fastforce
  with Inr show ?thesis
    by (cases "read_unit m 0xfffd") (use replacement_unfinished in \<open>auto simp: json_parse_def json_machine.run_append\<close>)
qed (simp add: json_parse_def json_machine.run_append)

section \<open>Bytes\<close>

lemma lossy_2: "0xc2 \<le> uint a \<Longrightarrow> uint a < 0xe0 \<Longrightarrow> is_cont b \<Longrightarrow>
    utf8_lossy (a # b # r) = ((uint a - 0xc0) * 64 + (uint b - 0x80)) # utf8_lossy r"
  by (simp add: second_ok_def utf8_lossy.simps(2))

lemma lossy_3: "0xe0 \<le> uint a \<Longrightarrow> uint a < 0xf0 \<Longrightarrow> second_ok a b \<Longrightarrow> is_cont c \<Longrightarrow>
    utf8_lossy (a # b # c # r) = ((uint a - 0xe0) * 4096 + (uint b - 0x80) * 64 + (uint c - 0x80)) # utf8_lossy r"
  by (simp add: utf8_lossy.simps(2))

lemma lossy_4: "0xf0 \<le> uint a \<Longrightarrow> uint a < 0xf5 \<Longrightarrow> second_ok a b \<Longrightarrow> is_cont c \<Longrightarrow> is_cont d \<Longrightarrow>
    utf8_lossy (a # b # c # d # r) =
      ((uint a - 0xf0) * 262144 + (uint b - 0x80) * 4096 + (uint c - 0x80) * 64 + (uint d - 0x80)) # utf8_lossy r"
  by (simp add: utf8_lossy.simps(2))

lemma lossy_cut:
  "0xc2 \<le> uint a \<Longrightarrow> uint a < 0xf5 \<Longrightarrow> utf8_lossy [a] = [0xfffd]"
  "0xe0 \<le> uint a \<Longrightarrow> uint a < 0xf5 \<Longrightarrow> second_ok a b \<Longrightarrow> utf8_lossy [a, b] = [0xfffd]"
  "0xf0 \<le> uint a \<Longrightarrow> uint a < 0xf5 \<Longrightarrow> second_ok a b \<Longrightarrow> is_cont c \<Longrightarrow> utf8_lossy [a, b, c] = [0xfffd]"
  by (simp_all add: utf8_lossy.simps(2))

text \<open>The bytes of one character.\<close>

inductive utf8_char :: "int \<Rightarrow> bytes \<Rightarrow> bool" where
  "uint a < 0x80 \<Longrightarrow> utf8_char (uint a) [a]"
| "0xc2 \<le> uint a \<Longrightarrow> uint a < 0xe0 \<Longrightarrow> is_cont b \<Longrightarrow> utf8_char ((uint a - 0xc0) * 64 + (uint b - 0x80)) [a, b]"
| "0xe0 \<le> uint a \<Longrightarrow> uint a < 0xf0 \<Longrightarrow> second_ok a b \<Longrightarrow> is_cont c \<Longrightarrow>
     utf8_char ((uint a - 0xe0) * 4096 + (uint b - 0x80) * 64 + (uint c - 0x80)) [a, b, c]"
| "0xf0 \<le> uint a \<Longrightarrow> uint a < 0xf5 \<Longrightarrow> second_ok a b \<Longrightarrow> is_cont c \<Longrightarrow> is_cont d \<Longrightarrow>
     utf8_char ((uint a - 0xf0) * 262144 + (uint b - 0x80) * 4096 + (uint c - 0x80) * 64 + (uint d - 0x80)) [a, b, c, d]"

lemma second_three:
  assumes "cp = x * 4096 + y * 64 + z" "0 \<le> z" "z < 64" "0 \<le> y" "y < 64" "0x800 \<le> cp" "cp < 0x10000" "\<not> is_surrogate cp"
    "uint a = 0xe0 + x" "uint b = 0x80 + y"
  shows "second_ok a b"
  unfolding second_ok_def is_cont_def using assms [unfolded is_surrogate_def] by (intro conjI impI) linarith+

lemma second_four:
  assumes "cp = x * 262144 + y * 4096 + z" "0 \<le> z" "z < 4096" "0 \<le> y" "y < 64" "0x10000 \<le> cp" "cp \<le> 0x10ffff"
    "uint a = 0xf0 + x" "uint b = 0x80 + y"
  shows "second_ok a b"
  unfolding second_ok_def is_cont_def using assms by (intro conjI impI) linarith+

lemma utf8_cp_char:
  assumes "is_scalar cp"
  shows "utf8_char cp (utf8_cp cp)"
proof -
  have cp: "0 \<le> cp" "cp \<le> 0x10ffff" "\<not> is_surrogate cp" using assms by (simp_all add: is_scalar_def)
  consider (one) "cp < 0x80" | (two) "0x80 \<le> cp" "cp < 0x800" | (three) "0x800 \<le> cp" "cp < 0x10000"
    | (four) "0x10000 \<le> cp" by linarith
  then show ?thesis
  proof cases
    case one
    with utf8_char.intros(1) [of "word_of_int cp"] cp show ?thesis by (simp add: utf8_cp_def uint_byte)
  next
    case two
    have a: "uint (word_of_int (0xc0 + cp div 64) :: 8 word) = 0xc0 + cp div 64"
      using two by (intro uint_byte) linarith+
    with utf8_char.intros(2) [of "word_of_int (0xc0 + cp div 64)" "word_of_int (0x80 + cp mod 64)"] two cont_byte [of cp]
    show ?thesis by (simp add: utf8_cp_def uint_cont del: of_int_add)
  next
    case three
    have a: "uint (word_of_int (0xe0 + cp div 4096) :: 8 word) = 0xe0 + cp div 4096"
      using three by (intro uint_byte) linarith+
    have split: "cp = cp div 4096 * 4096 + cp div 64 mod 64 * 64 + cp mod 64"
      using split_64 [of cp] split_64 [of "cp div 64"] unfolding div_64 by linarith
    have "second_ok (word_of_int (0xe0 + cp div 4096)) (word_of_int (0x80 + cp div 64 mod 64))"
      by (rule second_three [OF split _ _ _ _ three cp(3) a uint_cont]) simp_all
    note char = utf8_char.intros(3) [OF _ _ this cont_byte [of cp], unfolded a uint_cont]
    have "(0xe0 + cp div 4096 - 0xe0) * 4096 + (0x80 + cp div 64 mod 64 - 0x80) * 64 + (0x80 + cp mod 64 - 0x80) = cp"
      unfolding add_diff_cancel_left' by (rule split [symmetric])
    moreover have "0xe0 \<le> 0xe0 + cp div 4096" "0xe0 + cp div 4096 < 0xf0" using three by linarith+
    ultimately have "utf8_char cp [word_of_int (0xe0 + cp div 4096), word_of_int (0x80 + cp div 64 mod 64), word_of_int (0x80 + cp mod 64)]"
      using char by (simp only:)
    with three show ?thesis by (simp add: utf8_cp_def del: of_int_add)
  next
    case four
    have a: "uint (word_of_int (0xf0 + cp div 262144) :: 8 word) = 0xf0 + cp div 262144"
      using four cp(2) by (intro uint_byte) linarith+
    have split: "cp = cp div 262144 * 262144 + cp div 4096 mod 64 * 4096 + cp div 64 mod 64 * 64 + cp mod 64"
      using split_64 [of cp] split_64 [of "cp div 64"] split_64 [of "cp div 4096"] unfolding div_64 by linarith
    have "second_ok (word_of_int (0xf0 + cp div 262144)) (word_of_int (0x80 + cp div 4096 mod 64))"
    proof (rule second_four [OF _ _ _ _ _ four cp(2) a uint_cont])
      show "cp = cp div 262144 * 262144 + cp div 4096 mod 64 * 4096 + (cp div 64 mod 64 * 64 + cp mod 64)" using split by simp
      have "0 \<le> cp mod 64" "cp mod 64 < 64" "0 \<le> cp div 64 mod 64" "cp div 64 mod 64 < 64" by simp_all
      then show "0 \<le> cp div 64 mod 64 * 64 + cp mod 64" "cp div 64 mod 64 * 64 + cp mod 64 < 4096" by linarith+
    qed simp_all
    note char = utf8_char.intros(4) [OF _ _ this cont_byte [of "cp div 64"] cont_byte [of cp], unfolded a uint_cont]
    have "(0xf0 + cp div 262144 - 0xf0) * 262144 + (0x80 + cp div 4096 mod 64 - 0x80) * 4096 + (0x80 + cp div 64 mod 64 - 0x80) * 64 +
        (0x80 + cp mod 64 - 0x80) = cp"
      unfolding add_diff_cancel_left' by (rule split [symmetric])
    moreover have "0xf0 \<le> 0xf0 + cp div 262144" "0xf0 + cp div 262144 < 0xf5" using four cp(2) by linarith+
    ultimately have "utf8_char cp [word_of_int (0xf0 + cp div 262144), word_of_int (0x80 + cp div 4096 mod 64),
        word_of_int (0x80 + cp div 64 mod 64), word_of_int (0x80 + cp mod 64)]"
      using char by (simp only:)
    with four show ?thesis by (simp add: utf8_cp_def del: of_int_add)
  qed
qed

lemma lossy_char:
  assumes "utf8_char cp bs"
  shows "utf8_lossy (bs @ r) = cp # utf8_lossy r"
  using assms by cases (simp_all add: lossy_2 lossy_3 lossy_4, simp add: utf8_lossy.simps(2))

lemma lossy_cut_char:
  assumes "utf8_char cp bs" "0 < n" "n < length bs"
  shows "utf8_lossy (take n bs) = [0xfffd]"
  using assms(1)
proof cases
  case (2 a b)
  then have "take n bs = [a]" using assms(2,3) by (cases n) auto
  with 2 show ?thesis by (simp add: lossy_cut)
next
  case (3 a b c)
  then have "n = 1 \<or> n = 2" using assms(2,3) by auto
  with 3 show ?thesis by (auto simp: lossy_cut numeral_2_eq_2)
next
  case (4 a b c d)
  then have "n = 1 \<or> n = 2 \<or> n = 3" using assms(2,3) by auto
  with 4 show ?thesis by (auto simp: lossy_cut numeral_2_eq_2 numeral_3_eq_3)
qed (use assms in auto)

text \<open>Bytes of a well-formed text decode to it; the bytes of a cut text decode to its start, perhaps with one replacement character.\<close>

lemma lossy_chars: "list_all is_scalar cps \<Longrightarrow> utf8_lossy (concat (map utf8_cp cps)) = cps"
proof (induction cps)
  case (Cons cp cps)
  then show ?case by (simp add: lossy_char [OF utf8_cp_char])
qed simp

lemma lossy_take:
  "list_all is_scalar cps \<Longrightarrow> n \<le> length (concat (map utf8_cp cps)) \<Longrightarrow>
   \<exists>m tail. utf8_lossy (take n (concat (map utf8_cp cps))) = take m cps @ tail \<and> m \<le> length cps \<and>
     (tail = [] \<or> tail = [0xfffd] \<and> m < length cps) \<and> (n < length (concat (map utf8_cp cps)) \<longrightarrow> m < length cps)"
proof (induction cps arbitrary: n)
  case (Cons cp cps)
  let ?u = "utf8_cp cp"
  have char: "utf8_char cp ?u" using Cons.prems(1) utf8_cp_char by simp
  then have pos: "0 < length ?u" by (auto elim: utf8_char.cases)
  show ?case
  proof (cases "length ?u \<le> n")
    case True
    with Cons.prems have "n - length ?u \<le> length (concat (map utf8_cp cps))" by simp
    moreover have "list_all is_scalar cps" using Cons.prems(1) by simp
    ultimately obtain m tail where
      "utf8_lossy (take (n - length ?u) (concat (map utf8_cp cps))) = take m cps @ tail" "m \<le> length cps"
      "tail = [] \<or> tail = [0xfffd] \<and> m < length cps"
      "n - length ?u < length (concat (map utf8_cp cps)) \<longrightarrow> m < length cps" using Cons.IH by blast
    with True lossy_char [OF char] pos show ?thesis by (intro exI [of _ "Suc m"] exI [of _ tail]) auto
  next
    case False
    show ?thesis
    proof (cases "n = 0")
      case True
      then show ?thesis by (intro exI [of _ 0] exI [of _ "[]"]) simp
    next
      case n: False
      with lossy_cut_char [OF char] False show ?thesis by (intro exI [of _ 0] exI [of _ "[0xfffd]"]) simp
    qed
  qed
qed simp

section \<open>What a text looks like\<close>

definition clean_text :: "jstring \<Rightarrow> bool" where
  "clean_text t \<longleftrightarrow> well_formed t \<and> (\<forall>c \<in> set t. uint c \<ge> 0x20)"

lemma clean_append: "clean_text s \<Longrightarrow> clean_text t \<Longrightarrow> clean_text (s @ t)"
  by (auto simp: clean_text_def well_formed_append)

lemma clean_unit: "uint c \<ge> 0x20 \<Longrightarrow> \<not> high_surrogate c \<Longrightarrow> \<not> low_surrogate c \<Longrightarrow> clean_text [c]"
  by (simp add: clean_text_def)

lemma clean_marks: "clean_text []" "clean_text [0x22]" "clean_text [0x2c]" "clean_text [0x3a]" "clean_text [0x5b]" "clean_text [0x5d]"
  "clean_text [0x7b]" "clean_text [0x7d]"
  by (simp_all add: clean_text_def high_surrogate_def low_surrogate_def)

lemma clean_digits: "list_all is_digit s \<Longrightarrow> clean_text s"
  using ascii_well_formed [OF digits_ascii] by (auto simp: clean_text_def list_all_iff digit_range)

lemma clean_dec_int: "clean_text (dec_int v)"
proof -
  have "clean_text [0x2d]" by (simp add: clean_text_def high_surrogate_def low_surrogate_def)
  from clean_append [OF this clean_digits] have "clean_text ([0x2d] @ dec_nat (nat (- v)))" using dec_nat_digits by blast
  then show ?thesis using clean_digits [of "dec_nat (nat v)"] dec_nat_digits [of "nat v"] by (simp add: dec_int_def)
qed

lemma clean_hex: "clean_text (byte_hex b)"
proof -
  have "list_all (\<lambda>n. list_all (\<lambda>c. uint c \<ge> 0x20) (byte_hex (word_of_nat n))) [0..<256]" by code_simp
  moreover have "unat b \<in> set [0..<256]" using unsigned_less [of b] by simp
  ultimately have "list_all (\<lambda>c. uint c \<ge> 0x20) (byte_hex (word_of_nat (unat b)))" unfolding list_all_iff by blast
  then show ?thesis using ascii_well_formed [OF byte_hex_ascii] by (simp add: clean_text_def list_all_iff)
qed

lemma clean_unicode_escape: "clean_text (unicode_escape c)"
  unfolding unicode_escape_def
  by (intro clean_append clean_hex) (simp add: clean_text_def high_surrogate_def low_surrogate_def)

lemma clean_escape_unit:
  assumes "\<not> high_surrogate c" "\<not> low_surrogate c"
  shows "clean_text (escape_unit c)"
proof (cases "uint c < 0x20 \<and> c \<notin> {0x08, 0x09, 0x0a, 0x0c, 0x0d}")
  case True
  then have "escape_unit c = [0x5c, 0x75, 0x30, 0x30] @ byte_hex (ucast c)" by (auto simp: escape_unit_def)
  moreover have "clean_text ([0x5c, 0x75, 0x30, 0x30] @ byte_hex (ucast c))"
    by (intro clean_append clean_hex) (simp add: clean_text_def high_surrogate_def low_surrogate_def)
  ultimately show ?thesis by simp
next
  case False
  with assms show ?thesis
    by (auto simp: escape_unit_def clean_text_def high_surrogate_def low_surrogate_def)
qed

lemma clean_pair: "high_surrogate c \<Longrightarrow> low_surrogate d \<Longrightarrow> clean_text [c, d]"
  using surrogate_large [of c] surrogate_large [of d] by (simp add: clean_text_def)

lemma clean_quote_units: "clean_text (quote_units s)"
proof (induction s rule: quote_units.induct)
  case (1 c d r)
  consider "high_surrogate c" "low_surrogate d" | "\<not> (high_surrogate c \<and> low_surrogate d)" "high_surrogate c \<or> low_surrogate c"
    | "\<not> high_surrogate c" "\<not> low_surrogate c" by blast
  then show ?case
  proof cases
    case 1
    with clean_append [OF clean_pair "1.IH"(1)] show ?thesis by simp
  next
    case 2
    with clean_append [OF clean_unicode_escape "1.IH"(2)] show ?thesis by auto
  next
    case 3
    with clean_append [OF clean_escape_unit "1.IH"(3)] show ?thesis by auto
  qed
qed (simp_all add: clean_unicode_escape clean_escape_unit clean_marks)

lemma clean_json_quote: "clean_text (json_quote s)"
  using clean_append [OF clean_append [OF clean_marks(2) clean_quote_units] clean_marks(2)] by (simp add: json_quote_def)

lemma clean_commas: "\<forall>p \<in> set ps. clean_text p \<Longrightarrow> clean_text (commas ps)"
proof (induction ps rule: commas.induct)
  case (3 p q ps)
  with clean_append [OF _ clean_append [OF clean_marks(3)]] show ?case by simp
qed (simp_all add: clean_marks)

lemma clean_js: "list_all (\<lambda>c. 0x20 \<le> (of_char c :: nat) \<and> (of_char c :: nat) < 128) s \<Longrightarrow> clean_text (js s)"
proof -
  assume s: "list_all (\<lambda>c. 0x20 \<le> (of_char c :: nat) \<and> (of_char c :: nat) < 128) s"
  have u: "uint (word_of_nat (of_char c) :: 16 word) = int (of_char c)" if "(of_char c :: nat) < 128" for c :: char
    using that by (simp add: unsigned_of_nat take_bit_nat_eq_self)
  have "well_formed (js s)" using s by (intro ascii_well_formed) (auto simp: js_def is_ascii_def list_all_iff u)
  with s show ?thesis by (auto simp: clean_text_def js_def list_all_iff u)
qed

lemma those_member: "those (map f xs) = Some ps \<Longrightarrow> p \<in> set ps \<Longrightarrow> \<exists>x \<in> set xs. f x = Some p"
  by (induction xs arbitrary: ps) (auto split: option.splits)

lemma stringify_clean: "stringify v = Some t \<Longrightarrow> clean_text t"
proof (induction v arbitrary: t rule: stringify.induct)
  case (6 xs)
  then obtain ps where ps: "those (map stringify xs) = Some ps" "t = [0x5b] @ commas ps @ [0x5d]" by auto
  then have "\<forall>p \<in> set ps. \<exists>x \<in> set xs. stringify x = Some p" using those_member [of stringify xs ps] by blast
  with "6.IH" have "\<forall>p \<in> set ps. clean_text p" by blast
  with ps(2) show ?case by (simp only:) (intro clean_append clean_commas clean_marks)
next
  case (7 ob)
  let ?f = "\<lambda>kv. map_option (\<lambda>t. json_quote (fst kv) @ 0x3a # t) (stringify (snd kv))"
  from "7.prems" obtain ps where ps: "those (map ?f ob) = Some ps" "t = [0x7b] @ commas ps @ [0x7d]" by auto
  then have "\<forall>p \<in> set ps. \<exists>kv \<in> set ob. ?f kv = Some p" using those_member [of ?f ob ps] by blast
  moreover have "clean_text p" if "kv \<in> set ob" "?f kv = Some p" for kv p
  proof -
    from that(2) obtain u where u: "stringify (snd kv) = Some u" "p = json_quote (fst kv) @ [0x3a] @ u" by auto
    have "clean_text u" using "7.IH" [OF that(1)] u(1) by simp
    with u(2) show ?thesis by (simp only:) (intro clean_append clean_json_quote clean_marks)
  qed
  ultimately have "\<forall>p \<in> set ps. clean_text p" by blast
  with ps(2) show ?case by (simp only:) (intro clean_append clean_commas clean_marks)
qed (auto simp: clean_json_quote clean_dec_int intro!: clean_js split: jsnum.splits if_splits)

text \<open>An object is written between braces.\<close>

lemma stringify_braces: "stringify (JObj ob) = Some t \<Longrightarrow> \<exists>s. t = 0x7b # s @ [0x7d]"
  by auto

section \<open>Texts in files\<close>

lemma to_text_encode:
  assumes "well_formed s"
  shows "to_text (utf8_encode s) = s"
  using lossy_chars [OF well_formed_scalars [OF assms]] utf16_code_points [OF assms]
  by (simp add: to_text_def utf8_encode_scalars [OF assms])

lemma code_points_append: "well_formed s \<Longrightarrow> code_points (s @ t) = code_points s @ code_points t"
proof (induction s rule: well_formed.induct)
  case (1 c d r)
  then show ?case by (cases "high_surrogate c") auto
next
  case (2 c)
  then show ?case by (cases t) auto
qed simp

lemma utf8_encode_append: "well_formed s \<Longrightarrow> utf8_encode (s @ t) = utf8_encode s @ utf8_encode t"
  by (simp add: utf8_encode_def code_points_append)

text \<open>The decoding of a cut text, after whole texts.\<close>

lemma to_text_cut:
  assumes "well_formed s" "well_formed t" "n < length (utf8_encode t)"
  shows "\<exists>p q tail. t = p @ q \<and> q \<noteq> [] \<and> to_text (utf8_encode s @ take n (utf8_encode t)) = s @ p @ tail \<and> (tail = [] \<or> tail = [0xfffd])"
proof -
  let ?cps = "code_points t"
  have n: "n < length (concat (map utf8_cp ?cps))" using assms(3) by (simp add: utf8_encode_scalars [OF assms(2)])
  from lossy_take [OF well_formed_scalars [OF assms(2)] less_imp_le [OF n]] n obtain m tail where
    m: "utf8_lossy (take n (concat (map utf8_cp ?cps))) = take m ?cps @ tail" "m < length ?cps" and tail: "tail = [] \<or> tail = [0xfffd]"
    by blast
  have l: "utf8_lossy (utf8_encode s @ r) = code_points s @ utf8_lossy r" for r
  proof -
    have "list_all is_scalar cps \<Longrightarrow> utf8_lossy (concat (map utf8_cp cps) @ r) = cps @ utf8_lossy r" for cps
      by (induction cps) (simp_all add: lossy_char [OF utf8_cp_char])
    with well_formed_scalars [OF assms(1)] show ?thesis by (simp add: utf8_encode_scalars [OF assms(1)])
  qed
  have "t = concat (map utf16_cp (take m ?cps)) @ concat (map utf16_cp (drop m ?cps))"
    using utf16_code_points [OF assms(2)] by (metis append_take_drop_id concat_append map_append)
  moreover have "concat (map utf16_cp (drop m ?cps)) \<noteq> []"
    using m(2) by (simp only: Cons_nth_drop_Suc [symmetric]) (simp add: utf16_cp_def)
  moreover have "to_text (utf8_encode s @ take n (utf8_encode t)) =
      s @ concat (map utf16_cp (take m ?cps)) @ concat (map utf16_cp tail)"
    using m(1) utf16_code_points [OF assms(1)] by (simp add: to_text_def l utf8_encode_scalars [OF assms(2)])
  moreover have "concat (map utf16_cp tail) = [] \<or> concat (map utf16_cp tail) = [0xfffd]"
    using tail by (auto simp: utf16_cp_def)
  ultimately show ?thesis by blast
qed

end
