(* ===== verification/Wal_Props.thy ===== *)
theory Wal_Props
  imports Wal Json_Text_Props
begin

text \<open>
  The log of blocks: a block that is stored is read back, a log of whole lines gives its blocks, and a log that ends in a part of a
  line gives the blocks before it.
\<close>

section \<open>Blocks are read back\<close>

lemma member_simps [simp]: "member k (JObj ob) = map_of ob (js k)"
  by (simp add: member_def)

lemma step_of_json [simp]: "step_of (step_json r) = Inr r"
  by (simp add: step_of_def step_json_def as_bool_def as_list_def)

lemma strings_of_JStr [simp]: "strings_of (map JStr ss) = ss"
  by (induction ss) (simp_all add: strings_of_def)

lemma trace_of_json [simp]: "trace_of (trace_json tr) = Inr tr"
proof -
  have "map_res step_of (map step_json (tr_steps tr)) = Inr (tr_steps tr)"
    by (induction "tr_steps tr") (simp_all add: map_res_Inr list_all2_conv_all_nth)
  then show ?thesis
    by (cases "ownerSigners tr"; cases "pinnedMcpSchemaHash tr")
       (simp_all add: trace_of_def trace_json_def as_int_def as_list_def as_json_def as_bool_def)
qed

lemma submission_of_json [simp]: "submission_of (submission_json s) = Inr s"
  by (cases "sub_mode s") (simp_all add: submission_of_def submission_json_def as_json_def)

lemma block_of_json [simp]: "block_of (block_json b) = Inr b"
proof -
  have "map_res submission_of (map submission_json (tb_submissions b)) = Inr (tb_submissions b)"
    by (simp add: map_res_Inr list_all2_conv_all_nth)
  then show ?thesis by (simp add: block_of_def block_json_def as_int_def as_list_def)
qed

lemma foldBlocks_run: "foldBlocks H (map block_json bs) acc = run_ticks H bs acc"
proof (induction bs arbitrary: acc)
  case (Cons b bs)
  then have "foldBlocks H (map block_json bs) = run_ticks H bs" by blast
  then show ?case by simp
qed simp

section \<open>The text of the log\<close>

definition block_ok :: "tick_block \<Rightarrow> bool" where
  "block_ok b \<longleftrightarrow> storable (block_json b)"

definition line_text :: "tick_block \<Rightarrow> jstring" where
  "line_text b = (case enc (block_json b) of Some t \<Rightarrow> t | None \<Rightarrow> [])"

definition wal_text :: "tick_block list \<Rightarrow> jstring" where
  "wal_text bs = concat (map (\<lambda>b. line_text b @ [0x0a]) bs)"

definition wal_bytes :: "tick_block list \<Rightarrow> bytes" where
  "wal_bytes bs = concat (map (\<lambda>b. utf8_encode (line_text b) @ [0x0a]) bs)"

lemma enc_object: "storable (JObj ob) \<Longrightarrow> (\<nexists>v. JObj ob = JInt v) \<Longrightarrow>
    \<exists>t s. enc (JObj ob) = Some t \<and> dec t = Inr (JObj ob) \<and> json_parse t = Inr (tag_bigints (JObj ob)) \<and> clean_text t \<and> t = 0x7b # s @ [0x7d]"
proof -
  assume s: "storable (JObj ob)"
  obtain t where t: "stringify (tag_bigints (JObj ob)) = Some t" "json_parse t = Inr (tag_bigints (JObj ob))"
    using parse_stringify [OF tag_textual [OF s]] by blast
  moreover obtain u where "t = 0x7b # u @ [0x7d]" using t(1) stringify_braces by fastforce
  ultimately show ?thesis using stringify_clean revive_tag [OF s] by (auto simp: enc_def dec_def simp del: stringify.simps tag_bigints.simps)
qed

lemma block_line:
  assumes "block_ok b"
  shows "enc (block_json b) = Some (line_text b)" "dec (line_text b) = Inr (block_json b)"
    "json_parse (line_text b) = Inr (tag_bigints (block_json b))" "clean_text (line_text b)" "\<exists>s. line_text b = 0x7b # s @ [0x7d]"
proof -
  from assms have "storable (JObj [(js ''tick'', JInt (tb_tick b)), (js ''submissions'', JArr (map submission_json (tb_submissions b)))])"
    by (simp only: block_ok_def block_json_def)
  from enc_object [OF this] show "enc (block_json b) = Some (line_text b)" "dec (line_text b) = Inr (block_json b)"
    "json_parse (line_text b) = Inr (tag_bigints (block_json b))" "clean_text (line_text b)" "\<exists>s. line_text b = 0x7b # s @ [0x7d]"
    by (auto simp: line_text_def block_json_def simp del: storable.simps)
qed

lemma newline_clean: "well_formed [0x0a]"
  by code_simp

lemma utf8_newline: "utf8_encode (0x0a # s) = 0x0a # utf8_encode s"
proof -
  have "utf8_encode [0x0a] = [0x0a]" by code_simp
  then show ?thesis using utf8_encode_append [OF newline_clean, of s] by simp
qed

lemma wal_text_Cons: "wal_text (b # bs) = line_text b @ 0x0a # wal_text bs"
  by (simp add: wal_text_def)

lemma wal_text_wf: "list_all block_ok bs \<Longrightarrow> well_formed (wal_text bs)"
proof (induction bs)
  case (Cons b bs)
  then have "well_formed (line_text b @ [0x0a] @ wal_text bs)"
    using block_line(4) by (intro well_formed_append newline_clean) (auto simp: clean_text_def)
  then show ?case by (simp add: wal_text_Cons)
qed (simp add: wal_text_def)

lemma wal_bytes_text: "list_all block_ok bs \<Longrightarrow> wal_bytes bs = utf8_encode (wal_text bs)"
proof (induction bs)
  case (Cons b bs)
  then have "well_formed (line_text b)" using block_line(4) by (simp add: clean_text_def)
  from utf8_encode_append [OF this] Cons show ?case by (simp add: wal_text_Cons utf8_newline) (simp add: wal_bytes_def)
qed (simp add: wal_bytes_def wal_text_def utf8_encode_def)

lemma split_line: "0x0a \<notin> set t \<Longrightarrow> split_lines (t @ 0x0a # r) = t # split_lines r"
  by (induction t) auto

lemma split_last: "0x0a \<notin> set t \<Longrightarrow> split_lines t = [t]"
  by (induction t) auto

lemma clean_no_newline: "clean_text t \<Longrightarrow> 0x0a \<notin> set t"
  by (auto simp: clean_text_def)

lemma trim_braces: "trim (0x7b # s @ [0x7d]) = 0x7b # s @ [0x7d]"
  by (simp add: trim_def js_space_def)

lemma parse_wal: "list_all block_ok bs \<Longrightarrow> parseWalLines (wal_text bs @ r) = map block_json bs @ parseWalLines r"
proof (induction bs)
  case (Cons b bs)
  then have b: "block_ok b" by simp
  obtain s where s: "line_text b = 0x7b # s @ [0x7d]" using block_line(5) [OF b] by blast
  with split_line [OF clean_no_newline [OF block_line(4) [OF b]], of "wal_text bs @ r"] block_line(2) [OF b] trim_braces [of s] Cons
  show ?case by (simp add: parseWalLines_def wal_text_def Let_def)
qed (simp add: wal_text_def)

text \<open>The rest after the last newline: nothing, a cut line, or a whole one that lacks its newline.\<close>

lemma parse_cut:
  assumes "json_parse t = Inr v" "t = 0x7b # s @ [0x7d]" "t = p @ q" "q \<noteq> []" "tail = [] \<or> tail = [0xfffd]" "clean_text t"
  shows "parseWalLines (p @ tail) = []"
proof -
  have "0x0a \<notin> set (p @ tail)" using clean_no_newline [OF assms(6)] assms(3,5) by auto
  then have l: "split_lines (p @ tail) = [p @ tail]" by (rule split_last)
  have "trim (p @ tail) = [] \<or> (\<exists>e. json_parse (trim (p @ tail)) = Inl e)"
  proof (cases "tail = []")
    case True
    show ?thesis
    proof (cases p)
      case Nil
      with True show ?thesis by (simp add: trim_def)
    next
      case (Cons c p')
      then have "c = 0x7b" using assms(2,3) by simp
      then have "dropWhile js_space p = p" using Cons by (simp add: js_space_def)
      then have "trim p = rev (dropWhile js_space (rev p))" by (simp add: trim_def)
      moreover obtain w where "rev p = w @ dropWhile js_space (rev p)" by (metis takeWhile_dropWhile_id)
      ultimately have pw: "p = trim p @ rev w" by (metis rev_append rev_rev_ident)
      obtain q' where "q = q' @ [0x7d]" using assms(2,3,4) by (cases q rule: rev_cases) auto
      with pw assms(1,3) have "json_parse (trim p @ (rev w @ q') @ [0x7d]) = Inr v" by (metis append.assoc)
      from cut_text [OF this] True show ?thesis by simp
    qed
  next
    case False
    then have tail: "tail = [0xfffd]" using assms(5) by simp
    have "\<not> js_space 0xfffd" by (simp add: js_space_def)
    then have "rev (dropWhile js_space (rev (dropWhile js_space (p @ tail)))) = dropWhile js_space (p @ tail)"
      "\<exists>p'. dropWhile js_space (p @ tail) = p' @ [0xfffd]"
      by (simp_all add: tail dropWhile_append)
    with cut_text_replacement show ?thesis by (metis trim_def)
  qed
  then show ?thesis by (auto simp: parseWalLines_def l Let_def dec_def split: sum.splits)
qed

lemma parse_whole_line: "block_ok b \<Longrightarrow> parseWalLines (line_text b) = [block_json b]"
  using block_line [of b] trim_braces
  by (auto simp: parseWalLines_def split_last clean_no_newline Let_def simp del: split_lines.simps)

end
