(* ===== verification/Snapshot_Props.thy ===== *)
theory Snapshot_Props
  imports Wal_Props Node_Props
begin

text \<open>
  The snapshot codec is lossless on what a node holds, and only the published files are taken for snapshots.
\<close>

section \<open>The codec\<close>

text \<open>No object that looks like the second tag, the one of a byte array.\<close>

fun no_bytes :: "json \<Rightarrow> bool" where
  "no_bytes (JArr xs) \<longleftrightarrow> (\<forall>x \<in> set xs. no_bytes x)"
| "no_bytes (JObj ob) \<longleftrightarrow> (\<forall>kv \<in> set ob. no_bytes (snd kv)) \<and> (\<nexists>s. ob = [(bytes_tag, JStr s)])"
| "no_bytes v \<longleftrightarrow> True"

definition archivable :: "incremental \<Rightarrow> bool" where
  "archivable i \<longleftrightarrow> storable (inc_state i) \<and> no_bytes (inc_state i) \<and> inc_eventCount i < 2 ^ 53"

lemma tags_differ [simp]: "bytes_tag \<noteq> bigint_tag" "bigint_tag \<noteq> bytes_tag"
  by (simp_all add: bytes_tag_def bigint_tag_def)

lemma revive_bytes_tag: "storable v \<Longrightarrow> no_bytes v \<Longrightarrow> revive_bytes (tag_bigints v) = Inr v"
proof (induction v rule: storable.induct)
  case (1 xs)
  then have "map_res revive_bytes (map tag_bigints xs) = Inr xs"
    by (simp add: map_res_Inr list_all2_conv_all_nth)
  then show ?case by simp
next
  case (2 ob)
  then have "map_res (\<lambda>kv. and_then (revive_bytes (snd kv)) (\<lambda>v. Inr (fst kv, v))) (map (\<lambda>kv. (fst kv, tag_bigints (snd kv))) ob) = Inr ob"
    by (auto simp: map_res_Inr list_all2_conv_all_nth)
  with "2.prems" show ?case by (auto split: list.splits prod.splits json.splits)
qed (auto simp: bigint_of_dec)

lemma revive_bytes_json: "revive_bytes (tag_bigints (bytes_json b)) = Inr (bytes_json b)"
  by (simp add: bytes_json_def fromHex_toHex)

lemma state_revived: "archivable i \<Longrightarrow> revive_bytes (tag_bigints (inc_state i)) = Inr (inc_state i)"
  by (simp add: archivable_def revive_bytes_tag)

lemma revive_tagged_int: "revive_bytes (tag_bigints (JInt v)) = Inr (JInt v)"
  by (simp add: bigint_of_dec)

definition incr_json :: "incremental \<Rightarrow> json" where
  "incr_json i = JObj
     [(js ''state'', inc_state i), (js ''currentTick'', JInt (inc_tick i)),
      (js ''eventCount'', JNum (NInt (int (inc_eventCount i)))), (js ''lastEventHash'', bytes_json (inc_lastEventHash i))]"

lemmas body_json_incr = body_json_def [folded incr_json_def]

lemma tag_object: "tag_bigints (JObj ob) = JObj (map (\<lambda>kv. (fst kv, tag_bigints (snd kv))) ob)"
  by simp

lemma revive_members:
  "map_res (\<lambda>kv. and_then (revive_bytes (snd kv)) (\<lambda>v. Inr (fst kv, v))) ob = Inr (a # b # ms) \<Longrightarrow>
   revive_bytes (JObj ob) = Inr (JObj (a # b # ms))"
  by (cases a; cases "snd a") (auto split: json.splits)

lemma body_revived:
  assumes "archivable (sb_incr b)" "sb_version b = SNAPSHOT_VERSION"
  shows "storable (body_json b)" "revive_bytes (tag_bigints (body_json b)) = Inr (body_json b)"
proof -
  show "storable (body_json b)"
    using assms by (simp add: body_json_def bytes_json_def archivable_def SNAPSHOT_VERSION_def)
  have "revive_bytes (tag_bigints (incr_json (sb_incr b))) = Inr (incr_json (sb_incr b))"
    unfolding incr_json_def tag_object list.map prod.sel
    by (rule revive_members)
       (simp add: state_revived [OF assms(1)] revive_bytes_json revive_tagged_int del: revive_bytes.simps(2) tag_bigints.simps(1,3))
  then show "revive_bytes (tag_bigints (body_json b)) = Inr (body_json b)"
    unfolding body_json_incr tag_object list.map prod.sel
    by (intro revive_members) (simp add: revive_tagged_int del: revive_bytes.simps(2) tag_bigints.simps(1,3))
qed

lemma incr_of_json:
  "archivable i \<Longrightarrow> incr_of (JObj
     [(js ''state'', inc_state i), (js ''currentTick'', JInt (inc_tick i)),
      (js ''eventCount'', JNum (NInt (int (inc_eventCount i)))), (js ''lastEventHash'', bytes_json (inc_lastEventHash i))]) = Inr i"
  by (simp add: incr_of_def as_json_def as_int_def as_count_def as_bytes_def bytes_json_def fromHex_toHex)

lemma body_of_json:
  "archivable (sb_incr b) \<Longrightarrow> sb_version b = SNAPSHOT_VERSION \<Longrightarrow> body_of (body_json b) = Inr b"
  by (simp add: body_of_def body_json_def incr_of_json as_int_def as_string_def as_json_def)

lemma envelope_parses:
  "\<exists>s. stringify (JObj [(js ''checksum'', JStr c), (js ''body'', JStr t)]) = Some s \<and>
     json_parse s = Inr (JObj [(js ''checksum'', JStr c), (js ''body'', JStr t)])"
  by (rule parse_stringify) simp

lemma snapshot_decodes:
  assumes "archivable (sb_incr b)" "sb_version b = SNAPSHOT_VERSION"
  shows "\<exists>s. encodeSnapshot H b = Inr s \<and> to_text (utf8_encode s) = s \<and> decodeSnapshot H s = Inr b"
proof -
  from assms have st: "storable (body_json b)" by (rule body_revived(1))
  obtain t where t: "stringify (tag_bigints (body_json b)) = Some t" "json_parse t = Inr (tag_bigints (body_json b))"
    using parse_stringify [OF tag_textual [OF st]] by blast
  define c where "c = toHex (sha256 H (utf8_encode t)) True"
  obtain s where s: "stringify (JObj [(js ''checksum'', JStr c), (js ''body'', JStr t)]) = Some s"
    "json_parse s = Inr (JObj [(js ''checksum'', JStr c), (js ''body'', JStr t)])"
    using envelope_parses by blast
  have "well_formed s" using stringify_clean [OF s(1)] by (simp add: clean_text_def)
  then have "to_text (utf8_encode s) = s" by (rule to_text_encode)
  moreover have "encodeSnapshot H b = Inr s"
    using t(1) s(1) by (simp add: encodeSnapshot_def enc_def c_def del: stringify.simps tag_bigints.simps)
  moreover have "read_member ''snapshot_version'' (body_json b) = Inr (Some (JNum (NInt SNAPSHOT_VERSION)))"
    using assms(2) by (simp add: read_member_def body_json_def)
  then have "decodeSnapshot H s = Inr b"
    using t(2) s(2) body_revived(2) [OF assms] body_of_json [OF assms]
    by (simp add: decodeSnapshot_def read_member_def raised_def c_def del: revive_bytes.simps tag_bigints.simps)
  ultimately show ?thesis by blast
qed

text \<open>
  C6: Round trip of snapshots of archivable states: what \<open>makeSnapshotBody\<close> builds of one is encoded, and the bytes of the file, decoded
  and verified against the checksum, give the same body: state, tick, event count, hash, covered ticks and offset. Archivable: the state
  is JSON data of well-formed strings, no object in it looks like one of the two tags (a single member \<open>$bigint\<close> or \<open>$bytes\<close> that is a
  string), and fewer than 2\<open>^\<close>53 events are counted. The reducer does not exclude such objects; \<open>lookalike_snapshot\<close> below shows what
  becomes of them.
\<close>

theorem snapshot_round_trip:
  assumes "makeSnapshotBody H i covered offset = Inr body" "archivable i"
  shows "\<exists>s. encodeSnapshot H body = Inr s \<and> decodeSnapshot H (to_text (utf8_encode s)) = Inr body \<and>
    sb_incr body = i \<and> sb_covered body = covered \<and> sb_offset body = offset"
proof -
  from assms(1) have b: "sb_incr body = i" "sb_version body = SNAPSHOT_VERSION" "sb_covered body = covered" "sb_offset body = offset"
    by (auto simp: makeSnapshotBody_def)
  with snapshot_decodes [of body H] assms(2) show ?thesis by auto
qed

text \<open>An object in the state that looks like a tag is written as it is: the file is refused, or read as another value.\<close>

lemma lookalike_snapshot:
  assumes "storable (inc_state (sb_incr b))" "inc_eventCount (sb_incr b) < 2 ^ 53" "sb_version b = SNAPSHOT_VERSION"
    and "revive_bytes (tag_bigints (inc_state (sb_incr b))) = Inl x"
  shows "\<exists>s. encodeSnapshot H b = Inr s \<and> decodeSnapshot H (to_text (utf8_encode s)) = Inl SnapshotCorruption"
proof -
  have st: "storable (body_json b)" using assms(1-3) by (simp add: body_json_def bytes_json_def SNAPSHOT_VERSION_def)
  have "revive_bytes (tag_bigints (body_json b)) = Inl x"
    unfolding body_json_def tag_object list.map prod.sel
    by (simp add: assms(4) bigint_of_dec)
  obtain t where t: "stringify (tag_bigints (body_json b)) = Some t" "json_parse t = Inr (tag_bigints (body_json b))"
    using parse_stringify [OF tag_textual [OF st]] by blast
  define c where "c = toHex (sha256 H (utf8_encode t)) True"
  obtain s where s: "stringify (JObj [(js ''checksum'', JStr c), (js ''body'', JStr t)]) = Some s"
    "json_parse s = Inr (JObj [(js ''checksum'', JStr c), (js ''body'', JStr t)])"
    using envelope_parses by blast
  have "well_formed s" using stringify_clean [OF s(1)] by (simp add: clean_text_def)
  then have "to_text (utf8_encode s) = s" by (rule to_text_encode)
  moreover have "encodeSnapshot H b = Inr s"
    using t(1) s(1) by (simp add: encodeSnapshot_def enc_def c_def del: stringify.simps tag_bigints.simps)
  moreover have "decodeSnapshot H s = Inl SnapshotCorruption"
    using t(2) s(2) \<open>revive_bytes (tag_bigints (body_json b)) = Inl x\<close>
    by (simp add: decodeSnapshot_def read_member_def raised_def c_def del: revive_bytes.simps tag_bigints.simps)
  ultimately show ?thesis by simp
qed

lemma lookalike_values:
  "revive_bytes (tag_bigints (JObj [(bigint_tag, JStr (js ''5''))])) = Inr (JInt 5)"
  "revive_bytes (tag_bigints (JObj [(bytes_tag, JStr (js ''zz''))])) = Inl (Canon (CanonicalEncodingError ''HEX_INVALID_CHAR''))"
  by code_simp+

lemma genesis_storable: "storable genesis" "no_bytes genesis"
  by (simp_all add: genesis_def)

lemma initial_fields: "inc_state (initIncremental (Some g)) = g" "inc_eventCount (initIncremental (Some g)) = 0"
  by (simp_all add: initIncremental_def)

lemma genesis_archivable: "archivable (initIncremental (Some genesis))"
  by (simp add: archivable_def initial_fields genesis_storable)

theorem snapshot_round_trip_witness:
  "\<exists>body s. makeSnapshotBody plain_host (initIncremental (Some genesis)) 3 100 = Inr body \<and> encodeSnapshot plain_host body = Inr s \<and>
     decodeSnapshot plain_host (to_text (utf8_encode s)) = Inr body \<and> sb_offset body = 100"
proof -
  obtain r where r: "stateRootOf plain_host genesis = Inr r" "length r = 32" using ascii_state_root [OF plain_host_ok genesis_rooted(1)] by blast
  obtain g where "globalMerkleRoot plain_host genesis 0 ZERO32 = Inr g"
    using global_root_exists [OF plain_host_ok r, of ZERO32 0] by (auto simp: ZERO32_def MAX_UINT64_def)
  with r obtain body where b: "makeSnapshotBody plain_host (initIncremental (Some genesis)) 3 100 = Inr body"
    by (auto simp: makeSnapshotBody_def incrementalStateRoot_def incrementalGlobalRoot_def initIncremental_def)
  from snapshot_round_trip [OF b genesis_archivable] b show ?thesis by blast
qed

section \<open>Names of files\<close>

lemma takeWhile_digits: "list_all is_digit ds \<Longrightarrow> takeWhile is_digit (ds @ 0x2e # r) = ds"
  by (induction ds) (simp_all add: is_digit_def)

lemma snapshot_tick_digits:
  assumes "list_all is_digit ds" "ds \<noteq> []"
  shows "snapshot_tick (js ''snapshot-'' @ ds @ 0x2e # r) = (if 0x2e # r = js ''.json'' then Some (int (read_nat ds)) else None)"
proof -
  have "length (js ''snapshot-'') = 9" by simp
  then show ?thesis
    using assms takeWhile_digits [OF assms(1), of r] by (simp add: snapshot_tick_def Let_def)
qed

lemma snapshot_tick_name: "0 \<le> c \<Longrightarrow> snapshot_tick (snapshot_name c) = Some c"
proof -
  assume c: "0 \<le> c"
  then have d: "dec_int c = dec_nat (nat c)" by (simp add: dec_int_def)
  have "js ''.json'' = 0x2e # js ''json''" by (simp add: js_def)
  with snapshot_tick_digits [of "dec_nat (nat c)" "js ''json''"] dec_nat_digits [of "nat c"] c show ?thesis
    by (simp add: snapshot_name_def d)
qed

lemma other_names: "snapshot_tick genesis_file = None" "snapshot_tick wal_file = None" "snapshot_tick head_file = None"
  by code_simp+

lemma file_names_differ [simp]:
  "genesis_file \<noteq> wal_file" "genesis_file \<noteq> head_file" "wal_file \<noteq> head_file"
  "wal_file \<noteq> genesis_file" "head_file \<noteq> genesis_file" "head_file \<noteq> wal_file"
  by (simp_all add: genesis_file_def wal_file_def head_file_def)

lemma tmp_is_tmp: "is_tmp (tmp_name (snapshot_name c))"
  by (simp add: is_tmp_def tmp_name_def snapshot_name_def)

lemma not_tmp: "\<not> is_tmp genesis_file" "\<not> is_tmp wal_file" "\<not> is_tmp head_file"
  by code_simp+

lemma tmp_no_snapshot: "is_tmp n \<Longrightarrow> snapshot_tick n = None"
proof (rule ccontr)
  assume t: "is_tmp n" and "snapshot_tick n \<noteq> None"
  define k where "k = 9 + length (takeWhile is_digit (drop 9 n))"
  have j: "drop k n = js ''.json''" using \<open>snapshot_tick n \<noteq> None\<close> by (auto simp: snapshot_tick_def k_def Let_def split: if_splits)
  then have "k < length n" by (cases "k < length n") auto
  then have "last n = last (js ''.json'')" using last_drop [of k n] j by simp
  moreover have "last n = last (js ''.json.tmp'')" using t last_drop [of "length n - 9" n] by (cases n) (simp_all add: is_tmp_def)
  ultimately show False by (simp add: js_def)
qed

section \<open>Files of a directory\<close>

lemma map_of_filter_names: "map_of (filter (\<lambda>f. P (fst f)) d) n = (if P n then map_of d n else None)"
  by (induction d) auto

lemma file_bytes_update [simp]: "file_bytes n (AList.update k b d) = (if n = k then b else file_bytes n d)"
  by (simp add: file_bytes_def update_conv')

lemma map_of_rename: "map_of (rename_tmp n (write_tmp n b d)) k = (if k = n then Some b else if k = tmp_name n then None else map_of d k)"
  by (simp add: rename_tmp_def write_tmp_def update_conv' delete_conv' tmp_name_def)

lemma listed:
  assumes "(t, n) \<in> set (listSnapshots d)"
  shows "snapshot_tick n = Some t" "\<exists>b. map_of d n = Some b"
proof -
  from assms obtain f where f: "f \<in> set d" "snapshot_tick (fst f) = Some t" "n = fst f"
    by (auto simp: listSnapshots_def split: option.splits)
  then show "snapshot_tick n = Some t" by simp
  from f have "n \<in> fst ` set d" by blast
  then show "\<exists>b. map_of d n = Some b" by (cases "map_of d n") (simp_all add: map_of_eq_None_iff)
qed

end
