(* ===== verification/Persistent_Props.thy ===== *)
theory Persistent_Props
  imports Persistent Snapshot_Props
begin

text \<open>
  Recovery of the node process: after any interplay of submissions, snapshots, crashes while a snapshot is written, and restarts, a
  crash in the middle of the next write to the log loses at most the block being written, by whichever way the node recovers.
\<close>

section \<open>What is carried from tick to tick\<close>

text \<open>The fold on the carried state alone: what was collected has no influence on it.\<close>

fun live_run :: "host \<Rightarrow> tick_block list \<Rightarrow> incremental \<Rightarrow> incremental res" where
  "live_run H [] i = Inr i"
| "live_run H (b # bs) i = and_then (applyTick H i b) (\<lambda>st. live_run H bs (st_next st))"

lemma run_ticks_live: "map_sum (\<lambda>e. e) fst (run_ticks H bs (i, ts, log)) = live_run H bs i"
proof (induction bs arbitrary: i ts log)
  case (Cons b bs)
  show ?case by (cases "applyTick H i b") (simp_all add: run_step_def Cons.IH)
qed simp

lemma live_run_append: "live_run H (xs @ ys) i = and_then (live_run H xs i) (live_run H ys)"
  by (induction xs arbitrary: i) (simp_all add: and_then_assoc)

lemma foldBlocks_live: "map_sum (\<lambda>e. e) fst (foldBlocks H (map block_json bs) (i, ts, log)) = live_run H bs i"
  by (simp add: foldBlocks_run run_ticks_live)

definition view :: "ovt_node \<Rightarrow> incremental \<times> int \<times> json" where
  "view node = (on_live node, on_committed node, on_genesis node)"

lemma view_new [simp]: "view (new_node g c acc via n) = (fst acc, c, g)"
  by (simp add: view_def new_node_def split: prod.splits)

section \<open>A tail of the log\<close>

lemma wal_bytes_simps: "wal_bytes [] = []" "wal_bytes (b # bs) = utf8_encode (line_text b) @ 0x0a # wal_bytes bs"
  by (simp_all add: wal_bytes_def)

lemma wal_bytes_append: "wal_bytes (xs @ ys) = wal_bytes xs @ wal_bytes ys"
  by (simp add: wal_bytes_def)

lemma wal_bytes_last: "bs \<noteq> [] \<Longrightarrow> wal_bytes bs \<noteq> [] \<and> last (wal_bytes bs) = 0x0a"
proof (induction bs)
  case (Cons b bs)
  then show ?case by (cases bs) (simp_all add: wal_bytes_simps)
qed simp

text \<open>Bytes after whole lines that are read as the given blocks.\<close>

definition tail_reads :: "bytes \<Rightarrow> tick_block list \<Rightarrow> bool" where
  "tail_reads rest cs \<longleftrightarrow>
     (\<forall>bs. list_all block_ok bs \<longrightarrow> parseWalLines (to_text (wal_bytes bs @ rest)) = map block_json (bs @ cs))"

lemma to_text_wal:
  assumes "list_all block_ok bs" "well_formed t"
  shows "to_text (wal_bytes bs @ utf8_encode t) = wal_text bs @ t"
  using to_text_encode [OF well_formed_append [OF wal_text_wf [OF assms(1)] assms(2)]]
  by (simp add: wal_bytes_text [OF assms(1)] utf8_encode_append [OF wal_text_wf [OF assms(1)]])

lemma line_wf: "block_ok b \<Longrightarrow> well_formed (line_text b)"
  using block_line(4) by (simp add: clean_text_def)

lemma tail_cut:
  assumes "block_ok b" "m < length (utf8_encode (line_text b))"
  shows "tail_reads (take m (utf8_encode (line_text b))) []"
  unfolding tail_reads_def
proof (intro allI impI)
  fix bs assume bs: "list_all block_ok bs"
  from to_text_cut [OF wal_text_wf [OF bs] line_wf [OF assms(1)] assms(2)] obtain p q tail where
    c: "line_text b = p @ q" "q \<noteq> []" "tail = [] \<or> tail = [0xfffd]"
      "to_text (utf8_encode (wal_text bs) @ take m (utf8_encode (line_text b))) = wal_text bs @ p @ tail" by blast
  obtain s where "line_text b = 0x7b # s @ [0x7d]" using block_line(5) [OF assms(1)] by blast
  from parse_cut [OF block_line(3) [OF assms(1)] this c(1-3) block_line(4) [OF assms(1)]] c(4)
  show "parseWalLines (to_text (wal_bytes bs @ take m (utf8_encode (line_text b)))) = map block_json (bs @ [])"
    by (simp add: wal_bytes_text [OF bs] parse_wal [OF bs])
qed

lemma tail_whole: "block_ok b \<Longrightarrow> tail_reads (utf8_encode (line_text b)) [b]"
  by (simp add: tail_reads_def to_text_wal line_wf parse_wal parse_whole_line)

lemma tail_line: "block_ok b \<Longrightarrow> tail_reads (utf8_encode (line_text b) @ [0x0a]) [b]"
proof -
  assume b: "block_ok b"
  have "to_text (wal_bytes bs @ utf8_encode (line_text b) @ [0x0a]) = wal_text (bs @ [b])" if "list_all block_ok bs" for bs
    using to_text_wal [of "bs @ [b]" "[]"] that b by (simp add: wal_bytes_append wal_bytes_simps utf8_encode_def)
  moreover have "parseWalLines (wal_text (bs @ [b])) = map block_json (bs @ [b])" if "list_all block_ok bs" for bs
    using parse_wal [of "bs @ [b]" "[]"] that b by (simp add: parseWalLines_def trim_def)
  ultimately show ?thesis by (simp add: tail_reads_def)
qed

lemma tail_none: "tail_reads [] []"
  using to_text_wal [of _ "[]"] parse_wal [of _ "[]"]
  by (simp add: tail_reads_def parseWalLines_def trim_def utf8_encode_def)

section \<open>A directory that holds a log\<close>

text \<open>A snapshot is good for a log if it decodes to the state after one of its prefixes, with the offset of that prefix.\<close>

definition covers :: "host \<Rightarrow> json \<Rightarrow> tick_block list \<Rightarrow> snapshot_body \<Rightarrow> nat \<Rightarrow> bool" where
  "covers H g bs body k \<longleftrightarrow>
     k \<le> length bs \<and> sb_covered body = int k \<and> sb_offset body = int (length (wal_bytes (take k bs))) \<and>
     live_run H (take k bs) (initIncremental (Some g)) = Inr (sb_incr body)"

text \<open>What a directory may hold under the name of a snapshot: a good one, or a damaged one that the checksum reveals.\<close>

definition good_snapshot :: "host \<Rightarrow> json \<Rightarrow> tick_block list \<Rightarrow> bytes \<Rightarrow> bool" where
  "good_snapshot H g bs b \<longleftrightarrow>
     decodeSnapshot H (to_text b) = Inl SnapshotCorruption \<or>
     (\<exists>body k. decodeSnapshot H (to_text b) = Inr body \<and> covers H g bs body k)"

definition holds_log :: "host \<Rightarrow> json \<Rightarrow> tick_block list \<Rightarrow> bytes \<Rightarrow> dir \<Rightarrow> bool" where
  "holds_log H g bs rest d \<longleftrightarrow>
     storable g \<and> list_all block_ok bs \<and>
     (\<exists>t. enc g = Some t \<and> map_of d genesis_file = Some (utf8_encode t)) \<and>
     file_bytes wal_file d = wal_bytes bs @ rest \<and>
     (\<forall>n b. map_of d n = Some b \<longrightarrow> snapshot_tick n \<noteq> None \<longrightarrow> good_snapshot H g bs b)"

lemma genesis_reads: "storable g \<Longrightarrow> enc g = Some t \<Longrightarrow> dec (to_text (utf8_encode t)) = Inr g"
  using stringify_clean [of "tag_bigints g" t] enc_dec [of g] by (auto simp: enc_def to_text_encode clean_text_def)

lemma drop_wal: "drop (length (wal_bytes (take k bs))) (wal_bytes bs @ rest) = wal_bytes (drop k bs) @ rest"
proof -
  have "wal_bytes bs = wal_bytes (take k bs) @ wal_bytes (drop k bs)" by (simp flip: wal_bytes_append)
  then show ?thesis by simp
qed

lemma boundary: "offsetOnBoundary (wal_bytes bs @ rest) (int (length (wal_bytes (take k bs))))"
proof (cases "take k bs = []")
  case False
  have "wal_bytes bs @ rest = wal_bytes (take k bs) @ wal_bytes (drop k bs) @ rest" by (simp flip: wal_bytes_append)
  with wal_bytes_last [OF False] show ?thesis
    by (auto simp: offsetOnBoundary_def nth_append last_conv_nth)
next
  case True
  show ?thesis unfolding True by (simp add: offsetOnBoundary_def wal_bytes_simps)
qed

lemma full_replay_view:
  assumes "tail_reads rest cs" "list_all block_ok bs"
  shows "map_sum (\<lambda>e. e) view (full_replay H g (wal_bytes bs @ rest)) =
    and_then (live_run H (bs @ cs) (initIncremental (Some g))) (\<lambda>i. Inr (i, int (length bs + length cs), g))"
proof -
  let ?f = "foldBlocks H (map block_json (bs @ cs)) (initIncremental (Some g), [], [])"
  have "full_replay H g (wal_bytes bs @ rest) =
    and_then ?f (\<lambda>acc. Inr (new_node g (int (length bs + length cs)) acc FULL_REPLAY (length bs + length cs)))"
    using assms by (simp add: full_replay_def tail_reads_def foldFromGenesis_def)
  then show ?thesis
    unfolding foldBlocks_live [of H "bs @ cs" "initIncremental (Some g)" "[]" "[]", symmetric] by (cases ?f) simp_all
qed

lemma tail_replay_view:
  assumes "tail_reads rest cs" "list_all block_ok bs" "k \<le> length bs" "sb_covered body = int k"
    "sb_offset body = int (length (wal_bytes (take k bs)))"
  shows "map_sum (\<lambda>e. e) view (tail_replay H g (wal_bytes bs @ rest) body) =
    and_then (live_run H (drop k bs @ cs) (sb_incr body)) (\<lambda>i. Inr (i, int (length bs + length cs), g))"
proof -
  let ?f = "foldBlocks H (map block_json (drop k bs @ cs)) (sb_incr body, [], [])"
  have "list_all block_ok (drop k bs)" using assms(2) by (auto simp: list_all_iff dest: in_set_dropD)
  moreover have "length (wal_bytes bs @ rest) - length (wal_bytes (take k bs)) = length (wal_bytes (drop k bs) @ rest)"
    using arg_cong [OF drop_wal [of k bs rest], of length] by simp
  ultimately have "parseWalLines (readWalRange (wal_bytes bs @ rest) (nat (sb_offset body)) (length (wal_bytes bs @ rest))) =
      map block_json (drop k bs @ cs)"
    using assms(1,5) by (simp only: readWalRange_def drop_wal nat_int take_all tail_reads_def order_refl)
  then have "tail_replay H g (wal_bytes bs @ rest) body =
    and_then ?f (\<lambda>acc. Inr (new_node g (int (length bs + length cs)) acc SNAPSHOT_TAIL (length (drop k bs @ cs))))"
    using assms(3,4) by (simp add: tail_replay_def)
  then show ?thesis
    unfolding foldBlocks_live [of H "drop k bs @ cs" "sb_incr body" "[]" "[]", symmetric] by (cases ?f) simp_all
qed

text \<open>Only a good snapshot is loaded.\<close>

lemma first_valid_good:
  assumes "\<And>n b. map_of d n = Some b \<Longrightarrow> snapshot_tick n \<noteq> None \<Longrightarrow> good_snapshot H g bs b" "set es \<subseteq> set (listSnapshots d)"
  shows "first_valid H d (length (wal_bytes bs @ rest)) es = Inr None \<or>
    (\<exists>body k. first_valid H d (length (wal_bytes bs @ rest)) es = Inr (Some body) \<and> covers H g bs body k)"
  using assms(2)
proof (induction es)
  case (Cons e es)
  then have "(fst e, snd e) \<in> set (listSnapshots d)" by simp
  from listed [OF this] obtain b where b: "map_of d (snd e) = Some b" "snapshot_tick (snd e) \<noteq> None" by auto
  from assms(1) [OF this] show ?case unfolding good_snapshot_def
  proof (elim disjE exE conjE)
    assume "decodeSnapshot H (to_text b) = Inl SnapshotCorruption"
    with b Cons show ?thesis by (simp add: file_bytes_def)
  next
    fix body k assume d: "decodeSnapshot H (to_text b) = Inr body" "covers H g bs body k"
    have "length (wal_bytes bs) = length (wal_bytes (take k bs)) + length (wal_bytes (drop k bs))"
      by (simp flip: wal_bytes_append length_append)
    with b d have "first_valid H d (length (wal_bytes bs @ rest)) (e # es) = Inr (Some body)"
      by (simp add: covers_def file_bytes_def)
    with d(2) show ?thesis by blast
  qed
qed simp

lemma loads_good:
  "holds_log H g bs rest d \<Longrightarrow> loadLatestValidSnapshot H d (length (wal_bytes bs @ rest)) = Inr None \<or>
    (\<exists>body k. loadLatestValidSnapshot H d (length (wal_bytes bs @ rest)) = Inr (Some body) \<and> covers H g bs body k)"
  unfolding loadLatestValidSnapshot_def by (rule first_valid_good) (auto simp: holds_log_def)

lemma open_view:
  assumes "holds_log H g bs rest d" "tail_reads rest cs" "live_run H bs (initIncremental (Some g)) = Inr i"
  shows "map_sum (\<lambda>e. e) view (open_node H ign d) =
    raised (and_then (live_run H cs i) (\<lambda>i'. Inr (i', int (length bs + length cs), g)))"
proof -
  let ?wal = "wal_bytes bs @ rest"
  have ok: "list_all block_ok bs" and wal: "file_bytes wal_file d = ?wal" using assms(1) by (auto simp: holds_log_def)
  have gen: "read_genesis d = Inr g" using assms(1) genesis_reads by (auto simp: holds_log_def read_genesis_def raised_def)
  have view_raised: "map_sum (\<lambda>e. e) view (raised r) = raised (map_sum (\<lambda>e. e) view r)" for r
    by (cases r) (simp_all add: raised_def)
  have full: "map_sum (\<lambda>e. e) view (raised (full_replay H g ?wal)) =
      raised (and_then (live_run H cs i) (\<lambda>i'. Inr (i', int (length bs + length cs), g)))"
    unfolding view_raised full_replay_view [OF assms(2) ok] live_run_append by (simp add: assms(3))
  from loads_good [OF assms(1)] show ?thesis
  proof (elim disjE exE conjE)
    assume "loadLatestValidSnapshot H d (length ?wal) = Inr None"
    then have "open_node H ign d = raised (full_replay H g ?wal)"
      by (simp add: open_node_def gen wal Let_def del: length_append)
    with full show ?thesis by simp
  next
    fix body k
    assume l: "loadLatestValidSnapshot H d (length ?wal) = Inr (Some body)" and "covers H g bs body k"
    then have k: "k \<le> length bs" "sb_covered body = int k" and o: "sb_offset body = int (length (wal_bytes (take k bs)))"
      and r: "live_run H (take k bs) (initIncremental (Some g)) = Inr (sb_incr body)" by (auto simp: covers_def)
    have "live_run H (drop k bs) (sb_incr body) = Inr i"
      using live_run_append [of H "take k bs" "drop k bs" "initIncremental (Some g)"] r assms(3) by simp
    then have tail: "map_sum (\<lambda>e. e) view (raised (tail_replay H g ?wal body)) =
        raised (and_then (live_run H cs i) (\<lambda>i'. Inr (i', int (length bs + length cs), g)))"
      unfolding view_raised tail_replay_view [OF assms(2) ok k o] live_run_append by simp
    have "open_node H ign d = raised (if ign then full_replay H g ?wal else tail_replay H g ?wal body)"
      by (simp add: open_node_def gen wal l o boundary Let_def del: length_append)
    with full tail show ?thesis by simp
  qed
qed

section \<open>Runs of the process\<close>

text \<open>
  What happens to a directory: it is created; blocks are submitted; snapshots are taken; a file that is neither genesis, log nor a
  published snapshot is left half written (a crash in \<open>writeHead\<close> or before the rename of a snapshot); a snapshot is damaged in a
  way its checksum reveals, or deleted; the process is
  started again, also after a crash that came when the log had the block but the state did not.
\<close>

definition next_block :: "ovt_node \<Rightarrow> submission list \<Rightarrow> tick_block" where
  "next_block node subs = \<lparr>tb_tick = on_committed node, tb_submissions = subs\<rparr>"

inductive ovt_runs :: "host \<Rightarrow> json \<Rightarrow> tick_block list \<Rightarrow> ovt_node \<Rightarrow> dir \<Rightarrow> bool" for H g where
  created: "create H g d = Inr (node, d') \<Longrightarrow> storable g \<Longrightarrow> \<forall>f \<in> set d. snapshot_tick (fst f) = None \<Longrightarrow> ovt_runs H g [] node d'"
| built: "bulkCreate H g bs d = Inr (node, d') \<Longrightarrow> storable g \<Longrightarrow> list_all block_ok bs \<Longrightarrow>
    \<forall>f \<in> set d. snapshot_tick (fst f) = None \<Longrightarrow> ovt_runs H g bs node d'"
| submitted: "ovt_runs H g bs node d \<Longrightarrow> block_ok (next_block node subs) \<Longrightarrow> submit_block H subs (node, d) = ((node', d'), Inr r) \<Longrightarrow>
    ovt_runs H g (bs @ [next_block node subs]) node' d'"
| snapshot: "ovt_runs H g bs node d \<Longrightarrow> archivable (on_live node) \<Longrightarrow> take_snapshot H keep node d = Inr d' \<Longrightarrow> ovt_runs H g bs node d'"
| scratch: "ovt_runs H g bs node d \<Longrightarrow> n \<noteq> genesis_file \<Longrightarrow> n \<noteq> wal_file \<Longrightarrow> snapshot_tick n = None \<Longrightarrow>
    ovt_runs H g bs node (AList.update n b d)"
| damaged: "ovt_runs H g bs node d \<Longrightarrow> snapshot_tick n \<noteq> None \<Longrightarrow> decodeSnapshot H (to_text b) = Inl SnapshotCorruption \<Longrightarrow>
    ovt_runs H g bs node (AList.update n b d)"
| removed: "ovt_runs H g bs node d \<Longrightarrow> snapshot_tick n \<noteq> None \<Longrightarrow> ovt_runs H g bs node (AList.delete n d)"
| restarted: "ovt_runs H g bs node d \<Longrightarrow> open_node H ign d = Inr node' \<Longrightarrow> ovt_runs H g bs node' d"
| logged: "ovt_runs H g bs node d \<Longrightarrow> block_ok (next_block node subs) \<Longrightarrow> enc_bytes (block_json (next_block node subs)) = Inr line \<Longrightarrow>
    open_node H ign (appendLineDurable line d) = Inr node' \<Longrightarrow>
    ovt_runs H g (bs @ [next_block node subs]) node' (appendLineDurable line d)"

definition ovt_inv :: "host \<Rightarrow> json \<Rightarrow> tick_block list \<Rightarrow> ovt_node \<Rightarrow> dir \<Rightarrow> bool" where
  "ovt_inv H g bs node d \<longleftrightarrow>
     holds_log H g bs [] d \<and>
     (\<exists>i. view node = (i, int (length bs), g) \<and> live_run H bs (initIncremental (Some g)) = Inr i)"

lemma good_snapshot_mono: "good_snapshot H g bs b \<Longrightarrow> good_snapshot H g (bs @ cs) b"
proof -
  have "covers H g (bs @ cs) body k" if "covers H g bs body k" for body k using that by (simp add: covers_def)
  then show "good_snapshot H g bs b \<Longrightarrow> ?thesis" unfolding good_snapshot_def by blast
qed

lemma line_bytes: "block_ok b \<Longrightarrow> enc_bytes (block_json b) = Inr (utf8_encode (line_text b))"
  using block_line(1) by (simp add: enc_bytes_def)

lemma wal_bytes_snoc: "wal_bytes (bs @ [b]) = wal_bytes bs @ utf8_encode (line_text b) @ [0x0a]"
  by (simp add: wal_bytes_append wal_bytes_simps)

text \<open>Writes to the directory.\<close>

lemma holds_append:
  assumes "holds_log H g bs [] d" "block_ok b"
  shows "holds_log H g (bs @ [b]) [] (appendLineDurable (utf8_encode (line_text b)) d)"
  using assms good_snapshot_mono
  by (auto simp: holds_log_def appendLineDurable_def update_conv' wal_bytes_snoc other_names)

lemma holds_update:
  assumes "holds_log H g bs rest d" "n \<noteq> genesis_file" "n \<noteq> wal_file" "snapshot_tick n \<noteq> None \<Longrightarrow> good_snapshot H g bs b"
  shows "holds_log H g bs rest (AList.update n b d)"
  using assms by (auto simp: holds_log_def update_conv')

lemma holds_fresh:
  assumes "enc g = Some t" "storable g" "list_all block_ok bs" "\<forall>f \<in> set d. snapshot_tick (fst f) = None"
  shows "holds_log H g bs [] (AList.update wal_file (wal_bytes bs) (AList.update genesis_file (utf8_encode t) d))"
proof -
  have "snapshot_tick n = None" if "map_of d n = Some b" for n b using assms(4) map_of_SomeD [OF that] by auto
  then show ?thesis using assms(1-3) by (auto simp: holds_log_def update_conv' other_names)
qed

lemma writeHead_update: "writeHead H node d = Inr d' \<Longrightarrow> \<exists>b. d' = AList.update head_file b d"
  by (auto simp: writeHead_def)

lemma holds_head: "holds_log H g bs rest d \<Longrightarrow> writeHead H node d = Inr d' \<Longrightarrow> holds_log H g bs rest d'"
  using writeHead_update [of H node d d'] by (auto intro!: holds_update simp: other_names)

lemma holds_delete:
  assumes "holds_log H g bs rest d" "snapshot_tick n \<noteq> None"
  shows "holds_log H g bs rest (AList.delete n d)"
proof -
  have "n \<noteq> genesis_file" "n \<noteq> wal_file" using assms(2) other_names by auto
  with assms(1) show ?thesis by (auto simp: holds_log_def delete_conv' file_bytes_def)
qed

text \<open>A write that is cut short.\<close>

lemma holds_partial:
  "holds_log H g bs [] d \<Longrightarrow> holds_log H g bs rest (AList.update wal_file (file_bytes wal_file d @ rest) d)"
  by (auto simp: holds_log_def update_conv' other_names)

lemma enc_genesis: "storable g \<Longrightarrow> \<exists>t. enc g = Some t"
  using enc_dec by blast

lemma inv_create:
  assumes "create H g d = Inr (node, d')" "storable g" "\<forall>f \<in> set d. snapshot_tick (fst f) = None"
  shows "ovt_inv H g [] node d'"
proof -
  obtain t where t: "enc g = Some t" using enc_genesis [OF assms(2)] by blast
  with assms(1) have "writeHead H node (AList.update wal_file [] (AList.update genesis_file (utf8_encode t) d)) = Inr d'"
    and "node = new_node g 0 (initIncremental (Some g), [], []) FRESH 0"
    by (auto simp: create_def enc_bytes_def foldFromGenesis_def Let_def)
  moreover have "holds_log H g [] [] (AList.update wal_file [] (AList.update genesis_file (utf8_encode t) d))"
    using holds_fresh [OF t assms(2), of "[]"] assms(3) by (simp add: wal_bytes_simps)
  ultimately show ?thesis using holds_head by (auto simp: ovt_inv_def)
qed

lemma inv_bulk:
  assumes "bulkCreate H g bs d = Inr (node, d')" "storable g" "list_all block_ok bs" "\<forall>f \<in> set d. snapshot_tick (fst f) = None"
  shows "ovt_inv H g bs node d'"
proof -
  obtain t where t: "enc g = Some t" using enc_genesis [OF assms(2)] by blast
  have "map_res (\<lambda>b. enc_bytes (block_json b)) bs = Inr (map (\<lambda>b. utf8_encode (line_text b)) bs)"
    using assms(3) by (induction bs) (simp_all add: line_bytes)
  with assms(1) t obtain acc where "run_ticks H bs (initIncremental (Some g), [], []) = Inr acc"
    and w: "writeHead H node (AList.update wal_file (wal_bytes bs) (AList.update genesis_file (utf8_encode t) d)) = Inr d'"
    and n: "node = new_node g (int (length bs)) acc FRESH (length bs)"
    by (auto simp: bulkCreate_def enc_bytes_def [of g] Let_def wal_bytes_def comp_def)
  then have "live_run H bs (initIncremental (Some g)) = Inr (fst acc)" using run_ticks_live [of H bs "initIncremental (Some g)" "[]" "[]"] by simp
  with n holds_head [OF holds_fresh [OF t assms(2,3,4)] w] show ?thesis by (simp add: ovt_inv_def)
qed

lemma submit_effect:
  assumes "submit_block H subs (node, d) = ((node', d'), Inr r)"
  shows "\<exists>line st. enc_bytes (block_json (next_block node subs)) = Inr line \<and>
    applyTick H (on_live node) (next_block node subs) = Inr st \<and> r = st_tickResult st \<and>
    view node' = (st_next st, on_committed node + 1, on_genesis node) \<and> writeHead H node' (appendLineDurable line d) = Inr d'"
  using assms unfolding submit_block_def
  by (auto simp: next_block_def [symmetric] Let_def view_def split: sum.splits)

lemma inv_submit:
  assumes "ovt_inv H g bs node d" "block_ok (next_block node subs)" "submit_block H subs (node, d) = ((node', d'), Inr r)"
  shows "ovt_inv H g (bs @ [next_block node subs]) node' d'"
proof -
  from submit_effect [OF assms(3)] line_bytes [OF assms(2)] obtain st where
    st: "applyTick H (on_live node) (next_block node subs) = Inr st" "view node' = (st_next st, on_committed node + 1, on_genesis node)"
      "writeHead H node' (appendLineDurable (utf8_encode (line_text (next_block node subs))) d) = Inr d'" by auto
  moreover have "holds_log H g (bs @ [next_block node subs]) [] d'"
    using holds_head [OF holds_append [OF _ assms(2)] st(3)] assms(1) by (simp add: ovt_inv_def)
  ultimately show ?thesis using assms(1) by (auto simp: ovt_inv_def view_def live_run_append)
qed

lemma inv_open:
  assumes "holds_log H g bs [] d" "live_run H bs (initIncremental (Some g)) = Inr i" "open_node H ign d = Inr node'"
  shows "ovt_inv H g bs node' d"
  using open_view [OF assms(1) tail_none assms(2), of ign] assms by (simp add: ovt_inv_def raised_def)

lemma inv_snapshot:
  assumes "ovt_inv H g bs node d" "archivable (on_live node)" "take_snapshot H keep node d = Inr d'"
  shows "ovt_inv H g bs node d'"
proof -
  from assms(1) have h: "holds_log H g bs [] d" and v: "on_committed node = int (length bs)"
    and r: "live_run H bs (initIncremental (Some g)) = Inr (on_live node)" by (auto simp: ovt_inv_def view_def)
  from assms(3) obtain body d1 where b: "makeSnapshotBody H (on_live node) (on_committed node) (int (length (file_bytes wal_file d))) = Inr body"
    and w: "writeSnapshotFile H body d = Inr d1" and d': "d' = pruneSnapshots keep d1"
    by (auto simp: take_snapshot_def)
  from b have body: "sb_incr body = on_live node" "sb_version body = SNAPSHOT_VERSION" "sb_covered body = int (length bs)"
      "sb_offset body = int (length (wal_bytes (take (length bs) bs)))"
    using v h by (auto simp: makeSnapshotBody_def holds_log_def)
  from snapshot_decodes [of body H] assms(2) body obtain s where
    s: "encodeSnapshot H body = Inr s" "to_text (utf8_encode s) = s" "decodeSnapshot H s = Inr body" by auto
  let ?n = "snapshot_name (sb_covered body)"
  have g: "good_snapshot H g bs (utf8_encode s)"
    unfolding good_snapshot_def covers_def using s body r by (intro disjI2 exI [of _ body] exI [of _ "length bs"]) simp
  have n: "snapshot_tick ?n = Some (sb_covered body)" using body(3) by (simp add: snapshot_tick_name)
  have m: "map_of d1 k = (if k = ?n then Some (utf8_encode s) else if k = tmp_name ?n then None else map_of d k)" for k
    using w s(1) by (auto simp: writeSnapshotFile_def Let_def map_of_rename)
  have old: "snapshot_tick k \<noteq> None" if "k \<in> set (map snd (drop keep (listSnapshots d1)))" for k
    using that listed(1) by (fastforce dest: in_set_dropD)
  have p: "map_of d' k = (if k \<notin> set (map snd (drop keep (listSnapshots d1))) \<and> \<not> is_tmp k then map_of d1 k else None)" for k
    unfolding d' pruneSnapshots_def Let_def using map_of_filter_names [of "\<lambda>k. k \<notin> set (map snd (drop keep (listSnapshots d1))) \<and> \<not> is_tmp k" d1 k] by simp
  have same: "map_of d' k = map_of d k" if "k = genesis_file \<or> k = wal_file" for k
  proof -
    have "snapshot_tick k = None" "\<not> is_tmp k" using that other_names not_tmp by auto
    moreover from this n tmp_is_tmp have "k \<noteq> ?n" "k \<noteq> tmp_name ?n" by auto
    ultimately show ?thesis using old [of k] p [of k] m [of k] by auto
  qed
  have "good_snapshot H g bs x" if "map_of d' k = Some x" "snapshot_tick k \<noteq> None" for k x
  proof -
    from that(1) p [of k] have "map_of d1 k = Some x" by (simp split: if_splits)
    with m [of k] g that(2) h show ?thesis by (auto simp: holds_log_def split: if_splits)
  qed
  with h same have "holds_log H g bs [] d'" by (auto simp: holds_log_def file_bytes_def)
  with assms(1) show ?thesis by (simp add: ovt_inv_def)
qed

lemma runs_inv: "ovt_runs H g bs node d \<Longrightarrow> ovt_inv H g bs node d"
proof (induction rule: ovt_runs.induct)
  case (snapshot bs node d keep d')
  then show ?case by (blast intro: inv_snapshot)
next
  case (scratch bs node d n b)
  then show ?case by (auto simp: ovt_inv_def intro: holds_update)
next
  case (damaged bs node d n b)
  then have "n \<noteq> genesis_file" "n \<noteq> wal_file" using other_names by auto
  with damaged show ?case by (auto simp: ovt_inv_def good_snapshot_def intro!: holds_update)
next
  case (removed bs node d n)
  then show ?case by (auto simp: ovt_inv_def intro: holds_delete)
next
  case (restarted bs node d ign node')
  from restarted.IH inv_open [OF _ _ restarted.hyps(2)] show ?case unfolding ovt_inv_def by blast
next
  case (logged bs node d subs line ign node')
  let ?b = "next_block node subs"
  have l: "line = utf8_encode (line_text ?b)" using logged(3) line_bytes [OF logged(2)] by simp
  from logged.IH have h: "holds_log H g bs [] d" and v: "live_run H bs (initIncremental (Some g)) = Inr (on_live node)"
    by (auto simp: ovt_inv_def view_def)
  from open_view [OF holds_partial [OF h] tail_line [OF logged(2)] v, of ign] logged(4)
  have "raised (and_then (live_run H [?b] (on_live node)) (\<lambda>i'. Inr (i', int (length bs + 1), g))) = Inr (view node')"
    by (simp add: appendLineDurable_def l)
  then have "\<exists>i. live_run H [?b] (on_live node) = Inr i \<and> view node' = (i, int (length bs + 1), g)"
    by (cases "live_run H [?b] (on_live node)") (auto simp: raised_def simp del: live_run.simps)
  with holds_append [OF h logged(2)] v show ?case by (auto simp: ovt_inv_def live_run_append l)
qed (blast intro: inv_create inv_bulk inv_submit)+

section \<open>Crashes\<close>

text \<open>What a node is for its caller: the state it carries and the number of its ticks.\<close>

definition recovered :: "ovt_node pres \<Rightarrow> persist_error + incremental \<times> int" where
  "recovered r = map_sum (\<lambda>e. e) (\<lambda>node. (on_live node, on_committed node)) r"

definition torn_write :: "nat \<Rightarrow> bytes \<Rightarrow> dir \<Rightarrow> dir" where
  "torn_write m line d = AList.update wal_file (file_bytes wal_file d @ take m (line @ [0x0a])) d"

lemma recovered_view: "recovered r = map_sum (\<lambda>e. e) (\<lambda>v. (fst v, fst (snd v))) (map_sum (\<lambda>e. e) view r)"
  by (cases r) (simp_all add: recovered_def view_def)

lemma tail_torn:
  assumes "block_ok b"
  shows "tail_reads (take m (utf8_encode (line_text b) @ [0x0a])) (if m < length (utf8_encode (line_text b)) then [] else [b])"
proof (cases "m < length (utf8_encode (line_text b))")
  case True
  with tail_cut [OF assms] show ?thesis by simp
next
  case False
  then have "take m (utf8_encode (line_text b) @ [0x0a]) \<in> {utf8_encode (line_text b), utf8_encode (line_text b) @ [0x0a]}"
    by (cases "m = length (utf8_encode (line_text b))") auto
  with False tail_whole [OF assms] tail_line [OF assms] show ?thesis by auto
qed

text \<open>
  C3: Crash recovery. Take a node reached by any sequence of creation, submissions, snapshots, half-written other files, damaged or
  deleted snapshots and restarts, and a crash after any number \<open>m\<close> of bytes of the line of the next block. Opening the directory, by a snapshot and the tail of the log
  or by a full replay, gives exactly the state and the tick count of before the crash if the text of the line is incomplete, and exactly
  those after the block (or the exception of \<open>applyTick\<close>) if only its newline is missing or nothing is.
\<close>

theorem crash_recovery:
  assumes "ovt_runs H g bs node d" "block_ok (next_block node subs)" "enc_bytes (block_json (next_block node subs)) = Inr line"
  shows "recovered (open_node H ign (torn_write m line d)) =
    (if m < length line then Inr (on_live node, on_committed node)
     else raised (and_then (applyTick H (on_live node) (next_block node subs)) (\<lambda>st. Inr (st_next st, on_committed node + 1))))"
proof -
  let ?b = "next_block node subs"
  have l: "line = utf8_encode (line_text ?b)" using assms(3) line_bytes [OF assms(2)] by simp
  from runs_inv [OF assms(1)] have h: "holds_log H g bs [] d" and v: "live_run H bs (initIncremental (Some g)) = Inr (on_live node)"
    and c: "on_committed node = int (length bs)" by (auto simp: ovt_inv_def view_def)
  from open_view [OF holds_partial [OF h] tail_torn [OF assms(2), of m] v, of ign]
  have o: "map_sum (\<lambda>e. e) view (open_node H ign (torn_write m line d)) =
    raised (and_then (live_run H (if m < length line then [] else [?b]) (on_live node))
      (\<lambda>i. Inr (i, int (length bs + length (if m < length line then [] else [?b])), g)))"
    by (simp add: torn_write_def l)
  show ?thesis
    unfolding recovered_view o by (cases "applyTick H (on_live node) ?b") (simp_all add: raised_def c)
qed

text \<open>A first run: a node at the genesis state of the protocol, and an empty first block.\<close>

lemma created_at:
  assumes "storable g" "ascii_namespaces g"
  shows "\<exists>node d. create plain_host g [] = Inr (node, d) \<and> view node = (initIncremental (Some g), 0, g)"
proof -
  obtain t where t: "enc g = Some t" using enc_genesis [OF assms(1)] by blast
  obtain x where "stateRootOf plain_host g = Inr x" using ascii_state_root [OF plain_host_ok assms(2)] by blast
  then show ?thesis
    by (simp add: create_def enc_bytes_def t foldFromGenesis_def Let_def writeHead_def node_stateRoot_def eventLogRoot_def
      incrementalStateRoot_def new_node_def initial_fields view_def)
qed

lemmas genesis_created = created_at [OF genesis_storable(1) genesis_rooted(1)]

lemma empty_line: "map_sum (\<lambda>e. e) length (enc_bytes (block_json \<lparr>tb_tick = 0, tb_submissions = []\<rparr>)) = Inr 41"
  by code_simp

lemma empty_block_ok: "block_ok \<lparr>tb_tick = t, tb_submissions = []\<rparr>"
  by (simp add: block_ok_def block_json_def)

theorem crash_recovery_witness:
  "\<exists>node d line. ovt_runs plain_host genesis [] node d \<and> length line = 41 \<and>
     recovered (open_node plain_host False (torn_write 40 line d)) = Inr (initIncremental (Some genesis), 0)"
proof -
  obtain node d where n: "create plain_host genesis [] = Inr (node, d)" "view node = (initIncremental (Some genesis), 0, genesis)"
    using genesis_created by blast
  then have r: "ovt_runs plain_host genesis [] node d" using genesis_storable(1) by (auto intro: created)
  have b: "next_block node [] = \<lparr>tb_tick = 0, tb_submissions = []\<rparr>" using n(2) by (simp add: next_block_def view_def)
  obtain line where l: "enc_bytes (block_json (next_block node [])) = Inr line" "length line = 41"
    using empty_line unfolding b by (cases "enc_bytes (block_json \<lparr>tb_tick = 0, tb_submissions = []\<rparr>)") auto
  from crash_recovery [OF r _ l(1), of False 40] l(2) n(2) r show ?thesis
    unfolding b by (auto simp: empty_block_ok view_def)
qed

text \<open>
  C4: The audit path. Opening a reachable directory with \<open>ignoreSnapshots\<close> gives the complete transcript: the one that
  \<open>run\<close> computes in memory from the genesis state and the submitted blocks, with the state the process carried.
\<close>

theorem audit_transcript:
  assumes "ovt_runs H g bs node d"
  shows "\<exists>audit. open_node H True d = Inr audit \<and> on_live audit = on_live node \<and> on_via audit = FULL_REPLAY \<and>
    getTranscript H audit = run_node H (Some g) bs"
proof -
  from runs_inv [OF assms] have h: "holds_log H g bs [] d" and v: "live_run H bs (initIncremental (Some g)) = Inr (on_live node)"
    by (auto simp: ovt_inv_def view_def)
  then have ok: "list_all block_ok bs" and wal: "file_bytes wal_file d = wal_bytes bs" by (simp_all add: holds_log_def)
  have gen: "read_genesis d = Inr g" using h genesis_reads by (auto simp: holds_log_def read_genesis_def raised_def)
  obtain ts log where r: "run_ticks H bs (initIncremental (Some g), [], []) = Inr (on_live node, ts, log)"
    using run_ticks_live [of H bs "initIncremental (Some g)" "[]" "[]"] v
    by (cases "run_ticks H bs (initIncremental (Some g), [], [])") auto
  have "parseWalLines (to_text (wal_bytes bs)) = map block_json bs" using tail_none ok by (simp add: tail_reads_def)
  with gen wal r have "open_node H True d =
    Inr \<lparr>on_genesis = g, on_committed = int (length bs), on_live = on_live node, on_ticks = ts, on_log = log, on_via = FULL_REPLAY,
         on_tail = length bs\<rparr>"
    by (simp add: open_node_def full_replay_def foldFromGenesis_def foldBlocks_run new_node_def raised_def Let_def)
  with r show ?thesis by (simp add: getTranscript_def run_node_def incrementalStateRoot_def and_then_assoc)
qed

theorem audit_transcript_witness:
  "\<exists>node d audit. ovt_runs plain_host genesis [] node d \<and> open_node plain_host True d = Inr audit \<and>
     getTranscript plain_host audit = run_node plain_host (Some genesis) []"
proof -
  obtain node d where "create plain_host genesis [] = Inr (node, d)" using genesis_created by blast
  then have "ovt_runs plain_host genesis [] node d" using genesis_storable(1) by (auto intro: created)
  with audit_transcript [OF this] show ?thesis by blast
qed

section \<open>What the log cannot survive\<close>

text \<open>
  A submission of an object that looks like the tag of a \<open>bigint\<close> is written as it is, and its line is then taken for a torn one.
\<close>

definition lookalike_block :: tick_block where
  "lookalike_block = \<lparr>tb_tick = 0, tb_submissions =
     [\<lparr>sub_cal = JObj [(js ''memo'', JObj [(bigint_tag, JStr (js ''x''))])],
       sub_trace = \<lparr>currentTick = 0, tr_steps = [], stateBefore = JNull, stateAfter = JNull, operatorSigFlag = True, ownerSigFlag = False,
                    ownerSigners = None, pinnedMcpSchemaHash = None\<rparr>,
       sub_mode = Atomic\<rparr>]\<rparr>"

lemma lookalike_dropped:
  "case enc (block_json lookalike_block) of Some t \<Rightarrow> map_sum (\<lambda>e. ()) (\<lambda>v. ()) (json_parse t) = Inr () \<and> List.null (parseWalLines (t @ [0x0a])) | None \<Rightarrow> False"
  by code_simp

text \<open>
  Opening does not remove a torn tail. The next block is appended to it, on the same line, and is no more read: it is acknowledged,
  and a full replay drops it.
\<close>

lemma torn_tail_swallows:
  "case enc_bytes (block_json \<lparr>tb_tick = 0, tb_submissions = []\<rparr>) of
     Inr line \<Rightarrow>
       List.null (parseWalLines (to_text (file_bytes wal_file (appendLineDurable line [(wal_file, take 8 line)])))) \<and>
       length (parseWalLines (to_text (file_bytes wal_file (appendLineDurable line [])))) = 1
   | Inl e \<Rightarrow> False"
  by code_simp

lemma tail_lines: "list_all block_ok cs \<Longrightarrow> tail_reads (wal_bytes cs) cs"
  using tail_none by (simp add: tail_reads_def wal_bytes_append [symmetric] list_all_append)

text \<open>What a log with a refused block opens to, whatever follows the block.\<close>

lemma refused_opens:
  assumes "holds_log H g bs [] d" "live_run H bs (initIncremental (Some g)) = Inr i" "block_ok b" "applyTick H i b = Inl e"
    and "list_all block_ok later" "map_of d'' genesis_file = map_of d genesis_file"
    "file_bytes wal_file d'' = file_bytes wal_file d @ wal_bytes (b # later)"
  shows "open_node H True d'' = Inl (Thrown e)"
    "\<forall>n x. map_of d'' n = Some x \<longrightarrow> snapshot_tick n \<noteq> None \<longrightarrow> good_snapshot H g bs x \<Longrightarrow> open_node H False d'' = Inl (Thrown e)"
proof -
  have ok: "list_all block_ok bs" and wal: "file_bytes wal_file d'' = wal_bytes bs @ wal_bytes (b # later)"
    using assms(1,7) by (auto simp: holds_log_def)
  have t: "tail_reads (wal_bytes (b # later)) (b # later)" using assms(3,5) by (intro tail_lines) simp
  have r: "and_then (live_run H (b # later) i) f = Inl e" for f :: "incremental \<Rightarrow> (incremental \<times> int \<times> json) res" by (simp add: assms(4))
  have gen: "read_genesis d'' = Inr g" using assms(1,6) genesis_reads by (auto simp: holds_log_def read_genesis_def raised_def)
  have "map_sum (\<lambda>e. e) view (full_replay H g (file_bytes wal_file d'')) = Inl e"
    unfolding wal full_replay_view [OF t ok] live_run_append by (simp add: assms(2,4))
  then have "full_replay H g (file_bytes wal_file d'') = Inl e" by (cases "full_replay H g (file_bytes wal_file d'')") auto
  then show "open_node H True d'' = Inl (Thrown e)" by (simp add: open_node_def gen Let_def raised_def)
  assume "\<forall>n x. map_of d'' n = Some x \<longrightarrow> snapshot_tick n \<noteq> None \<longrightarrow> good_snapshot H g bs x"
  then have "holds_log H g bs (wal_bytes (b # later)) d''" using assms(1,6) wal by (auto simp: holds_log_def)
  from open_view [OF this t assms(2), of False] show "open_node H False d'' = Inl (Thrown e)"
    unfolding r by (cases "open_node H False d''") (simp_all add: raised_def)
qed

lemma refused_submit:
  assumes "block_ok (next_block node subs)" "applyTick H (on_live node) (next_block node subs) = Inl e"
  shows "submit_block H subs (node, d) = ((node\<lparr>on_committed := on_committed node + 1\<rparr>,
    appendLineDurable (utf8_encode (line_text (next_block node subs))) d), Inl e)"
  using assms(2) line_bytes [OF assms(1)] by (simp add: submit_block_def next_block_def Let_def)

text \<open>
  C5: A block is in the log before it is applied. If \<open>applyTick\<close> throws on it, \<open>submit\<close> throws the same exception and leaves the block in
  the log. Whatever later blocks are appended behind it, a full replay of the log (\<open>ignoreSnapshots\<close>, the audit path) throws that
  exception from then on, and so does an ordinary \<open>open\<close> as long as the directory has no valid snapshot but those it had before the
  refused submission. The restriction is needed: a snapshot that the surviving process takes afterwards hides the block
  (\<open>refused_block_hidden\<close> below).
\<close>

theorem refused_block_poisons:
  assumes "ovt_runs H g bs node d" "block_ok (next_block node subs)" "applyTick H (on_live node) (next_block node subs) = Inl e"
  shows "\<exists>node' d'. submit_block H subs (node, d) = ((node', d'), Inl e) \<and>
    (\<forall>later d''. list_all block_ok later \<longrightarrow> map_of d'' genesis_file = map_of d' genesis_file \<longrightarrow>
       file_bytes wal_file d'' = file_bytes wal_file d' @ wal_bytes later \<longrightarrow>
       open_node H True d'' = Inl (Thrown e) \<and>
       ((\<forall>n b. map_of d'' n = Some b \<longrightarrow> snapshot_tick n \<noteq> None \<longrightarrow>
           map_of d' n = Some b \<or> decodeSnapshot H (to_text b) = Inl SnapshotCorruption) \<longrightarrow>
        open_node H False d'' = Inl (Thrown e)))"
proof -
  let ?b = "next_block node subs"
  let ?d = "appendLineDurable (utf8_encode (line_text ?b)) d"
  from runs_inv [OF assms(1)] have h: "holds_log H g bs [] d" and v: "live_run H bs (initIncremental (Some g)) = Inr (on_live node)"
    by (auto simp: ovt_inv_def view_def)
  have d: "map_of ?d n = map_of d n" if "n \<noteq> wal_file" for n using that by (simp add: appendLineDurable_def update_conv')
  have w: "file_bytes wal_file ?d = file_bytes wal_file d @ wal_bytes [?b]" by (simp add: appendLineDurable_def wal_bytes_simps)
  note o = refused_opens [OF h v assms(2,3)]
  have "open_node H True d'' = Inl (Thrown e) \<and>
       ((\<forall>n b. map_of d'' n = Some b \<longrightarrow> snapshot_tick n \<noteq> None \<longrightarrow>
           map_of ?d n = Some b \<or> decodeSnapshot H (to_text b) = Inl SnapshotCorruption) \<longrightarrow> open_node H False d'' = Inl (Thrown e))"
    if l: "list_all block_ok later" "map_of d'' genesis_file = map_of ?d genesis_file"
      "file_bytes wal_file d'' = file_bytes wal_file ?d @ wal_bytes later" for later d''
  proof (intro conjI impI)
    have g: "map_of d'' genesis_file = map_of d genesis_file" and w': "file_bytes wal_file d'' = file_bytes wal_file d @ wal_bytes (?b # later)"
      using l(2,3) d w by (simp_all add: wal_bytes_simps)
    show "open_node H True d'' = Inl (Thrown e)" by (rule o(1) [OF l(1) g w'])
    assume s: "\<forall>n b. map_of d'' n = Some b \<longrightarrow> snapshot_tick n \<noteq> None \<longrightarrow>
      map_of ?d n = Some b \<or> decodeSnapshot H (to_text b) = Inl SnapshotCorruption"
    have "good_snapshot H g bs x" if "map_of d'' n = Some x" "snapshot_tick n \<noteq> None" for n x
    proof -
      have "n \<noteq> wal_file" using that(2) other_names by auto
      have "map_of ?d n = Some x \<or> decodeSnapshot H (to_text x) = Inl SnapshotCorruption" using s that by blast
      then show ?thesis
      proof
        assume "map_of ?d n = Some x"
        then have "map_of d n = Some x" using d [OF \<open>n \<noteq> wal_file\<close>] by simp
        with h that(2) show ?thesis by (simp add: holds_log_def)
      qed (simp add: good_snapshot_def)
    qed
    then show "open_node H False d'' = Inl (Thrown e)" by (intro o(2) [OF l(1) g w']) blast
  qed
  with refused_submit [OF assms(2,3)] show ?thesis by blast
qed

text \<open>A genesis state of a later tick: the first block of the node has tick 0.\<close>

lemma late_genesis: "inc_tick (initIncremental (Some tick_five)) = 5"
  by code_simp

lemma late_storable: "storable tick_five"
  by (simp add: tick_five_def genesis_def setIn.simps(2) js_get_def Let_def)

theorem refused_block_poisons_witness:
  "\<exists>node d node' d'. ovt_runs plain_host tick_five [] node d \<and>
     submit_block plain_host [] (node, d) = ((node', d'), Inl (Orchestrator ''TICK_REGRESSION'')) \<and>
     open_node plain_host True d' = Inl (Thrown (Orchestrator ''TICK_REGRESSION'')) \<and>
     open_node plain_host False d' = Inl (Thrown (Orchestrator ''TICK_REGRESSION'')) \<and>
     open_node plain_host True (appendLineDurable (utf8_encode (line_text \<lparr>tb_tick = 5, tb_submissions = []\<rparr>)) d') =
       Inl (Thrown (Orchestrator ''TICK_REGRESSION''))"
proof -
  obtain node d where n: "create plain_host tick_five [] = Inr (node, d)" "view node = (initIncremental (Some tick_five), 0, tick_five)"
    using created_at [OF late_storable genesis_rooted(2)] by blast
  then have r: "ovt_runs plain_host tick_five [] node d" using late_storable by (auto intro: created)
  have b: "next_block node [] = \<lparr>tb_tick = 0, tb_submissions = []\<rparr>" "on_live node = initIncremental (Some tick_five)"
    using n(2) by (simp_all add: next_block_def view_def)
  have "applyTick plain_host (on_live node) (next_block node []) = Inl (Orchestrator ''TICK_REGRESSION'')"
    by (simp add: b applyTick_def advance_def late_genesis)
  from refused_block_poisons [OF r _ this] obtain node' d' where
    s: "submit_block plain_host [] (node, d) = ((node', d'), Inl (Orchestrator ''TICK_REGRESSION''))"
    and o: "\<forall>later d''. list_all block_ok later \<longrightarrow> map_of d'' genesis_file = map_of d' genesis_file \<longrightarrow>
       file_bytes wal_file d'' = file_bytes wal_file d' @ wal_bytes later \<longrightarrow>
       open_node plain_host True d'' = Inl (Thrown (Orchestrator ''TICK_REGRESSION'')) \<and>
       ((\<forall>n b. map_of d'' n = Some b \<longrightarrow> snapshot_tick n \<noteq> None \<longrightarrow>
           map_of d' n = Some b \<or> decodeSnapshot plain_host (to_text b) = Inl SnapshotCorruption) \<longrightarrow>
        open_node plain_host False d'' = Inl (Thrown (Orchestrator ''TICK_REGRESSION'')))"
    unfolding b(1) by (auto simp: empty_block_ok)
  let ?c = "\<lparr>tb_tick = 5, tb_submissions = []\<rparr>"
  have one: "open_node plain_host True d' = Inl (Thrown (Orchestrator ''TICK_REGRESSION''))"
    "open_node plain_host False d' = Inl (Thrown (Orchestrator ''TICK_REGRESSION''))"
    using o [THEN spec, of "[]", THEN spec, of d'] by (simp_all add: wal_bytes_simps)
  have "file_bytes wal_file (appendLineDurable (utf8_encode (line_text ?c)) d') = file_bytes wal_file d' @ wal_bytes [?c]"
    "map_of (appendLineDurable (utf8_encode (line_text ?c)) d') genesis_file = map_of d' genesis_file"
    by (simp_all add: appendLineDurable_def wal_bytes_simps update_conv')
  then have "open_node plain_host True (appendLineDurable (utf8_encode (line_text ?c)) d') = Inl (Thrown (Orchestrator ''TICK_REGRESSION''))"
    using o [THEN spec, of "[?c]", THEN spec, of "appendLineDurable (utf8_encode (line_text ?c)) d'"] by (simp add: empty_block_ok)
  with r s one show ?thesis by blast
qed

text \<open>
  A snapshot of the process that survived the exception covers the log with the refused line but holds the state before it, and hides
  the block: an ordinary \<open>open\<close> then returns that state with the block counted, while the audit of the same directory throws.
\<close>

lemma listed_update:
  assumes "snapshot_tick n = Some t" "P n" "\<forall>f \<in> set x. snapshot_tick (fst f) = None"
  shows "concat (map (\<lambda>f. case snapshot_tick (fst f) of Some t \<Rightarrow> [(t, fst f)] | None \<Rightarrow> [])
    (filter (\<lambda>f. P (fst f)) (AList.update n b x))) = [(t, n)]"
  using assms(3)
proof (induction x)
  case (Cons f x)
  then have "fst f \<noteq> n" using assms(1) by auto
  moreover have "concat (map (\<lambda>f. case snapshot_tick (fst f) of Some t \<Rightarrow> [(t, fst f)] | None \<Rightarrow> []) (filter (\<lambda>f. P (fst f)) x)) = []"
    using Cons.prems by auto
  ultimately show ?case using Cons assms(1,2) by (cases f) simp
qed (use assms(1,2) in simp)

lemma fresh_listed:
  assumes "\<forall>f \<in> set d. snapshot_tick (fst f) = None" "snapshot_tick n = Some t" "is_tmp (tmp_name n)" "0 < keep"
  shows "listSnapshots (pruneSnapshots keep (rename_tmp n (write_tmp n b d))) = [(t, n)]"
    "map_of (pruneSnapshots keep (rename_tmp n (write_tmp n b d))) k = (if k = n then Some b else if is_tmp k then None else map_of d k)"
proof -
  let ?x = "AList.delete (tmp_name n) d" and ?d = "rename_tmp n (write_tmp n b d)"
  have d: "?d = AList.update n b ?x"
    by (simp add: rename_tmp_def write_tmp_def delete_update_same)
  have x: "\<forall>f \<in> set ?x. snapshot_tick (fst f) = None" using assms(1) by (auto simp: AList.delete_eq)
  have n: "\<not> is_tmp n" using tmp_no_snapshot assms(2) by auto
  have all: "listSnapshots ?d = [(t, n)]"
    using listed_update [of n t "\<lambda>_. True", OF assms(2) _ x] by (simp add: listSnapshots_def d)
  have p: "pruneSnapshots keep ?d = filter (\<lambda>f. \<not> is_tmp (fst f)) ?d"
    using assms(4) by (cases keep) (simp_all add: pruneSnapshots_def all Let_def)
  show "listSnapshots (pruneSnapshots keep ?d) = [(t, n)]"
    using listed_update [of n t "\<lambda>n. \<not> is_tmp n", OF assms(2) n x] unfolding p by (simp add: listSnapshots_def d)
  show "map_of (pruneSnapshots keep ?d) k = (if k = n then Some b else if is_tmp k then None else map_of d k)"
    unfolding p using map_of_filter_names [of "\<lambda>n. \<not> is_tmp n" ?d k] n assms(3) by (auto simp: d update_conv' delete_conv')
qed

lemma refused_block_hidden:
  assumes "ovt_runs H g bs node d" "block_ok (next_block node subs)" "applyTick H (on_live node) (next_block node subs) = Inl e"
    and "\<forall>f \<in> set d. snapshot_tick (fst f) = None" "archivable (on_live node)" "0 < keep"
    and "submit_block H subs (node, d) = ((node', d'), Inl e)" "take_snapshot H keep node' d' = Inr d''"
  shows "recovered (open_node H False d'') = Inr (on_live node, on_committed node + 1) \<and> open_node H True d'' = Inl (Thrown e)"
proof -
  let ?b = "next_block node subs"
  let ?d = "appendLineDurable (utf8_encode (line_text ?b)) d"
  from runs_inv [OF assms(1)] have h: "holds_log H g bs [] d" and v: "live_run H bs (initIncremental (Some g)) = Inr (on_live node)"
    and c: "on_committed node = int (length bs)" by (auto simp: ovt_inv_def view_def)
  have s: "node' = node\<lparr>on_committed := on_committed node + 1\<rparr>" "d' = ?d" using refused_submit [OF assms(2,3)] assms(7) by auto
  have ok: "list_all block_ok (bs @ [?b])" using h assms(2) by (simp add: holds_log_def)
  have w: "file_bytes wal_file ?d = wal_bytes (bs @ [?b])"
    using h by (simp add: appendLineDurable_def holds_log_def wal_bytes_snoc)
  from assms(8) obtain body d1 where b: "makeSnapshotBody H (on_live node) (on_committed node + 1) (int (length (wal_bytes (bs @ [?b])))) = Inr body"
    and wr: "writeSnapshotFile H body ?d = Inr d1" and d'': "d'' = pruneSnapshots keep d1"
    by (auto simp: take_snapshot_def s w)
  from b have body: "sb_incr body = on_live node" "sb_version body = SNAPSHOT_VERSION" "sb_covered body = int (length (bs @ [?b]))"
      "sb_offset body = int (length (wal_bytes (take (length (bs @ [?b])) (bs @ [?b]))))"
    by (auto simp: makeSnapshotBody_def c)
  from snapshot_decodes [of body H] assms(5) body obtain t where
    t: "encodeSnapshot H body = Inr t" "to_text (utf8_encode t) = t" "decodeSnapshot H t = Inr body" by auto
  let ?n = "snapshot_name (sb_covered body)"
  have n: "snapshot_tick ?n = Some (sb_covered body)" using body(3) by (simp add: snapshot_tick_name)
  have d1: "d'' = pruneSnapshots keep (rename_tmp ?n (write_tmp ?n (utf8_encode t) ?d))"
    using wr t(1) by (simp add: writeSnapshotFile_def d'' Let_def)
  have fresh: "\<forall>f \<in> set ?d. snapshot_tick (fst f) = None"
  proof
    fix f assume "f \<in> set ?d"
    then have "fst f \<in> fst ` set ?d" by blast
    then have "fst f = wal_file \<or> fst f \<in> fst ` set d" by (simp add: appendLineDurable_def dom_update)
    then show "snapshot_tick (fst f) = None" using assms(4) other_names by auto
  qed
  note l = fresh_listed [OF fresh n tmp_is_tmp assms(6), of "utf8_encode t", folded d1]
  have same: "map_of d'' k = map_of ?d k" if "k = genesis_file \<or> k = wal_file" for k
  proof -
    have "snapshot_tick k = None" "\<not> is_tmp k" using that other_names not_tmp by auto
    with l(2) [of k] n show ?thesis by auto
  qed
  then have g: "map_of d'' genesis_file = map_of d genesis_file" and w': "file_bytes wal_file d'' = wal_bytes (bs @ [?b])"
    using w by (simp_all add: appendLineDurable_def update_conv' file_bytes_def)
  have "file_bytes wal_file d'' = file_bytes wal_file d @ wal_bytes [?b]" using w' h by (simp add: holds_log_def wal_bytes_append)
  from refused_opens(1) [OF h v assms(2,3) _ g this] have audit: "open_node H True d'' = Inl (Thrown e)" by simp
  have gen: "read_genesis d'' = Inr g" using h g genesis_reads by (auto simp: holds_log_def read_genesis_def raised_def)
  have f: "file_bytes ?n d'' = utf8_encode t" using l(2) [of ?n] by (simp add: file_bytes_def)
  have load: "loadLatestValidSnapshot H d'' (length (wal_bytes (bs @ [?b]))) = Inr (Some body)"
    by (simp add: loadLatestValidSnapshot_def l(1) f t(2,3) body(4))
  have "map_sum (\<lambda>e. e) view (tail_replay H g (wal_bytes (bs @ [?b])) body) = Inr (on_live node, int (length (bs @ [?b])), g)"
    using tail_replay_view [OF tail_none ok _ body(3,4), of H g] by (simp add: body(1))
  then have "recovered (raised (tail_replay H g (wal_bytes (bs @ [?b])) body)) = Inr (on_live node, int (length (bs @ [?b])))"
    by (cases "tail_replay H g (wal_bytes (bs @ [?b])) body") (simp_all add: recovered_def raised_def view_def)
  moreover have "offsetOnBoundary (wal_bytes (bs @ [?b])) (sb_offset body)"
    using boundary [of "bs @ [?b]" "[]" "length (bs @ [?b])"] body(4) by simp
  ultimately have "recovered (open_node H False d'') = Inr (on_live node, int (length (bs @ [?b])))"
    by (simp add: open_node_def gen w' load Let_def)
  with audit c show ?thesis by simp
qed

lemma created_unlisted: "create H g [] = Inr (node, d) \<Longrightarrow> \<forall>f \<in> set d. snapshot_tick (fst f) = None"
  using other_names by (auto simp: create_def Let_def writeHead_def)

lemma snapshot_taken:
  assumes "host_ok H" "ascii_namespaces (inc_state (on_live node))" "inc_eventCount (on_live node) = 0" "archivable (on_live node)"
  shows "\<exists>d'. take_snapshot H keep node d = Inr d'"
proof -
  obtain r where r: "stateRootOf H (inc_state (on_live node)) = Inr r" "length r = 32" using ascii_state_root [OF assms(1,2)] by blast
  obtain g where "globalMerkleRoot H (inc_state (on_live node)) 0 ZERO32 = Inr g"
    using global_root_exists [OF assms(1) r, of ZERO32 0] by (auto simp: ZERO32_def MAX_UINT64_def)
  then have "globalMerkleRoot H (inc_state (on_live node)) 0 (inc_lastEventHash (on_live node)) = Inr g"
    by (simp add: globalMerkleRoot_def)
  with r assms(3) obtain body where b: "makeSnapshotBody H (on_live node) (on_committed node) (int (length (file_bytes wal_file d))) = Inr body"
    "sb_incr body = on_live node" "sb_version body = SNAPSHOT_VERSION"
    by (auto simp: makeSnapshotBody_def incrementalStateRoot_def incrementalGlobalRoot_def)
  with snapshot_decodes [of body H] assms(4) show ?thesis by (auto simp: take_snapshot_def writeSnapshotFile_def Let_def)
qed

text \<open>It happens: from a genesis state of tick 5.\<close>

lemma refused_block_hidden_at_five:
  "\<exists>node d node' d' d''. ovt_runs plain_host tick_five [] node d \<and>
     submit_block plain_host [] (node, d) = ((node', d'), Inl (Orchestrator ''TICK_REGRESSION'')) \<and>
     take_snapshot plain_host 2 node' d' = Inr d'' \<and> recovered (open_node plain_host False d'') = Inr (on_live node, 1) \<and>
     open_node plain_host True d'' = Inl (Thrown (Orchestrator ''TICK_REGRESSION''))"
proof -
  obtain node d where n: "create plain_host tick_five [] = Inr (node, d)" "view node = (initIncremental (Some tick_five), 0, tick_five)"
    using created_at [OF late_storable genesis_rooted(2)] by blast
  then have r: "ovt_runs plain_host tick_five [] node d" using late_storable by (auto intro: created)
  have b: "next_block node [] = \<lparr>tb_tick = 0, tb_submissions = []\<rparr>" and l: "on_live node = initIncremental (Some tick_five)"
    "on_committed node = 0"
    using n(2) by (simp_all add: next_block_def view_def)
  have ok: "block_ok (next_block node [])" by (simp add: b empty_block_ok)
  have e: "applyTick plain_host (on_live node) (next_block node []) = Inl (Orchestrator ''TICK_REGRESSION'')"
    by (simp add: b l applyTick_def advance_def late_genesis)
  obtain node' d' where s: "submit_block plain_host [] (node, d) = ((node', d'), Inl (Orchestrator ''TICK_REGRESSION''))" "on_live node' = on_live node"
    using refused_submit [OF ok e] by auto
  have "no_bytes tick_five" by (simp add: tick_five_def genesis_def setIn.simps(2) js_get_def Let_def)
  then have a: "archivable (on_live node)" by (simp add: archivable_def l initial_fields late_storable)
  obtain d'' where t: "take_snapshot plain_host 2 node' d' = Inr d''"
    using snapshot_taken [OF plain_host_ok, of node' 2 d'] a genesis_rooted(2) by (auto simp: s(2) l initial_fields)
  from refused_block_hidden [OF r ok e created_unlisted [OF n(1)] a _ s(1) t] l(2)
  have h: "recovered (open_node plain_host False d'') = Inr (on_live node, 1)"
    "open_node plain_host True d'' = Inl (Thrown (Orchestrator ''TICK_REGRESSION''))" by simp_all
  show ?thesis by (intro exI conjI) (rule r s(1) t h)+
qed

section \<open>The cadence of snapshots\<close>

text \<open>
  The cost model of recovery. With at least one tick in the budget, recovery of the longest tail that the cadence allows is
  predicted within the objective, no tail above \<open>maxTailForSla\<close> is, and the shipped cadence is 1527 ticks.
\<close>

theorem cadence_meets_sla:
  assumes "0 < perTick" "perTick \<le> sla - load - margin"
  shows "predictedRecoveryMs (operationalCadence sla load perTick margin) load perTick margin \<le> sla \<and>
    (\<forall>t > maxTailForSla sla load perTick margin. predictedRecoveryMs t load perTick margin > sla) \<and>
    OPERATIONAL_CADENCE_TICKS = 1527"
proof (intro conjI allI impI)
  define b where "b = sla - load - margin"
  define n where "n = b div perTick"
  have r: "0 \<le> b mod perTick" "b mod perTick < perTick" and e: "b = n * perTick + b mod perTick"
    using assms(1) by (simp_all add: n_def)
  have "1 \<le> n" using zdiv_mono1 [OF assms(2,1)] assms(1) by (simp add: n_def b_def)
  moreover have "n * perTick \<le> b" using e r(1) by linarith
  moreover have "b < (n + 1) * perTick" using e r(2) by (simp add: distrib_right)
  ultimately have q: "n * perTick \<le> sla - load - margin" "sla - load - margin < (n + 1) * perTick" "1 \<le> n"
    by (simp_all only: b_def)
  then have m: "maxTailForSla sla load perTick margin = n" by (simp add: maxTailForSla_def n_def b_def)
  have "operationalCadence sla load perTick margin \<le> n" using q(3) by (simp add: operationalCadence_def m)
  from mult_right_mono [OF this less_imp_le [OF assms(1)]] q(1)
  show "predictedRecoveryMs (operationalCadence sla load perTick margin) load perTick margin \<le> sla"
    by (simp add: predictedRecoveryMs_def)
  fix t assume "t > maxTailForSla sla load perTick margin"
  with m have "n + 1 \<le> t" by simp
  from mult_right_mono [OF this less_imp_le [OF assms(1)]] q(2) show "predictedRecoveryMs t load perTick margin > sla"
    by (simp add: predictedRecoveryMs_def)
next
  show "OPERATIONAL_CADENCE_TICKS = 1527" by code_simp
qed

theorem cadence_meets_sla_witness: "predictedRecoveryMs (operationalCadence 60000 10 18 5000) 10 18 5000 \<le> 60000"
  using cadence_meets_sla [of 18 60000 10 5000] by simp

end
