(* ===== verification/Json_Pretty.thy ===== *)
theory Json_Pretty
  imports Json_Text_Props
begin

text \<open>
  \<open>JSON.stringify(v, null, 2)\<close>, in which the head and the manifests of a node are written, and that it is read back by
  \<open>JSON.parse\<close>.
\<close>

definition newline :: "nat \<Rightarrow> jstring" where
  "newline n = 0x0a # replicate n 0x20"

fun joined :: "jstring \<Rightarrow> jstring list \<Rightarrow> jstring" where
  "joined sep [] = []"
| "joined sep [p] = p"
| "joined sep (p # q # ps) = p @ sep @ joined sep (q # ps)"

definition bracketed :: "16 word \<Rightarrow> 16 word \<Rightarrow> nat \<Rightarrow> jstring list \<Rightarrow> jstring" where
  "bracketed lb rb n ps =
     (if ps = [] then [lb, rb] else lb # newline (n + 2) @ joined (0x2c # newline (n + 2)) ps @ newline n @ [rb])"

fun pretty :: "nat \<Rightarrow> json \<Rightarrow> jstring option" where
  "pretty n (JArr xs) = map_option (bracketed 0x5b 0x5d n) (those (map (pretty (n + 2)) xs))"
| "pretty n (JObj ob) =
     map_option (bracketed 0x7b 0x7d n)
       (those (map (\<lambda>kv. map_option (\<lambda>t. json_quote (fst kv) @ 0x3a # 0x20 # t) (pretty (n + 2) (snd kv))) ob))"
| "pretty n v = stringify v"

section \<open>Reading it back\<close>

lemma blank_ws [simp]: "is_ws 0x0a" "is_ws 0x20"
  by (simp_all add: is_ws_def)

lemma read_blank:
  assumes "\<And>c. is_ws c \<Longrightarrow> read_unit m c = Inr m"
  shows "read_units (replicate n 0x20) m = Inr m" "read_units (newline n) m = Inr m"
proof -
  show r: "read_units (replicate n 0x20) m = Inr m" by (induction n) (simp_all add: assms)
  then show "read_units (newline n) m = Inr m" by (simp add: newline_def assms)
qed

lemma value_newline:
  assumes "textual v"
  shows "read_units (newline n) (at_value v (f # k)) = Inr (complete v (f # k))"
proof -
  have c: "read_unit (complete v (f # k)) c = Inr (complete v (f # k))" if "is_ws c" for c
    using that by (cases f) simp_all
  have "read_unit (at_value v (f # k)) 0x0a = Inr (complete v (f # k))"
  proof (cases v)
    case (JNum x)
    with assms obtain i where i: "v = JNum (NInt i)" "\<bar>i\<bar> < 2 ^ 53" by auto
    then show ?thesis using number_value_dec [OF i(2)]
      by (cases f) (simp_all add: at_value_def is_number_char_def is_digit_def word_le_def)
  qed (use c in \<open>simp_all add: at_value_def\<close>)
  then show ?thesis using read_blank(1) [of "complete v (f # k)", OF c] by (simp add: newline_def)
qed

lemma skip_newline: "read_units (newline n) (MKey ms, k) = Inr (MKey ms, k)" "read_units (newline n) (MFirstKey, k) = Inr (MFirstKey, k)"
    "read_units (newline n) (MValue, k) = Inr (MValue, k)" "read_units (newline n) (MElem, k) = Inr (MElem, k)"
  by (rule read_blank(2), simp add: start_value_def)+

lemma read_pretty_elements:
  assumes "list_all2 (\<lambda>p v. reads p v \<and> textual v) ps vs" "ps \<noteq> []"
  shows "read_units (joined (0x2c # newline m) ps @ newline n @ [0x5d]) (MValue, ArrF xs # k) = Inr (complete (JArr (xs @ vs)) k)"
  using assms
proof (induction "0x2c # newline m" ps arbitrary: vs xs rule: joined.induct)
  case (2 p)
  then obtain v where v: "vs = [v]" "reads p v" "textual v" by (auto simp: list_all2_Cons1)
  then show ?case by (simp add: json_machine.run_append reads_def value_newline is_ws_def)
next
  case (3 p q ps)
  then obtain v vs' where v: "vs = v # vs'" "reads p v" "textual v" "list_all2 (\<lambda>p v. reads p v \<and> textual v) (q # ps) vs'"
    by (auto simp: list_all2_Cons1)
  with at_value_next [of v "0x2c" "ArrF xs # k"] "3.hyps" [OF v(4), of "xs @ [v]"] show ?case
    by (simp add: json_machine.run_append reads_def closer_def is_ws_def skip_newline)
qed simp

lemma read_pretty_members:
  assumes "list_all2 (\<lambda>p kv. reads p (snd kv) \<and> textual (snd kv)) ps kvs" "ps \<noteq> []" "distinct (map fst (ms @ kvs))"
  shows "read_units (joined (0x2c # newline m) (map2 (\<lambda>p kv. json_quote (fst kv) @ 0x3a # 0x20 # p) ps kvs) @ newline n @ [0x7d]) (MKey ms, k) =
    Inr (complete (JObj (ms @ kvs)) k)"
  using assms
proof (induction ps arbitrary: kvs ms)
  case (Cons p ps)
  then obtain key v kvs' where kvs: "kvs = (key, v) # kvs'" and v: "reads p v" "textual v"
    and rest: "list_all2 (\<lambda>p kv. reads p (snd kv) \<and> textual (snd kv)) ps kvs'"
    by (cases kvs) auto
  have key: "key \<notin> fst ` set ms" using Cons.prems(3) kvs by auto
  have quoted: "read_units (json_quote key @ 0x3a # 0x20 # p) (MKey ms, k) = Inr (at_value v (ObjF ms key # k))"
    using v(1) by (simp add: json_quote_def is_ws_def start_value_def json_machine.run_append read_quote_units reads_def)
  have go: "read_units (json_quote key @ 0x3a # 0x20 # p @ r) (MKey ms, k) = read_units r (at_value v (ObjF ms key # k))" for r
    using json_machine.run_append [of "json_quote key @ 0x3a # 0x20 # p" r] quoted by simp
  have update: "AList.update key v ms = ms @ [(key, v)]"
    using key by (induction ms) auto
  show ?case
  proof (cases ps)
    case Nil
    with rest have "kvs' = []" by simp
    moreover have "read_units (newline n @ [0x7d]) (at_value v (ObjF ms key # k)) = Inr (complete (JObj (ms @ [(key, v)])) k)"
      using update value_newline [OF v(2), of n "ObjF ms key" k] by (simp add: json_machine.run_append is_ws_def)
    ultimately show ?thesis using Nil kvs by (simp add: go)
  next
    case (Cons q qs)
    then obtain kv kvs'' where kvs': "kvs' = kv # kvs''" using rest by (cases kvs') auto
    have "distinct (map fst ((ms @ [(key, v)]) @ kvs'))" using Cons.prems(3) kvs by auto
    note IH = Cons.IH [OF rest _ this]
    have "read_unit (at_value v (ObjF ms key # k)) 0x2c = Inr (MKey (ms @ [(key, v)]), k)"
      using update at_value_next [OF v(2), of "0x2c" "ObjF ms key # k"] by (simp add: closer_def is_ws_def)
    moreover have "read_units (newline m @ r) (MKey (ms @ [(key, v)]), k) = read_units r (MKey (ms @ [(key, v)]), k)" for r
      by (simp add: json_machine.run_append skip_newline)
    ultimately show ?thesis using IH Cons kvs' kvs by (simp add: go)
  qed
qed simp

lemma pretty_reads: "textual v \<Longrightarrow> \<exists>t. pretty n v = Some t \<and> reads t v"
proof (induction n v rule: pretty.induct)
  case (1 n xs)
  then have "\<forall>x \<in> set xs. \<exists>t. pretty (n + 2) x = Some t \<and> reads t x" by simp
  from bchoice [OF this] obtain f where f: "\<forall>x \<in> set xs. pretty (n + 2) x = Some (f x) \<and> reads (f x) x" ..
  have "those (map (pretty (n + 2)) xs) = Some (map f xs)" using f by (simp add: those_list_all2 list_all2_conv_all_nth)
  then have p: "pretty n (JArr xs) = Some (bracketed 0x5b 0x5d n (map f xs))" by simp
  have l: "list_all2 (\<lambda>p v. reads p v \<and> textual v) (map f xs) xs" using f "1.prems" by (simp add: list_all2_conv_all_nth)
  have "reads (bracketed 0x5b 0x5d n (map f xs)) (JArr xs)"
  proof (cases "map f xs")
    case Nil
    then show ?thesis by (simp add: bracketed_def reads_def at_value_def start_value_def is_ws_def)
  next
    case (Cons p ps)
    then obtain x where x: "reads p x" using l by (cases xs) auto
    let ?t = "joined (0x2c # newline (n + 2)) (map f xs) @ newline n @ [0x5d]"
    obtain q where "?t = p @ q" using Cons by (cases ps) auto
    then have "read_units ?t (MElem, k) = read_units ?t (MValue, k)" for k using x by (simp add: json_machine.run_append reads_def)
    with read_pretty_elements [OF l, of _ _ "[]"] Cons show ?thesis
      by (simp add: bracketed_def reads_def at_value_def start_value_def is_ws_def json_machine.run_append skip_newline)
  qed
  with p show ?case by blast
next
  case (2 n ob)
  then have "\<forall>kv \<in> set ob. \<exists>t. pretty (n + 2) (snd kv) = Some t \<and> reads t (snd kv)" by simp
  from bchoice [OF this] obtain f where f: "\<forall>kv \<in> set ob. pretty (n + 2) (snd kv) = Some (f kv) \<and> reads (f kv) (snd kv)" ..
  let ?m = "\<lambda>kv. json_quote (fst kv) @ 0x3a # 0x20 # f kv"
  have "those (map (\<lambda>kv. map_option (\<lambda>t. json_quote (fst kv) @ 0x3a # 0x20 # t) (pretty (n + 2) (snd kv))) ob) = Some (map ?m ob)"
    using f by (simp add: those_list_all2 list_all2_conv_all_nth)
  then have p: "pretty n (JObj ob) = Some (bracketed 0x7b 0x7d n (map ?m ob))" by simp
  have z: "map ?m ob = map2 (\<lambda>p kv. json_quote (fst kv) @ 0x3a # 0x20 # p) (map f ob) ob"
    by (simp add: zip_map1 zip_same_conv_map)
  have l: "list_all2 (\<lambda>p kv. reads p (snd kv) \<and> textual (snd kv)) (map f ob) ob"
    using f "2.prems" by (simp add: list_all2_conv_all_nth)
  have "reads (bracketed 0x7b 0x7d n (map ?m ob)) (JObj ob)"
  proof (cases ob)
    case Nil
    then show ?thesis by (simp add: bracketed_def reads_def at_value_def start_value_def is_ws_def)
  next
    case (Cons kv kvs)
    let ?t = "joined (0x2c # newline (n + 2)) (map ?m ob) @ newline n @ [0x7d]"
    obtain q where q: "?t = 0x22 # q" using Cons by (cases kvs) (auto simp: json_quote_def)
    have "read_units ?t (MFirstKey, k) = read_units ?t (MKey [], k)" for k unfolding q by (simp add: is_ws_def)
    with read_pretty_members [OF l, of "[]" "n + 2" n] "2.prems" Cons z show ?thesis
      by (simp add: bracketed_def reads_def at_value_def start_value_def is_ws_def json_machine.run_append skip_newline)
  qed
  with p show ?case by blast
qed (auto simp: reads_values reads_string reads_number)

lemma reads_parse: "reads t v \<Longrightarrow> textual v \<Longrightarrow> json_parse t = Inr v"
  by (cases v) (auto simp: json_parse_def reads_def at_value_def number_value_dec simp del: abs_less_iff)

lemma parse_pretty:
  assumes "textual v"
  shows "\<exists>t. pretty n v = Some t \<and> json_parse t = Inr v \<and> json_parse (t @ [0x0a]) = Inr v"
proof -
  obtain t where t: "pretty n v = Some t" "reads t v" using pretty_reads [OF assms] by blast
  have "read_unit (at_value v []) 0x0a = Inr (MDone v, [])"
    using assms by (cases v) (auto simp: at_value_def number_value_dec is_number_char_def is_digit_def word_le_def simp del: abs_less_iff)
  then have "json_parse (t @ [0x0a]) = Inr v" using t(2) by (simp add: json_parse_def json_machine.run_append reads_def)
  with t reads_parse [OF t(2) assms] show ?thesis by blast
qed

section \<open>Its bytes\<close>

lemma unit_wf: "\<not> high_surrogate c \<Longrightarrow> \<not> low_surrogate c \<Longrightarrow> well_formed s \<Longrightarrow> well_formed (c # s)"
  using well_formed_append [of "[c]" s] by simp

lemma newline_wf: "well_formed (newline n)"
proof -
  have b: "\<not> high_surrogate 0x20" "\<not> low_surrogate 0x20" by (simp_all add: high_surrogate_def low_surrogate_def)
  have "well_formed (replicate n 0x20)" by (induction n) (simp_all add: unit_wf b)
  then show ?thesis unfolding newline_def by (intro unit_wf) (simp_all add: high_surrogate_def low_surrogate_def)
qed

lemma joined_wf: "\<forall>p \<in> set ps. well_formed p \<Longrightarrow> well_formed sep \<Longrightarrow> well_formed (joined sep ps)"
  by (induction sep ps rule: joined.induct) (auto intro: well_formed_append)

lemma bracketed_wf:
  assumes "\<forall>p \<in> set ps. well_formed p" "clean_text [lb]" "clean_text [rb]"
  shows "well_formed (bracketed lb rb n ps)"
proof -
  have "well_formed ([lb] @ newline (n + 2) @ joined (0x2c # newline (n + 2)) ps @ newline n @ [rb])"
    using assms newline_wf
    by (intro well_formed_append joined_wf unit_wf) (auto simp: clean_text_def high_surrogate_def low_surrogate_def)
  moreover have "well_formed ([lb] @ [rb])" using assms(2,3) by (intro well_formed_append) (auto simp: clean_text_def)
  ultimately show ?thesis by (simp add: bracketed_def del: well_formed.simps)
qed

lemma stringify_wf: "stringify v = Some t \<Longrightarrow> well_formed t"
  using stringify_clean by (simp add: clean_text_def)

lemma pretty_wf: "pretty n v = Some t \<Longrightarrow> well_formed t"
proof (induction n v arbitrary: t rule: pretty.induct)
  case (1 n xs)
  then obtain ps where ps: "those (map (pretty (n + 2)) xs) = Some ps" "t = bracketed 0x5b 0x5d n ps" by auto
  then have "\<forall>p \<in> set ps. well_formed p" using "1.IH" those_member [OF ps(1)] by blast
  then show ?case unfolding ps(2) by (intro bracketed_wf clean_marks)
next
  case (2 n ob)
  let ?m = "\<lambda>kv. map_option (\<lambda>t. json_quote (fst kv) @ 0x3a # 0x20 # t) (pretty (n + 2) (snd kv))"
  from "2.prems" obtain ps where ps: "those (map ?m ob) = Some ps" "t = bracketed 0x7b 0x7d n ps" by auto
  have "well_formed p" if "p \<in> set ps" for p
  proof -
    from those_member [OF ps(1) that] obtain kv u where u: "kv \<in> set ob" "pretty (n + 2) (snd kv) = Some u"
      "p = json_quote (fst kv) @ 0x3a # 0x20 # u" by auto
    with "2.IH" [OF u(1) u(2)] show ?thesis using clean_json_quote [of "fst kv"]
      by (auto simp: clean_text_def high_surrogate_def low_surrogate_def intro!: well_formed_append unit_wf)
  qed
  then show ?case unfolding ps(2) by (intro bracketed_wf clean_marks) blast
qed (auto simp only: pretty.simps dest: stringify_wf)

text \<open>A file that holds such a text, with or without a newline at its end, is read back.\<close>

lemma pretty_file:
  assumes "textual v"
  shows "\<exists>t. pretty n v = Some t \<and> json_parse (to_text (utf8_encode t)) = Inr v \<and> json_parse (to_text (utf8_encode (t @ [0x0a]))) = Inr v"
proof -
  obtain t where t: "pretty n v = Some t" "json_parse t = Inr v" "json_parse (t @ [0x0a]) = Inr v" using parse_pretty [OF assms] by blast
  have "well_formed (t @ [0x0a])" using pretty_wf [OF t(1)] by (simp add: well_formed_append high_surrogate_def low_surrogate_def)
  with t pretty_wf [OF t(1)] show ?thesis by (simp add: to_text_encode)
qed

end
