(* ===== verification/Live_Props.thy ===== *)
theory Live_Props
  imports Observers Persistent_Props Json_Pretty
begin

text \<open>
  The live observer and the node it watches: the head that a node publishes is read back, and the observer's verdict compares it with
  an independent run of the log.
\<close>

definition head_json :: "nat \<Rightarrow> jstring \<Rightarrow> jstring \<Rightarrow> json" where
  "head_json n root groot = JObj
     [(js ''tickCount'', JNum (NInt (int n))), (js ''finalStateRoot'', JStr root), (js ''eventLogRoot'', JStr groot)]"

lemma head_pretty: "n < 2 ^ 53 \<Longrightarrow> pretty 0 (head_json n root groot) = Some (head_text (int n) root groot)"
  by (simp add: head_json_def head_text_def bracketed_def newline_def js_def)

text \<open>A head with any claim.\<close>

definition publish :: "nat \<Rightarrow> jstring \<Rightarrow> jstring \<Rightarrow> dir \<Rightarrow> dir" where
  "publish n root groot d = AList.update head_file (utf8_encode (head_text (int n) root groot)) d"

lemma read_published:
  assumes "n < 2 ^ 53"
  shows "read_head (publish n root groot d) = Inr \<lparr>hd_tickCount = n, hd_finalStateRoot = root, hd_eventLogRoot = groot\<rparr>"
proof -
  have "textual (head_json n root groot)" using assms by (simp add: head_json_def)
  from pretty_file [OF this, of 0] have "json_parse (to_text (utf8_encode (head_text (int n) root groot))) = Inr (head_json n root groot)"
    by (simp add: head_pretty [OF assms])
  then show ?thesis by (simp add: read_head_def publish_def head_json_def as_count_def as_string_def raised_def)
qed

lemma holds_published: "holds_log H g bs rest d \<Longrightarrow> holds_log H g bs rest (publish n root groot d)"
  unfolding publish_def by (intro holds_update) (simp_all add: other_names)

lemma readProgram_log:
  assumes "holds_log H g bs [] d"
  shows "readProgram d = Inr (g, map block_json bs)"
proof -
  have "read_genesis d = Inr g" using assms genesis_reads by (auto simp: holds_log_def read_genesis_def raised_def)
  moreover have "parseWalLines (to_text (wal_bytes bs)) = map block_json bs" using tail_none assms by (simp add: tail_reads_def holds_log_def)
  ultimately show ?thesis using assms by (simp add: readProgram_def holds_log_def)
qed

lemma blocks_back: "map_res block_of (map block_json bs) = Inr bs"
  by (induction bs) simp_all

text \<open>The run of a log that the node has run before.\<close>

lemma run_of_log:
  assumes "live_run H bs (initIncremental (Some g)) = Inr i" "bs \<noteq> []"
  obtains t root groot where "run_node H (Some g) bs = Inr t" "ts_finalStateRoot t = root" "ts_ticks t \<noteq> []"
    "tr_globalMerkleRoot (last (ts_ticks t)) = groot" "incrementalStateRoot H i = Inr root" "incrementalGlobalRoot H i = Inr groot"
proof -
  obtain ts log where r: "run_ticks H bs (initIncremental (Some g), [], []) = Inr (i, ts, log)"
    using run_ticks_live [of H bs "initIncremental (Some g)" "[]" "[]"] assms(1)
    by (cases "run_ticks H bs (initIncremental (Some g), [], [])") auto
  from last_tick [OF r assms(2)] have l: "ts \<noteq> []" "incrementalStateRoot H i = Inr (tr_stateRoot (last ts))"
    "incrementalGlobalRoot H i = Inr (tr_globalMerkleRoot (last ts))" by auto
  from l(2) obtain x where x: "stateRootOf H (inc_state i) = Inr x" "hex x = tr_stateRoot (last ts)" by (auto simp: incrementalStateRoot_def)
  show thesis by (rule that [of "\<lparr>ts_genesis = g, ts_ticks = ts, ts_eventLog = log, ts_finalStateRoot = hex x\<rparr>"])
      (use r l x in \<open>simp_all add: run_node_def\<close>)
qed

lemma live_run_prefix:
  "live_run H bs i = Inr j \<Longrightarrow> \<exists>k. live_run H (take n bs) i = Inr k"
  using live_run_append [of H "take n bs" "drop n bs" i] by (cases "live_run H (take n bs) i") auto

text \<open>
  C10: The live observer is independent. On the directory of a node, whatever checkpoint the published head claims, the observer folds
  the logged blocks up to the claimed number itself and says \<open>OBSERVED_OK\<close> exactly if that many blocks are in the log and the two
  roots of their run are the claimed ones; blocks that the head does not cover yet make no difference.
\<close>

theorem live_observer_independent:
  assumes "ovt_runs H g bs node d" "bs \<noteq> []" "0 < n" "n < 2 ^ 53"
  shows "\<exists>v i. live_observe H (publish n root groot d) = Inr v \<and> live_run H (take n bs) (initIncremental (Some g)) = Inr i \<and>
    ov_observedTicks v = min n (length bs) \<and>
    Inr (ov_derivedStateRoot v) = incrementalStateRoot H i \<and> Inr (ov_derivedGlobalRoot v) = incrementalGlobalRoot H i \<and>
    ov_status v = (if n \<le> length bs \<and> incrementalStateRoot H i = Inr root \<and> incrementalGlobalRoot H i = Inr groot
                   then OBSERVED_OK else OBSERVED_DRIFT)"
proof -
  from runs_inv [OF assms(1)] have h: "holds_log H g bs [] d" and "live_run H bs (initIncremental (Some g)) = Inr (on_live node)"
    by (auto simp: ovt_inv_def view_def)
  then obtain i where i: "live_run H (take n bs) (initIncremental (Some g)) = Inr i" using live_run_prefix by blast
  have "take n bs \<noteq> []" using assms(2,3) by simp
  from run_of_log [OF i this] obtain t r gr where t: "run_node H (Some g) (take n bs) = Inr t" "ts_finalStateRoot t = r"
    "ts_ticks t \<noteq> []" "tr_globalMerkleRoot (last (ts_ticks t)) = gr" "incrementalStateRoot H i = Inr r" "incrementalGlobalRoot H i = Inr gr"
    by blast
  have b: "map_res block_of (take n (map block_json bs)) = Inr (take n bs)" by (simp add: take_map blocks_back)
  have "length (take n bs) = n \<longleftrightarrow> n \<le> length bs" by auto
  with i t b assms(3) readProgram_log [OF holds_published [OF h]] show ?thesis
    by (simp add: live_observe_def read_published [OF assms(4)] raised_def Let_def)
qed

text \<open>A node built with one block at tick 5.\<close>

lemma one_block_node:
  "\<exists>node d. ovt_runs plain_host genesis [\<lparr>tb_tick = 5, tb_submissions = []\<rparr>] node d"
proof -
  let ?b = "\<lparr>tb_tick = 5, tb_submissions = []\<rparr>"
  obtain t where t: "enc genesis = Some t" using enc_genesis [OF genesis_storable(1)] by blast
  obtain incr x where r: "run_ticks plain_host [?b] (initIncremental (Some genesis), [], []) = Inr (incr, [x], [tick_event 5])"
    using first_tick by blast
  from last_tick [OF r] have l: "incrementalStateRoot plain_host incr = Inr (tr_stateRoot x)"
    "incrementalGlobalRoot plain_host incr = Inr (tr_globalMerkleRoot x)" by auto
  have "\<exists>node d. bulkCreate plain_host genesis [?b] [] = Inr (node, d)"
    using t l r line_bytes [OF empty_block_ok, of 5]
    by (simp add: bulkCreate_def enc_bytes_def [of genesis] writeHead_def node_stateRoot_def eventLogRoot_def new_node_def Let_def)
  then obtain node d where "bulkCreate plain_host genesis [?b] [] = Inr (node, d)" by blast
  from built [OF this genesis_storable(1)] empty_block_ok [of 5] show ?thesis by auto
qed

theorem live_observer_independent_witness:
  "\<exists>node d v. ovt_runs plain_host genesis [\<lparr>tb_tick = 5, tb_submissions = []\<rparr>] node d \<and>
     live_observe plain_host (publish 2 (js ''0x00'') (js ''0x00'') d) = Inr v \<and> ov_observedTicks v = 1 \<and> ov_status v = OBSERVED_DRIFT"
proof -
  obtain node d where r: "ovt_runs plain_host genesis [\<lparr>tb_tick = 5, tb_submissions = []\<rparr>] node d" using one_block_node by blast
  from live_observer_independent [OF r, of 2 "js ''0x00''" "js ''0x00''"] r show ?thesis by auto
qed

section \<open>The head of a node\<close>

lemma head_published:
  assumes "writeHead H node d = Inr d'" "on_committed node = int n"
  obtains root groot where "d' = publish n root groot d" "incrementalStateRoot H (on_live node) = Inr root"
    "if inc_eventCount (on_live node) = 0 then groot = [] else incrementalGlobalRoot H (on_live node) = Inr groot"
  using assms by (auto simp: writeHead_def node_stateRoot_def eventLogRoot_def publish_def split: if_splits)

lemma global_root_nonempty: "incrementalGlobalRoot H i = Inr r \<Longrightarrow> r \<noteq> []"
  by (auto simp: incrementalGlobalRoot_def globalMerkleRoot_def hex_def js_def)

text \<open>
  What a node publishes after a block is observed as correct if its log has an event; without one the head has an empty event-log root
  while the observer derives the root of the last tick, and the correct node is reported as drifted.
\<close>

lemma published_head_observed:
  assumes "ovt_runs H g bs node d" "bs \<noteq> []" "length bs < 2 ^ 53" "writeHead H node d = Inr d'"
  shows "\<exists>v. live_observe H d' = Inr v \<and>
    ov_status v = (if inc_eventCount (on_live node) = 0 then OBSERVED_DRIFT else OBSERVED_OK)"
proof -
  from runs_inv [OF assms(1)] have c: "on_committed node = int (length bs)"
    and l: "live_run H bs (initIncremental (Some g)) = Inr (on_live node)" by (auto simp: ovt_inv_def view_def)
  from head_published [OF assms(4) c] obtain root groot where d': "d' = publish (length bs) root groot d"
    and r: "incrementalStateRoot H (on_live node) = Inr root"
    "if inc_eventCount (on_live node) = 0 then groot = [] else incrementalGlobalRoot H (on_live node) = Inr groot" by blast
  have h: "holds_log H g bs [] d" using runs_inv [OF assms(1)] by (auto simp: ovt_inv_def)
  obtain t root' gr where "run_node H (Some g) bs = Inr t" "ts_finalStateRoot t = root'" "ts_ticks t \<noteq> []"
    "tr_globalMerkleRoot (last (ts_ticks t)) = gr" "incrementalStateRoot H (on_live node) = Inr root'"
    "incrementalGlobalRoot H (on_live node) = Inr gr" by (rule run_of_log [OF l assms(2)])
  with r(1) have t: "run_node H (Some g) bs = Inr t" "ts_finalStateRoot t = root" "ts_ticks t \<noteq> []"
    "tr_globalMerkleRoot (last (ts_ticks t)) = gr" "incrementalGlobalRoot H (on_live node) = Inr gr" by auto
  have gr: "groot = (if inc_eventCount (on_live node) = 0 then [] else gr)" using r(2) t(5) by (auto split: if_splits)
  have "length bs \<noteq> 0" using assms(2) by simp
  with t gr global_root_nonempty [OF t(5)] readProgram_log [OF holds_published [OF h]] show ?thesis
    by (auto simp: d' live_observe_def read_published [OF assms(3)] raised_def Let_def blocks_back)
qed

end
