(* ===== verification/Daemon.thy ===== *)
theory Daemon
  imports Observers
begin

text \<open>
  \<^verbatim>\<open>orchestrator/src/node/pr1-daemon.ts\<close>: the node as a process. A method takes the object and the directory of its node and returns
  both, with an exception or the result. The clock is an argument: \<open>now\<close>, and the durations that are measured, in whole milliseconds.
\<close>

datatype daemon_state = BOOTING | RECOVERING | CATCHING_UP | RUNNING | SHUTTING_DOWN | STOPPED

datatype daemon_error = Refused daemon_state | Failed persist_error

record daemon =
  dm_interval :: int
  dm_snapshotCadence :: "int option"
  dm_node :: "ovt_node option"
  dm_state :: daemon_state
  dm_mempool :: "submission list"
  dm_timer :: bool
  dm_nextFireAt :: int
  dm_committedTicks :: nat
  dm_idleTicks :: nat
  dm_totalSubmissions :: nat
  dm_maxMempoolDepth :: nat
  dm_snapshotsTaken :: nat
  dm_recoveryMs :: int
  dm_shutdownMs :: int
  dm_tickLatSum :: int
  dm_tickLatN :: nat
  dm_tickLatMax :: int
  dm_driftMax :: int
  dm_tickDur :: window
  dm_tickDrift :: window
  dm_submitLat :: window
  dm_snapDur :: window

type_synonym 'a daemon_call = "(daemon \<times> dir) \<times> (daemon_error + 'a)"

definition new_daemon :: "int \<Rightarrow> int option \<Rightarrow> daemon" where
  "new_daemon interval cadence =
     \<lparr>dm_interval = interval, dm_snapshotCadence = cadence, dm_node = None, dm_state = STOPPED, dm_mempool = [], dm_timer = False,
      dm_nextFireAt = 0, dm_committedTicks = 0, dm_idleTicks = 0, dm_totalSubmissions = 0, dm_maxMempoolDepth = 0,
      dm_snapshotsTaken = 0, dm_recoveryMs = 0, dm_shutdownMs = 0, dm_tickLatSum = 0, dm_tickLatN = 0, dm_tickLatMax = 0,
      dm_driftMax = 0, dm_tickDur = new_window 256, dm_tickDrift = new_window 256, dm_submitLat = new_window 256,
      dm_snapDur = new_window 256\<rparr>"

definition cadence :: "daemon \<Rightarrow> int" where
  "cadence dm = (case dm_snapshotCadence dm of Some n \<Rightarrow> n | None \<Rightarrow> OPERATIONAL_CADENCE_TICKS)"

definition agentIdOf :: "submission \<Rightarrow> jstring" where
  "agentIdOf s = (case member ''agent_id'' (sub_cal s) of Some (JStr a) \<Rightarrow> a | _ \<Rightarrow> [])"

section \<open>Starting\<close>

text \<open>If the recovery throws, the daemon stays in \<open>RECOVERING\<close>.\<close>

definition start :: "host \<Rightarrow> int \<Rightarrow> int \<Rightarrow> daemon \<times> dir \<Rightarrow> unit daemon_call" where
  "start H now recoveryMs = (\<lambda>(dm, d).
     if dm_state dm \<noteq> STOPPED then ((dm, d), Inl (Refused (dm_state dm)))
     else case open_node H False d of
         Inl e \<Rightarrow> ((dm\<lparr>dm_state := RECOVERING\<rparr>, d), Inl (Failed e))
       | Inr node \<Rightarrow>
           ((dm\<lparr>dm_node := Some node, dm_recoveryMs := recoveryMs, dm_state := RUNNING, dm_nextFireAt := now + dm_interval dm,
                dm_timer := True\<rparr>, d), Inr ()))"

section \<open>Intake\<close>

definition daemon_submit :: "int \<Rightarrow> submission \<Rightarrow> daemon \<Rightarrow> daemon_error + daemon" where
  "daemon_submit ms s dm =
     (if dm_state dm \<noteq> RUNNING \<and> dm_state dm \<noteq> CATCHING_UP then Inl (Refused (dm_state dm))
      else let pool = dm_mempool dm @ [s]
           in Inr (dm\<lparr>dm_mempool := pool, dm_totalSubmissions := dm_totalSubmissions dm + 1,
                      dm_maxMempoolDepth := (if length pool > dm_maxMempoolDepth dm then length pool else dm_maxMempoolDepth dm),
                      dm_submitLat := window_add ms (dm_submitLat dm)\<rparr>))"

section \<open>Ticks\<close>

fun drain :: "jstring list \<Rightarrow> submission list \<Rightarrow> submission list \<times> submission list" where
  "drain seen [] = ([], [])"
| "drain seen (s # ss) =
     (let a = agentIdOf s in
      if a \<in> set seen then (let (batch, keep) = drain seen ss in (batch, s # keep))
      else (let (batch, keep) = drain (a # seen) ss in (s # batch, keep)))"

definition drainOnePerAgent :: "daemon \<Rightarrow> submission list \<times> daemon" where
  "drainOnePerAgent dm = (let (batch, keep) = drain [] (dm_mempool dm) in (batch, dm\<lparr>dm_mempool := keep\<rparr>))"

text \<open>\<open>this.node.submit(batch)\<close>\<close>

definition node_submit :: "host \<Rightarrow> submission list \<Rightarrow> daemon \<times> dir \<Rightarrow> unit daemon_call" where
  "node_submit H batch = (\<lambda>(dm, d).
     case dm_node dm of
       None \<Rightarrow> ((dm, d), Inl (Failed (Thrown TypeError)))
     | Some node \<Rightarrow>
         (case submit_block H batch (node, d) of
            ((node', d'), Inl e) \<Rightarrow> ((dm\<lparr>dm_node := Some node'\<rparr>, d'), Inl (Failed (Thrown e)))
          | ((node', d'), Inr r) \<Rightarrow> ((dm\<lparr>dm_node := Some node'\<rparr>, d'), Inr ())))"

definition cadence_snapshot :: "host \<Rightarrow> int \<Rightarrow> daemon \<times> dir \<Rightarrow> unit daemon_call" where
  "cadence_snapshot H ms = (\<lambda>(dm, d).
     case dm_node dm of
       None \<Rightarrow> ((dm, d), Inl (Failed (Thrown TypeError)))
     | Some node \<Rightarrow>
         if snapshotDue (on_committed node) (cadence dm) then
           (case maybeSnapshot H (cadence dm) 2 node d of
              Inl e \<Rightarrow> ((dm, d), Inl (Failed (Thrown e)))
            | Inr d' \<Rightarrow> ((dm\<lparr>dm_snapshotsTaken := dm_snapshotsTaken dm + 1, dm_snapDur := window_add ms (dm_snapDur dm)\<rparr>, d'), Inr ()))
         else ((dm, d), Inr ()))"

text \<open>The drift of the scheduler is recorded before anything else.\<close>

definition note_drift :: "int \<Rightarrow> daemon \<Rightarrow> daemon" where
  "note_drift now dm =
     (let drift = \<bar>now - dm_nextFireAt dm\<bar>
      in dm\<lparr>dm_tickDrift := window_add drift (dm_tickDrift dm), dm_driftMax := (if drift > dm_driftMax dm then drift else dm_driftMax dm),
            dm_nextFireAt := dm_nextFireAt dm + dm_interval dm\<rparr>)"

definition note_tick :: "int \<Rightarrow> daemon \<Rightarrow> daemon" where
  "note_tick ms dm =
     dm\<lparr>dm_committedTicks := dm_committedTicks dm + 1, dm_tickLatN := dm_tickLatN dm + 1, dm_tickLatSum := dm_tickLatSum dm + ms,
        dm_tickLatMax := (if ms > dm_tickLatMax dm then ms else dm_tickLatMax dm)\<rparr>"

definition onTick :: "host \<Rightarrow> int \<Rightarrow> int \<Rightarrow> int \<Rightarrow> daemon \<times> dir \<Rightarrow> unit daemon_call" where
  "onTick H now tickMs snapMs = (\<lambda>(dm, d).
     if dm_state dm \<noteq> RUNNING then ((dm, d), Inr ())
     else
       let (batch, dm1) = drainOnePerAgent (note_drift now dm) in
       if batch = [] then ((dm1\<lparr>dm_idleTicks := dm_idleTicks dm1 + 1\<rparr>, d), Inr ())
       else case node_submit H batch (dm1, d) of
           (s, Inl e) \<Rightarrow> (s, Inl e)
         | ((dm2, d2), Inr r) \<Rightarrow>
             (case cadence_snapshot H snapMs (dm2\<lparr>dm_tickDur := window_add tickMs (dm_tickDur dm2)\<rparr>, d2) of
                (s, Inl e) \<Rightarrow> (s, Inl e)
              | ((dm3, d3), Inr r) \<Rightarrow> ((note_tick tickMs dm3, d3), Inr ())))"

section \<open>Stopping\<close>

lemma drain_length: "drain seen ss = (batch, keep) \<Longrightarrow> length batch + length keep = length ss"
  by (induction seen ss arbitrary: batch keep rule: drain.induct) (auto simp: Let_def split: prod.splits if_splits)

lemma drain_shorter: "drain seen ss = (batch, keep) \<Longrightarrow> batch \<noteq> [] \<Longrightarrow> length keep < length ss"
  using drain_length [of seen ss batch keep] by (cases batch) auto

lemma node_submit_keeps: "node_submit H batch s = ((dm', d'), r) \<Longrightarrow> \<exists>node. dm' = (fst s)\<lparr>dm_node := node\<rparr>"
  unfolding node_submit_def by (auto split: prod.splits option.splits sum.splits intro: exI [of _ "dm_node dm'"])

function flush :: "host \<Rightarrow> daemon \<times> dir \<Rightarrow> unit daemon_call" where
  "flush H (dm, d) =
     (if dm_mempool dm = [] then ((dm, d), Inr ())
      else
        let (batch, dm1) = drainOnePerAgent dm in
        if batch = [] then ((dm1, d), Inr ())
        else case node_submit H batch (dm1, d) of
            (s, Inl e) \<Rightarrow> (s, Inl e)
          | ((dm2, d2), Inr r) \<Rightarrow> flush H (dm2\<lparr>dm_committedTicks := dm_committedTicks dm2 + 1\<rparr>, d2))"
  by pat_completeness auto

termination
  by (relation "measure (\<lambda>(H, dm, d). length (dm_mempool dm))")
    (auto simp: drainOnePerAgent_def Let_def dest: drain_shorter dest!: node_submit_keeps [OF sym] split: prod.splits)

declare flush.simps [simp del]

definition shutdown :: "host \<Rightarrow> int \<Rightarrow> daemon \<times> dir \<Rightarrow> unit daemon_call" where
  "shutdown H ms = (\<lambda>(dm, d).
     case flush H (dm\<lparr>dm_state := SHUTTING_DOWN, dm_timer := False\<rparr>, d) of
       (s, Inl e) \<Rightarrow> (s, Inl e)
     | ((dm1, d1), Inr r) \<Rightarrow>
         (case dm_node dm1 of
            None \<Rightarrow> ((dm1, d1), Inl (Failed (Thrown TypeError)))
          | Some node \<Rightarrow>
              (case take_snapshot H 2 node d1 of
                 Inl e \<Rightarrow> ((dm1, d1), Inl (Failed (Thrown e)))
               | Inr d2 \<Rightarrow>
                   ((dm1\<lparr>dm_snapshotsTaken := dm_snapshotsTaken dm1 + 1, dm_shutdownMs := ms, dm_state := STOPPED\<rparr>, d2), Inr ()))))"

definition simulateCrash :: "daemon \<Rightarrow> daemon" where
  "simulateCrash dm = dm\<lparr>dm_timer := False, dm_mempool := [], dm_state := STOPPED\<rparr>"

section \<open>Looking\<close>

record daemon_status =
  ds_state :: daemon_state
  ds_committedTicks :: int
  ds_mempoolDepth :: nat
  ds_stateRoot :: jstring
  ds_recoveryMode :: recovery_mode
  ds_recoveredTailTicks :: nat

definition status :: "host \<Rightarrow> daemon \<Rightarrow> daemon_status res" where
  "status H dm =
     and_then (case dm_node dm of Some node \<Rightarrow> node_stateRoot H node | None \<Rightarrow> Inr []) (\<lambda>root.
       Inr \<lparr>ds_state = dm_state dm, ds_committedTicks = (case dm_node dm of Some node \<Rightarrow> on_committed node | None \<Rightarrow> 0),
            ds_mempoolDepth = length (dm_mempool dm), ds_stateRoot = root,
            ds_recoveryMode = (case dm_node dm of Some node \<Rightarrow> on_via node | None \<Rightarrow> FRESH),
            ds_recoveredTailTicks = (case dm_node dm of Some node \<Rightarrow> on_tail node | None \<Rightarrow> 0)\<rparr>)"

definition metricsReport :: "host \<Rightarrow> daemon \<Rightarrow> dir \<Rightarrow> metrics_report res" where
  "metricsReport H dm d =
     (case dm_node dm of
        None \<Rightarrow> Inl TypeError
      | Some node \<Rightarrow>
          and_then (observe H node d) (\<lambda>observation.
            Inr \<lparr>mr_observation = observation,
                 mr_performance = \<lparr>pf_tickDuration = window_stat (dm_tickDur dm), pf_tickDrift = window_stat (dm_tickDrift dm),
                   pf_submitLatency = window_stat (dm_submitLat dm), pf_snapshotDuration = window_stat (dm_snapDur dm),
                   pf_recoveryDuration = dm_recoveryMs dm\<rparr>,
                 mr_budgetMs = estimatedRecoveryBudgetMs (ob_tailTicksSinceSnapshot observation)\<rparr>))"

end
