(* ===== verification/Daemon_Props.thy ===== *)
theory Daemon_Props
  imports Daemon Persistent_Props
begin

text \<open>
  What the daemon promises to those who submit: as long as its calls return, the submissions it has accepted are in the log or in the
  mempool, in the order of each agent, and a block has one CAL of an agent; a crash costs the mempool and nothing else.
\<close>

section \<open>Draining\<close>

definition of_agent :: "jstring \<Rightarrow> submission list \<Rightarrow> submission list" where
  "of_agent a ss = filter (\<lambda>s. agentIdOf s = a) ss"

lemma of_agent_simps [simp]:
  "of_agent a [] = []" "of_agent a (s # ss) = (if agentIdOf s = a then s # of_agent a ss else of_agent a ss)"
  "of_agent a (ss @ ts) = of_agent a ss @ of_agent a ts"
  by (simp_all add: of_agent_def)

lemma drain_facts:
  "drain seen ss = (batch, keep) \<Longrightarrow>
     distinct (map agentIdOf batch) \<and> agentIdOf ` set batch \<inter> set seen = {} \<and> set batch \<union> set keep = set ss \<and>
     (\<forall>a. of_agent a ss = of_agent a batch @ of_agent a keep)"
proof (induction seen ss arbitrary: batch keep rule: drain.induct)
  case (2 seen s ss)
  show ?case
  proof (cases "agentIdOf s \<in> set seen")
    case True
    then obtain k where k: "drain seen ss = (batch, k)" "keep = s # k" using "2.prems" by (auto simp: Let_def split: prod.splits)
    note IH = "2.IH"(1) [OF refl True k(1)]
    have "of_agent (agentIdOf s) batch = []" using IH True by (auto simp: of_agent_def filter_empty_conv)
    with IH k(2) show ?thesis by auto
  next
    case False
    then obtain b where b: "drain (agentIdOf s # seen) ss = (b, keep)" "batch = s # b"
      using "2.prems" by (auto simp: Let_def split: prod.splits)
    from "2.IH"(2) [OF refl False b(1)] b(2) False show ?thesis by auto
  qed
qed simp

lemma drain_nothing: "drain [] ss = ([], keep) \<Longrightarrow> ss = []"
  by (cases ss) (auto simp: Let_def split: prod.splits)

section \<open>The life of a daemon\<close>

definition submission_ok :: "submission \<Rightarrow> bool" where
  "submission_ok s \<longleftrightarrow> storable (submission_json s)"

lemma batch_ok: "list_all submission_ok ss \<Longrightarrow> block_ok (next_block node ss)"
  by (auto simp: block_ok_def next_block_def block_json_def submission_ok_def list_all_iff)

text \<open>A snapshot of the state can be decoded (it has no object that looks like a tag).\<close>

definition keepable :: "daemon \<Rightarrow> bool" where
  "keepable dm \<longleftrightarrow> (\<forall>node. dm_node dm = Some node \<longrightarrow> archivable (on_live node))"

definition logged_subs :: "tick_block list \<Rightarrow> submission list" where
  "logged_subs bs = concat (map tb_submissions bs)"

text \<open>
  A session: it starts on the directory of a node with the log \<open>old\<close>; \<open>acc\<close> are the submissions it has accepted and not lost. Its ticks
  and shutdowns return, its submissions can be written to the log and its states to a snapshot. A crash empties the mempool: what is
  accepted and not lost is then the rest, agent by agent.
\<close>

inductive session :: "host \<Rightarrow> json \<Rightarrow> tick_block list \<Rightarrow> daemon \<Rightarrow> dir \<Rightarrow> submission list \<Rightarrow> bool" for H g old where
  started: "ovt_runs H g old node d \<Longrightarrow> dm_mempool dm = [] \<Longrightarrow> start H now ms (dm, d) = ((dm', d'), Inr r) \<Longrightarrow>
    session H g old dm' d' []"
| accepted: "session H g old dm d acc \<Longrightarrow> submission_ok s \<Longrightarrow> daemon_submit ms s dm = Inr dm' \<Longrightarrow> session H g old dm' d (acc @ [s])"
| ticked: "session H g old dm d acc \<Longrightarrow> onTick H now ms ms' (dm, d) = ((dm', d'), Inr r) \<Longrightarrow> keepable dm' \<Longrightarrow>
    session H g old dm' d' acc"
| stopped: "session H g old dm d acc \<Longrightarrow> shutdown H ms (dm, d) = ((dm', d'), Inr r) \<Longrightarrow> keepable dm' \<Longrightarrow> session H g old dm' d' acc"
| crashed: "session H g old dm d acc \<Longrightarrow> start H now ms (simulateCrash dm, d) = ((dm', d'), Inr r) \<Longrightarrow>
    \<forall>a. of_agent a acc = of_agent a kept @ of_agent a (dm_mempool dm) \<Longrightarrow> session H g old dm' d' kept"

definition delivers :: "host \<Rightarrow> json \<Rightarrow> tick_block list \<Rightarrow> submission list \<Rightarrow> ovt_node option \<Rightarrow> submission list \<Rightarrow> dir \<Rightarrow> bool" where
  "delivers H g old acc n pool d \<longleftrightarrow>
     list_all submission_ok pool \<and>
     (\<exists>node new. n = Some node \<and> ovt_runs H g (old @ new) node d \<and> (\<forall>a. of_agent a acc = of_agent a (logged_subs new @ pool)) \<and>
        (\<forall>b \<in> set new. tb_submissions b \<noteq> [] \<and> distinct (map agentIdOf (tb_submissions b))))"

lemma logged_subs_snoc [simp]: "logged_subs (bs @ [b]) = logged_subs bs @ tb_submissions b"
  by (simp add: logged_subs_def)

lemma delivers_batch:
  assumes "delivers H g old acc (dm_node dm) pool d" "drain [] pool = (batch, keep)" "batch \<noteq> []"
    "node_submit H batch (dm, d) = ((dm', d'), Inr r)"
  shows "delivers H g old acc (dm_node dm') keep d' \<and> (\<exists>node. dm' = dm\<lparr>dm_node := Some node\<rparr>)"
proof -
  from assms(1) obtain node new where n: "dm_node dm = Some node" "ovt_runs H g (old @ new) node d" "list_all submission_ok pool"
      "\<And>a. of_agent a acc = of_agent a (logged_subs new @ pool)"
      "\<forall>b \<in> set new. tb_submissions b \<noteq> [] \<and> distinct (map agentIdOf (tb_submissions b))"
    by (auto simp: delivers_def)
  from assms(4) n(1) obtain node' t where s: "submit_block H batch (node, d) = ((node', d'), Inr t)" "dm' = dm\<lparr>dm_node := Some node'\<rparr>"
    by (auto simp: node_submit_def split: prod.splits sum.splits)
  note f = drain_facts [OF assms(2)]
  with n(3) have ok: "list_all submission_ok batch" "list_all submission_ok keep" by (auto simp: list_all_iff)
  let ?b = "next_block node batch"
  have "tb_submissions ?b = batch" by (simp add: next_block_def)
  moreover have "ovt_runs H g (old @ new @ [?b]) node' d'" using submitted [OF n(2) batch_ok [OF ok(1)] s(1)] by simp
  ultimately show ?thesis
    unfolding delivers_def using s(2) ok(2) n(4,5) f assms(3) by (auto intro!: exI [of _ "new @ [?b]"])
qed

lemma delivers_snapshot:
  assumes "delivers H g old acc (Some node) pool d" "archivable (on_live node)" "take_snapshot H k node d = Inr d'"
  shows "delivers H g old acc (Some node) pool d'"
  using assms unfolding delivers_def by (auto intro: ovt_runs.snapshot)

lemma cadence_snapshot_delivers:
  assumes "cadence_snapshot H ms (dm, d) = ((dm', d'), Inr r)" "delivers H g old acc (dm_node dm) pool d" "keepable dm'"
  shows "delivers H g old acc (dm_node dm') pool d' \<and> dm_mempool dm' = dm_mempool dm \<and> dm_state dm' = dm_state dm"
  using assms delivers_snapshot
  by (auto simp: cadence_snapshot_def maybeSnapshot_def keepable_def split: option.splits if_splits sum.splits)

lemma note_tick_simps [simp]: "dm_node (note_tick ms dm) = dm_node dm" "dm_mempool (note_tick ms dm) = dm_mempool dm"
    "dm_state (note_tick ms dm) = dm_state dm"
  by (simp_all add: note_tick_def)

lemma note_drift_simps [simp]: "dm_node (note_drift now dm) = dm_node dm" "dm_mempool (note_drift now dm) = dm_mempool dm"
    "dm_state (note_drift now dm) = dm_state dm"
  by (simp_all add: note_drift_def Let_def)

lemma tick_delivers:
  assumes "onTick H now ms ms' (dm, d) = ((dm', d'), Inr r)" "keepable dm'" "delivers H g old acc (dm_node dm) (dm_mempool dm) d"
  shows "delivers H g old acc (dm_node dm') (dm_mempool dm') d' \<and> dm_state dm' = dm_state dm"
proof (cases "dm_state dm = RUNNING")
  case False
  with assms show ?thesis by (simp add: onTick_def)
next
  case True
  obtain batch keep where k: "drain [] (dm_mempool dm) = (batch, keep)" by fastforce
  show ?thesis
  proof (cases "batch = []")
    case empty: True
    with k drain_nothing have p: "dm_mempool dm = []" by auto
    with k have "keep = []" by simp
    with p empty True k assms show ?thesis by (auto simp: onTick_def drainOnePerAgent_def)
  next
    case False
    let ?dm1 = "note_drift now dm\<lparr>dm_mempool := keep\<rparr>"
    from assms(1) True k False obtain dm2 d2 u where n: "node_submit H batch (?dm1, d) = ((dm2, d2), Inr u)"
      and c: "\<exists>dm3 v. cadence_snapshot H ms' (dm2\<lparr>dm_tickDur := window_add ms (dm_tickDur dm2)\<rparr>, d2) = ((dm3, d'), Inr v) \<and> dm' = note_tick ms dm3"
      by (auto simp: onTick_def drainOnePerAgent_def split: prod.splits sum.splits)
    have "delivers H g old acc (dm_node ?dm1) (dm_mempool dm) d" using assms(3) by simp
    from delivers_batch [OF this k False n]
    have b: "delivers H g old acc (dm_node dm2) keep d2" "dm_mempool dm2 = keep" "dm_state dm2 = dm_state dm" by auto
    from c obtain dm3 v where c: "cadence_snapshot H ms' (dm2\<lparr>dm_tickDur := window_add ms (dm_tickDur dm2)\<rparr>, d2) = ((dm3, d'), Inr v)"
      and d: "dm' = note_tick ms dm3" by blast
    from d assms(2) have "keepable dm3" by (simp add: keepable_def)
    from cadence_snapshot_delivers [OF c _ this, of g old acc keep] b d show ?thesis by simp
  qed
qed

lemma flush_delivers:
  "flush H s = ((dm', d'), Inr r) \<Longrightarrow> delivers H g old acc (dm_node (fst s)) (dm_mempool (fst s)) (snd s) \<Longrightarrow>
   delivers H g old acc (dm_node dm') [] d' \<and> dm_mempool dm' = []"
proof (induction H s rule: flush.induct)
  case (1 H dm d)
  obtain batch keep where k: "drain [] (dm_mempool dm) = (batch, keep)" by fastforce
  show ?case
  proof (cases "dm_mempool dm = []")
    case True
    with 1 show ?thesis by (simp add: flush.simps)
  next
    case False
    with k drain_nothing have b: "batch \<noteq> []" by auto
    let ?dm1 = "dm\<lparr>dm_mempool := keep\<rparr>"
    have dr: "drainOnePerAgent dm = (batch, ?dm1)" by (simp add: drainOnePerAgent_def k)
    from "1.prems"(1) False b dr obtain dm2 d2 u where n: "node_submit H batch (?dm1, d) = ((dm2, d2), Inr u)"
      and f: "flush H (dm2\<lparr>dm_committedTicks := dm_committedTicks dm2 + 1\<rparr>, d2) = ((dm', d'), Inr r)"
      by (auto simp: flush.simps [of H dm d] split: prod.splits sum.splits)
    have "delivers H g old acc (dm_node ?dm1) (dm_mempool dm) d" using "1.prems"(2) by simp
    from delivers_batch [OF this k b n] have "delivers H g old acc (dm_node dm2) (dm_mempool dm2) d2" by auto
    then show ?thesis using "1.IH" [OF False refl dr [symmetric] b n [symmetric] refl refl] f by simp
  qed
qed

lemma start_delivers:
  assumes "ovt_runs H g old node d" "dm_mempool dm = []" "start H now ms (dm, d) = ((dm', d'), Inr r)"
  shows "delivers H g old [] (dm_node dm') (dm_mempool dm') d' \<and> dm_state dm' = RUNNING"
proof -
  from assms(3) obtain node' where "open_node H False d = Inr node'" "d' = d"
    and dm': "dm_node dm' = Some node'" "dm_mempool dm' = dm_mempool dm" "dm_state dm' = RUNNING"
    by (auto simp: start_def split: if_splits sum.splits)
  with ovt_runs.restarted [OF assms(1)] have "ovt_runs H g (old @ []) node' d'" by simp
  with dm' assms(2) show ?thesis by (auto simp: delivers_def logged_subs_def intro!: exI [of _ "[] :: tick_block list"])
qed

lemma session_delivers:
  "session H g old dm d acc \<Longrightarrow>
     delivers H g old acc (dm_node dm) (dm_mempool dm) d \<and> (dm_state dm = RUNNING \<or> dm_state dm = STOPPED \<and> dm_mempool dm = [])"
proof (induction rule: session.induct)
  case (started node d dm now ms dm' d' r)
  then show ?case using start_delivers by blast
next
  case (accepted dm d acc s ms dm')
  then show ?case by (auto simp: daemon_submit_def delivers_def Let_def split: if_splits)
next
  case (ticked dm d acc now ms ms' dm' d' r)
  show ?case
  proof (cases "dm_state dm = RUNNING")
    case True
    with tick_delivers [OF ticked(2,3)] ticked.IH show ?thesis by auto
  next
    case False
    with ticked.hyps ticked.IH show ?thesis by (auto simp: onTick_def)
  qed
next
  case (stopped dm d acc ms dm' d' r)
  let ?dm0 = "dm\<lparr>dm_state := SHUTTING_DOWN, dm_timer := False\<rparr>"
  from stopped(2) obtain dm1 d1 u node where f: "flush H (?dm0, d) = ((dm1, d1), Inr u)" and n: "dm_node dm1 = Some node"
    and t: "take_snapshot H 2 node d1 = Inr d'" and dm': "dm' = dm1\<lparr>dm_snapshotsTaken := dm_snapshotsTaken dm1 + 1, dm_shutdownMs := ms, dm_state := STOPPED\<rparr>"
    by (auto simp: shutdown_def split: prod.splits sum.splits option.splits)
  from flush_delivers [OF f, of g old acc] stopped.IH have d: "delivers H g old acc (Some node) [] d1" "dm_mempool dm1 = []"
    using n by auto
  from stopped(3) dm' n have "archivable (on_live node)" by (simp add: keepable_def)
  from delivers_snapshot [OF d(1) this t] d(2) dm' n show ?case by simp
next
  case (crashed dm d acc now ms dm' d' r kept)
  then obtain node new where n: "ovt_runs H g (old @ new) node d" "\<And>a. of_agent a acc = of_agent a (logged_subs new @ dm_mempool dm)"
      "\<forall>b \<in> set new. tb_submissions b \<noteq> [] \<and> distinct (map agentIdOf (tb_submissions b))" by (auto simp: delivers_def)
  have p: "dm_mempool (simulateCrash dm) = []" by (simp add: simulateCrash_def)
  from crashed.hyps(2) obtain node' where "open_node H False d = Inr node'" "d' = d"
    and dm': "dm_node dm' = Some node'" "dm_mempool dm' = []" "dm_state dm' = RUNNING"
    using p by (auto simp: start_def split: if_splits sum.splits)
  with ovt_runs.restarted [OF n(1)] have o: "ovt_runs H g (old @ new) node' d'" by simp
  have "of_agent a kept = of_agent a (logged_subs new @ [])" for a using n(2) [of a] crashed.hyps(3) by simp
  with o n(3) dm' show ?case by (auto simp: delivers_def)
qed

text \<open>
  C7: The daemon delivers what it accepts, while its calls return. At any moment of a session (\<open>session\<close>: ticks and shutdowns that do not
  throw, submissions that JSON can carry, states that a snapshot can carry, any number of crashes and restarts) the node is the run of
  the log it found and of the blocks written since; what was accepted and not lost is in those blocks or in the mempool, for every
  agent in the order of its submissions, nothing twice and nothing else, where lost is exactly what a crash found in the mempool;
  every block holds at least one submission and at most one of an agent; and when the daemon has stopped the mempool is empty.
  A tick or shutdown that throws ends the session: its batch may be lost (\<open>refused_batch_is_lost\<close> below).
\<close>

theorem daemon_delivers:
  assumes "session H g old dm d acc"
  shows "\<exists>node new. dm_node dm = Some node \<and> ovt_runs H g (old @ new) node d \<and> on_committed node = int (length (old @ new)) \<and>
    (\<forall>a. filter (\<lambda>s. agentIdOf s = a) acc = filter (\<lambda>s. agentIdOf s = a) (concat (map tb_submissions new) @ dm_mempool dm)) \<and>
    (\<forall>b \<in> set new. tb_submissions b \<noteq> [] \<and> distinct (map agentIdOf (tb_submissions b))) \<and>
    (dm_state dm = STOPPED \<longrightarrow> dm_mempool dm = [])"
proof -
  from session_delivers [OF assms] obtain node new where
    n: "dm_node dm = Some node" "ovt_runs H g (old @ new) node d" "\<forall>a. of_agent a acc = of_agent a (logged_subs new @ dm_mempool dm)"
      "\<forall>b \<in> set new. tb_submissions b \<noteq> [] \<and> distinct (map agentIdOf (tb_submissions b))"
      "dm_state dm = STOPPED \<longrightarrow> dm_mempool dm = []" by (auto simp: delivers_def)
  moreover have "on_committed node = int (length (old @ new))" using runs_inv [OF n(2)] by (auto simp: ovt_inv_def view_def)
  ultimately show ?thesis unfolding of_agent_def logged_subs_def by blast
qed

definition small_submission :: submission where
  "small_submission =
     \<lparr>sub_cal = JObj [(js ''agent_id'', JStr (js ''a''))],
      sub_trace = \<lparr>currentTick = 0, tr_steps = [], stateBefore = JNull, stateAfter = JNull, operatorSigFlag = True, ownerSigFlag = False,
        ownerSigners = None, pinnedMcpSchemaHash = None\<rparr>,
      sub_mode = Atomic\<rparr>"

lemma small_submission_ok: "submission_ok small_submission"
  by (simp add: submission_ok_def small_submission_def submission_json_def trace_json_def bigint_tag_def)

theorem daemon_delivers_witness:
  "\<exists>dm d node new. session plain_host genesis [] dm d [small_submission] \<and> dm_mempool dm = [small_submission] \<and>
     dm_node dm = Some node \<and> ovt_runs plain_host genesis new node d \<and>
     filter (\<lambda>s. agentIdOf s = js ''a'') [small_submission] =
       filter (\<lambda>s. agentIdOf s = js ''a'') (concat (map tb_submissions new) @ [small_submission])"
proof -
  obtain node d where n: "create plain_host genesis [] = Inr (node, d)" using genesis_created by blast
  then have r: "ovt_runs plain_host genesis [] node d" using genesis_storable(1) by (auto intro: created)
  then have "holds_log plain_host genesis [] [] d" using runs_inv by (auto simp: ovt_inv_def)
  from open_view [OF this tail_none, of "initIncremental (Some genesis)" False]
  obtain node' where o: "open_node plain_host False d = Inr node'" by (cases "open_node plain_host False d") (auto simp: raised_def)
  define dm where "dm = fst (fst (start plain_host 0 0 (new_daemon 10 None, d)))"
  have s: "start plain_host 0 0 (new_daemon 10 None, d) = ((dm, d), Inr ())" "dm_state dm = RUNNING" "dm_mempool dm = []"
    unfolding dm_def by (simp_all add: start_def o new_daemon_def)
  obtain dm' where a: "daemon_submit 0 small_submission dm = Inr dm'" "dm_mempool dm' = [small_submission]"
    using s by (simp add: daemon_submit_def Let_def)
  have "dm_mempool (new_daemon 10 None) = []" by (simp add: new_daemon_def)
  from accepted [OF started [OF r this s(1)] small_submission_ok a(1)]
  have e: "session plain_host genesis [] dm' d [small_submission]" by simp
  from daemon_delivers [OF this] a(2) obtain node' new where n': "dm_node dm' = Some node'" "ovt_runs plain_host genesis new node' d"
    and f: "\<forall>x. filter (\<lambda>s. agentIdOf s = x) [small_submission] =
      filter (\<lambda>s. agentIdOf s = x) (concat (map tb_submissions new) @ [small_submission])" by (auto simp del: filter_append filter.simps)
  show ?thesis
    by (intro exI [of _ dm'] exI [of _ d] exI [of _ node'] exI [of _ new] conjI e a(2) n' spec [OF f])
qed

text \<open>
  The batch leaves the mempool before it is written: if the node refuses to write it, the submissions of all its agents are neither in
  the log nor in the mempool, and the daemon still runs.
\<close>

lemma refused_batch_is_lost:
  assumes "dm_state dm = RUNNING" "dm_node dm = Some node" "drain [] (dm_mempool dm) = (batch, keep)" "batch \<noteq> []"
    "enc_bytes (block_json (next_block node batch)) = Inl e"
  shows "\<exists>dm'. onTick H now ms ms' (dm, d) = ((dm', d), Inl (Failed (Thrown e))) \<and> dm_mempool dm' = keep \<and> dm_state dm' = RUNNING"
proof -
  have "submit_block H batch (node, d) = ((node, d), Inl e)" using assms(5) by (simp add: submit_block_def next_block_def)
  with assms show ?thesis by (simp add: onTick_def drainOnePerAgent_def node_submit_def)
qed

end
