(* ===== verification/Backup.thy ===== *)
theory Backup
  imports Persistent Json_Pretty
begin

text \<open>
  \<^verbatim>\<open>orchestrator/src/node/backup.ts\<close> and \<^verbatim>\<open>wal-compaction.ts\<close>: copies of a node directory with a manifest of the state they
  stand for. A function that writes to a directory takes its files and returns the new ones; what a failed call leaves there is not
  kept. The time in a manifest is an argument.
\<close>

section \<open>Files\<close>

definition backup_failed :: "string \<Rightarrow> 'a pres" where
  "backup_failed why = Inl (BackupFailed why)"

definition copy_file :: "jstring \<Rightarrow> dir \<Rightarrow> dir \<Rightarrow> dir pres" where
  "copy_file n src dest = (case map_of src n of Some b \<Rightarrow> Inr (AList.update n b dest) | None \<Rightarrow> Inl NoFile)"

definition copyPrefix :: "jstring \<Rightarrow> nat \<Rightarrow> dir \<Rightarrow> dir \<Rightarrow> dir" where
  "copyPrefix n k src dest = AList.update n (take k (file_bytes n src)) dest"

text \<open>Every file with the name of a published snapshot.\<close>

definition copy_snapshots :: "dir \<Rightarrow> dir \<Rightarrow> dir" where
  "copy_snapshots src dest = foldl (\<lambda>d f. if snapshot_tick (fst f) \<noteq> None then AList.update (fst f) (snd f) d else d) dest src"

section \<open>Manifests\<close>

fun mode_text :: "recovery_mode \<Rightarrow> string" where
  "mode_text FRESH = ''FRESH''"
| "mode_text FULL_REPLAY = ''FULL_REPLAY''"
| "mode_text SNAPSHOT_TAIL = ''SNAPSHOT_TAIL''"

abbreviation JCount :: "int \<Rightarrow> json" where
  "JCount n \<equiv> JNum (NInt n)"

definition expected_members :: "node_observation \<Rightarrow> obj" where
  "expected_members ob =
     [(js ''state_root'', JStr (ob_stateRoot ob)), (js ''global_root'', JStr (ob_globalRoot ob)),
      (js ''event_count'', JCount (int (ob_eventCount ob))), (js ''last_event_hash'', JStr (ob_lastEventHash ob)),
      (js ''committed_ticks'', JCount (ob_committedTicks ob)), (js ''recovery_mode'', JStr (js (mode_text (ob_recoveryMode ob))))]"

definition manifest_bytes :: "json \<Rightarrow> bytes pres" where
  "manifest_bytes m = (case pretty 0 m of Some t \<Rightarrow> Inr (utf8_encode (t @ [0x0a])) | None \<Rightarrow> Inl (Thrown TypeError))"

text \<open>\<open>===\<close> of a member and a number.\<close>

definition is_number :: "int \<Rightarrow> json option \<Rightarrow> bool" where
  "is_number n v \<longleftrightarrow> v = Some (JNum (NInt n)) \<or> n = 0 \<and> v = Some (JNum NNegZero)"

definition read_manifest :: "jstring \<Rightarrow> string \<Rightarrow> dir \<Rightarrow> json pres" where
  "read_manifest file vkey d =
     (case map_of d file of
        None \<Rightarrow> backup_failed ''no manifest''
      | Some b \<Rightarrow>
          (case json_parse (to_text b) of
             Inl e \<Rightarrow> backup_failed ''manifest is not valid JSON''
           | Inr m \<Rightarrow> and_then (raised (read_member vkey m)) (\<lambda>v.
               if is_number 1 v then Inr m else backup_failed ''unsupported version'')))"

text \<open>\<open>expected\<close> is a member of the manifest; reading a member of \<open>undefined\<close> or \<open>null\<close> throws.\<close>

definition matches :: "node_observation \<Rightarrow> json option \<Rightarrow> bool res" where
  "matches ob x =
     (case x of
        None \<Rightarrow> Inl TypeError
      | Some v \<Rightarrow>
          if v = JNull then Inl TypeError
          else Inr (member ''state_root'' v = Some (JStr (ob_stateRoot ob)) \<and> member ''global_root'' v = Some (JStr (ob_globalRoot ob)) \<and>
                    is_number (int (ob_eventCount ob)) (member ''event_count'' v) \<and>
                    member ''last_event_hash'' v = Some (JStr (ob_lastEventHash ob)) \<and>
                    is_number (ob_committedTicks ob) (member ''committed_ticks'' v)))"

section \<open>Backups\<close>

definition backup_manifest :: jstring where "backup_manifest = js ''backup-manifest.json''"

definition BACKUP_SCHEMA_VERSION :: int where "BACKUP_SCHEMA_VERSION = 1"

text \<open>The snapshots of the source that decode and do not lie ahead of the captured log.\<close>

definition usable_snapshots :: "host \<Rightarrow> dir \<Rightarrow> nat \<Rightarrow> (jstring \<times> snapshot_body) list" where
  "usable_snapshots H src walSize =
     concat (map (\<lambda>e. case decodeSnapshot H (to_text (file_bytes (snd e) src)) of
         Inl x \<Rightarrow> []
       | Inr body \<Rightarrow> if sb_offset body > int walSize then [] else [(snd e, body)]) (listSnapshots src))"

text \<open>\<open>sort\<close> with a comparison that never answers 0: equal ticks are reversed.\<close>

definition newest_first :: "(jstring \<times> snapshot_body) list \<Rightarrow> (jstring \<times> snapshot_body) list" where
  "newest_first ss = sort_key (\<lambda>s. - sb_covered (snd s)) (rev ss)"

definition snapshot_entry :: "jstring \<times> snapshot_body \<Rightarrow> json" where
  "snapshot_entry s = JObj
     [(js ''file'', JStr (fst s)), (js ''covered_tick'', JStr (dec_int (sb_covered (snd s)))),
      (js ''wal_offset'', JStr (dec_int (sb_offset (snd s))))]"

definition backup_manifest_json :: "jstring \<Rightarrow> int option \<Rightarrow> nat \<Rightarrow> (jstring \<times> snapshot_body) list \<Rightarrow> node_observation \<Rightarrow> json" where
  "backup_manifest_json now cadence walSize included ob =
     (let sorted = newest_first included;
          coveredTick = ob_committedTicks ob - int (ob_recoveredTailTicks ob);
          operational = (case cadence of Some n \<Rightarrow> [(js ''snapshot_cadence'', JCount n)] | None \<Rightarrow> []);
          offset = (case sorted of s # _ \<Rightarrow> dec_int (sb_offset (snd s)) | [] \<Rightarrow> js ''0'')
      in JObj
        [(js ''backup_schema_version'', JCount BACKUP_SCHEMA_VERSION), (js ''created_at'', JStr now),
         (js ''wal_size_bytes'', JCount (int walSize)), (js ''snapshots'', JArr (map snapshot_entry sorted)),
         (js ''operational'', JObj operational),
         (js ''expected'', JObj (expected_members ob @
            [(js ''covered_tick'', JStr (dec_int coveredTick)), (js ''wal_offset'', JStr offset)]))])"

definition backupNode :: "host \<Rightarrow> jstring \<Rightarrow> int option \<Rightarrow> dir \<Rightarrow> dir \<Rightarrow> (dir \<times> json) pres" where
  "backupNode H now cadence src dest =
     (if map_of src genesis_file = None then backup_failed ''source has no genesis.json''
      else if map_of src wal_file = None then backup_failed ''source has no wal.ndjson''
      else
        let walSize = length (file_bytes wal_file src) in
        and_then (copy_file genesis_file src dest) (\<lambda>d1.
        let d2 = copyPrefix wal_file walSize src d1; included = usable_snapshots H src walSize;
            d3 = foldl (\<lambda>d s. AList.update (fst s) (file_bytes (fst s) src) d) d2 included
        in and_then (open_node H False d3) (\<lambda>node.
           and_then (raised (observe H node d3)) (\<lambda>ob.
             let m = backup_manifest_json now cadence walSize included ob
             in and_then (manifest_bytes m) (\<lambda>b. Inr (AList.update backup_manifest b d3, m))))))"

definition restoreNode :: "host \<Rightarrow> dir \<Rightarrow> dir \<Rightarrow> (ovt_node \<times> dir) pres" where
  "restoreNode H backup dest =
     and_then (read_manifest backup_manifest ''backup_schema_version'' backup) (\<lambda>m.
     if map_of backup genesis_file = None then backup_failed ''backup is missing genesis.json''
     else if map_of backup wal_file = None then backup_failed ''backup is missing wal.ndjson''
     else
       and_then (copy_file genesis_file backup dest) (\<lambda>d1.
       and_then (copy_file wal_file backup d1) (\<lambda>d2.
       let d3 = copy_snapshots backup d2 in
       and_then (case open_node H False d3 of Inl SnapshotCorruption \<Rightarrow> backup_failed ''restore aborted'' | r \<Rightarrow> r) (\<lambda>node.
       and_then (raised (observe H node d3)) (\<lambda>ob.
       and_then (raised (matches ob (member ''expected'' m))) (\<lambda>okay.
         if okay then Inr (node, d3) else backup_failed ''restored state does not match the manifest''))))))"

section \<open>Compaction\<close>

definition archive_file :: jstring where "archive_file = js ''wal-archive.ndjson''"

definition compaction_manifest :: jstring where "compaction_manifest = js ''compaction-manifest.json''"

definition COMPACTION_SCHEMA_VERSION :: int where "COMPACTION_SCHEMA_VERSION = 1"

definition onBoundary :: "bytes \<Rightarrow> int \<Rightarrow> bool" where
  "onBoundary wal offset \<longleftrightarrow> offset = 0 \<or> 0 < offset \<and> nat offset \<le> length wal \<and> wal ! (nat offset - 1) = 0x0a"

definition readRange :: "bytes \<Rightarrow> nat \<Rightarrow> nat \<Rightarrow> bytes" where
  "readRange file a b = take (b - a) (drop a file)"

definition latestValidSnapshot :: "host \<Rightarrow> dir \<Rightarrow> nat \<Rightarrow> (jstring \<times> snapshot_body) option" where
  "latestValidSnapshot H src walSize =
     foldl (\<lambda>best s. case best of
         None \<Rightarrow> Some s
       | Some b \<Rightarrow> if sb_covered (snd s) > sb_covered (snd b) then Some s else best) None (usable_snapshots H src walSize)"

definition compaction_manifest_json :: "jstring \<Rightarrow> int \<Rightarrow> int \<Rightarrow> nat \<Rightarrow> nat \<Rightarrow> nat \<Rightarrow> node_observation \<Rightarrow> json" where
  "compaction_manifest_json now offset covered archiveBytes liveBytes walSize ob = JObj
     [(js ''compaction_schema_version'', JCount COMPACTION_SCHEMA_VERSION), (js ''created_at'', JStr now), (js ''cut_offset'', JCount offset),
      (js ''covered_tick'', JStr (dec_int covered)), (js ''archive_file'', JStr archive_file),
      (js ''archive_bytes'', JCount (int archiveBytes)), (js ''live_wal_bytes'', JCount (int liveBytes)),
      (js ''original_wal_bytes'', JCount (int walSize)), (js ''expected'', JObj (expected_members ob))]"

definition compactNode :: "host \<Rightarrow> jstring \<Rightarrow> dir \<Rightarrow> dir \<Rightarrow> (dir \<times> json) pres" where
  "compactNode H now src dest =
     (if map_of src genesis_file = None then backup_failed ''source has no genesis.json''
      else if map_of src wal_file = None then backup_failed ''source has no wal.ndjson''
      else
        let wal = file_bytes wal_file src; walSize = length wal in
        case latestValidSnapshot H src walSize of
          None \<Rightarrow> backup_failed ''no valid snapshot to compact behind''
        | Some (name, body) \<Rightarrow>
            let offset = sb_offset body in
            if \<not> onBoundary wal offset then backup_failed ''wal_offset is not on a line boundary''
            else
              and_then (copy_file genesis_file src dest) (\<lambda>d1.
              let archive = readRange wal 0 (nat offset); tail = readRange wal (nat offset) walSize;
                  d2 = AList.update wal_file tail (AList.update archive_file archive d1)
              in and_then (raised (makeSnapshotBody H (sb_incr body) (sb_covered body) 0)) (\<lambda>rebased.
                 and_then (raised (encodeSnapshot H rebased)) (\<lambda>t.
                 let d3 = AList.update name (utf8_encode t) d2 in
                 and_then (open_node H False d3) (\<lambda>node.
                 and_then (raised (observe H node d3)) (\<lambda>ob.
                   let m = compaction_manifest_json now offset (sb_covered body) (length archive) (length tail) walSize ob
                   in and_then (manifest_bytes m) (\<lambda>b. Inr (AList.update compaction_manifest b d3, m))))))))"

definition replayFromFull :: "host \<Rightarrow> dir \<Rightarrow> dir \<Rightarrow> (ovt_node \<times> dir) pres" where
  "replayFromFull H compacted dest =
     and_then (read_manifest compaction_manifest ''compaction_schema_version'' compacted) (\<lambda>m.
     and_then (raised (as_string (member ''archive_file'' m))) (\<lambda>name.
     if map_of compacted name = None then backup_failed ''compacted dir is missing its archive''
     else if map_of compacted wal_file = None then Inl NoFile
     else
       let archive = file_bytes name compacted; live = file_bytes wal_file compacted in
       if \<not> (is_number (int (length archive)) (member ''archive_bytes'' m) \<and> is_number (int (length live)) (member ''live_wal_bytes'' m))
       then backup_failed ''archive/live size differs from the manifest''
       else
         and_then (copy_file genesis_file compacted dest) (\<lambda>d1.
         let d2 = AList.update wal_file (archive @ live) d1 in
         and_then (open_node H False d2) (\<lambda>node. Inr (node, d2)))))"

text \<open>The fast path: the node if it is the one of the manifest; a corrupt snapshot is no exception here.\<close>

definition restore_fast :: "host \<Rightarrow> json \<Rightarrow> dir \<Rightarrow> dir \<Rightarrow> (ovt_node \<times> dir) option pres" where
  "restore_fast H m compacted dest =
     (case and_then (copy_file genesis_file compacted dest) (\<lambda>d1.
           and_then (copy_file wal_file compacted d1) (\<lambda>d2.
           let d3 = copy_snapshots compacted d2 in
           and_then (open_node H False d3) (\<lambda>node.
           and_then (raised (observe H node d3)) (\<lambda>ob.
           and_then (raised (matches ob (member ''expected'' m))) (\<lambda>okay. Inr (if okay then Some (node, d3) else None)))))) of
        Inl SnapshotCorruption \<Rightarrow> Inr None
      | r \<Rightarrow> r)"

definition restoreCompacted :: "host \<Rightarrow> dir \<Rightarrow> dir \<Rightarrow> (ovt_node \<times> dir) pres" where
  "restoreCompacted H compacted dest =
     and_then (read_manifest compaction_manifest ''compaction_schema_version'' compacted) (\<lambda>m.
     and_then (restore_fast H m compacted dest) (\<lambda>fast.
       case fast of
         Some r \<Rightarrow> Inr r
       | None \<Rightarrow>
           and_then (replayFromFull H compacted []) (\<lambda>(node, d).
           and_then (raised (observe H node d)) (\<lambda>ob.
           and_then (raised (matches ob (member ''expected'' m))) (\<lambda>okay.
             if okay then Inr (node, d) else backup_failed ''restored compacted state does not match the manifest'')))))"

end
