(* ===== verification/Backup_Props.thy ===== *)
theory Backup_Props
  imports Backup Live_Props
begin

text \<open>
  Copies of a node directory stand for the node: what is restored from a backup or from a compacted directory carries the state and
  the number of ticks of the node that was copied, also when snapshots of the copy are damaged or lost.
\<close>

section \<open>Copying\<close>

lemma copy_snapshots_map:
  "distinct (map fst src) \<Longrightarrow>
   map_of (copy_snapshots src dest) n = (if snapshot_tick n \<noteq> None \<and> map_of src n \<noteq> None then map_of src n else map_of dest n)"
proof (induction src arbitrary: dest)
  case (Cons f src)
  have fresh: "map_of src (fst f) = None" using Cons.prems by (simp add: map_of_eq_None_iff)
  from Cons.IH [of "if snapshot_tick (fst f) \<noteq> None then AList.update (fst f) (snd f) dest else dest"] Cons.prems fresh
  show ?case by (cases f) (auto simp: copy_snapshots_def update_conv')
qed (simp add: copy_snapshots_def)

lemma usable_facts:
  assumes "(n, body) \<in> set (usable_snapshots H src k)"
  shows "snapshot_tick n \<noteq> None" "\<exists>b. map_of src n = Some b \<and> decodeSnapshot H (to_text b) = Inr body" "sb_offset body \<le> int k"
proof -
  from assms obtain t where t: "(t, n) \<in> set (listSnapshots src)" "decodeSnapshot H (to_text (file_bytes n src)) = Inr body" "sb_offset body \<le> int k"
    by (auto simp: usable_snapshots_def split: sum.splits if_splits)
  from listed [OF t(1)] t(2,3) show "snapshot_tick n \<noteq> None" "\<exists>b. map_of src n = Some b \<and> decodeSnapshot H (to_text b) = Inr body"
    "sb_offset body \<le> int k" by (auto simp: file_bytes_def)
qed

lemma included_map:
  "map_of (foldl (\<lambda>d s. AList.update (fst s) (file_bytes (fst s) src) d) d ss) n =
     (if n \<in> fst ` set ss then Some (file_bytes n src) else map_of d n)"
  by (induction ss rule: rev_induct) (auto simp: update_conv')

lemma raised_Inr [simp]: "raised r = Inr x \<longleftrightarrow> r = Inr x"
  by (cases r) (simp_all add: raised_def)

section \<open>Manifests\<close>

lemma same_observation:
  assumes "observe H node d = Inr ob" "on_live node' = on_live node" "on_committed node' = on_committed node"
  shows "\<exists>ob'. observe H node' d' = Inr ob' \<and> matches ob' (Some (JObj (expected_members ob @ extra))) = Inr True"
  using assms by (auto simp: observe_def Let_def matches_def expected_members_def is_number_def)

lemma manifest_read:
  assumes "textual m" "manifest_bytes m = Inr b" "map_of d file = Some b" "read_member vkey m = Inr (Some (JCount 1))"
  shows "read_manifest file vkey d = Inr m"
proof -
  from pretty_file [OF assms(1), of 0] assms(2) have "json_parse (to_text b) = Inr m" by (auto simp: manifest_bytes_def)
  with assms(3,4) show ?thesis by (simp add: read_manifest_def raised_def is_number_def)
qed

lemma expected_textual:
  "\<bar>ob_committedTicks ob\<bar> < 2 ^ 53 \<Longrightarrow> ob_eventCount ob < 2 ^ 53 \<Longrightarrow>
   textual (JObj (expected_members ob)) \<and> textual (JObj (expected_members ob @ [(js ''covered_tick'', JStr x), (js ''wal_offset'', JStr y)]))"
  by (simp add: expected_members_def)

section \<open>Backups\<close>

lemma backup_names: "snapshot_tick backup_manifest = None" "backup_manifest \<noteq> genesis_file" "backup_manifest \<noteq> wal_file"
  by code_simp+

lemma opens_view:
  assumes "holds_log H g bs [] d" "live_run H bs (initIncremental (Some g)) = Inr i"
  shows "\<exists>node. open_node H ign d = Inr node \<and> on_live node = i \<and> on_committed node = int (length bs)"
  using open_view [OF assms(1) tail_none assms(2), of ign]
  by (cases "open_node H ign d") (auto simp: raised_def view_def)

lemma holds_two_files:
  assumes "holds_log H g bs [] src" "map_of src genesis_file = Some gb" "map_of d genesis_file = Some gb"
    "file_bytes wal_file d = wal_bytes bs" "\<And>n x. map_of d n = Some x \<Longrightarrow> snapshot_tick n \<noteq> None \<Longrightarrow> good_snapshot H g bs x"
  shows "holds_log H g bs [] d"
  using assms by (auto simp: holds_log_def)

lemma backup_step:
  assumes "holds_log H g bs [] d" "map_of d wal_file \<noteq> None"
  shows "\<exists>d3. holds_log H g bs [] d3 \<and> distinct (map fst d3) \<and> map_of d3 wal_file \<noteq> None \<and>
    backupNode H now every d [] =
      and_then (open_node H False d3) (\<lambda>node. and_then (raised (observe H node d3)) (\<lambda>ob.
        let m = backup_manifest_json now every (length (wal_bytes bs)) (usable_snapshots H d (length (wal_bytes bs))) ob
        in and_then (manifest_bytes m) (\<lambda>b. Inr (AList.update backup_manifest b d3, m))))"
proof -
  let ?n = "length (wal_bytes bs)"
  let ?inc = "usable_snapshots H d ?n"
  let ?f = "\<lambda>x s. AList.update (fst s) (file_bytes (fst s) d) x"
  from assms(1) have w: "file_bytes wal_file d = wal_bytes bs" by (simp add: holds_log_def)
  from assms(1) obtain gb where g: "map_of d genesis_file = Some gb" by (auto simp: holds_log_def)
  define d3 where "d3 = foldl ?f [(genesis_file, gb), (wal_file, wal_bytes bs)] ?inc"
  have names: "n \<noteq> genesis_file \<and> n \<noteq> wal_file" if "n \<in> fst ` set ?inc" for n
    using that usable_facts(1) other_names by fastforce
  then have m3: "map_of d3 genesis_file = Some gb" "map_of d3 wal_file = Some (wal_bytes bs)"
    unfolding d3_def included_map by (auto simp: image_iff)
  have good: "good_snapshot H g bs x" if x: "map_of d3 n = Some x" "snapshot_tick n \<noteq> None" for n x
  proof -
    have "n \<noteq> genesis_file" "n \<noteq> wal_file" using x(2) other_names by auto
    with x(1) have n: "n \<in> fst ` set ?inc" "x = file_bytes n d" unfolding d3_def included_map by (auto split: if_splits)
    then obtain body where "(n, body) \<in> set ?inc" by force
    from usable_facts(2) [OF this] obtain y where "map_of d n = Some y" by blast
    with assms(1) x(2) n(2) show ?thesis by (auto simp: holds_log_def file_bytes_def)
  qed
  have h: "holds_log H g bs [] d3" by (rule holds_two_files [OF assms(1) g m3(1) _ good]) (simp_all add: file_bytes_def m3)
  have dist: "distinct (map fst (foldl ?f x ss))" if "distinct (map fst x)" for x ss
    by (induction ss rule: rev_induct) (simp_all add: that distinct_update)
  have "distinct (map fst d3)" unfolding d3_def by (rule dist) simp
  moreover have "backupNode H now every d [] =
    and_then (open_node H False d3) (\<lambda>node. and_then (raised (observe H node d3)) (\<lambda>ob.
      let m = backup_manifest_json now every ?n ?inc ob in and_then (manifest_bytes m) (\<lambda>b. Inr (AList.update backup_manifest b d3, m))))"
    using g w assms(2) by (auto simp add: backupNode_def copy_file_def copyPrefix_def Let_def d3_def)
  ultimately show ?thesis using h m3(2) by blast
qed

lemma backup_contents:
  assumes "holds_log H g bs [] d" "backupNode H now every d [] = Inr (b, m)"
  shows "\<exists>d3 node ob mb. holds_log H g bs [] d3 \<and> distinct (map fst d3) \<and> map_of d3 wal_file \<noteq> None \<and> open_node H False d3 = Inr node \<and>
    observe H node d3 = Inr ob \<and>
    m = backup_manifest_json now every (length (wal_bytes bs)) (usable_snapshots H d (length (wal_bytes bs))) ob \<and>
    manifest_bytes m = Inr mb \<and> b = AList.update backup_manifest mb d3"
proof -
  have "map_of d wal_file \<noteq> None" using assms(2) by (auto simp: backupNode_def backup_failed_def split: if_splits)
  from backup_step [OF assms(1) this, of now every] obtain d3 where d3: "holds_log H g bs [] d3" "distinct (map fst d3)" "map_of d3 wal_file \<noteq> None"
    and step: "backupNode H now every d [] =
      and_then (open_node H False d3) (\<lambda>node. and_then (raised (observe H node d3)) (\<lambda>ob.
        let m = backup_manifest_json now every (length (wal_bytes bs)) (usable_snapshots H d (length (wal_bytes bs))) ob
        in and_then (manifest_bytes m) (\<lambda>b. Inr (AList.update backup_manifest b d3, m))))" by blast
  from trans [OF step [symmetric] assms(2)] obtain node ob mb where "open_node H False d3 = Inr node" "observe H node d3 = Inr ob"
    "m = backup_manifest_json now every (length (wal_bytes bs)) (usable_snapshots H d (length (wal_bytes bs))) ob"
    "manifest_bytes m = Inr mb" "b = AList.update backup_manifest mb d3"
    by (auto simp: Let_def)
  with d3 show ?thesis by blast
qed

lemma backup_textual:
  assumes "ob_committedTicks ob = int c" "c < 2 ^ 53" "ob_eventCount ob < 2 ^ 53" "k < 2 ^ 53" "every = None \<or> (\<exists>x. every = Some x \<and> \<bar>x\<bar> < 2 ^ 53)"
  shows "textual (backup_manifest_json now every k included ob)"
proof -
  have "textual (snapshot_entry s)" for s by (simp add: snapshot_entry_def)
  moreover have "textual (JObj (expected_members ob @ [(js ''covered_tick'', JStr a), (js ''wal_offset'', JStr b)]))" for a b
    using expected_textual [of ob a b] assms(1-3) by simp
  ultimately show ?thesis using assms(4,5)
    by (cases every) (simp_all add: backup_manifest_json_def Let_def BACKUP_SCHEMA_VERSION_def del: textual.simps(2), simp_all)
qed

text \<open>A copy with its snapshots lost, or damaged in a way that the checksum reveals.\<close>

definition damaged :: "host \<Rightarrow> dir \<Rightarrow> dir \<Rightarrow> bool" where
  "damaged H b b' \<longleftrightarrow> distinct (map fst b') \<and> (\<forall>n. snapshot_tick n = None \<longrightarrow> map_of b' n = map_of b n) \<and>
     (\<forall>n x. snapshot_tick n \<noteq> None \<longrightarrow> map_of b' n = Some x \<longrightarrow> map_of b n = Some x \<or> decodeSnapshot H (to_text x) = Inl SnapshotCorruption)"

text \<open>
  C9: Backups. A backup of the directory of a running node restores, in a fresh directory, to a node with the state and the number of
  ticks of the one that was backed up; this holds for every loss of snapshots of the backup and for every damage to them that the
  checksum reveals, and the manifest check never refuses such a copy.
\<close>

theorem backup_restores:
  assumes "ovt_runs H g bs node d" "backupNode H now every d [] = Inr (b, m)" "damaged H b b'"
    "length bs < 2 ^ 53" "length (wal_bytes bs) < 2 ^ 53" "inc_eventCount (on_live node) < 2 ^ 53"
    "every = None \<or> (\<exists>x. every = Some x \<and> \<bar>x\<bar> < 2 ^ 53)"
  shows "\<exists>node' d'. restoreNode H b' [] = Inr (node', d') \<and> on_live node' = on_live node \<and> on_committed node' = on_committed node"
proof -
  from runs_inv [OF assms(1)] have h: "holds_log H g bs [] d" and l: "live_run H bs (initIncremental (Some g)) = Inr (on_live node)"
    and c: "on_committed node = int (length bs)" by (auto simp: ovt_inv_def view_def)
  from backup_contents [OF h assms(2)] obtain d3 n3 ob mb where d3: "holds_log H g bs [] d3" "distinct (map fst d3)" "map_of d3 wal_file \<noteq> None"
    and o3: "open_node H False d3 = Inr n3" "observe H n3 d3 = Inr ob"
    and m: "m = backup_manifest_json now every (length (wal_bytes bs)) (usable_snapshots H d (length (wal_bytes bs))) ob"
    and b: "manifest_bytes m = Inr mb" "b = AList.update backup_manifest mb d3" by blast
  from opens_view [OF d3(1) l, of False] o3(1) have v3: "on_live n3 = on_live node" "on_committed n3 = int (length bs)" by auto
  with o3(2) have ob: "ob_committedTicks ob = int (length bs)" "ob_eventCount ob = inc_eventCount (on_live node)"
    by (auto simp: observe_def Let_def)
  have tm: "textual m" unfolding m using ob assms(4-7) by (intro backup_textual) auto
  have b': "map_of b' n = map_of b n" if "snapshot_tick n = None" for n using assms(3) that by (simp add: damaged_def)
  have rm: "read_manifest backup_manifest ''backup_schema_version'' b' = Inr m"
    by (rule manifest_read [OF tm b(1)])
      (simp_all add: b' backup_names b(2) update_conv' m backup_manifest_json_def Let_def read_member_def BACKUP_SCHEMA_VERSION_def)
  obtain gb where gb: "map_of d3 genesis_file = Some gb" using d3(1) by (auto simp: holds_log_def)
  have w: "map_of d3 wal_file = Some (wal_bytes bs)" using d3(1,3) by (auto simp: holds_log_def file_bytes_def)
  have f: "map_of b' genesis_file = Some gb" "map_of b' wal_file = Some (wal_bytes bs)"
    using gb w backup_names by (simp_all add: b' other_names b(2) update_conv')
  define d' where "d' = copy_snapshots b' [(genesis_file, gb), (wal_file, wal_bytes bs)]"
  have dd: "map_of d' n = (if snapshot_tick n \<noteq> None \<and> map_of b' n \<noteq> None then map_of b' n
      else map_of [(genesis_file, gb), (wal_file, wal_bytes bs)] n)" for n
    unfolding d'_def using assms(3) by (intro copy_snapshots_map) (simp add: damaged_def)
  have good: "good_snapshot H g bs x" if "map_of d' n = Some x" "snapshot_tick n \<noteq> None" for n x
  proof -
    have "n \<noteq> genesis_file" "n \<noteq> wal_file" using that(2) other_names by auto
    with that dd have "map_of b' n = Some x" by (auto split: if_splits)
    with assms(3) that(2) have "map_of b n = Some x \<or> decodeSnapshot H (to_text x) = Inl SnapshotCorruption" by (simp add: damaged_def)
    moreover have "map_of b n = map_of d3 n" using that(2) backup_names(1) by (auto simp: b(2) update_conv')
    ultimately show ?thesis using d3(1) that(2) by (auto simp: holds_log_def good_snapshot_def)
  qed
  have "holds_log H g bs [] d'"
    by (rule holds_two_files [OF d3(1) gb _ _ good]) (simp_all add: dd other_names file_bytes_def)
  from opens_view [OF this l, of False] obtain node' where o': "open_node H False d' = Inr node'"
    "on_live node' = on_live node" "on_committed node' = int (length bs)" by blast
  from same_observation [OF o3(2), of node' d'] o' v3 obtain ob' where
    "observe H node' d' = Inr ob'" "matches ob' (member ''expected'' m) = Inr True"
    by (auto simp: m backup_manifest_json_def Let_def)
  then show ?thesis using rm f o' c
    by (simp add: restoreNode_def copy_file_def raised_def d'_def Let_def)
qed

text \<open>A backup of the node with one block.\<close>

lemma manifest_written: "textual m \<Longrightarrow> \<exists>b. manifest_bytes m = Inr b"
  using pretty_reads [of m 0] by (auto simp: manifest_bytes_def)

lemma observed:
  assumes "live_run H bs (initIncremental (Some g)) = Inr i" "bs \<noteq> []" "on_live node = i"
  shows "\<exists>ob. observe H node d = Inr ob \<and> ob_committedTicks ob = on_committed node \<and> ob_eventCount ob = inc_eventCount i"
proof -
  obtain root groot where "incrementalStateRoot H i = Inr root" "incrementalGlobalRoot H i = Inr groot"
    using run_of_log [OF assms(1,2)] by blast
  then show ?thesis using assms(3) by (simp add: observe_def Let_def)
qed

lemma backup_taken:
  assumes "ovt_runs H g bs node d" "bs \<noteq> []" "length bs < 2 ^ 53" "length (wal_bytes bs) < 2 ^ 53" "inc_eventCount (on_live node) < 2 ^ 53"
  shows "\<exists>b m. backupNode H now None d [] = Inr (b, m) \<and> distinct (map fst b)"
proof -
  from runs_inv [OF assms(1)] have h: "holds_log H g bs [] d" and l: "live_run H bs (initIncremental (Some g)) = Inr (on_live node)"
    by (auto simp: ovt_inv_def view_def)
  have "map_of d wal_file \<noteq> None" using h wal_bytes_last [OF assms(2)] by (auto simp: holds_log_def file_bytes_def split: option.splits)
  from backup_step [OF h this, of now None] obtain d3 where d3: "holds_log H g bs [] d3" "distinct (map fst d3)"
    and step: "backupNode H now None d [] =
      and_then (open_node H False d3) (\<lambda>node. and_then (raised (observe H node d3)) (\<lambda>ob.
        let m = backup_manifest_json now None (length (wal_bytes bs)) (usable_snapshots H d (length (wal_bytes bs))) ob
        in and_then (manifest_bytes m) (\<lambda>b. Inr (AList.update backup_manifest b d3, m))))" by blast
  from opens_view [OF d3(1) l, of False] obtain n3 where n3: "open_node H False d3 = Inr n3" "on_live n3 = on_live node"
    "on_committed n3 = int (length bs)" by blast
  from observed [OF l assms(2) n3(2), of d3] obtain ob where ob: "observe H n3 d3 = Inr ob" "ob_committedTicks ob = int (length bs)"
    "ob_eventCount ob = inc_eventCount (on_live node)" using n3(3) by auto
  let ?m = "backup_manifest_json now None (length (wal_bytes bs)) (usable_snapshots H d (length (wal_bytes bs))) ob"
  have "textual ?m" using ob assms(3-5) by (intro backup_textual) auto
  from manifest_written [OF this] obtain mb where "manifest_bytes ?m = Inr mb" by blast
  with n3(1) ob(1) d3(2) show ?thesis by (simp add: step Let_def distinct_update)
qed

lemma one_block_small:
  assumes "ovt_runs plain_host genesis [\<lparr>tb_tick = 5, tb_submissions = []\<rparr>] node d"
  shows "length (wal_bytes [\<lparr>tb_tick = 5, tb_submissions = []\<rparr>]) = 42" "inc_eventCount (on_live node) = 1"
proof -
  let ?b = "\<lparr>tb_tick = 5, tb_submissions = []\<rparr>"
  have "map_sum (\<lambda>e. e) length (enc_bytes (block_json ?b)) = Inr 41" by code_simp
  with line_bytes [OF empty_block_ok, of 5] show "length (wal_bytes [?b]) = 42" by (simp add: wal_bytes_simps)
  obtain incr x where r: "run_ticks plain_host [?b] (initIncremental (Some genesis), [], []) = Inr (incr, [x], [tick_event 5])"
    using first_tick by blast
  have "live_run plain_host [?b] (initIncremental (Some genesis)) = Inr incr"
    using run_ticks_live [of plain_host "[?b]" "initIncremental (Some genesis)" "[]" "[]"] r by simp
  moreover have "live_run plain_host [?b] (initIncremental (Some genesis)) = Inr (on_live node)"
    using runs_inv [OF assms] by (auto simp: ovt_inv_def view_def)
  ultimately have "on_live node = incr" by (simp del: live_run.simps)
  with run_ticks_log(2) [OF r, of False] show "inc_eventCount (on_live node) = 1" by simp
qed

theorem backup_restores_witness:
  "\<exists>node d b m node' d'. ovt_runs plain_host genesis [\<lparr>tb_tick = 5, tb_submissions = []\<rparr>] node d \<and>
     backupNode plain_host (js ''now'') None d [] = Inr (b, m) \<and> restoreNode plain_host b [] = Inr (node', d') \<and> on_live node' = on_live node"
proof -
  obtain node d where r: "ovt_runs plain_host genesis [\<lparr>tb_tick = 5, tb_submissions = []\<rparr>] node d" using one_block_node by blast
  note n = one_block_small [OF r]
  from backup_taken [OF r, of "js ''now''"] n obtain b m where
    b: "backupNode plain_host (js ''now'') None d [] = Inr (b, m)" "distinct (map fst b)" by auto
  then have "damaged plain_host b b" by (simp add: damaged_def)
  from backup_restores [OF r b(1) this] n obtain node' d' where
    "restoreNode plain_host b [] = Inr (node', d')" "on_live node' = on_live node" by auto
  with r b(1) show ?thesis by blast
qed

section \<open>Compaction\<close>

lemma compaction_names:
  "snapshot_tick archive_file = None" "snapshot_tick compaction_manifest = None" "archive_file \<noteq> genesis_file" "archive_file \<noteq> wal_file"
  "compaction_manifest \<noteq> genesis_file" "compaction_manifest \<noteq> wal_file" "compaction_manifest \<noteq> archive_file"
  by code_simp+

lemma latest_usable: "latestValidSnapshot H d k = Some s \<Longrightarrow> s \<in> set (usable_snapshots H d k)"
proof -
  let ?f = "\<lambda>best s. case best of None \<Rightarrow> Some s | Some b \<Rightarrow> if sb_covered (snd s) > sb_covered (snd b) then Some s else best"
  have "foldl ?f None ss = Some s \<Longrightarrow> s \<in> set ss" for ss :: "(jstring \<times> snapshot_body) list"
    by (induction ss arbitrary: s rule: rev_induct) (auto split: option.splits if_splits)
  then show "latestValidSnapshot H d k = Some s \<Longrightarrow> ?thesis" by (simp add: latestValidSnapshot_def)
qed

lemma usable_covers:
  assumes "holds_log H g bs [] d" "(n, body) \<in> set (usable_snapshots H d k)"
  shows "\<exists>j. covers H g bs body j"
  using usable_facts [OF assms(2)] assms(1) by (fastforce simp: holds_log_def good_snapshot_def)

text \<open>A directory with a tail of the log behind a rebased snapshot.\<close>

lemma tail_directory_opens:
  assumes "holds_log H g bs [] d" "live_run H bs (initIncremental (Some g)) = Inr i" "covers H g bs body k"
    "map_of x genesis_file = map_of d genesis_file" "file_bytes wal_file x = wal_bytes (drop k bs)" "listSnapshots x = [(t, n)]"
    "decodeSnapshot H (to_text (file_bytes n x)) = Inr r" "sb_offset r = 0" "sb_covered r = sb_covered body" "sb_incr r = sb_incr body"
  shows "\<exists>node. open_node H False x = Inr node \<and> on_live node = i \<and> on_committed node = int (length bs)"
proof -
  have gen: "read_genesis x = Inr g" using assms(1,4) genesis_reads by (auto simp: holds_log_def read_genesis_def raised_def)
  have k: "k \<le> length bs" "sb_covered body = int k" "live_run H (take k bs) (initIncremental (Some g)) = Inr (sb_incr body)"
    using assms(3) by (auto simp: covers_def)
  have ok: "list_all block_ok (drop k bs)" using assms(1) by (auto simp: holds_log_def list_all_iff dest: in_set_dropD)
  have "parseWalLines (readWalRange (wal_bytes (drop k bs)) 0 (length (wal_bytes (drop k bs)))) = map block_json (drop k bs)"
    using tail_none ok by (simp add: readWalRange_def tail_reads_def)
  moreover have "live_run H (drop k bs) (sb_incr body) = Inr i"
    using live_run_append [of H "take k bs" "drop k bs" "initIncremental (Some g)"] k(3) assms(2) by simp
  then obtain acc where "foldBlocks H (map block_json (drop k bs)) (sb_incr body, [], []) = Inr acc" "fst acc = i"
    using foldBlocks_live [of H "drop k bs" "sb_incr body" "[]" "[]"]
    by (cases "foldBlocks H (map block_json (drop k bs)) (sb_incr body, [], [])") auto
  ultimately have t: "tail_replay H g (wal_bytes (drop k bs)) r = Inr (new_node g (int (length bs)) acc SNAPSHOT_TAIL (length (drop k bs)))"
    using k assms(8-10) by (simp add: tail_replay_def)
  have "loadLatestValidSnapshot H x (length (wal_bytes (drop k bs))) = Inr (Some r)"
    using assms(6-8) by (simp add: loadLatestValidSnapshot_def)
  with t gen assms(5,8) \<open>fst acc = i\<close> show ?thesis
    by (simp add: open_node_def offsetOnBoundary_def raised_def new_node_def split: prod.splits)
qed

text \<open>What a compacted directory holds, and what is restored from it.\<close>

definition tail_dir :: "bytes \<Rightarrow> tick_block list \<Rightarrow> nat \<Rightarrow> jstring \<Rightarrow> bytes \<Rightarrow> dir" where
  "tail_dir gb bs k name sb = [(genesis_file, gb), (wal_file, wal_bytes (drop k bs)), (name, sb)]"

definition compacted_dir :: "bytes \<Rightarrow> tick_block list \<Rightarrow> nat \<Rightarrow> jstring \<Rightarrow> bytes \<Rightarrow> dir" where
  "compacted_dir gb bs k name sb =
     [(genesis_file, gb), (archive_file, wal_bytes (take k bs)), (wal_file, wal_bytes (drop k bs)), (name, sb)]"

lemma snapshot_name_fresh:
  assumes "snapshot_tick name = Some tk"
  shows "name \<noteq> genesis_file" "name \<noteq> wal_file" "name \<noteq> archive_file" "name \<noteq> compaction_manifest"
    "genesis_file \<noteq> name" "wal_file \<noteq> name" "archive_file \<noteq> name" "compaction_manifest \<noteq> name"
  using assms other_names compaction_names by auto

lemmas names = compaction_names compaction_names(3-7) [symmetric] other_names

text \<open>The snapshot in it: the one that was cut at, with offset 0.\<close>

definition rebased :: "host \<Rightarrow> snapshot_body \<Rightarrow> bytes \<Rightarrow> bool" where
  "rebased H body sb \<longleftrightarrow> (\<exists>r. decodeSnapshot H (to_text sb) = Inr r \<and> sb_offset r = 0 \<and> sb_covered r = sb_covered body \<and> sb_incr r = sb_incr body)"

lemma tail_dirs_open:
  assumes "holds_log H g bs [] d" "live_run H bs (initIncremental (Some g)) = Inr i" "covers H g bs body k" "map_of d genesis_file = Some gb"
    "snapshot_tick name = Some tk" "rebased H body sb" "x = tail_dir gb bs k name sb \<or> x = compacted_dir gb bs k name sb"
  shows "\<exists>node. open_node H False x = Inr node \<and> on_live node = i \<and> on_committed node = int (length bs)"
proof -
  note fresh = snapshot_name_fresh [OF assms(5)] names assms(5)
  from assms(6) obtain r where r: "decodeSnapshot H (to_text sb) = Inr r" "sb_offset r = 0" "sb_covered r = sb_covered body" "sb_incr r = sb_incr body"
    by (auto simp: rebased_def)
  have x: "map_of x genesis_file = map_of d genesis_file" "file_bytes wal_file x = wal_bytes (drop k bs)" "listSnapshots x = [(tk, name)]"
    "file_bytes name x = sb"
    using assms(4,7) fresh by (auto simp: tail_dir_def compacted_dir_def file_bytes_def listSnapshots_def)
  show ?thesis using tail_directory_opens [OF assms(1-3) x(1-3) _ r(2-4)] r(1) x(4) by simp
qed

lemma compact_step:
  assumes "holds_log H g bs [] d" "map_of d wal_file \<noteq> None" "latestValidSnapshot H d (length (wal_bytes bs)) = Some (name, body)"
    "map_of d genesis_file = Some gb" "covers H g bs body k"
  shows "compactNode H now d [] =
    and_then (raised (makeSnapshotBody H (sb_incr body) (sb_covered body) 0)) (\<lambda>r. and_then (raised (encodeSnapshot H r)) (\<lambda>t.
      let d3 = compacted_dir gb bs k name (utf8_encode t) in
      and_then (open_node H False d3) (\<lambda>node. and_then (raised (observe H node d3)) (\<lambda>ob.
        let m = compaction_manifest_json now (int (length (wal_bytes (take k bs)))) (sb_covered body) (length (wal_bytes (take k bs)))
                  (length (wal_bytes (drop k bs))) (length (wal_bytes bs)) ob
        in and_then (manifest_bytes m) (\<lambda>b. Inr (d3 @ [(compaction_manifest, b)], m))))))"
proof -
  from usable_facts(1) [OF latest_usable [OF assms(3)]] obtain tk where "snapshot_tick name = Some tk" by auto
  note fresh = snapshot_name_fresh [OF this] names
  have w: "file_bytes wal_file d = wal_bytes bs" using assms(1) by (simp add: holds_log_def)
  have split: "wal_bytes bs = wal_bytes (take k bs) @ wal_bytes (drop k bs)" by (simp flip: wal_bytes_append)
  have o: "sb_offset body = int (length (wal_bytes (take k bs)))" using assms(5) by (simp add: covers_def)
  have cut: "readRange (wal_bytes bs) 0 (length (wal_bytes (take k bs))) = wal_bytes (take k bs)"
    "readRange (wal_bytes bs) (length (wal_bytes (take k bs))) (length (wal_bytes bs)) = wal_bytes (drop k bs)"
    unfolding readRange_def by (simp_all add: split)
  have "onBoundary (wal_bytes bs) (sb_offset body)"
    using boundary [of bs "[]" k] by (simp add: o onBoundary_def offsetOnBoundary_def)
  with assms(2-4) w o fresh show ?thesis
    by (auto simp add: compactNode_def copy_file_def compacted_dir_def Let_def cut)
qed

lemma compact_contents:
  assumes "holds_log H g bs [] d" "compactNode H now d [] = Inr (c, m)"
    "\<And>k i. live_run H (take k bs) (initIncremental (Some g)) = Inr i \<Longrightarrow> archivable i"
  obtains name tk body k gb sb node ob mb where "snapshot_tick name = Some tk" "covers H g bs body k" "map_of d genesis_file = Some gb"
    "rebased H body sb" "open_node H False (compacted_dir gb bs k name sb) = Inr node"
    "observe H node (compacted_dir gb bs k name sb) = Inr ob"
    "m = compaction_manifest_json now (int (length (wal_bytes (take k bs)))) (sb_covered body) (length (wal_bytes (take k bs)))
       (length (wal_bytes (drop k bs))) (length (wal_bytes bs)) ob"
    "manifest_bytes m = Inr mb" "c = compacted_dir gb bs k name sb @ [(compaction_manifest, mb)]"
proof -
  from assms(1) have w: "file_bytes wal_file d = wal_bytes bs" by (simp add: holds_log_def)
  from assms(1) obtain gb where gb: "map_of d genesis_file = Some gb" by (auto simp: holds_log_def)
  from assms(2) w gb obtain name body where l: "latestValidSnapshot H d (length (wal_bytes bs)) = Some (name, body)" and wl: "map_of d wal_file \<noteq> None"
    by (auto simp: compactNode_def backup_failed_def Let_def split: if_splits option.splits prod.splits)
  note u = latest_usable [OF l]
  from usable_facts(1) [OF u] obtain tk where tk: "snapshot_tick name = Some tk" by auto
  from usable_covers [OF assms(1) u] obtain k where k: "covers H g bs body k" by blast
  from trans [OF compact_step [OF assms(1) wl l gb k, symmetric] assms(2)] obtain r t node ob mb where
    r: "makeSnapshotBody H (sb_incr body) (sb_covered body) 0 = Inr r" and t: "encodeSnapshot H r = Inr t"
    and rest: "open_node H False (compacted_dir gb bs k name (utf8_encode t)) = Inr node"
    "observe H node (compacted_dir gb bs k name (utf8_encode t)) = Inr ob"
    "m = compaction_manifest_json now (int (length (wal_bytes (take k bs)))) (sb_covered body) (length (wal_bytes (take k bs)))
       (length (wal_bytes (drop k bs))) (length (wal_bytes bs)) ob"
    "manifest_bytes m = Inr mb" "c = compacted_dir gb bs k name (utf8_encode t) @ [(compaction_manifest, mb)]"
    by (auto simp: Let_def)
  have rb: "sb_offset r = 0" "sb_covered r = sb_covered body" "sb_incr r = sb_incr body" "sb_version r = SNAPSHOT_VERSION"
    using r by (auto simp: makeSnapshotBody_def)
  have "archivable (sb_incr r)" using assms(3) k rb(3) by (auto simp: covers_def)
  from snapshot_decodes [OF this rb(4), of H] t rb have "rebased H body (utf8_encode t)" by (auto simp: rebased_def)
  from that [OF tk k gb this rest] show thesis .
qed

lemma compaction_textual:
  assumes "ob_committedTicks ob = int c" "c < 2 ^ 53" "ob_eventCount ob < 2 ^ 53" "n < 2 ^ 53" "a \<le> n" "l \<le> n"
  shows "textual (compaction_manifest_json now (int a) v a l n ob)"
proof -
  have "textual (JObj (expected_members ob))" using expected_textual [of ob] assms(1-3) by simp
  with assms show ?thesis
    by (simp add: compaction_manifest_json_def COMPACTION_SCHEMA_VERSION_def del: textual.simps(2)) simp
qed

lemma compaction_read:
  assumes "m = compaction_manifest_json now v0 v a l n ob" "textual m" "manifest_bytes m = Inr mb" "map_of x compaction_manifest = Some mb"
  shows "read_manifest compaction_manifest ''compaction_schema_version'' x = Inr m"
  by (rule manifest_read [OF assms(2-4)]) (simp add: assms(1) compaction_manifest_json_def read_member_def COMPACTION_SCHEMA_VERSION_def)

lemma full_replay_restores:
  assumes "holds_log H g bs [] d" "live_run H bs (initIncremental (Some g)) = Inr i" "map_of d genesis_file = Some gb"
    "read_manifest compaction_manifest ''compaction_schema_version'' x = Inr m"
    "m = compaction_manifest_json now v0 v (length (wal_bytes (take k bs))) (length (wal_bytes (drop k bs))) n ob"
    "map_of x genesis_file = Some gb" "map_of x archive_file = Some (wal_bytes (take k bs))" "map_of x wal_file = Some (wal_bytes (drop k bs))"
  shows "\<exists>node d'. replayFromFull H x [] = Inr (node, d') \<and> on_live node = i \<and> on_committed node = int (length bs)"
proof -
  let ?f = "[(genesis_file, gb), (wal_file, wal_bytes bs)]"
  have "holds_log H g bs [] ?f"
    by (rule holds_two_files [OF assms(1,3)]) (auto simp: file_bytes_def names split: if_splits)
  from opens_view [OF this assms(2), of False] obtain node where
    "open_node H False ?f = Inr node" "on_live node = i" "on_committed node = int (length bs)" by blast
  moreover have "wal_bytes (take k bs) @ wal_bytes (drop k bs) = wal_bytes bs" by (simp flip: wal_bytes_append)
  ultimately show ?thesis using assms(4-8)
    by (simp add: replayFromFull_def compaction_manifest_json_def as_string_def file_bytes_def is_number_def copy_file_def raised_def Let_def)
qed

text \<open>
  C8: Compaction. Compacting the directory of a running node behind a snapshot splits its log without losing a byte; restoring the
  compacted directory gives a node with the state and the number of ticks of the one that was compacted; and whatever happens to its
  snapshots, the replay of archive and tail gives that node too.
\<close>

theorem compaction_restores:
  assumes "ovt_runs H g bs node d" "compactNode H now d [] = Inr (c, m)"
    "\<forall>k i. live_run H (take k bs) (initIncremental (Some g)) = Inr i \<longrightarrow> archivable i"
    "length bs < 2 ^ 53" "length (wal_bytes bs) < 2 ^ 53"
  shows "file_bytes archive_file c @ file_bytes wal_file c = file_bytes wal_file d \<and>
    (\<exists>node' d'. restoreCompacted H c [] = Inr (node', d') \<and> on_live node' = on_live node \<and> on_committed node' = on_committed node) \<and>
    (\<forall>c'. damaged H c c' \<longrightarrow>
       (\<exists>node' d'. replayFromFull H c' [] = Inr (node', d') \<and> on_live node' = on_live node \<and> on_committed node' = on_committed node))"
proof -
  from runs_inv [OF assms(1)] have h: "holds_log H g bs [] d" and l: "live_run H bs (initIncremental (Some g)) = Inr (on_live node)"
    and cn: "on_committed node = int (length bs)" by (auto simp: ovt_inv_def view_def)
  obtain name tk body k gb sb n3 ob mb where tk: "snapshot_tick name = Some tk" and k: "covers H g bs body k"
    and gb: "map_of d genesis_file = Some gb" and sb: "rebased H body sb"
    and o3: "open_node H False (compacted_dir gb bs k name sb) = Inr n3" "observe H n3 (compacted_dir gb bs k name sb) = Inr ob"
    and m: "m = compaction_manifest_json now (int (length (wal_bytes (take k bs)))) (sb_covered body) (length (wal_bytes (take k bs)))
       (length (wal_bytes (drop k bs))) (length (wal_bytes bs)) ob"
    and mb: "manifest_bytes m = Inr mb" and c: "c = compacted_dir gb bs k name sb @ [(compaction_manifest, mb)]"
    by (rule compact_contents [OF h assms(2)]) (use assms(3) in auto)
  note fresh = snapshot_name_fresh [OF tk] names tk
  have split: "wal_bytes bs = wal_bytes (take k bs) @ wal_bytes (drop k bs)" by (simp flip: wal_bytes_append)
  from tail_dirs_open [OF h l k gb tk sb disjI2 [OF refl]] o3(1) have v3: "on_live n3 = on_live node" "on_committed n3 = int (length bs)" by auto
  with o3(2) have ob: "ob_committedTicks ob = int (length bs)" "ob_eventCount ob = inc_eventCount (on_live node)" by (auto simp: observe_def Let_def)
  have "archivable (on_live node)" using assms(3) l by (metis take_all order_refl)
  then have e: "ob_eventCount ob < 2 ^ 53" by (simp add: ob(2) archivable_def)
  have tm: "textual m" unfolding m by (rule compaction_textual [OF ob(1) assms(4) e assms(5)]) (simp_all add: split)
  note rm = compaction_read [OF m tm mb]
  from tail_dirs_open [OF h l k gb tk sb disjI1 [OF refl]] obtain n' where
    n': "open_node H False (tail_dir gb bs k name sb) = Inr n'" "on_live n' = on_live node" "on_committed n' = int (length bs)" by blast
  from same_observation [OF o3(2), of n' "tail_dir gb bs k name sb" "[]"] n' v3 obtain ob' where
    "observe H n' (tail_dir gb bs k name sb) = Inr ob'" "matches ob' (member ''expected'' m) = Inr True" by (auto simp: m compaction_manifest_json_def)
  with n'(1) have "restore_fast H m c [] = Inr (Some (n', tail_dir gb bs k name sb))"
    by (simp add: restore_fast_def copy_file_def copy_snapshots_def c compacted_dir_def tail_dir_def fresh raised_def Let_def)
  then have "restoreCompacted H c [] = Inr (n', tail_dir gb bs k name sb)"
    using rm [of c] by (simp add: restoreCompacted_def c compacted_dir_def fresh)
  moreover have "\<exists>node' d'. replayFromFull H c' [] = Inr (node', d') \<and> on_live node' = on_live node \<and> on_committed node' = int (length bs)"
    if "damaged H c c'" for c'
  proof -
    have "map_of c' n = map_of c n" if "snapshot_tick n = None" for n using \<open>damaged H c c'\<close> that by (simp add: damaged_def)
    then have "map_of c' compaction_manifest = Some mb" "map_of c' genesis_file = Some gb"
      "map_of c' archive_file = Some (wal_bytes (take k bs))" "map_of c' wal_file = Some (wal_bytes (drop k bs))"
      by (simp_all add: fresh c compacted_dir_def)
    with full_replay_restores [OF h l gb rm m] show ?thesis by blast
  qed
  moreover have "file_bytes archive_file c @ file_bytes wal_file c = file_bytes wal_file d"
    using h split by (simp add: file_bytes_def c compacted_dir_def fresh holds_log_def)
  ultimately show ?thesis using n'(2,3) cn by auto
qed

text \<open>The node with one block, after a snapshot.\<close>

lemma one_block_live:
  "\<exists>incr. live_run plain_host [\<lparr>tb_tick = 5, tb_submissions = []\<rparr>] (initIncremental (Some genesis)) = Inr incr \<and> archivable incr"
proof -
  let ?b = "\<lparr>tb_tick = 5, tb_submissions = []\<rparr>"
  obtain incr x where r: "run_ticks plain_host [?b] (initIncremental (Some genesis), [], []) = Inr (incr, [x], [tick_event 5])"
    and s: "inc_state incr = tick_five" using first_tick by blast
  have "no_bytes tick_five" by (simp add: tick_five_def genesis_def setIn.simps(2) js_get_def Let_def)
  then have "archivable incr" using late_storable s run_ticks_log(2) [OF r, of False] by (simp add: archivable_def)
  moreover have "live_run plain_host [?b] (initIncremental (Some genesis)) = Inr incr"
    using run_ticks_live [of plain_host "[?b]" "initIncremental (Some genesis)" "[]" "[]"] r by simp
  ultimately show ?thesis by blast
qed

lemma one_block_prefixes:
  "live_run plain_host (take k [\<lparr>tb_tick = 5, tb_submissions = []\<rparr>]) (initIncremental (Some genesis)) = Inr i \<Longrightarrow> archivable i"
  using one_block_live genesis_archivable by (cases k) (auto simp del: live_run.simps(2))

lemma published_file:
  assumes "snapshot_tick n = Some tk" "is_tmp (tmp_name n)"
  shows "pruneSnapshots 2 (rename_tmp n (write_tmp n b [(genesis_file, gb), (wal_file, w), (head_file, h)])) =
    [(genesis_file, gb), (wal_file, w), (head_file, h), (n, b)]"
proof -
  have n: "n \<noteq> genesis_file" "n \<noteq> wal_file" "n \<noteq> head_file" "tmp_name n \<noteq> n" "\<not> is_tmp n"
    using assms other_names tmp_no_snapshot by auto
  have t: "tmp_name n \<noteq> genesis_file" "tmp_name n \<noteq> wal_file" "tmp_name n \<noteq> head_file"
    using assms(2) not_tmp by auto
  have "rename_tmp n (write_tmp n b [(genesis_file, gb), (wal_file, w), (head_file, h)]) = [(genesis_file, gb), (wal_file, w), (head_file, h), (n, b)]"
    using n(1-4) t by (auto simp: rename_tmp_def write_tmp_def file_bytes_def)
  then show ?thesis using n(5) not_tmp by (simp add: pruneSnapshots_def listSnapshots_def assms(1) other_names)
qed

lemma one_block_snapshot:
  "\<exists>node d name sb gb h body. ovt_runs plain_host genesis [\<lparr>tb_tick = 5, tb_submissions = []\<rparr>] node d \<and>
     snapshot_tick name = Some 1 \<and>
     d = [(genesis_file, gb), (wal_file, wal_bytes [\<lparr>tb_tick = 5, tb_submissions = []\<rparr>]), (head_file, h), (name, sb)] \<and>
     decodeSnapshot plain_host (to_text sb) = Inr body \<and> sb_offset body = 42 \<and> sb_covered body = 1 \<and> archivable (sb_incr body)"
proof -
  let ?b = "\<lparr>tb_tick = 5, tb_submissions = []\<rparr>"
  obtain t where t: "enc genesis = Some t" using enc_genesis [OF genesis_storable(1)] by blast
  obtain incr x where r: "run_ticks plain_host [?b] (initIncremental (Some genesis), [], []) = Inr (incr, [x], [tick_event 5])"
    using first_tick by blast
  from last_tick [OF r] have l: "incrementalStateRoot plain_host incr = Inr (tr_stateRoot x)"
    "incrementalGlobalRoot plain_host incr = Inr (tr_globalMerkleRoot x)" by auto
  define node where "node = new_node genesis 1 (incr, [x], [tick_event 5]) FRESH 1"
  have "\<exists>r. eventLogRoot plain_host node = Inr r" using l by (simp add: eventLogRoot_def node_def new_node_def)
  moreover have "node_stateRoot plain_host node = Inr (tr_stateRoot x)" using l by (simp add: node_stateRoot_def node_def new_node_def)
  ultimately obtain h where h: "writeHead plain_host node [(genesis_file, utf8_encode t), (wal_file, wal_bytes [?b])] =
      Inr [(genesis_file, utf8_encode t), (wal_file, wal_bytes [?b]), (head_file, h)]"
    using other_names by (auto simp: writeHead_def)
  have "bulkCreate plain_host genesis [?b] [] = Inr (node, [(genesis_file, utf8_encode t), (wal_file, wal_bytes [?b]), (head_file, h)])"
    using t r h line_bytes [OF empty_block_ok, of 5]
    by (simp add: bulkCreate_def enc_bytes_def [of genesis] node_def Let_def wal_bytes_simps)
  from built [OF this genesis_storable(1)] empty_block_ok [of 5]
  have o: "ovt_runs plain_host genesis [?b] node [(genesis_file, utf8_encode t), (wal_file, wal_bytes [?b]), (head_file, h)]" by simp
  have a: "archivable (on_live node)"
    using one_block_prefixes [of 1 incr] run_ticks_live [of plain_host "[?b]" "initIncremental (Some genesis)" "[]" "[]"] r
    by (simp add: node_def new_node_def del: live_run.simps(2))
  obtain body where b: "makeSnapshotBody plain_host (on_live node) 1 42 = Inr body" "sb_offset body = 42" "sb_covered body = 1"
    "sb_incr body = on_live node" "sb_version body = SNAPSHOT_VERSION"
    using l by (simp add: makeSnapshotBody_def node_def new_node_def)
  from snapshot_decodes [of body plain_host] a b(4,5) obtain s where s: "encodeSnapshot plain_host body = Inr s"
    "decodeSnapshot plain_host (to_text (utf8_encode s)) = Inr body" by auto
  let ?n = "snapshot_name 1"
  let ?d = "[(genesis_file, utf8_encode t), (wal_file, wal_bytes [?b]), (head_file, h), (?n, utf8_encode s)]"
  have tk: "snapshot_tick ?n = Some 1" using snapshot_tick_name [of 1] by simp
  have c: "on_committed node = 1" by (simp add: node_def new_node_def)
  let ?old = "[(genesis_file, utf8_encode t), (wal_file, wal_bytes [?b]), (head_file, h)]"
  have f: "int (length (file_bytes wal_file ?old)) = 42" using one_block_small(1) [OF o] by (simp add: file_bytes_def)
  have w: "writeSnapshotFile plain_host body ?old = Inr (rename_tmp ?n (write_tmp ?n (utf8_encode s) ?old))"
    by (simp only: writeSnapshotFile_def s(1) b(3) and_then.simps Let_def)
  have "take_snapshot plain_host 2 node [(genesis_file, utf8_encode t), (wal_file, wal_bytes [?b]), (head_file, h)] = Inr ?d"
    by (simp only: take_snapshot_def c f b(1) w and_then.simps published_file [OF tk tmp_is_tmp])
  then have run: "ovt_runs plain_host genesis [?b] node ?d" by (rule ovt_runs.snapshot [OF o a])
  have "archivable (sb_incr body)" using a by (simp only: b(4))
  with run tk s(2) b(2,3) show ?thesis by (intro exI conjI) (assumption | rule refl)+
qed

lemma compaction_taken:
  assumes "ovt_runs H g bs node d" "bs \<noteq> []" "latestValidSnapshot H d (length (wal_bytes bs)) = Some (name, body)"
    "\<forall>k i. live_run H (take k bs) (initIncremental (Some g)) = Inr i \<longrightarrow> archivable i"
    "makeSnapshotBody H (sb_incr body) (sb_covered body) 0 = Inr r" "length bs < 2 ^ 53" "length (wal_bytes bs) < 2 ^ 53"
  shows "\<exists>c m. compactNode H now d [] = Inr (c, m)"
proof -
  from runs_inv [OF assms(1)] have h: "holds_log H g bs [] d" and l: "live_run H bs (initIncremental (Some g)) = Inr (on_live node)"
    by (auto simp: ovt_inv_def view_def)
  have wl: "map_of d wal_file \<noteq> None" using h wal_bytes_last [OF assms(2)] by (auto simp: holds_log_def file_bytes_def split: option.splits)
  obtain gb where gb: "map_of d genesis_file = Some gb" using h by (auto simp: holds_log_def)
  note u = latest_usable [OF assms(3)]
  from usable_facts(1) [OF u] obtain tk where tk: "snapshot_tick name = Some tk" by auto
  from usable_covers [OF h u] obtain k where k: "covers H g bs body k" by blast
  have rb: "sb_offset r = 0" "sb_covered r = sb_covered body" "sb_incr r = sb_incr body" "sb_version r = SNAPSHOT_VERSION"
    using assms(5) by (auto simp: makeSnapshotBody_def)
  have "archivable (sb_incr r)" using assms(4) k rb(3) by (auto simp: covers_def)
  from snapshot_decodes [OF this rb(4), of H] obtain t where t: "encodeSnapshot H r = Inr t" and d: "rebased H body (utf8_encode t)"
    using rb by (auto simp: rebased_def)
  let ?d3 = "compacted_dir gb bs k name (utf8_encode t)"
  from tail_dirs_open [OF h l k gb tk d disjI2 [OF refl]] obtain n3 where n3: "open_node H False ?d3 = Inr n3"
    "on_live n3 = on_live node" "on_committed n3 = int (length bs)" by blast
  from observed [OF l assms(2) n3(2), of ?d3] obtain ob where ob: "observe H n3 ?d3 = Inr ob" "ob_committedTicks ob = int (length bs)"
    "ob_eventCount ob = inc_eventCount (on_live node)" using n3(3) by auto
  have "archivable (on_live node)" using assms(4) [rule_format, of "length bs"] l by simp
  then have e: "ob_eventCount ob < 2 ^ 53" by (simp add: ob(3) archivable_def)
  have split: "wal_bytes bs = wal_bytes (take k bs) @ wal_bytes (drop k bs)" by (simp flip: wal_bytes_append)
  have "textual (compaction_manifest_json now (int (length (wal_bytes (take k bs)))) (sb_covered body) (length (wal_bytes (take k bs)))
      (length (wal_bytes (drop k bs))) (length (wal_bytes bs)) ob)"
    by (rule compaction_textual [OF ob(2) assms(6) e assms(7)]) (simp_all add: split)
  from manifest_written [OF this] compact_step [OF h wl assms(3) gb k] assms(5) t n3(1) ob(1) show ?thesis by (auto simp: Let_def)
qed

theorem compaction_restores_witness:
  "\<exists>node d c m node' d'. ovt_runs plain_host genesis [\<lparr>tb_tick = 5, tb_submissions = []\<rparr>] node d \<and>
     compactNode plain_host (js ''now'') d [] = Inr (c, m) \<and> restoreCompacted plain_host c [] = Inr (node', d') \<and> on_live node' = on_live node"
proof -
  let ?b = "\<lparr>tb_tick = 5, tb_submissions = []\<rparr>"
  obtain node d name sb gb h body where r: "ovt_runs plain_host genesis [?b] node d" and tk: "snapshot_tick name = Some 1"
    and d: "d = [(genesis_file, gb), (wal_file, wal_bytes [?b]), (head_file, h), (name, sb)]"
    and dec: "decodeSnapshot plain_host (to_text sb) = Inr body" and body: "sb_offset body = 42" "sb_covered body = 1"
    using one_block_snapshot by blast
  note n = one_block_small [OF r]
  note fresh = snapshot_name_fresh [OF tk] tk other_names
  have hd: "name \<noteq> head_file" using tk other_names by auto
  have "usable_snapshots plain_host d 42 = [(name, body)]"
    using fresh hd dec body by (simp add: usable_snapshots_def listSnapshots_def d file_bytes_def)
  then have u: "latestValidSnapshot plain_host d (length (wal_bytes [?b])) = Some (name, body)"
    by (simp only: n(1)) (simp add: latestValidSnapshot_def)
  have p: "\<forall>k i. live_run plain_host (take k [?b]) (initIncremental (Some genesis)) = Inr i \<longrightarrow> archivable i"
    using one_block_prefixes by blast
  from runs_inv [OF r] have hl: "holds_log plain_host genesis [?b] [] d" by (simp add: ovt_inv_def view_def)
  from usable_covers [OF hl latest_usable [OF u]] body(2) have "live_run plain_host [?b] (initIncremental (Some genesis)) = Inr (sb_incr body)"
    by (auto simp: covers_def simp del: live_run.simps)
  from run_of_log [OF this] obtain root groot where
    "incrementalStateRoot plain_host (sb_incr body) = Inr root" "incrementalGlobalRoot plain_host (sb_incr body) = Inr groot" by blast
  then obtain rb where "makeSnapshotBody plain_host (sb_incr body) (sb_covered body) 0 = Inr rb" by (simp add: makeSnapshotBody_def)
  from compaction_taken [where now = "js ''now''", OF r _ u p this] n(1) obtain c m where
    c: "compactNode plain_host (js ''now'') d [] = Inr (c, m)" by auto
  from compaction_restores [OF r c p] n(1) obtain node' d' where
    "restoreCompacted plain_host c [] = Inr (node', d')" "on_live node' = on_live node" by auto
  with r c show ?thesis by blast
qed

end
