(* ===== verification/Spec2Isabelle.thy ===== *)
theory Spec2Isabelle
  imports Reducer_Props Canon_Framing Canon_Merkle Canon_Codecs Canon_Json_Props Canon_Mcp Dsl_Eval_Props Dsl_Emergency
    Cal_Gas_Props Validator_Settle Validator_Props Node_Money Owner_Sig_Props W5_Codec Observers_Props Live_Props Daemon_Props Backup_Props
begin

text \<open>
  A verification development of the TypeScript core of the Paradigm Terra protocol.

  \<^bold>\<open>The program.\<close> Agents submit CALs (signed lists of steps with preconditions, post-conditions and invariants). A node
  (\<^verbatim>\<open>orchestrator/src/node.ts\<close>) takes blocks of submissions at increasing ticks. For every submission it hashes the CAL, opens it
  with two ingress events, lets the validator (\<^verbatim>\<open>validator/src\<close>) turn the CAL, the state and the trace of an external executor into
  lifecycle events, and folds each event through the reducer (\<^verbatim>\<open>cal-reducer/src\<close>). The validator prices the CAL with
  \<^verbatim>\<open>cal-gas/src\<close> and evaluates its conditions with the constraint language of \<^verbatim>\<open>dsl/src\<close>. The canonical layer
  (\<^verbatim>\<open>canonical/src\<close>) gives every value one byte string, from which CAL\_HASH, event hashes, STATE\_ROOT and the global root are
  computed. State exists only as the fold of the event log.

  \<^bold>\<open>How the theories follow the code.\<close>

  \<^item> \<open>Prelude\<close>: JavaScript values (\<open>json\<close>, UTF-16 strings, own and inherited members), exceptions as the left of a sum, and the
    contract \<open>run_fold\<close> of a fold that stops at the first error, which deltas, event log and ticks instantiate.
  \<^item> Canonical layer, one theory per file: \<open>Canon_Integers\<close> (\<^verbatim>\<open>integers.ts\<close>, with the contracts \<open>codec\<close> and
    \<open>strict_codec\<close>), \<open>Canon_Framing\<close>, \<open>Canon_Addresses\<close>, \<open>Canon_Unicode\<close> (the code point table and its search), \<open>Canon_Strings\<close>
    (UTF-16, UTF-8, NFC), \<open>Canon_Hash\<close> (domain tags), \<open>Canon_Merkle\<close>, \<open>Canon_Parse\<close> and \<open>Canon_Jcs\<close> (the parser and the rest of
    \<^verbatim>\<open>jcs.ts\<close>), \<open>Canon_Mcp\<close>. Properties: \<open>Canon_Codecs\<close>, \<open>Canon_Json_Props\<close>, and in the theories themselves.
  \<^item> Constraint language: \<open>Dsl_Taxonomy\<close>, \<open>Dsl_Values\<close>, \<open>Dsl_Parse\<close> (\<^verbatim>\<open>ast.ts\<close>, \<^verbatim>\<open>parse.ts\<close>), \<open>Dsl_Evaluate\<close>
    (\<^verbatim>\<open>evaluate.ts\<close>, \<^verbatim>\<open>envelope.ts\<close>, \<^verbatim>\<open>emergency.ts\<close>, \<^verbatim>\<open>hash.ts\<close>). Properties: \<open>Dsl_Props\<close>, \<open>Dsl_Eval_Props\<close>,
    \<open>Dsl_Emergency\<close>.
  \<^item> CAL: \<open>Cal_Lifecycle\<close> (\<^verbatim>\<open>cal/src/lifecycle.ts\<close>, \<^verbatim>\<open>events.ts\<close>), \<open>Cal_Schema\<close> (\<^verbatim>\<open>schema.ts\<close>, \<^verbatim>\<open>hash.ts\<close>), \<open>Gas\<close>
    (\<^verbatim>\<open>cal-gas/src\<close>). Properties: \<open>Cal_Gas_Props\<close>.
  \<^item> Reducer: \<open>Reducer_State\<close> (\<^verbatim>\<open>state.ts\<close>: the path operations \<open>getIn\<close>, \<open>setIn\<close>, \<open>deleteIn\<close>, and the contract \<open>member_store\<close>
    of a map inside the state), \<open>Reducer_Delta\<close> (\<^verbatim>\<open>delta.ts\<close>, \<^verbatim>\<open>migrate.ts\<close>), \<open>Reducer_Apply\<close> (\<^verbatim>\<open>apply.ts\<close>, \<^verbatim>\<open>fold.ts\<close>, one
    definition per event type), \<open>State_Root\<close>. Invariants: \<open>Reducer_Inv\<close>, \<open>Reducer_Funds\<close>; properties: \<open>Reducer_Props\<close>,
    \<open>State_Root_Props\<close>.
  \<^item> Validator: \<open>Validator\<close> (\<^verbatim>\<open>trace.ts\<close>, \<^verbatim>\<open>validate.ts\<close>; the closures of \<open>makeValidator\<close> share the record \<open>vctx\<close>).
    Properties: \<open>Validator_Props\<close>, and with the reducer \<open>Validator_Reducer\<close>, \<open>Validator_Settle\<close>.
  \<^item> Node: \<open>Node\<close> (\<^verbatim>\<open>orchestrator/src/node.ts\<close>; \<open>live\<close> holds the variables of \<open>applyTick\<close> that its closure \<open>fold\<close> updates).
    Properties: \<open>Node_Props\<close>, \<open>Node_Money\<close>.
  \<^item> The process around the node, under \<^verbatim>\<open>orchestrator/src/node\<close>: \<open>Json_Text\<close> (\<open>JSON.stringify\<close>, \<open>JSON.parse\<close> and
    the tags for \<open>bigint\<close> that the log uses; the parser is a machine that reads one unit per step), \<open>Json_Pretty\<close> (the
    indented form of the manifests, and that it is read back), \<open>Wal\<close> (the log of
    \<^verbatim>\<open>persistent-node.ts\<close>, \<^verbatim>\<open>snapshot.ts\<close>, \<^verbatim>\<open>snapshot-store.ts\<close>), \<open>Persistent\<close> (the class \<open>OvtNode\<close>,
    \<^verbatim>\<open>recovery-sla.ts\<close>), \<open>Observers\<close> (\<^verbatim>\<open>metrics.ts\<close>, \<^verbatim>\<open>monitoring.ts\<close>, \<^verbatim>\<open>alerting.ts\<close>,
    \<^verbatim>\<open>live-observer.ts\<close>, \<^verbatim>\<open>observer-fleet.ts\<close>), \<open>Daemon\<close> (\<^verbatim>\<open>pr1-daemon.ts\<close>) and \<open>Backup\<close> (\<^verbatim>\<open>backup.ts\<close>,
    \<^verbatim>\<open>wal-compaction.ts\<close>). A directory is the list of its files with
    their bytes; a crash leaves a prefix of the bytes of a write. Properties: \<open>Json_Text_Props\<close>, \<open>Wal_Props\<close>, \<open>Snapshot_Props\<close>,
    \<open>Persistent_Props\<close> (over the relation \<open>ovt_runs\<close>: all that may happen to a directory), \<open>Observers_Props\<close>, \<open>Live_Props\<close>
    (the live observer on such a directory), \<open>Daemon_Props\<close> (over the relation \<open>session\<close>), \<open>Backup_Props\<close>.
  \<^item> The edges: \<open>Owner_Sig\<close> (\<^verbatim>\<open>validator/src/owner-sig.ts\<close>, \<^verbatim>\<open>orchestrator/src/ingress.ts\<close>: what wallets and agents sign, and
    the flags of a trace), with \<open>Owner_Sig_Props\<close>; \<open>W5_Codec\<close> (\<^verbatim>\<open>orchestrator/src/w5/canonical-to-inner.ts\<close>,
    \<^verbatim>\<open>m2-registry/src/reconcile.ts\<close>: the wallet actions of a CAL and the reconciliation of what was seen on the chain).

  \<^bold>\<open>What the lemmas show.\<close> Canonical layer: codecs accept exactly the canonical texts and invert each other; canonical bytes are
  equal exactly for equal normal forms and canonicalization is idempotent; tagged payloads determine tag and payload; a Merkle root binds
  its leaves unless SHA-256 collides on the inputs of that tree. Constraint language: bounds and scope rules of accepted expressions, type
  soundness, exact integer arithmetic, and the meaning of the emergency invariants. Reducer, over logs with confined Deltas: it implements the lifecycle table, conserves
  PTRA, keeps balances within the supply, opens one CAL per agent and can always close it; and over all logs it commits staged effects
  atomically. Validator:
  the owner gate is the quorum, staging does not change the outcome, and what it emits the reducer accepts and books as billed. Node: its
  accumulator is a function of the log, replay reproduces its roots, and a whole run conserves PTRA. Process: a crash in the middle of a
  write loses at most the block being written, by whichever way the node recovers; snapshots round trip; the daemon keeps every
  submission it accepted, in order, as long as its calls return, but for the mempool of a crash; backups and compacted directories restore
  to the state of the node, also without their snapshots; a fleet of observers with an honest majority tells a wrong node from a wrong
  observer. Edges: the
  digest that a wallet signs determines the request, the flags and the quorum of the validator stand for verified signatures, and the
  published actions are those that the CAL authorises.

  \<^bold>\<open>Parameters.\<close> The record \<open>host\<close> holds what is not code of the repository: the engine's NFC and SHA-256 of \<^verbatim>\<open>node:crypto\<close>.
  \<open>host_ok\<close> states what is relied on (digests of 32 bytes, NFC idempotent and the identity on ASCII); \<open>plain_host\<close> satisfies it.
  The Ed25519 verification of \<^verbatim>\<open>node:crypto\<close> is an argument of type \<open>verifier\<close>, of which nothing is assumed.
  Freedom from collisions is only ever assumed on the finitely many inputs of one computation.

  \<^bold>\<open>Confined Deltas.\<close> A Delta of a CAL may write to any path of the state, the reducer's own books included: \<open>delta.ts\<close> has no such
  check. The properties of those books therefore speak of logs (\<open>event_confined\<close>) and programs (\<open>program_confined\<close>) whose Deltas are
  \<open>confined\<close>: none writes to \<open>cal.in_flight\<close>, \<open>cal.nonces\<close>, \<open>ptra.balances\<close> or \<open>treasury.collected_fees_window\<close>; every other path, such as
  \<open>treasury.nav\<close> or the registry, is free. What else is needed of the first state is \<open>reducer_inv\<close> (well-formed in-flight records, which
  genesis has) and \<open>funds_ok\<close> (no negative balance, escrow or fee window).

  \<^bold>\<open>Bounds and fuel.\<close> \<open>bigint\<close> is unbounded, as in the code; byte formats and UTF-16 units are words. The only fuel is that of the
  recursive-descent parser \<open>parseValue\<close>: the entry point gives twice the length of the input and \<open>parseValue_fuel\<close> shows it is never used
  up. The Merkle loop and the flush of the daemon have termination proofs; every other recursion is structural. Times are whole
  milliseconds. What is written to the log must be \<open>storable\<close> and what a snapshot holds \<open>archivable\<close>: no object in it looks like a tag
  (\<open>lookalike_dropped\<close> and \<open>lookalike_snapshot\<close> show what becomes of one that does). \<open>printable\<close> normal forms have well-formed strings and,
  in every object, distinct keys other than \<open>__proto__\<close>.

  \<^bold>\<open>Not modelled.\<close> The prose in results (\<open>reasonDetail\<close>, \<open>errorDetail\<close>, reasons, messages of exceptions and alerts); the
  enumeration of integer-like keys before others; the prototype that assigning an object to \<open>__proto__\<close> installs (\<open>js_assign\<close> only drops
  the member, so members inherited from it are not seen); floating-point averages and rates of the metrics; errors of the file system, and
  \<open>fsync\<close>; incremental backups and their sinks (\<^verbatim>\<open>backup-incremental.ts\<close>, \<^verbatim>\<open>backup-sink.ts\<close>); the agent and the MCP executor (a process and
  a JSON-RPC client over one); the packages that build TON cells with a third-party library (\<^verbatim>\<open>pp2\<close>, \<^verbatim>\<open>m2-registry\<close>,
  \<^verbatim>\<open>tolk\<close>); soak programs, vector generators and fuzz drivers; and the ports to other languages.
\<close>

end
